(* ===== verification/Prelude.thy ===== *)
theory Prelude
  imports Main "HOL-Library.Word" "HOL-Library.Sublist"
begin

text \<open>
  What the components of the development share: the collections of simplification
  rules the component proofs draw on, the model of the Go standard library the
  sources use (byte strings with \<open>strings.Index\<close>, \<open>Split\<close>, \<open>Fields\<close>,
  \<open>TrimSpace\<close>, \<open>HasPrefix\<close> and \<open>strconv.Atoi\<close>; instants and 64-bit
  durations of \<open>time\<close>), and generic lemmas on lists, options and maps.

  A Go string is a sequence of bytes, so it is a \<^typ>\<open>string\<close> whose characters are
  bytes. An instant is the number of nanoseconds since the Unix epoch as an
  unbounded \<^typ>\<open>int\<close>; a duration is an \<^typ>\<open>int\<close> kept in the range of Go's
  \<open>int64\<close> by the operations below, which saturate or wrap where Go does.
\<close>

section \<open>Collections\<close>

named_theorems go_simps \<open>unfolding rules of the Go standard library model\<close>
named_theorems op_defs \<open>definitions of the operations of the components\<close>
named_theorems inv_intros \<open>preservation rules of the component invariants\<close>

section \<open>Byte strings\<close>

definition has_prefix :: "string \<Rightarrow> string \<Rightarrow> bool" where
  "has_prefix s p \<longleftrightarrow> take (length p) s = p"

definition has_suffix :: "string \<Rightarrow> string \<Rightarrow> bool" where
  "has_suffix s p \<longleftrightarrow> length p \<le> length s \<and> drop (length s - length p) s = p"

fun str_index :: "string \<Rightarrow> string \<Rightarrow> nat option" where
  "str_index [] sub = (if sub = [] then Some 0 else None)"
| "str_index (c # s) sub =
     (if has_prefix (c # s) sub then Some 0 else map_option Suc (str_index s sub))"

definition contains :: "string \<Rightarrow> string \<Rightarrow> bool" where
  "contains s sub \<longleftrightarrow> str_index s sub \<noteq> None"

fun index_byte :: "string \<Rightarrow> char \<Rightarrow> nat option" where
  "index_byte [] b = None"
| "index_byte (c # s) b = (if c = b then Some 0 else map_option Suc (index_byte s b))"

fun last_index_byte :: "string \<Rightarrow> char \<Rightarrow> nat option" where
  "last_index_byte [] b = None"
| "last_index_byte (c # s) b =
     (case last_index_byte s b of
        Some i \<Rightarrow> Some (Suc i)
      | None \<Rightarrow> if c = b then Some 0 else None)"

text \<open>\<open>strings.Split\<close> with a one-byte separator: never empty, the pieces
  between the separators in order.\<close>

fun str_split :: "char \<Rightarrow> string \<Rightarrow> string list" where
  "str_split sep [] = [[]]"
| "str_split sep (c # s) =
     (if c = sep then [] # str_split sep s
      else (case str_split sep s of
              [] \<Rightarrow> [[c]]
            | p # ps \<Rightarrow> (c # p) # ps))"

text \<open>The number of bytes of the white-space rune a string starts with, 0 when it
  starts with none. The multi-byte cases are the UTF-8 encodings of the runes
  \<open>unicode.IsSpace\<close> accepts: U+0085, U+00A0, U+1680, U+2000 to U+200A, U+2028,
  U+2029, U+202F, U+205F and U+3000.\<close>

definition ascii_space :: "char \<Rightarrow> bool" where
  "ascii_space c \<longleftrightarrow> (let n = (of_char c :: nat) in (9 \<le> n \<and> n \<le> 13) \<or> n = 32)"

fun space_bytes :: "nat list \<Rightarrow> bool" where
  "space_bytes [a, b] = (a = 194 \<and> (b = 133 \<or> b = 160))"
| "space_bytes [a, b, c] =
     ((a = 225 \<and> b = 154 \<and> c = 128) \<or>
      (a = 226 \<and> b = 128 \<and> (128 \<le> c \<and> c \<le> 138 \<or> c = 168 \<or> c = 169 \<or> c = 175)) \<or>
      (a = 226 \<and> b = 129 \<and> c = 159) \<or>
      (a = 227 \<and> b = 128 \<and> c = 128))"
| "space_bytes _ = False"

definition space_width :: "string \<Rightarrow> nat" where
  "space_width s =
     (case s of
        [] \<Rightarrow> 0
      | c # _ \<Rightarrow>
         if ascii_space c then 1
         else if space_bytes (map of_char (take 2 s)) then 2
         else if space_bytes (map of_char (take 3 s)) then 3
         else 0)"

definition space_width_rev :: "string \<Rightarrow> nat" where
  "space_width_rev s =
     (case s of
        [] \<Rightarrow> 0
      | c # _ \<Rightarrow>
         if ascii_space c then 1
         else if space_bytes (map of_char (rev (take 2 s))) then 2
         else if space_bytes (map of_char (rev (take 3 s))) then 3
         else 0)"

fun trim_with :: "(string \<Rightarrow> nat) \<Rightarrow> string \<Rightarrow> string" where
  "trim_with w [] = []"
| "trim_with w (c # s) =
     (if w (c # s) = 0 then c # s else trim_with w (drop (w (c # s) - 1) s))"

definition trim_space :: "string \<Rightarrow> string" where
  "trim_space s = rev (trim_with space_width_rev (rev (trim_with space_width s)))"

text \<open>\<open>strings.Fields\<close>: the maximal runs of bytes with no white-space rune.\<close>

fun fields_from :: "string \<Rightarrow> string \<Rightarrow> string list" where
  "fields_from cur [] = (if cur = [] then [] else [rev cur])"
| "fields_from cur (c # s) =
     (if space_width (c # s) = 0 then fields_from (c # cur) s
      else (if cur = [] then [] else [rev cur]) @
           fields_from [] (drop (space_width (c # s) - 1) s))"

definition str_fields :: "string \<Rightarrow> string list" where
  "str_fields s = fields_from [] s"

text \<open>\<open>strconv.Atoi\<close>: an optional sign and decimal digits in the range of
  \<open>int64\<close>, \<^const>\<open>None\<close> for every error it reports.\<close>

definition digit_val :: "char \<Rightarrow> nat option" where
  "digit_val c =
     (let n = (of_char c :: nat) in if 48 \<le> n \<and> n \<le> 57 then Some (n - 48) else None)"

fun digits_val :: "nat \<Rightarrow> string \<Rightarrow> nat option" where
  "digits_val n [] = Some n"
| "digits_val n (c # s) =
     (case digit_val c of None \<Rightarrow> None | Some d \<Rightarrow> digits_val (10 * n + d) s)"

definition atoi :: "string \<Rightarrow> int option" where
  "atoi s =
     (let neg = has_prefix s ''-'';
          ds = (if has_prefix s ''-'' \<or> has_prefix s ''+'' then drop 1 s else s)
      in if ds = [] then None
         else case digits_val 0 ds of
             None \<Rightarrow> None
           | Some n \<Rightarrow>
               if neg then (if n \<le> 2 ^ 63 then Some (- int n) else None)
               else (if n < 2 ^ 63 then Some (int n) else None))"

text \<open>Decimal output, as \<open>%d\<close> and \<open>strconv.FormatUint\<close> in base 10 write it.\<close>

definition digit_char :: "nat \<Rightarrow> char" where
  "digit_char d = char_of (d + 48)"

fun show_nat :: "nat \<Rightarrow> string" where
  "show_nat n = (if n < 10 then [digit_char n] else show_nat (n div 10) @ [digit_char (n mod 10)])"

declare show_nat.simps [simp del]

text \<open>\<open>strings.ToLower\<close> maps ASCII strings byte by byte; for a string with a byte
  above 127 it consults the Unicode tables, which are the parameter \<open>un\<close>.\<close>

definition is_ascii :: "string \<Rightarrow> bool" where
  "is_ascii s \<longleftrightarrow> (\<forall>c \<in> set s. (of_char c :: nat) < 128)"

definition ascii_lower :: "char \<Rightarrow> char" where
  "ascii_lower c =
     (let n = (of_char c :: nat) in if 65 \<le> n \<and> n \<le> 90 then char_of (n + 32) else c)"

definition to_lower :: "(string \<Rightarrow> string) \<Rightarrow> string \<Rightarrow> string" where
  "to_lower un s = (if is_ascii s then map ascii_lower s else un s)"

section \<open>Instants and durations\<close>

type_synonym time = int
type_synonym duration = int

definition min_duration :: duration where "min_duration = - (2 ^ 63)"
definition max_duration :: duration where "max_duration = 2 ^ 63 - 1"

text \<open>The zero value of \<open>time.Time\<close>: January 1, year 1, UTC.\<close>

definition zero_time :: time where
  "zero_time = - 62135596800000000000"

text \<open>\<open>Time.Sub\<close> saturates; the negation of a duration wraps.\<close>

definition time_sub :: "time \<Rightarrow> time \<Rightarrow> duration" where
  "time_sub t u = max min_duration (min max_duration (t - u))"

definition dur_neg :: "duration \<Rightarrow> duration" where
  "dur_neg d = (if d = min_duration then min_duration else - d)"

definition second :: duration where "second = 1000000000"
definition minute :: duration where "minute = 60 * second"
definition hour :: duration where "hour = 60 * minute"

lemmas time_defs = min_duration_def max_duration_def second_def minute_def hour_def

section \<open>Errors as values\<close>

text \<open>\<open>if err != nil { return err }\<close> after a call: the error of the first step that
  fails is the result.\<close>

definition res_bind :: "'e + 'a \<Rightarrow> ('a \<Rightarrow> 'e + 'b) \<Rightarrow> 'e + 'b" where
  "res_bind r f = (case r of Inl e \<Rightarrow> Inl e | Inr x \<Rightarrow> f x)"

lemma res_bind_simps [simp]: "res_bind (Inl e) f = Inl e" "res_bind (Inr x) f = f x"
  by (simp_all add: res_bind_def)

lemma res_bind_Inr [simp]: "res_bind r f = Inr y \<longleftrightarrow> (\<exists>x. r = Inr x \<and> f x = Inr y)"
  by (cases r) simp_all

text \<open>A loop whose body may return an error.\<close>

fun res_fold :: "('x \<Rightarrow> 'a \<Rightarrow> 'e + 'a) \<Rightarrow> 'x list \<Rightarrow> 'a \<Rightarrow> 'e + 'a" where
  "res_fold f [] a = Inr a"
| "res_fold f (x # xs) a = res_bind (f x a) (res_fold f xs)"

lemma res_fold_inv:
  assumes "res_fold f xs a = Inr b" "I a"
    and "\<And>x a b. x \<in> set xs \<Longrightarrow> I a \<Longrightarrow> f x a = Inr b \<Longrightarrow> I b"
  shows "I b"
  using assms
proof (induction xs arbitrary: a)
  case (Cons x xs)
  from Cons.prems(1) obtain c where "f x a = Inr c" "res_fold f xs c = Inr b" by auto
  with Cons show ?case by (metis list.set_intros)
qed simp

section \<open>Generic lemmas\<close>

lemma has_prefix_append [simp]: "has_prefix (p @ s) p"
  by (simp add: has_prefix_def)

lemma has_prefix_iff: "has_prefix s p \<longleftrightarrow> prefix p s"
  by (metis has_prefix_def prefix_def append_take_drop_id append_eq_conv_conj)

lemma has_suffix_iff: "has_suffix s p \<longleftrightarrow> suffix p s"
  unfolding has_suffix_def suffix_def
  by (metis append_eq_conv_conj append_take_drop_id diff_add_inverse2 length_append
      le_add2)

lemma str_index_bound: "str_index s sub = Some i \<Longrightarrow> i + length sub \<le> length s"
proof (induction s arbitrary: i)
  case (Cons c s)
  then show ?case
    by (fastforce simp: has_prefix_iff split: if_splits dest: prefix_length_le)
qed (simp split: if_splits)

lemma contains_iff: "contains s sub \<longleftrightarrow> (\<exists>a b. s = a @ sub @ b)"
proof (induction s)
  case Nil
  then show ?case by (simp add: contains_def)
next
  case (Cons c s)
  show ?case
  proof (cases "has_prefix (c # s) sub")
    case True
    then obtain b where "c # s = sub @ b" by (auto simp: has_prefix_iff prefix_def)
    then have "\<exists>a b. c # s = a @ sub @ b" by (metis append_Nil)
    with True show ?thesis by (simp add: contains_def)
  next
    case False
    then have "\<not> (\<exists>b. c # s = sub @ b)" by (auto simp: has_prefix_iff prefix_def)
    then have "(\<exists>a b. c # s = a @ sub @ b) \<longleftrightarrow> (\<exists>a b. s = a @ sub @ b)"
      by (metis Cons_eq_append_conv append_Cons)
    with False Cons show ?thesis by (simp add: contains_def)
  qed
qed

lemma str_split_not_Nil [simp]: "str_split sep s \<noteq> []"
  by (induction s) (auto split: list.splits)

lemma str_split_no_sep: "sep \<notin> set s \<Longrightarrow> str_split sep s = [s]"
  by (induction s) auto

lemma str_split_pieces: "p \<in> set (str_split sep s) \<Longrightarrow> sep \<notin> set p"
  by (induction s arbitrary: p) (auto split: if_splits list.splits)

text \<open>Joining the pieces with the separator gives the string back.\<close>

fun str_join :: "string \<Rightarrow> string list \<Rightarrow> string" where
  "str_join sep [] = []"
| "str_join sep [p] = p"
| "str_join sep (p # ps) = p @ sep @ str_join sep ps"

lemma str_join_Cons_Cons: "ps \<noteq> [] \<Longrightarrow> str_join sep (p # ps) = p @ sep @ str_join sep ps"
  by (cases ps) auto

lemma str_join_split: "str_join [sep] (str_split sep s) = s"
proof (induction s)
  case (Cons c s)
  obtain p ps where sp: "str_split sep s = p # ps"
    by (cases "str_split sep s") auto
  with Cons show ?case
    by (cases ps) (auto simp: str_join_Cons_Cons)
qed simp

lemma str_split_append_sep:
  "sep \<notin> set a \<Longrightarrow> str_split sep (a @ sep # s) = a # str_split sep s"
  by (induction a) auto

lemma str_split_join:
  "ps \<noteq> [] \<Longrightarrow> \<forall>p \<in> set ps. sep \<notin> set p \<Longrightarrow> str_split sep (str_join [sep] ps) = ps"
  by (induction "[sep]" ps rule: str_join.induct)
    (simp_all add: str_split_no_sep str_split_append_sep)

lemma str_index_char_None [simp]: "b \<notin> set s \<Longrightarrow> str_index s [b] = None"
  by (induction s) (auto simp: has_prefix_def)

lemma str_index_char_Some [simp]:
  "b \<notin> set a \<Longrightarrow> str_index (a @ b # s) [b] = Some (length a)"
  by (induction a) (auto simp: has_prefix_def)

subsection \<open>White space and printable bytes\<close>

definition plain :: "char \<Rightarrow> bool" where
  "plain c \<longleftrightarrow> 32 < (of_char c :: nat) \<and> (of_char c :: nat) < 127"

lemma take_Suc_numeral: "take (numeral k) (c # s) = c # take (numeral k - 1) s"
  by (simp add: take_Cons')

lemma space_bytes_first_low: "a < 194 \<Longrightarrow> \<not> space_bytes (a # xs)"
  by (cases "a # xs" rule: space_bytes.cases) auto

lemma space_bytes_last_low: "a < 127 \<Longrightarrow> \<not> space_bytes (xs @ [a])"
  by (cases "xs @ [a]" rule: space_bytes.cases) auto

lemma space_width_plain [simp]: "plain c \<Longrightarrow> space_width (c # s) = 0"
  by (simp add: space_width_def plain_def ascii_space_def take_Suc_numeral space_bytes_first_low
      Let_def)

lemma space_width_rev_plain [simp]: "plain c \<Longrightarrow> space_width_rev (c # s) = 0"
  by (simp add: space_width_rev_def plain_def ascii_space_def take_Suc_numeral
      space_bytes_last_low Let_def)

lemma trim_with_plain: "list_all plain s \<Longrightarrow> trim_with space_width s = s"
  by (cases s) simp_all

lemma trim_with_rev_plain: "list_all plain s \<Longrightarrow> trim_with space_width_rev s = s"
  by (cases s) simp_all

lemma trim_space_plain: "list_all plain s \<Longrightarrow> trim_space s = s"
  by (simp add: trim_space_def trim_with_plain trim_with_rev_plain list_all_iff)

lemma fields_from_plain:
  "list_all plain p \<Longrightarrow> fields_from cur (p @ s) = fields_from (rev p @ cur) s"
  by (induction p arbitrary: cur) simp_all

lemma space_width_blank [simp]: "space_width (CHR '' '' # s) = 1"
  by (simp add: space_width_def ascii_space_def)

lemma fields_from_join:
  "\<forall>p \<in> set ps. p \<noteq> [] \<and> list_all plain p \<Longrightarrow> fields_from [] (str_join '' '' ps) = ps"
proof (induction "'' ''" ps rule: str_join.induct)
  case (2 p)
  then show ?case using fields_from_plain [of p "[]" "[]"] by simp
next
  case (3 p q qs)
  have "fields_from [] (p @ CHR '' '' # str_join '' '' (q # qs))
        = fields_from (rev p) (CHR '' '' # str_join '' '' (q # qs))"
    using 3 fields_from_plain [of p "[]"] by simp
  then show ?case using 3 by simp
qed simp

lemma str_fields_join:
  "\<forall>p \<in> set ps. p \<noteq> [] \<and> list_all plain p \<Longrightarrow> str_fields (str_join '' '' ps) = ps"
  by (simp add: str_fields_def fields_from_join)

subsection \<open>Decimal numbers\<close>

lemma of_char_digit_char: "d < 10 \<Longrightarrow> of_char (digit_char d) = d + 48"
  by (simp add: digit_char_def)

lemma digit_val_digit_char [simp]: "d < 10 \<Longrightarrow> digit_val (digit_char d) = Some d"
  by (simp add: digit_val_def of_char_digit_char)

lemma digits_val_append:
  "digits_val a (s @ t) = Option.bind (digits_val a s) (\<lambda>b. digits_val b t)"
  by (induction s arbitrary: a) (auto split: option.splits)

lemma digits_val_show_nat [simp]: "digits_val 0 (show_nat n) = Some n"
proof (induction n rule: show_nat.induct)
  case (1 n)
  then show ?case
    by (subst show_nat.simps) (auto simp: digits_val_append)
qed

definition digit :: "char \<Rightarrow> bool" where
  "digit c \<longleftrightarrow> digit_val c \<noteq> None"

lemma show_nat_digits: "list_all digit (show_nat n)"
proof (induction n rule: show_nat.induct)
  case (1 n)
  then show ?case
    by (subst show_nat.simps) (auto simp: list_all_iff digit_def)
qed

lemma show_nat_not_Nil [simp]: "show_nat n \<noteq> []"
  by (subst show_nat.simps) simp

lemma digit_plain: "digit c \<Longrightarrow> plain c"
  by (auto simp: digit_def digit_val_def plain_def Let_def split: if_splits)

lemma digit_not_mark:
  "digit c \<Longrightarrow> c \<noteq> CHR ''-'' \<and> c \<noteq> CHR ''+'' \<and> c \<noteq> CHR ''/'' \<and> c \<noteq> CHR '','' \<and> c \<noteq> CHR ''*'' \<and>
     c \<noteq> CHR '' '' \<and> c \<noteq> CHR ''.''"
  by (auto simp: digit_def digit_val_def)

lemma show_nat_no_mark:
  "c \<in> set (show_nat n) \<Longrightarrow> digit c"
  using show_nat_digits [of n] by (auto simp: list_all_iff)

lemma show_nat_plain [simp]: "list_all plain (show_nat n)"
  using show_nat_digits [of n] by (auto simp: list_all_iff digit_plain)

lemma show_nat_hd_no_sign:
  "\<not> has_prefix (show_nat n) ''-'' \<and> \<not> has_prefix (show_nat n) ''+''"
proof (cases "show_nat n")
  case (Cons c s)
  then have "digit c" using show_nat_no_mark [of c n] by simp
  then show ?thesis using Cons digit_not_mark by (auto simp: has_prefix_def)
qed simp

lemma atoi_show_nat: "n < 2 ^ 63 \<Longrightarrow> atoi (show_nat n) = Some (int n)"
  by (simp add: atoi_def show_nat_hd_no_sign Let_def)

subsection \<open>Instants\<close>

lemma time_sub_bounds: "min_duration \<le> time_sub t u" "time_sub t u \<le> max_duration"
  by (auto simp: time_sub_def min_duration_def max_duration_def)

lemma time_sub_exact:
  "min_duration \<le> t - u \<Longrightarrow> t - u \<le> max_duration \<Longrightarrow> time_sub t u = t - u"
  by (simp add: time_sub_def)

text \<open>A list searched for a matching element by an early return.\<close>

lemma find_Some_iff': "find P xs = Some x \<Longrightarrow> x \<in> set xs \<and> P x"
  by (auto simp: find_Some_iff)

lemma map_of_keys: "map_of kvs k = Some v \<Longrightarrow> (k, v) \<in> set kvs"
  by (rule map_of_SomeD)

end
