(* ===== verification/Cron.thy ===== *)
theory Cron
  imports Prelude
begin

text \<open>
  The two cron matchers of the platform: \<open>internal/shared/cronx/cronx.go\<close>, used by
  the agent scheduler and the connector engine, and the local copy in
  \<open>internal/dataplane/alerting/cron.go\<close>, used by the alert evaluator. Both are
  translated separately; the theorems say that they agree on every expression and
  what an expression means.
\<close>

section \<open>The clock readings a matcher takes from an instant\<close>

record clock =
  Minute :: int
  Hour :: int
  Day :: int
  Month :: int
  Weekday :: int

definition clock_ok :: "clock \<Rightarrow> bool" where
  "clock_ok t \<longleftrightarrow> 0 \<le> Minute t \<and> Minute t < 60 \<and> 0 \<le> Hour t \<and> Hour t < 24 \<and>
     1 \<le> Day t \<and> Day t \<le> 31 \<and> 1 \<le> Month t \<and> Month t \<le> 12 \<and> 0 \<le> Weekday t \<and> Weekday t < 7"

text \<open>Go's remainder truncates towards zero.\<close>

definition go_rem :: "int \<Rightarrow> int \<Rightarrow> int" where
  "go_rem a b = sgn a * (\<bar>a\<bar> mod \<bar>b\<bar>)"

section \<open>The shared matcher\<close>

definition step_of :: "string \<Rightarrow> (int \<times> string) option" where
  "step_of part =
     (case str_index part ''/'' of
        Some i \<Rightarrow>
          (case atoi (drop (i + 1) part) of
             None \<Rightarrow> None
           | Some s \<Rightarrow> if s \<le> 0 then None else Some (s, take i part))
      | None \<Rightarrow> Some (1, part))"

definition singleFieldMatches :: "string \<Rightarrow> int \<Rightarrow> bool" where
  "singleFieldMatches part0 val =
     (case step_of part0 of
        None \<Rightarrow> False
      | Some (step, part) \<Rightarrow>
          if part = ''*'' \<or> part = '''' then go_rem val step = 0
          else (case str_index part ''-'' of
              Some i \<Rightarrow>
                (case (atoi (take i part), atoi (drop (i + 1) part)) of
                   (Some lo, Some hi) \<Rightarrow> lo \<le> val \<and> val \<le> hi \<and> go_rem (val - lo) step = 0
                 | _ \<Rightarrow> False)
            | None \<Rightarrow>
                (case atoi part of
                   None \<Rightarrow> False
                 | Some n \<Rightarrow> n = val)))"

definition fieldMatches :: "string \<Rightarrow> int \<Rightarrow> bool" where
  "fieldMatches field val =
     list_ex (\<lambda>part. singleFieldMatches (trim_space part) val) (str_split CHR '','' field)"

definition Matches :: "string \<Rightarrow> clock \<Rightarrow> bool" where
  "Matches expr t =
     (case str_fields expr of
        [f0, f1, f2, f3, f4] \<Rightarrow>
          fieldMatches f0 (Minute t) \<and> fieldMatches f1 (Hour t) \<and> fieldMatches f2 (Day t) \<and>
          fieldMatches f3 (Month t) \<and> fieldMatches f4 (Weekday t)
      | _ \<Rightarrow> False)"

section \<open>The alert evaluator's copy\<close>

definition cronSingle :: "string \<Rightarrow> int \<Rightarrow> bool" where
  "cronSingle part0 val =
     (let cut = str_index part0 ''/'';
          step = (case cut of None \<Rightarrow> Some 1 | Some i \<Rightarrow> atoi (drop (i + 1) part0));
          part = (case cut of None \<Rightarrow> part0 | Some i \<Rightarrow> take i part0)
      in (case step of
            None \<Rightarrow> False
          | Some step \<Rightarrow>
              if cut \<noteq> None \<and> step \<le> 0 then False
              else if part = ''*'' \<or> part = '''' then go_rem val step = 0
              else (case str_index part ''-'' of
                  Some i \<Rightarrow>
                    (case atoi (take i part) of
                       None \<Rightarrow> False
                     | Some lo \<Rightarrow>
                         (case atoi (drop (i + 1) part) of
                            None \<Rightarrow> False
                          | Some hi \<Rightarrow> val \<ge> lo \<and> val \<le> hi \<and> go_rem (val - lo) step = 0))
                | None \<Rightarrow>
                    (case atoi part of None \<Rightarrow> False | Some n \<Rightarrow> n = val))))"

primrec cronParts :: "string list \<Rightarrow> int \<Rightarrow> bool" where
  "cronParts [] val = False"
| "cronParts (part # parts) val =
     (if cronSingle (trim_space part) val then True else cronParts parts val)"

definition cronField :: "string \<Rightarrow> int \<Rightarrow> bool" where
  "cronField field val = cronParts (str_split CHR '','' field) val"

definition CronMatches :: "string \<Rightarrow> clock \<Rightarrow> bool" where
  "CronMatches expr t =
     (let fields = str_fields expr
      in if length fields \<noteq> 5 then False
         else cronField (fields ! 0) (Minute t) \<and> cronField (fields ! 1) (Hour t) \<and>
              cronField (fields ! 2) (Day t) \<and> cronField (fields ! 3) (Month t) \<and>
              cronField (fields ! 4) (Weekday t))"

section \<open>The two matchers agree\<close>

lemma cronSingle_eq: "cronSingle part val = singleFieldMatches part val"
proof (cases "str_index part ''/''")
  case None
  then show ?thesis
    by (auto simp: cronSingle_def singleFieldMatches_def step_of_def split: option.splits)
next
  case (Some i)
  then show ?thesis
    by (cases "atoi (drop (i + 1) part)")
      (auto simp: cronSingle_def singleFieldMatches_def step_of_def split: option.splits)
qed

lemma cronParts_eq: "cronParts parts val = list_ex (\<lambda>p. singleFieldMatches (trim_space p) val) parts"
  by (induction parts) (simp_all add: cronSingle_eq)

lemma cronField_eq: "cronField field val = fieldMatches field val"
  by (simp add: cronField_def fieldMatches_def cronParts_eq)

lemma list_of_five:
  "length xs = 5 \<longleftrightarrow> (\<exists>a b c d e. xs = [a, b, c, d, e])"
  by (auto simp: numeral_eq_Suc length_Suc_conv)

section \<open>Schedules and what they denote\<close>

text \<open>
  The abstract syntax the matcher's documentation promises: \<open>*\<close>, \<open>*/n\<close>, a
  number, a range \<open>a-b\<close>, a stepped range, and comma lists of these; a schedule is five
  such fields. The denotation of an item is a predicate on the clock reading, and
  \<open>show_schedule\<close> writes a schedule the way a user types it.
\<close>

datatype item =
    Star
  | Every nat
  | At nat
  | Span nat nat
  | SpanEvery nat nat nat

fun item_holds :: "item \<Rightarrow> int \<Rightarrow> bool" where
  "item_holds Star v = True"
| "item_holds (Every n) v = (int n dvd v)"
| "item_holds (At n) v = (v = int n)"
| "item_holds (Span a b) v = (int a \<le> v \<and> v \<le> int b)"
| "item_holds (SpanEvery a b n) v = (int a \<le> v \<and> v \<le> int b \<and> int n dvd v - int a)"

fun item_ok :: "item \<Rightarrow> bool" where
  "item_ok Star = True"
| "item_ok (Every n) = (0 < n \<and> n < 2 ^ 63)"
| "item_ok (At n) = (n < 2 ^ 63)"
| "item_ok (Span a b) = (a < 2 ^ 63 \<and> b < 2 ^ 63)"
| "item_ok (SpanEvery a b n) = (a < 2 ^ 63 \<and> b < 2 ^ 63 \<and> 0 < n \<and> n < 2 ^ 63)"

fun show_item :: "item \<Rightarrow> string" where
  "show_item Star = ''*''"
| "show_item (Every n) = ''*/'' @ show_nat n"
| "show_item (At n) = show_nat n"
| "show_item (Span a b) = show_nat a @ ''-'' @ show_nat b"
| "show_item (SpanEvery a b n) = show_nat a @ ''-'' @ show_nat b @ ''/'' @ show_nat n"

definition show_field :: "item list \<Rightarrow> string" where
  "show_field items = str_join '','' (map show_item items)"

record schedule =
  minutes :: "item list"
  hours :: "item list"
  days :: "item list"
  months :: "item list"
  weekdays :: "item list"

definition schedule_fields :: "schedule \<Rightarrow> item list list" where
  "schedule_fields s = [minutes s, hours s, days s, months s, weekdays s]"

definition schedule_ok :: "schedule \<Rightarrow> bool" where
  "schedule_ok s \<longleftrightarrow> (\<forall>f \<in> set (schedule_fields s). f \<noteq> [] \<and> list_all item_ok f)"

definition show_schedule :: "schedule \<Rightarrow> string" where
  "show_schedule s = str_join '' '' (map show_field (schedule_fields s))"

definition schedule_holds :: "schedule \<Rightarrow> clock \<Rightarrow> bool" where
  "schedule_holds s t \<longleftrightarrow>
     list_ex (\<lambda>i. item_holds i (Minute t)) (minutes s) \<and>
     list_ex (\<lambda>i. item_holds i (Hour t)) (hours s) \<and>
     list_ex (\<lambda>i. item_holds i (Day t)) (days s) \<and>
     list_ex (\<lambda>i. item_holds i (Month t)) (months s) \<and>
     list_ex (\<lambda>i. item_holds i (Weekday t)) (weekdays s)"

lemma go_rem_zero_iff: "0 < b \<Longrightarrow> go_rem a b = 0 \<longleftrightarrow> b dvd a"
  by (auto simp: go_rem_def dvd_eq_mod_eq_0 [symmetric] sgn_0_0)

lemma show_item_plain: "list_all plain (show_item i)"
  by (cases i) (simp_all add: plain_def)

lemma show_nat_free [simp]:
  "CHR ''-'' \<notin> set (show_nat n)" "CHR ''/'' \<notin> set (show_nat n)" "CHR '','' \<notin> set (show_nat n)"
  using show_nat_no_mark digit_not_mark by blast+

lemma show_item_no_comma: "CHR '','' \<notin> set (show_item i)"
  by (cases i) simp_all

lemma show_item_not_Nil [simp]: "show_item i \<noteq> []"
  by (cases i) simp_all

lemma show_nat_not_star [simp]: "show_nat n \<noteq> ''*''"
  using show_nat_no_mark [of "CHR ''*''" n] digit_not_mark [of "CHR ''*''"] by force

lemma step_of_show:
  "0 < n \<Longrightarrow> n < 2 ^ 63 \<Longrightarrow> CHR ''/'' \<notin> set a \<Longrightarrow>
     step_of (a @ CHR ''/'' # show_nat n) = Some (int n, a)"
  by (simp add: step_of_def atoi_show_nat)

lemma step_of_no_slash: "CHR ''/'' \<notin> set a \<Longrightarrow> step_of a = Some (1, a)"
  by (simp add: step_of_def)

lemma span_not_star:
  "show_nat a @ CHR ''-'' # s \<noteq> ''*''" "show_nat a @ CHR ''-'' # s \<noteq> []"
  by (auto simp: append_eq_Cons_conv)

lemma single_span:
  assumes "a < 2 ^ 63" "b < 2 ^ 63"
    and "step_of part0 = Some (step, show_nat a @ CHR ''-'' # show_nat b)"
  shows "singleFieldMatches part0 v \<longleftrightarrow> int a \<le> v \<and> v \<le> int b \<and> go_rem (v - int a) step = 0"
  using assms by (simp add: singleFieldMatches_def span_not_star atoi_show_nat)

lemma singleFieldMatches_show:
  assumes "item_ok i"
  shows "singleFieldMatches (show_item i) v \<longleftrightarrow> item_holds i v"
proof (cases i)
  case Star
  then show ?thesis by (simp add: singleFieldMatches_def step_of_no_slash go_rem_zero_iff)
next
  case (Every n)
  then show ?thesis
    using assms step_of_show [of n "''*''"] by (simp add: singleFieldMatches_def go_rem_zero_iff)
next
  case (At n)
  then show ?thesis
    using assms by (auto simp: singleFieldMatches_def step_of_no_slash atoi_show_nat)
next
  case (Span a b)
  then show ?thesis
    using assms single_span [of a b "show_item i" 1 v]
    by (simp add: step_of_no_slash go_rem_zero_iff)
next
  case (SpanEvery a b n)
  then show ?thesis
    using assms single_span [of a b "show_item i" "int n" v]
      step_of_show [of n "show_nat a @ CHR ''-'' # show_nat b"]
    by (simp add: go_rem_zero_iff)
qed

lemma trim_show_item [simp]: "trim_space (show_item i) = show_item i"
  by (simp add: trim_space_plain show_item_plain)

lemma str_split_show_field:
  "items \<noteq> [] \<Longrightarrow> str_split CHR '','' (show_field items) = map show_item items"
  unfolding show_field_def by (rule str_split_join) (auto simp: show_item_no_comma)

lemma fieldMatches_show:
  "items \<noteq> [] \<Longrightarrow> list_all item_ok items \<Longrightarrow>
     fieldMatches (show_field items) v \<longleftrightarrow> list_ex (\<lambda>i. item_holds i v) items"
  by (auto simp: fieldMatches_def str_split_show_field list_ex_iff list_all_iff
      singleFieldMatches_show)

lemma list_all_str_join:
  "list_all P sep \<Longrightarrow> \<forall>p \<in> set ps. list_all P p \<Longrightarrow> list_all P (str_join sep ps)"
  by (induction sep ps rule: str_join.induct) auto

lemma show_field_plain: "list_all plain (show_field items)"
  unfolding show_field_def
  by (rule list_all_str_join) (auto simp: plain_def show_item_plain)

lemma str_join_eq_Nil: "str_join sep ps = [] \<Longrightarrow> \<forall>p \<in> set ps. p = []"
  by (induction sep ps rule: str_join.induct) auto

lemma show_field_not_Nil: "items \<noteq> [] \<Longrightarrow> show_field items \<noteq> []"
  unfolding show_field_def by (cases items) (auto dest: str_join_eq_Nil)

lemma str_fields_show_schedule:
  "schedule_ok s \<Longrightarrow> str_fields (show_schedule s) = map show_field (schedule_fields s)"
  unfolding show_schedule_def
  by (rule str_fields_join) (auto simp: schedule_ok_def show_field_plain show_field_not_Nil)

lemma trailing_comma_split:
  "str_split CHR '','' (f @ '','') = str_split CHR '','' f @ [[]]"
  by (induction f) (auto split: list.splits)

section \<open>Properties\<close>

text \<open>C39: the alert evaluator's cron matcher and the shared matcher accept exactly the
  same expressions at exactly the same clock readings.\<close>

theorem cron_matchers_agree: "CronMatches expr t = Matches expr t"
proof (cases "length (str_fields expr) = 5")
  case True
  then obtain a b c d e where "str_fields expr = [a, b, c, d, e]"
    using list_of_five by metis
  then show ?thesis by (simp add: CronMatches_def Matches_def cronField_eq numeral_eq_Suc)
next
  case False
  then show ?thesis
    by (auto simp: CronMatches_def Matches_def split: list.splits)
qed

text \<open>C40: an expression written from five lists of well-formed items matches an instant
  exactly when every field has an item that denotes the instant's reading: the matcher
  decides the documented grammar.\<close>

theorem cron_matches_denotation:
  assumes "schedule_ok s"
  shows "Matches (show_schedule s) t \<longleftrightarrow> schedule_holds s t"
  using assms
  by (simp add: Matches_def str_fields_show_schedule schedule_fields_def schedule_holds_def
      fieldMatches_show schedule_ok_def)

definition every_quarter :: schedule where
  "every_quarter = \<lparr>minutes = [At 0, Every 15], hours = [SpanEvery 8 18 2], days = [Star],
     months = [Star], weekdays = [Span 1 5]\<rparr>"

theorem cron_matches_denotation_witness:
  "schedule_ok every_quarter \<and>
   (Matches (show_schedule every_quarter)
      \<lparr>Minute = 45, Hour = 10, Day = 3, Month = 7, Weekday = 4\<rparr> \<longleftrightarrow> True)"
proof -
  have ok: "schedule_ok every_quarter"
    by (simp add: every_quarter_def schedule_ok_def schedule_fields_def)
  have "schedule_holds every_quarter \<lparr>Minute = 45, Hour = 10, Day = 3, Month = 7, Weekday = 4\<rparr>"
    by (simp add: every_quarter_def schedule_holds_def)
  with ok show ?thesis using cron_matches_denotation [OF ok] by blast
qed

text \<open>An empty element of a comma list is read as \<open>*\<close>, so one trailing comma makes a
  field match every value whatever the rest of the field says.\<close>

theorem cron_trailing_comma_matches_all: "fieldMatches (f @ '','') v"
  by (simp add: fieldMatches_def trailing_comma_split trim_space_def singleFieldMatches_def
      step_of_def go_rem_def)

end
