(* ===== verification/Position.thy ===== *)
theory Position
  imports Prelude
begin

text \<open>
  The applied position a DuckDB file keeps for each durable consumer
  (\<open>internal/dataplane/store/duckdb_position.go\<close>): the table \<open>ingest_position\<close> as a map
  from the durable's name to its row, the statements the four operations run on it, and
  the contract the readiness gate relies on, as a locale: no operation moves a position
  backwards and none forgets a refusal.
\<close>

type_synonym u64 = "64 word"

record pos_row =
  applied_seq :: u64
  refused_missing :: u64

type_synonym positions = "string \<rightharpoonup> pos_row"

record applied_position =
  Known :: bool
  Seq :: u64
  RefusedMissing :: u64
  HasIngest :: bool

text \<open>\<open>AppliedPosition\<close>: the two scalar subqueries give NULL without a row, which the
  scan turns into the zero values with \<open>Known\<close> false.\<close>

definition AppliedPosition :: "positions \<Rightarrow> bool \<Rightarrow> string \<Rightarrow> applied_position" where
  "AppliedPosition ps has_ingest durable =
     (case ps durable of
        None \<Rightarrow> \<lparr>Known = False, Seq = 0, RefusedMissing = 0, HasIngest = has_ingest\<rparr>
      | Some r \<Rightarrow> \<lparr>Known = True, Seq = applied_seq r, RefusedMissing = refused_missing r,
                  HasIngest = has_ingest\<rparr>)"

text \<open>\<open>INSERT OR IGNORE INTO ingest_position\<close>.\<close>

definition insert_position :: "string \<Rightarrow> pos_row \<Rightarrow> positions \<Rightarrow> positions" where
  "insert_position durable row ps = (if ps durable = None then ps(durable \<mapsto> row) else ps)"

text \<open>\<open>UPDATE ingest_position ... WHERE durable = ? AND ...\<close>.\<close>

definition update_position ::
  "string \<Rightarrow> (pos_row \<Rightarrow> bool) \<Rightarrow> (pos_row \<Rightarrow> pos_row) \<Rightarrow> positions \<Rightarrow> positions" where
  "update_position durable cond f ps =
     (case ps durable of
        None \<Rightarrow> ps
      | Some r \<Rightarrow> if cond r then ps(durable \<mapsto> f r) else ps)"

definition advancePositionTx :: "string \<Rightarrow> u64 \<Rightarrow> positions \<Rightarrow> positions" where
  "advancePositionTx durable seq ps =
     (if durable = '''' then ps
      else update_position durable (\<lambda>r. applied_seq r < seq) (\<lambda>r. r\<lparr>applied_seq := seq\<rparr>)
             (insert_position durable \<lparr>applied_seq = seq, refused_missing = 0\<rparr> ps))"

definition AdoptPosition :: "string \<Rightarrow> u64 \<Rightarrow> positions \<Rightarrow> positions" where
  "AdoptPosition durable seq ps = advancePositionTx durable seq ps"

definition RefusePosition :: "string \<Rightarrow> u64 \<Rightarrow> positions \<Rightarrow> positions" where
  "RefusePosition durable missing ps =
     update_position durable (\<lambda>r. refused_missing r = 0) (\<lambda>r. r\<lparr>refused_missing := missing\<rparr>)
       (insert_position durable \<lparr>applied_seq = 0, refused_missing = missing\<rparr> ps)"

section \<open>What a position shows\<close>

definition pos_applied :: "positions \<Rightarrow> string \<Rightarrow> u64" where
  "pos_applied ps d = (case ps d of None \<Rightarrow> 0 | Some r \<Rightarrow> applied_seq r)"

definition pos_refused :: "positions \<Rightarrow> string \<Rightarrow> u64" where
  "pos_refused ps d = (case ps d of None \<Rightarrow> 0 | Some r \<Rightarrow> refused_missing r)"

lemma AppliedPosition_fields [simp]:
  "Known (AppliedPosition ps h d) = (ps d \<noteq> None)"
  "Seq (AppliedPosition ps h d) = pos_applied ps d"
  "RefusedMissing (AppliedPosition ps h d) = pos_refused ps d"
  "HasIngest (AppliedPosition ps h d) = h"
  by (simp_all add: AppliedPosition_def pos_applied_def pos_refused_def split: option.splits)

lemmas position_defs =
  advancePositionTx_def AdoptPosition_def RefusePosition_def insert_position_def
  update_position_def pos_applied_def pos_refused_def

lemma advance_applied:
  "pos_applied (advancePositionTx d q ps) e
     = (if e = d \<and> d \<noteq> '''' then max (pos_applied ps d) q else pos_applied ps e)"
  by (auto simp: position_defs max_def not_less split: option.splits)

lemma advance_refused [simp]: "pos_refused (advancePositionTx d q ps) e = pos_refused ps e"
  by (auto simp: position_defs split: option.splits)

lemma refuse_applied [simp]: "pos_applied (RefusePosition d m ps) e = pos_applied ps e"
  by (auto simp: position_defs split: option.splits)

lemma refuse_refused:
  "pos_refused (RefusePosition d m ps) e
     = (if e = d \<and> pos_refused ps d = 0 then m else pos_refused ps e)"
  by (auto simp: position_defs split: option.splits)

lemma advance_known:
  "advancePositionTx d q ps e \<noteq> None \<longleftrightarrow> ps e \<noteq> None \<or> (e = d \<and> d \<noteq> '''')"
  by (auto simp: position_defs split: option.splits)

section \<open>The contract of a position record\<close>

text \<open>A store that keeps a position record: whatever operation it runs, a durable's
  applied mark never moves back and a refusal once written stands. The lemmas lift the
  two laws to any sequence of operations, which is what a boot after a restart sees.\<close>

locale position_record =
  fixes exec :: "'op \<Rightarrow> 's \<Rightarrow> 's"
    and applied :: "'s \<Rightarrow> string \<Rightarrow> u64"
    and refused :: "'s \<Rightarrow> string \<Rightarrow> u64"
  assumes applied_mono: "applied s d \<le> applied (exec op s) d"
    and refused_stands: "refused s d \<noteq> 0 \<Longrightarrow> refused (exec op s) d = refused s d"
begin

lemma run_applied_mono: "applied s d \<le> applied (fold exec ops s) d"
proof (induction ops arbitrary: s)
  case (Cons op ops)
  show ?case using applied_mono [of s d op] Cons [of "exec op s"] by (simp add: order_trans)
qed simp

lemma run_refused_stands:
  "refused s d \<noteq> 0 \<Longrightarrow> refused (fold exec ops s) d = refused s d"
proof (induction ops arbitrary: s)
  case (Cons op ops)
  then show ?case using refused_stands [of s d op] Cons.IH [of "exec op s"] by simp
qed simp

lemma run_covers:
  "q \<le> applied (exec op s) d \<Longrightarrow> q \<le> applied (fold exec (op # ops) s) d"
  using run_applied_mono [of "exec op s" d ops] by simp

end

text \<open>The statements of this file keep the contract.\<close>

datatype pos_op = Advance string u64 | Adopt string u64 | Refuse string u64

primrec pos_exec :: "pos_op \<Rightarrow> positions \<Rightarrow> positions" where
  "pos_exec (Advance d q) ps = advancePositionTx d q ps"
| "pos_exec (Adopt d q) ps = AdoptPosition d q ps"
| "pos_exec (Refuse d m) ps = RefusePosition d m ps"

interpretation pos: position_record pos_exec pos_applied pos_refused
proof
  fix ps d op
  show "pos_applied ps d \<le> pos_applied (pos_exec op ps) d"
    by (cases op) (auto simp: advance_applied AdoptPosition_def)
next
  fix ps d op
  assume "pos_refused ps d \<noteq> 0"
  then show "pos_refused (pos_exec op ps) d = pos_refused ps d"
    by (cases op) (auto simp: refuse_refused AdoptPosition_def)
qed

end
