(* ===== verification/Receipts.thy ===== *)
theory Receipts
  imports Position Cron "HOL-Library.Char_ord" "HOL-Library.List_Lexorder"
    "HOL-Library.Product_Lexorder"
begin

text \<open>
  The receipt journal of a serving store (\<open>internal/dataplane/store/data_readiness.go\<close>,
  tables \<open>data_receipt_*\<close> of \<open>duckdb.go\<close>, confirmations of \<open>query_evidence.go\<close>): which
  deliveries were applied, which left a hole, how far each connector source has landed,
  and the readiness answer computed from them. A table is the list of its rows in
  insertion order; a statement that fails aborts its transaction, so an operation is a
  function from the journal to an error or the new journal. UUIDs are their canonical
  text. What lies outside the repository is the argument \<open>lib\<close>: \<open>uuid.Parse\<close>, the
  database's cast of text to UUID, and the resolution of its timestamps.
\<close>

section \<open>Marks\<close>

record delivery_mark =
  d_StreamID :: string
  d_Subject :: string
  d_StreamSeq :: u64
  d_PayloadSHA256 :: string
  d_PublishedAt :: "time option"
  d_ProjectID :: string
  d_ConnectorID :: string
  d_Table :: string
  d_Replayed :: bool
  d_Unverifiable :: bool

record source_mark =
  s_ProjectID :: string
  s_ConnectorID :: string
  s_Table :: string
  s_SyncID :: string
  s_RunID :: string
  s_Generation :: string
  s_GenerationSeq :: u64
  s_BindingDigest :: string
  s_BatchID :: string
  s_BatchIndex :: "u64 option"
  s_PayloadSHA256 :: string
  s_ExpectedBatches :: "u64 option"
  s_ExpectedRows :: "u64 option"
  s_CaptureStartedAt :: "time option"
  s_CaptureFinishedAt :: "time option"
  s_PublishedAt :: "time option"
  s_Complete :: bool
  s_Promoted :: bool

record applied_mark =
  m_Durable :: string
  m_Seq :: u64
  m_Deliveries :: "delivery_mark list"
  m_Source :: "source_mark option"
  m_SettlementOnly :: bool
  m_suppressSourceMutation :: bool

section \<open>The journal\<close>

type_synonym receipt_id = "string \<times> string \<times> u64 \<times> string"

record delivery_row =
  dr_id :: receipt_id
  dr_project_id :: "string option"
  dr_connector_id :: "string option"
  dr_table_name :: "string option"
  dr_generation_key :: "string option"
  dr_applied_at :: time

record hole_row =
  hr_id :: receipt_id
  hr_project_id :: "string option"
  hr_connector_id :: "string option"
  hr_table_name :: "string option"
  hr_unverifiable :: bool
  hr_cleared_at :: "time option"

record batch_row =
  br_source :: "string \<times> string \<times> string"
  br_generation_key :: string
  br_batch_id :: string
  br_batch_index :: "u64 option"
  br_payload_sha256 :: string
  br_landed_at :: time

record source_row =
  sr_source :: "string \<times> string \<times> string"
  sr_sync_id :: "string option"
  sr_run_id :: "string option"
  sr_generation :: "string option"
  sr_generation_key :: string
  sr_generation_seq :: u64
  sr_binding_digest :: string
  sr_capture_started_at :: "time option"
  sr_capture_finished_at :: "time option"
  sr_published_at :: "time option"
  sr_landed_at :: "time option"
  sr_landed_generation_key :: "string option"
  sr_last_complete_at :: "time option"
  sr_expected_batches :: "u64 option"
  sr_expected_rows :: "u64 option"
  sr_completion_seen :: bool
  sr_ordering_ambiguous :: bool
  sr_mutation_seq :: u64
  sr_updated_at :: time

record journal =
  j_positions :: positions
  j_sources :: "source_row list"
  j_batches :: "batch_row list"
  j_deliveries :: "delivery_row list"
  j_holes :: "hole_row list"

record db_lib =
  uuid_parse :: "string \<Rightarrow> string option"
  uuid_cast :: "string \<Rightarrow> string option"
  stamp :: "time \<Rightarrow> time"

datatype store_error =
    DeliveryProjectID | DeliveryConnectorID | ReadinessProjectID | ReadinessConnectorID
  | ReadinessTable | ReadinessSyncID | ReadinessRunID | ReadinessGeneration
  | ConflictingBatch string | ConflictingGeneration u64 | HoleIdentity
  | ConversionError string | OutOfRange | DataCapacity | Closed | WriteFailed
  | EventID string | InvalidRow | SnapshotRejected string

section \<open>Statements on the journal\<close>

definition delivery_id :: "delivery_mark \<Rightarrow> receipt_id" where
  "delivery_id d = (d_StreamID d, d_Subject d, d_StreamSeq d, d_PayloadSHA256 d)"

definition opt_uuid :: "db_lib \<Rightarrow> store_error \<Rightarrow> string \<Rightarrow> store_error + string option" where
  "opt_uuid lib err s =
     (if s = '''' then Inr None
      else (case uuid_parse lib s of None \<Rightarrow> Inl err | Some u \<Rightarrow> Inr (Some u)))"

definition opt_text :: "string \<Rightarrow> string option" where
  "opt_text s = (if s = '''' then None else Some s)"

definition req_uuid :: "db_lib \<Rightarrow> store_error \<Rightarrow> string \<Rightarrow> store_error + string" where
  "req_uuid lib err s = (case uuid_parse lib s of None \<Rightarrow> Inl err | Some u \<Rightarrow> Inr u)"

text \<open>A text argument compared with a UUID column.\<close>

definition cast_uuid :: "db_lib \<Rightarrow> string \<Rightarrow> store_error + string" where
  "cast_uuid lib s = (case uuid_cast lib s of None \<Rightarrow> Inl (ConversionError s) | Some u \<Rightarrow> Inr u)"

definition cast_opt :: "db_lib \<Rightarrow> string option \<Rightarrow> store_error + string option" where
  "cast_opt lib s = (case s of None \<Rightarrow> Inr None | Some s \<Rightarrow> res_bind (cast_uuid lib s) (\<lambda>u. Inr (Some u)))"

definition insert_delivery :: "delivery_row \<Rightarrow> journal \<Rightarrow> journal" where
  "insert_delivery row j =
     (if list_ex (\<lambda>r. dr_id r = dr_id row) (j_deliveries j) then j
      else j\<lparr>j_deliveries := j_deliveries j @ [row]\<rparr>)"

definition insert_hole :: "hole_row \<Rightarrow> journal \<Rightarrow> journal" where
  "insert_hole row j =
     (if list_ex (\<lambda>r. hr_id r = hr_id row) (j_holes j) then j
      else j\<lparr>j_holes := j_holes j @ [row]\<rparr>)"

definition open_hole :: "receipt_id \<Rightarrow> hole_row \<Rightarrow> bool" where
  "open_hole i h \<longleftrightarrow> hr_id h = i \<and> hr_cleared_at h = None \<and> \<not> hr_unverifiable h"

definition max_u64 :: u64 where "max_u64 = - 1"

definition source_where ::
  "string option \<Rightarrow> string option \<Rightarrow> string option \<Rightarrow> source_row \<Rightarrow> bool" where
  "source_where p c t r =
     (case sr_source r of (rp, rc, rt) \<Rightarrow>
        (p = None \<or> p = Some rp) \<and> (c = None \<or> c = Some rc) \<and> (t = None \<or> t = Some rt))"

text \<open>\<open>mutation_seq\<close> is an unsigned 64-bit column: an increment past the last value is
  an error of the database, not a wrap.\<close>

definition invalidateSourceConfirmationsTx ::
  "db_lib \<Rightarrow> string option \<Rightarrow> string option \<Rightarrow> string option \<Rightarrow> time \<Rightarrow> journal \<Rightarrow>
     store_error + journal" where
  "invalidateSourceConfirmationsTx lib projectID connectorID table at j =
     res_bind (cast_opt lib projectID) (\<lambda>p.
     res_bind (cast_opt lib connectorID) (\<lambda>c.
       if list_ex (\<lambda>r. source_where p c table r \<and> sr_mutation_seq r = max_u64) (j_sources j)
       then Inl OutOfRange
       else Inr (j\<lparr>j_sources := map (\<lambda>r. if source_where p c table r
              then r\<lparr>sr_mutation_seq := sr_mutation_seq r + 1, sr_updated_at := stamp lib at\<rparr>
              else r) (j_sources j)\<rparr>)))"

definition markSourceOrderingAmbiguousTx ::
  "db_lib \<Rightarrow> source_mark option \<Rightarrow> time \<Rightarrow> journal \<Rightarrow> store_error + journal" where
  "markSourceOrderingAmbiguousTx lib source at j =
     (case source of
        None \<Rightarrow> Inr j
      | Some s \<Rightarrow>
          res_bind (cast_uuid lib (s_ProjectID s)) (\<lambda>p.
          res_bind (cast_uuid lib (s_ConnectorID s)) (\<lambda>c.
            Inr (j\<lparr>j_sources := map (\<lambda>r. if sr_source r = (p, c, s_Table s) \<and> \<not> sr_ordering_ambiguous r
              then r\<lparr>sr_ordering_ambiguous := True, sr_updated_at := stamp lib at\<rparr>
              else r) (j_sources j)\<rparr>))))"

section \<open>Deliveries\<close>

definition blank_delivery :: "delivery_mark \<Rightarrow> bool" where
  "blank_delivery d \<longleftrightarrow> trim_space (d_StreamID d) = '''' \<or> trim_space (d_Subject d) = '''' \<or>
     d_StreamSeq d = 0 \<or> trim_space (d_PayloadSHA256 d) = ''''"

definition delivery_scope ::
  "source_mark option \<Rightarrow> delivery_mark \<Rightarrow> string \<times> string \<times> string \<times> string" where
  "delivery_scope source d =
     (case source of
        None \<Rightarrow> (d_ProjectID d, d_ConnectorID d, d_Table d, '''')
      | Some s \<Rightarrow> (s_ProjectID s, s_ConnectorID s, s_Table s,
                   if s_Generation s = '''' then s_RunID s else s_Generation s))"

text \<open>The part of a delivery that repairs its exact hole: the open hole is cleared, the
  confirmations of the sources it covered are invalidated, and both rows leave the
  journal.\<close>

definition repair_hole ::
  "db_lib \<Rightarrow> delivery_mark \<Rightarrow> time \<Rightarrow> journal \<Rightarrow> store_error + journal" where
  "repair_hole lib d landedAt j =
     (let i = delivery_id d;
          j' = j\<lparr>j_holes := map (\<lambda>h. if open_hole i h then h\<lparr>hr_cleared_at := Some (stamp lib landedAt)\<rparr>
                                    else h) (j_holes j)\<rparr>
      in (case find (open_hole i) (j_holes j) of
            None \<Rightarrow> Inr j'
          | Some h \<Rightarrow>
              res_bind (invalidateSourceConfirmationsTx lib (hr_project_id h) (hr_connector_id h)
                          (hr_table_name h) landedAt j') (\<lambda>j''.
                Inr (j''\<lparr>j_deliveries := filter (\<lambda>r. dr_id r \<noteq> i) (j_deliveries j''),
                         j_holes := filter (\<lambda>h. \<not> (hr_id h = i \<and> hr_cleared_at h \<noteq> None))
                                      (j_holes j'')\<rparr>))))"

definition recordDelivery ::
  "db_lib \<Rightarrow> applied_mark \<Rightarrow> time \<Rightarrow> delivery_mark \<Rightarrow> journal \<Rightarrow> store_error + journal" where
  "recordDelivery lib mark landedAt d j =
     (if blank_delivery d then Inr j
      else
        let (projectID, connectorID, table, generationKey) = delivery_scope (m_Source mark) d
        in res_bind (opt_uuid lib DeliveryProjectID projectID) (\<lambda>pid.
           res_bind (opt_uuid lib DeliveryConnectorID connectorID) (\<lambda>cid.
             let j1 = insert_delivery
                   \<lparr>dr_id = delivery_id d, dr_project_id = pid, dr_connector_id = cid,
                    dr_table_name = opt_text table, dr_generation_key = opt_text generationKey,
                    dr_applied_at = stamp lib landedAt\<rparr> j
             in if d_Unverifiable d then
                  Inr (insert_hole \<lparr>hr_id = delivery_id d, hr_project_id = pid, hr_connector_id = cid,
                    hr_table_name = opt_text table, hr_unverifiable = True, hr_cleared_at = None\<rparr> j1)
                else if m_SettlementOnly mark \<or> \<not> d_Replayed d then Inr j1
                else repair_hole lib d landedAt j1)))"

text \<open>The delivery journal keeps the rows ranked first by \<open>applied_at DESC, stream_id
  DESC, stream_seq DESC\<close>. Rows that tie on all three are ranked in the order the sort
  leaves them, which the database does not specify.\<close>

definition deliveryReceiptSuffixLimit :: nat where "deliveryReceiptSuffixLimit = 4096"

definition delivery_rank :: "delivery_row \<Rightarrow> time \<times> string \<times> nat" where
  "delivery_rank r = (dr_applied_at r, fst (dr_id r), unat (fst (snd (snd (dr_id r)))))"

definition trim_deliveries :: "nat \<Rightarrow> delivery_row list \<Rightarrow> delivery_row list" where
  "trim_deliveries limit rows =
     (let keep = take limit (rev (sort_key delivery_rank rows))
      in filter (\<lambda>r. dr_id r \<in> set (map dr_id keep)) rows)"

definition trimJournalTx :: "journal \<Rightarrow> journal" where
  "trimJournalTx j =
     j\<lparr>j_deliveries := trim_deliveries deliveryReceiptSuffixLimit (j_deliveries j),
       j_holes := filter (\<lambda>h. hr_cleared_at h = None) (j_holes j)\<rparr>"

section \<open>Sources\<close>

definition generationKeyOf :: "source_mark \<Rightarrow> string" where
  "generationKeyOf s =
     (let k = (if s_Generation s = '''' then s_RunID s else s_Generation s)
      in if k = '''' then ''legacy-unknown'' else k)"

definition source_lookup :: "journal \<Rightarrow> string \<times> string \<times> string \<Rightarrow> source_row option" where
  "source_lookup j k = find (\<lambda>r. sr_source r = k) (j_sources j)"

text \<open>The ordering fence. \<open>after a b\<close> is \<open>a.After(b)\<close> for the capture boundary of
  the mark against the one on record.\<close>

definition captured_after :: "time option \<Rightarrow> time option \<Rightarrow> bool" where
  "captured_after a b =
     (case a of None \<Rightarrow> False | Some t \<Rightarrow> (case b of None \<Rightarrow> True | Some u \<Rightarrow> t > u))"

definition sourceReceiptSupersededTx ::
  "db_lib \<Rightarrow> source_mark \<Rightarrow> journal \<Rightarrow> store_error + bool" where
  "sourceReceiptSupersededTx lib s j =
     res_bind (cast_uuid lib (s_ProjectID s)) (\<lambda>p.
     res_bind (cast_uuid lib (s_ConnectorID s)) (\<lambda>c.
       (case source_lookup j (p, c, s_Table s) of
          None \<Rightarrow> Inr False
        | Some prior \<Rightarrow>
            let newer = captured_after (s_CaptureStartedAt s) (sr_capture_started_at prior)
            in if s_GenerationSeq s < sr_generation_seq prior then
                 (if s_GenerationSeq s = 0 \<and> sr_generation_seq prior > 0 \<and> newer
                  then Inr False else Inr True)
               else if s_GenerationSeq s > 0 \<and> sr_generation_seq prior = 0 \<and> \<not> newer then Inr True
               else if s_GenerationSeq s > 0 \<and> s_GenerationSeq s = sr_generation_seq prior \<and>
                       generationKeyOf s \<noteq> sr_generation_key prior
               then Inl (ConflictingGeneration (s_GenerationSeq s))
               else if s_GenerationSeq s = 0 \<and> sr_generation_seq prior = 0 \<and>
                       generationKeyOf s \<noteq> sr_generation_key prior \<and> \<not> newer
               then Inr True
               else Inr False)))"

definition count_batches :: "string \<times> string \<times> string \<Rightarrow> string \<Rightarrow> journal \<Rightarrow> nat" where
  "count_batches k g j = length (filter (\<lambda>b. br_source b = k \<and> br_generation_key b = g) (j_batches j))"

definition batches_match :: "nat \<Rightarrow> u64 option \<Rightarrow> bool" where
  "batches_match n expected = (case expected of None \<Rightarrow> False | Some e \<Rightarrow> n = unat e)"

text \<open>What an incremental run finds of the run before it: whether that run is still
  incomplete, and whether the source is already ambiguous.\<close>

definition prior_state :: "source_mark \<Rightarrow> string \<times> string \<times> string \<Rightarrow> journal \<Rightarrow> bool \<times> bool" where
  "prior_state s k j =
     (if s_GenerationSeq s \<noteq> 0 then (False, False)
      else (case source_lookup j k of
              None \<Rightarrow> (False, False)
            | Some prior \<Rightarrow>
                (sr_generation_seq prior = 0 \<and> sr_generation_key prior \<noteq> generationKeyOf s \<and>
                   (\<not> sr_completion_seen prior \<or>
                    \<not> batches_match (count_batches k (sr_generation_key prior) j)
                        (sr_expected_batches prior)),
                 sr_ordering_ambiguous prior)))"

definition recordBatchTx ::
  "db_lib \<Rightarrow> source_mark \<Rightarrow> string \<times> string \<times> string \<Rightarrow> time \<Rightarrow> journal \<Rightarrow> store_error + journal" where
  "recordBatchTx lib s k landedAt j =
     (if s_BatchID s = '''' then Inr j
      else
        let same = (\<lambda>b. br_source b = k \<and> br_generation_key b = generationKeyOf s \<and>
                        br_batch_id b = s_BatchID s)
        in (case find same (j_batches j) of
              Some prior \<Rightarrow>
                if br_payload_sha256 prior \<noteq> s_PayloadSHA256 s
                then Inl (ConflictingBatch (s_BatchID s)) else Inr j
            | None \<Rightarrow>
                Inr (j\<lparr>j_batches := j_batches j @
                  [\<lparr>br_source = k, br_generation_key = generationKeyOf s, br_batch_id = s_BatchID s,
                    br_batch_index = s_BatchIndex s, br_payload_sha256 = s_PayloadSHA256 s,
                    br_landed_at = stamp lib landedAt\<rparr>]\<rparr>)))"

definition carry :: "bool \<Rightarrow> 'a option \<Rightarrow> 'a option \<Rightarrow> 'a option" where
  "carry changed new old = (if changed then new else (case new of None \<Rightarrow> old | Some _ \<Rightarrow> new))"

text \<open>\<open>ON CONFLICT ... DO UPDATE\<close>: \<open>ex\<close> is the row the statement proposed, \<open>r\<close> the
  row on record.\<close>

definition upsert_source :: "source_row \<Rightarrow> source_row \<Rightarrow> source_row" where
  "upsert_source ex r =
     (let changed = (sr_generation_key ex \<noteq> sr_generation_key r) in
      r\<lparr>sr_sync_id := carry False (sr_sync_id ex) (sr_sync_id r),
        sr_run_id := carry changed (sr_run_id ex) (sr_run_id r),
        sr_generation := carry changed (sr_generation ex) (sr_generation r),
        sr_generation_key := sr_generation_key ex,
        sr_generation_seq := sr_generation_seq ex,
        sr_binding_digest := (if changed then sr_binding_digest ex
           else if sr_binding_digest ex = '''' then sr_binding_digest r else sr_binding_digest ex),
        sr_capture_started_at := carry changed (sr_capture_started_at ex) (sr_capture_started_at r),
        sr_capture_finished_at := carry changed (sr_capture_finished_at ex) (sr_capture_finished_at r),
        sr_published_at := carry changed (sr_published_at ex) (sr_published_at r),
        sr_landed_at := carry changed (sr_landed_at ex) (sr_landed_at r),
        sr_landed_generation_key := carry False (sr_landed_generation_key ex) (sr_landed_generation_key r),
        sr_last_complete_at := carry False (sr_last_complete_at ex) (sr_last_complete_at r),
        sr_expected_batches := carry changed (sr_expected_batches ex) (sr_expected_batches r),
        sr_expected_rows := carry changed (sr_expected_rows ex) (sr_expected_rows r),
        sr_completion_seen := (if changed then sr_completion_seen ex
           else sr_completion_seen ex \<or> sr_completion_seen r),
        sr_ordering_ambiguous :=
          (if sr_generation_seq ex > 0 \<and> sr_completion_seen ex \<and>
              sr_landed_generation_key ex = Some (sr_generation_key ex) \<and>
              sr_landed_generation_key r \<noteq> sr_landed_generation_key ex
           then False else sr_ordering_ambiguous ex \<or> sr_ordering_ambiguous r),
        sr_mutation_seq := sr_mutation_seq r + 1,
        sr_updated_at := sr_updated_at ex\<rparr>)"

definition writeSourceTx :: "source_row \<Rightarrow> journal \<Rightarrow> store_error + journal" where
  "writeSourceTx ex j =
     (case source_lookup j (sr_source ex) of
        None \<Rightarrow> Inr (j\<lparr>j_sources := j_sources j @ [ex]\<rparr>)
      | Some r \<Rightarrow>
          if sr_mutation_seq r = max_u64 then Inl OutOfRange
          else Inr (j\<lparr>j_sources := map (\<lambda>r. if sr_source r = sr_source ex then upsert_source ex r
                                          else r) (j_sources j)\<rparr>))"

text \<open>Once the current identity is complete, the batch and delivery detail of older
  identities of the same source is dropped.\<close>

definition pruneSourceTx :: "string \<times> string \<times> string \<Rightarrow> string \<Rightarrow> journal \<Rightarrow> journal" where
  "pruneSourceTx k g j =
     (case k of (p, c, t) \<Rightarrow>
      j\<lparr>j_batches := filter (\<lambda>b. \<not> (br_source b = k \<and> br_generation_key b \<noteq> g)) (j_batches j),
        j_deliveries := filter (\<lambda>r. \<not> (dr_project_id r = Some p \<and> dr_connector_id r = Some c \<and>
            dr_table_name r = Some t \<and> dr_generation_key r \<noteq> None \<and> dr_generation_key r \<noteq> Some g))
          (j_deliveries j)\<rparr>)"

definition proposed_source ::
  "db_lib \<Rightarrow> source_mark \<Rightarrow> string \<times> string \<times> string \<Rightarrow> string option \<Rightarrow> string option \<Rightarrow>
     string option \<Rightarrow> bool \<Rightarrow> bool \<Rightarrow> time \<Rightarrow> source_row" where
  "proposed_source lib s k syncID runID generation priorIncomplete locallyComplete landedAt =
     \<lparr>sr_source = k, sr_sync_id = syncID, sr_run_id = runID,
      sr_generation = generation, sr_generation_key = generationKeyOf s,
      sr_generation_seq = s_GenerationSeq s, sr_binding_digest = s_BindingDigest s,
      sr_capture_started_at = map_option (stamp lib) (s_CaptureStartedAt s),
      sr_capture_finished_at = map_option (stamp lib) (s_CaptureFinishedAt s),
      sr_published_at = map_option (stamp lib) (s_PublishedAt s),
      sr_landed_at = (if s_Promoted s then Some (stamp lib landedAt) else None),
      sr_landed_generation_key = (if s_Promoted s then Some (generationKeyOf s) else None),
      sr_last_complete_at = (if locallyComplete then Some (stamp lib landedAt) else None),
      sr_expected_batches = s_ExpectedBatches s, sr_expected_rows = s_ExpectedRows s,
      sr_completion_seen = s_Complete s, sr_ordering_ambiguous = priorIncomplete,
      sr_mutation_seq = 1, sr_updated_at = stamp lib landedAt\<rparr>"

definition locally_complete ::
  "source_mark \<Rightarrow> string \<times> string \<times> string \<Rightarrow> bool \<Rightarrow> bool \<Rightarrow> journal \<Rightarrow> bool" where
  "locally_complete s k priorIncomplete priorAmbiguous j \<longleftrightarrow>
     s_Promoted s \<and> s_Complete s \<and>
     batches_match (count_batches k (generationKeyOf s) j) (s_ExpectedBatches s) \<and>
     \<not> priorIncomplete \<and> \<not> priorAmbiguous"

definition recordSourceTx ::
  "db_lib \<Rightarrow> source_mark \<Rightarrow> time \<Rightarrow> journal \<Rightarrow> store_error + journal" where
  "recordSourceTx lib s landedAt j =
     res_bind (req_uuid lib ReadinessProjectID (s_ProjectID s)) (\<lambda>pid.
     res_bind (req_uuid lib ReadinessConnectorID (s_ConnectorID s)) (\<lambda>cid.
       if trim_space (s_Table s) = '''' then Inl ReadinessTable
       else
         let k = (pid, cid, s_Table s) in
         res_bind (sourceReceiptSupersededTx lib s j) (\<lambda>superseded.
         if superseded then Inr j
         else
           let (priorIncomplete, priorAmbiguous) = prior_state s k j in
           res_bind (recordBatchTx lib s k landedAt j) (\<lambda>j1.
           res_bind (opt_uuid lib ReadinessSyncID (s_SyncID s)) (\<lambda>syncID.
           res_bind (opt_uuid lib ReadinessRunID (s_RunID s)) (\<lambda>runID.
           res_bind (opt_uuid lib ReadinessGeneration (s_Generation s)) (\<lambda>generation.
             let complete = locally_complete s k priorIncomplete priorAmbiguous j1
             in res_bind (writeSourceTx (proposed_source lib s k syncID runID generation
                    priorIncomplete complete landedAt) j1) (\<lambda>j2.
                  Inr (if complete then pruneSourceTx k (generationKeyOf s) j2 else j2)))))))))"

definition recordAppliedReceiptsTx ::
  "db_lib \<Rightarrow> applied_mark \<Rightarrow> time \<Rightarrow> journal \<Rightarrow> store_error + journal" where
  "recordAppliedReceiptsTx lib mark landedAt j =
     res_bind (res_fold (recordDelivery lib mark landedAt) (m_Deliveries mark) j) (\<lambda>j1.
       let j2 = trimJournalTx j1
       in (case m_Source mark of
             None \<Rightarrow> Inr j2
           | Some s \<Rightarrow> if m_suppressSourceMutation mark then Inr j2
                       else recordSourceTx lib s landedAt j2))"

definition RecordSnapshotPromotionTx ::
  "db_lib \<Rightarrow> source_mark \<Rightarrow> time \<Rightarrow> journal \<Rightarrow> store_error + journal" where
  "RecordSnapshotPromotionTx lib s promotedAt j =
     recordAppliedReceiptsTx lib
       \<lparr>m_Durable = '''', m_Seq = 0, m_Deliveries = [],
        m_Source = Some (s\<lparr>s_Complete := True, s_Promoted := True\<rparr>),
        m_SettlementOnly = False, m_suppressSourceMutation = False\<rparr> promotedAt j"

text \<open>A write: the gate, the transaction and its commit. \<open>up\<close> is false when the store is
  closed, the context ends first or the commit fails; nothing is then changed.\<close>

definition duck_write :: "bool \<Rightarrow> ('db \<Rightarrow> store_error + 'db) \<Rightarrow> 'db \<Rightarrow> store_error option \<times> 'db" where
  "duck_write up f db =
     (if \<not> up then (Some WriteFailed, db)
      else (case f db of Inl e \<Rightarrow> (Some e, db) | Inr db' \<Rightarrow> (None, db')))"

definition RecordPosition ::
  "db_lib \<Rightarrow> bool \<Rightarrow> applied_mark \<Rightarrow> time \<Rightarrow> journal \<Rightarrow> store_error option \<times> journal" where
  "RecordPosition lib up mark now j =
     (if m_Durable mark = '''' \<and> m_Deliveries mark = [] \<and> m_Source mark = None then (None, j)
      else duck_write up (\<lambda>j. recordAppliedReceiptsTx lib mark now
             (j\<lparr>j_positions := advancePositionTx (m_Durable mark) (m_Seq mark) (j_positions j)\<rparr>)) j)"

definition RecordReadinessHole ::
  "db_lib \<Rightarrow> bool \<Rightarrow> delivery_mark \<Rightarrow> source_mark option \<Rightarrow> journal \<Rightarrow> store_error option \<times> journal" where
  "RecordReadinessHole lib up d source j =
     (if d_StreamID d = '''' \<or> d_Subject d = '''' \<or> d_StreamSeq d = 0 \<or> d_PayloadSHA256 d = ''''
      then (Some HoleIdentity, j)
      else duck_write up (\<lambda>j.
        let (p, c, t) = (case source of
              Some s \<Rightarrow> (s_ProjectID s, s_ConnectorID s, s_Table s)
            | None \<Rightarrow> (d_ProjectID d, d_ConnectorID d, d_Table d))
        in res_bind (opt_uuid lib DeliveryProjectID p) (\<lambda>pid.
           res_bind (opt_uuid lib DeliveryConnectorID c) (\<lambda>cid.
             Inr (insert_hole \<lparr>hr_id = delivery_id d, hr_project_id = pid, hr_connector_id = cid,
               hr_table_name = opt_text t, hr_unverifiable = d_Unverifiable d,
               hr_cleared_at = None\<rparr> j)))) j)"

section \<open>Frame lemmas\<close>

text \<open>Which tables a statement leaves alone.\<close>

lemma insert_delivery_frame [simp]:
  "j_positions (insert_delivery r j) = j_positions j" "j_sources (insert_delivery r j) = j_sources j"
  "j_batches (insert_delivery r j) = j_batches j" "j_holes (insert_delivery r j) = j_holes j"
  by (simp_all add: insert_delivery_def)

lemma insert_hole_frame [simp]:
  "j_positions (insert_hole r j) = j_positions j" "j_sources (insert_hole r j) = j_sources j"
  "j_batches (insert_hole r j) = j_batches j" "j_deliveries (insert_hole r j) = j_deliveries j"
  by (simp_all add: insert_hole_def)

lemma trimJournalTx_frame [simp]:
  "j_positions (trimJournalTx j) = j_positions j" "j_sources (trimJournalTx j) = j_sources j"
  "j_batches (trimJournalTx j) = j_batches j"
  by (simp_all add: trimJournalTx_def)

lemma pruneSourceTx_frame [simp]:
  "j_positions (pruneSourceTx k g j) = j_positions j" "j_sources (pruneSourceTx k g j) = j_sources j"
  "j_holes (pruneSourceTx k g j) = j_holes j"
  by (simp_all add: pruneSourceTx_def split: prod.split)

lemma invalidate_frame:
  assumes "invalidateSourceConfirmationsTx lib p c t at j = Inr j'"
  shows "j_positions j' = j_positions j" "j_batches j' = j_batches j"
    "j_deliveries j' = j_deliveries j" "j_holes j' = j_holes j"
  using assms by (auto simp: invalidateSourceConfirmationsTx_def split: if_splits)

lemma ambiguous_frame:
  assumes "markSourceOrderingAmbiguousTx lib s at j = Inr j'"
  shows "j_positions j' = j_positions j" "j_batches j' = j_batches j"
    "j_deliveries j' = j_deliveries j" "j_holes j' = j_holes j"
  using assms by (auto simp: markSourceOrderingAmbiguousTx_def split: option.splits)

lemma repair_hole_frame:
  assumes "repair_hole lib d t j = Inr j'"
  shows "j_positions j' = j_positions j" "j_batches j' = j_batches j"
  using assms by (auto simp: repair_hole_def Let_def dest: invalidate_frame split: option.splits)

lemma recordBatchTx_frame:
  assumes "recordBatchTx lib s k t j = Inr j'"
  shows "j_positions j' = j_positions j" "j_sources j' = j_sources j"
    "j_deliveries j' = j_deliveries j" "j_holes j' = j_holes j"
  using assms by (auto simp: recordBatchTx_def Let_def split: if_splits option.splits)

lemma writeSourceTx_frame:
  assumes "writeSourceTx ex j = Inr j'"
  shows "j_positions j' = j_positions j" "j_batches j' = j_batches j"
    "j_deliveries j' = j_deliveries j" "j_holes j' = j_holes j"
  using assms by (auto simp: writeSourceTx_def split: if_splits option.splits)

lemma recordDelivery_cases:
  assumes "recordDelivery lib mark t d j = Inr j'"
  obtains (skip) "j' = j"
  | (noted) row where "j' = insert_delivery row j" "dr_id row = delivery_id d"
  | (unverifiable) row h where "j' = insert_hole h (insert_delivery row j)"
      "dr_id row = delivery_id d" "hr_id h = delivery_id d" "hr_cleared_at h = None" "hr_unverifiable h"
  | (replay) row where "repair_hole lib d t (insert_delivery row j) = Inr j'"
      "dr_id row = delivery_id d" "d_Replayed d" "\<not> m_SettlementOnly mark" "\<not> d_Unverifiable d"
proof -
  obtain p c tb g where sc: "delivery_scope (m_Source mark) d = (p, c, tb, g)"
    by (cases "delivery_scope (m_Source mark) d") auto
  show thesis
  proof (cases "blank_delivery d")
    case True
    then show ?thesis using assms skip by (simp add: recordDelivery_def)
  next
    case False
    with assms sc obtain pid cid where "opt_uuid lib DeliveryProjectID p = Inr pid"
      "opt_uuid lib DeliveryConnectorID c = Inr cid" by (auto simp: recordDelivery_def)
    with False assms sc show ?thesis
      by (cases "d_Unverifiable d"; cases "m_SettlementOnly mark \<or> \<not> d_Replayed d")
        (auto simp: recordDelivery_def Let_def intro: noted unverifiable replay)
  qed
qed

lemma recordSourceTx_cases:
  assumes "recordSourceTx lib s t j = Inr j'"
  obtains (superseded) "j' = j" "sourceReceiptSupersededTx lib s j = Inr True"
  | (written) pid cid sync run gen inc fin j1 j2 where
      "uuid_parse lib (s_ProjectID s) = Some pid" "uuid_parse lib (s_ConnectorID s) = Some cid"
      "sourceReceiptSupersededTx lib s j = Inr False"
      "inc = fst (prior_state s (pid, cid, s_Table s) j)"
      "fin = locally_complete s (pid, cid, s_Table s) inc (snd (prior_state s (pid, cid, s_Table s) j)) j1"
      "recordBatchTx lib s (pid, cid, s_Table s) t j = Inr j1"
      "writeSourceTx (proposed_source lib s (pid, cid, s_Table s) sync run gen inc fin t) j1 = Inr j2"
      "j' = (if fin then pruneSourceTx (pid, cid, s_Table s) (generationKeyOf s) j2 else j2)"
proof -
  from assms obtain pid cid sup where p: "uuid_parse lib (s_ProjectID s) = Some pid"
    "uuid_parse lib (s_ConnectorID s) = Some cid" "trim_space (s_Table s) \<noteq> ''''"
    and sup: "sourceReceiptSupersededTx lib s j = Inr sup"
    by (auto simp: recordSourceTx_def req_uuid_def Let_def split: option.splits if_splits)
  let ?k = "(pid, cid, s_Table s)"
  obtain inc amb where pr: "prior_state s ?k j = (inc, amb)" by (cases "prior_state s ?k j")
  show thesis
  proof (cases sup)
    case True
    with assms p sup show ?thesis
      by (intro superseded) (simp_all add: recordSourceTx_def req_uuid_def Let_def)
  next
    case False
    with assms p sup pr obtain j1 sync run gen j2 where
      "recordBatchTx lib s ?k t j = Inr j1"
      "writeSourceTx (proposed_source lib s ?k sync run gen inc
         (locally_complete s ?k inc amb j1) t) j1 = Inr j2"
      "j' = (if locally_complete s ?k inc amb j1 then pruneSourceTx ?k (generationKeyOf s) j2 else j2)"
      by (auto simp: recordSourceTx_def req_uuid_def Let_def)
    with p sup False pr show ?thesis by (intro written) simp_all
  qed
qed

section \<open>Primary keys\<close>

definition batch_key :: "batch_row \<Rightarrow> (string \<times> string \<times> string) \<times> string \<times> string" where
  "batch_key b = (br_source b, br_generation_key b, br_batch_id b)"

definition journal_keys :: "journal \<Rightarrow> bool" where
  "journal_keys j \<longleftrightarrow> distinct (map sr_source (j_sources j)) \<and> distinct (map batch_key (j_batches j)) \<and>
     distinct (map dr_id (j_deliveries j)) \<and> distinct (map hr_id (j_holes j))"

lemma journal_keysI:
  assumes "distinct (map sr_source (j_sources j))" "distinct (map batch_key (j_batches j))"
    "distinct (map dr_id (j_deliveries j))" "distinct (map hr_id (j_holes j))"
  shows "journal_keys j"
  using assms by (simp add: journal_keys_def)

lemma journal_keysD:
  assumes "journal_keys j"
  shows "distinct (map sr_source (j_sources j))" "distinct (map batch_key (j_batches j))"
    "distinct (map dr_id (j_deliveries j))" "distinct (map hr_id (j_holes j))"
  using assms by (simp_all add: journal_keys_def)

lemma distinct_upd:
  "distinct (map key xs) \<Longrightarrow> (\<And>x. key (f x) = key x) \<Longrightarrow>
     distinct (map (key \<circ> (\<lambda>x. if P x then f x else x)) xs)"
  by (simp add: comp_def if_distrib [of key] cong: if_cong)

lemma find_None_key: "find (\<lambda>x. key x = k) xs = None \<Longrightarrow> k \<notin> key ` set xs"
  by (auto simp: find_None_iff)

lemma insert_delivery_keys [inv_intros]: "journal_keys j \<Longrightarrow> journal_keys (insert_delivery r j)"
  by (auto simp: journal_keys_def insert_delivery_def list_ex_iff)

lemma insert_hole_keys [inv_intros]: "journal_keys j \<Longrightarrow> journal_keys (insert_hole r j)"
  by (auto simp: journal_keys_def insert_hole_def list_ex_iff)

lemma invalidate_keys:
  assumes "invalidateSourceConfirmationsTx lib p c t at j = Inr j'" "journal_keys j"
  shows "journal_keys j'"
proof (rule journal_keysI)
  show "distinct (map sr_source (j_sources j'))"
    using assms journal_keysD(1) [OF assms(2)]
    by (auto simp: invalidateSourceConfirmationsTx_def intro!: distinct_upd split: if_splits)
qed (use invalidate_frame [OF assms(1)] journal_keysD [OF assms(2)] in simp_all)

lemma ambiguous_keys:
  assumes "markSourceOrderingAmbiguousTx lib s at j = Inr j'" "journal_keys j"
  shows "journal_keys j'"
proof (rule journal_keysI)
  show "distinct (map sr_source (j_sources j'))"
    using assms journal_keysD(1) [OF assms(2)]
    by (auto simp: markSourceOrderingAmbiguousTx_def intro!: distinct_upd split: option.splits)
qed (use ambiguous_frame [OF assms(1)] journal_keysD [OF assms(2)] in simp_all)

lemma distinct_map_filter': "distinct (map f xs) \<Longrightarrow> distinct (map f (filter P xs))"
  by (rule distinct_map_filter)

lemma repair_hole_keys:
  assumes "repair_hole lib d t j = Inr j'" "journal_keys j"
  shows "journal_keys j'"
proof -
  let ?j1 = "j\<lparr>j_holes := map (\<lambda>h. if open_hole (delivery_id d) h
      then h\<lparr>hr_cleared_at := Some (stamp lib t)\<rparr> else h) (j_holes j)\<rparr>"
  have k1: "journal_keys ?j1"
    using assms(2) by (auto simp: journal_keys_def intro!: distinct_upd)
  show ?thesis
  proof (cases "find (open_hole (delivery_id d)) (j_holes j)")
    case None
    with assms(1) k1 show ?thesis by (simp add: repair_hole_def Let_def)
  next
    case (Some h)
    with assms(1) obtain j2 where
      i: "invalidateSourceConfirmationsTx lib (hr_project_id h) (hr_connector_id h)
            (hr_table_name h) t ?j1 = Inr j2"
      and "j' = j2\<lparr>j_deliveries := filter (\<lambda>r. dr_id r \<noteq> delivery_id d) (j_deliveries j2),
        j_holes := filter (\<lambda>h. \<not> (hr_id h = delivery_id d \<and> hr_cleared_at h \<noteq> None)) (j_holes j2)\<rparr>"
      by (auto simp: repair_hole_def Let_def)
    with invalidate_keys [OF i k1] show ?thesis
      by (simp add: journal_keys_def distinct_map_filter')
  qed
qed

lemma recordDelivery_keys:
  assumes "recordDelivery lib mark t d j = Inr j'" "journal_keys j"
  shows "journal_keys j'"
  using assms(1)
proof (cases rule: recordDelivery_cases)
  case (replay row)
  then show ?thesis using repair_hole_keys insert_delivery_keys assms(2) by blast
qed (use assms(2) in \<open>simp_all add: insert_delivery_keys insert_hole_keys\<close>)

lemma trimJournalTx_keys [inv_intros]: "journal_keys j \<Longrightarrow> journal_keys (trimJournalTx j)"
  by (simp add: journal_keys_def trimJournalTx_def trim_deliveries_def Let_def distinct_map_filter')

lemma recordBatchTx_keys:
  assumes "recordBatchTx lib s k t j = Inr j'" "journal_keys j"
  shows "journal_keys j'"
  using assms
  by (force simp: recordBatchTx_def Let_def journal_keys_def batch_key_def find_None_iff
      split: if_splits option.splits)

lemma upsert_source_key [simp]: "sr_source (upsert_source ex r) = sr_source r"
  by (simp add: upsert_source_def Let_def)

lemma writeSourceTx_keys:
  assumes "writeSourceTx ex j = Inr j'" "journal_keys j"
  shows "journal_keys j'"
proof (rule journal_keysI)
  show "distinct (map sr_source (j_sources j'))"
    using assms(1) journal_keysD(1) [OF assms(2)]
    by (auto simp: writeSourceTx_def source_lookup_def intro!: distinct_upd dest: find_None_key
        split: if_splits option.splits)
qed (use writeSourceTx_frame [OF assms(1)] journal_keysD [OF assms(2)] in simp_all)

lemma pruneSourceTx_keys [inv_intros]: "journal_keys j \<Longrightarrow> journal_keys (pruneSourceTx k g j)"
  by (cases k) (simp add: journal_keys_def pruneSourceTx_def distinct_map_filter')

lemma recordSourceTx_keys:
  assumes "recordSourceTx lib s t j = Inr j'" "journal_keys j"
  shows "journal_keys j'"
  using assms(1)
proof (cases rule: recordSourceTx_cases)
  case superseded
  then show ?thesis using assms(2) by simp
next
  case (written pid cid sync run gen inc fin j1 j2)
  then have "journal_keys j2" using assms(2) recordBatchTx_keys writeSourceTx_keys by blast
  with written show ?thesis by (simp add: pruneSourceTx_keys)
qed

lemma recordApplied_steps:
  assumes "recordAppliedReceiptsTx lib mark t j = Inr j'"
  obtains j1 where "res_fold (recordDelivery lib mark t) (m_Deliveries mark) j = Inr j1"
    "j' = trimJournalTx j1 \<or>
     (\<exists>s. m_Source mark = Some s \<and> \<not> m_suppressSourceMutation mark \<and>
        recordSourceTx lib s t (trimJournalTx j1) = Inr j')"
  using assms by (auto simp: recordAppliedReceiptsTx_def Let_def split: option.splits if_splits)

lemma recordApplied_keys:
  assumes "recordAppliedReceiptsTx lib mark t j = Inr j'" "journal_keys j"
  shows "journal_keys j'"
  using assms(1)
proof (rule recordApplied_steps)
  fix j1
  assume "res_fold (recordDelivery lib mark t) (m_Deliveries mark) j = Inr j1"
    and rest: "j' = trimJournalTx j1 \<or> (\<exists>s. m_Source mark = Some s \<and> \<not> m_suppressSourceMutation mark \<and>
        recordSourceTx lib s t (trimJournalTx j1) = Inr j')"
  from this(1) assms(2) have "journal_keys j1"
    by (rule res_fold_inv) (rule recordDelivery_keys)
  then have "journal_keys (trimJournalTx j1)" by (rule trimJournalTx_keys)
  with rest recordSourceTx_keys show "journal_keys j'" by blast
qed

section \<open>Holes\<close>

text \<open>A delivery with the authority to repair a hole.\<close>

definition repairs :: "applied_mark \<Rightarrow> delivery_mark \<Rightarrow> hole_row \<Rightarrow> bool" where
  "repairs mark d h \<longleftrightarrow> delivery_id d = hr_id h \<and> d_Replayed d \<and> \<not> d_Unverifiable d \<and>
     \<not> m_SettlementOnly mark \<and> \<not> hr_unverifiable h"

lemma repair_hole_keeps:
  assumes "repair_hole lib d t j = Inr j'" "h \<in> set (j_holes j)" "hr_cleared_at h = None"
    "delivery_id d \<noteq> hr_id h \<or> hr_unverifiable h"
  shows "h \<in> set (j_holes j')"
proof -
  let ?f = "\<lambda>h. if open_hole (delivery_id d) h then h\<lparr>hr_cleared_at := Some (stamp lib t)\<rparr> else h"
  have "?f h = h" using assms(4) by (auto simp: open_hole_def)
  then have m: "h \<in> set (map ?f (j_holes j))" using assms(2) by force
  show ?thesis
  proof (cases "find (open_hole (delivery_id d)) (j_holes j)")
    case None
    with assms(1) have "j_holes j' = map ?f (j_holes j)" by (auto simp: repair_hole_def Let_def)
    with m show ?thesis by (simp only:)
  next
    case (Some g)
    with assms(1) obtain j2 where
      i: "invalidateSourceConfirmationsTx lib (hr_project_id g) (hr_connector_id g)
            (hr_table_name g) t (j\<lparr>j_holes := map ?f (j_holes j)\<rparr>) = Inr j2"
      and "j_holes j' = filter (\<lambda>h. \<not> (hr_id h = delivery_id d \<and> hr_cleared_at h \<noteq> None)) (j_holes j2)"
      by (auto simp: repair_hole_def Let_def)
    with m assms(3) show ?thesis using invalidate_frame(4) [OF i] by simp
  qed
qed

lemma recordDelivery_holes:
  assumes "recordDelivery lib mark t d j = Inr j'" "h \<in> set (j_holes j)" "hr_cleared_at h = None"
    "\<not> repairs mark d h"
  shows "h \<in> set (j_holes j')"
  using assms(1)
proof (cases rule: recordDelivery_cases)
  case (replay row)
  then show ?thesis using assms repair_hole_keeps [OF replay(1)] by (auto simp: repairs_def)
qed (use assms(2) in \<open>auto simp: insert_hole_def\<close>)

lemma recordSourceTx_holes:
  assumes "recordSourceTx lib s t j = Inr j'"
  shows "j_holes j' = j_holes j"
  using assms
proof (cases rule: recordSourceTx_cases)
  case (written pid cid sync run gen inc fin j1 j2)
  then show ?thesis using recordBatchTx_frame(4) writeSourceTx_frame(4) by auto
qed simp

section \<open>Sources\<close>

text \<open>What the deliveries of a mark may do to a source on record: nothing, or move its
  mutation counter forward.\<close>

definition touched :: "source_row \<Rightarrow> source_row \<Rightarrow> bool" where
  "touched r r' \<longleftrightarrow> r' = r\<lparr>sr_mutation_seq := sr_mutation_seq r', sr_updated_at := sr_updated_at r'\<rparr> \<and>
     (r' = r \<or> sr_mutation_seq r < sr_mutation_seq r')"

lemma touched_refl [simp]: "touched r r"
  by (simp add: touched_def)

lemma touched_trans: "touched r s \<Longrightarrow> touched s u \<Longrightarrow> touched r u"
  by (cases r; cases s; cases u) (auto simp: touched_def)

lemma next_greater: "x \<noteq> max_u64 \<Longrightarrow> x < x + 1"
proof -
  assume "x \<noteq> max_u64"
  then have "1 + x \<noteq> 0" by (auto simp: max_u64_def add_eq_0_iff)
  then show ?thesis by (simp add: word_less_nat_alt unatSuc add.commute [of x])
qed

lemma find_append: "find P (xs @ ys) = (case find P xs of None \<Rightarrow> find P ys | Some x \<Rightarrow> Some x)"
  by (induction xs) auto

lemma find_map_key:
  assumes "\<And>x. key (f x) = key x"
  shows "find (\<lambda>x. key x = k) (map f xs) = map_option f (find (\<lambda>x. key x = k) xs)"
  by (induction xs) (auto simp: assms)

lemma invalidate_lookup:
  assumes "invalidateSourceConfirmationsTx lib p c t at j = Inr j'" "source_lookup j k = Some r"
  shows "\<exists>r'. source_lookup j' k = Some r' \<and> touched r r'"
proof -
  from assms(1) obtain p' c' where
    nm: "\<not> list_ex (\<lambda>r. source_where p' c' t r \<and> sr_mutation_seq r = max_u64) (j_sources j)"
    and j': "j_sources j' = map (\<lambda>r. if source_where p' c' t r
      then r\<lparr>sr_mutation_seq := sr_mutation_seq r + 1, sr_updated_at := stamp lib at\<rparr> else r) (j_sources j)"
    by (auto simp: invalidateSourceConfirmationsTx_def split: if_splits)
  have "r \<in> set (j_sources j)" using assms(2) find_Some_iff' by (fastforce simp: source_lookup_def)
  with nm have "source_where p' c' t r \<Longrightarrow> sr_mutation_seq r < sr_mutation_seq r + 1"
    by (auto simp: list_ex_iff intro: next_greater)
  then show ?thesis
    using assms(2) unfolding source_lookup_def j'
    by (subst find_map_key) (auto simp: touched_def)
qed

lemma repair_hole_lookup:
  assumes "repair_hole lib d t j = Inr j'" "source_lookup j k = Some r"
  shows "\<exists>r'. source_lookup j' k = Some r' \<and> touched r r'"
  using assms
  by (auto simp: repair_hole_def Let_def source_lookup_def
      dest!: invalidate_lookup [where k = k and r = r] split: option.splits)

lemma recordDelivery_lookup:
  assumes "recordDelivery lib mark t d j = Inr j'" "source_lookup j k = Some r"
  shows "\<exists>r'. source_lookup j' k = Some r' \<and> touched r r'"
  using assms(1)
proof (cases rule: recordDelivery_cases)
  case (replay row)
  then show ?thesis
    using assms(2) repair_hole_lookup [OF replay(1), of k r] by (simp add: source_lookup_def)
qed (use assms(2) in \<open>simp_all add: source_lookup_def\<close>)

lemma deliveries_lookup:
  assumes "res_fold (recordDelivery lib mark t) ds j = Inr j'" "source_lookup j k = Some r"
  shows "\<exists>r'. source_lookup j' k = Some r' \<and> touched r r'"
proof -
  have "\<exists>r'. source_lookup j k = Some r' \<and> touched r r'" using assms(2) by simp
  with assms(1) show ?thesis
    by (rule res_fold_inv) (blast dest: recordDelivery_lookup intro: touched_trans)
qed

lemma writeSourceTx_lookup:
  assumes "writeSourceTx ex j = Inr j'" "source_lookup j k = Some r"
  shows "source_lookup j' k = Some (if sr_source ex = k then upsert_source ex r else r) \<and>
    (sr_source ex = k \<longrightarrow> sr_mutation_seq r \<noteq> max_u64)"
proof (cases "source_lookup j (sr_source ex)")
  case None
  with assms(2) have "sr_source ex \<noteq> k" by auto
  moreover from None assms(1) have "j' = j\<lparr>j_sources := j_sources j @ [ex]\<rparr>"
    by (simp add: writeSourceTx_def)
  ultimately show ?thesis using assms(2) by (simp add: source_lookup_def find_append)
next
  case (Some r0)
  have "sr_source r = k" using assms(2) by (auto simp: source_lookup_def dest: find_Some_iff')
  with Some assms show ?thesis
    unfolding writeSourceTx_def source_lookup_def
    by (auto simp: find_map_key split: if_splits)
qed

lemma recordSourceTx_lookup:
  assumes "recordSourceTx lib s t j = Inr j'" "source_lookup j k = Some r"
  obtains (same) "source_lookup j' k = Some r"
  | (upserted) sync run gen inc fin where
      "source_lookup j' k = Some (upsert_source (proposed_source lib s k sync run gen inc fin t) r)"
      "sourceReceiptSupersededTx lib s j = Inr False" "sr_mutation_seq r \<noteq> max_u64"
      "uuid_parse lib (s_ProjectID s) = Some (fst k)"
      "uuid_parse lib (s_ConnectorID s) = Some (fst (snd k))" "s_Table s = snd (snd k)"
      "inc = fst (prior_state s k j)"
  using assms(1)
proof (cases rule: recordSourceTx_cases)
  case superseded
  then show ?thesis using assms(2) same by simp
next
  case (written pid cid sync run gen inc fin j1 j2)
  have l1: "source_lookup j1 k = Some r"
    using assms(2) recordBatchTx_frame(2) [OF written(6)] by (simp add: source_lookup_def)
  have j': "source_lookup j' k = source_lookup j2 k"
    using written(8) by (simp add: source_lookup_def)
  have key: "sr_source (proposed_source lib s (pid, cid, s_Table s) sync run gen inc fin t)
      = (pid, cid, s_Table s)" by (simp add: proposed_source_def)
  show ?thesis
  proof (cases "(pid, cid, s_Table s) = k")
    case True
    with writeSourceTx_lookup [OF written(7) l1] j' key written(1-4) show ?thesis
      by (intro upserted) auto
  next
    case False
    with writeSourceTx_lookup [OF written(7) l1] j' key show ?thesis by (intro same) simp
  qed
qed

lemma repair_hole_open_rows:
  assumes "repair_hole lib d t j = Inr j'" "h \<in> set (j_holes j')" "hr_cleared_at h = None"
  shows "h \<in> set (j_holes j) \<and> \<not> open_hole (delivery_id d) h"
proof -
  let ?f = "\<lambda>h. if open_hole (delivery_id d) h then h\<lparr>hr_cleared_at := Some (stamp lib t)\<rparr> else h"
  have "set (j_holes j') \<subseteq> set (map ?f (j_holes j))"
    using assms(1) by (auto simp: repair_hole_def Let_def dest!: invalidate_frame(4) split: option.splits)
  with assms(2) obtain g where "g \<in> set (j_holes j)" "h = ?f g" by auto
  with assms(3) show ?thesis by (auto split: if_splits)
qed

lemma recordDelivery_no_new_hole:
  assumes "recordDelivery lib mark t d j = Inr j'" "h \<notin> set (j_holes j)" "hr_cleared_at h = None"
    "\<not> hr_unverifiable h"
  shows "h \<notin> set (j_holes j')"
  using assms(1)
proof (cases rule: recordDelivery_cases)
  case (unverifiable row g)
  then show ?thesis using assms(2,4) by (auto simp: insert_hole_def)
next
  case (replay row)
  then show ?thesis using assms(2,3) repair_hole_open_rows by fastforce
qed (use assms(2) in simp_all)

lemma recordDelivery_repairs:
  assumes "recordDelivery lib mark t d j = Inr j'" "repairs mark d h" "\<not> blank_delivery d"
    "hr_cleared_at h = None"
  shows "h \<notin> set (j_holes j')"
proof -
  from assms obtain row where "repair_hole lib d t (insert_delivery row j) = Inr j'"
    by (auto simp: recordDelivery_def repairs_def Let_def split_beta)
  with assms(2,4) show ?thesis
    using repair_hole_open_rows [of lib d t _ j' h] by (auto simp: repairs_def open_hole_def)
qed

lemma blank_no_repair:
  assumes "recordDelivery lib mark t d j = Inr j'" "blank_delivery d"
  shows "j' = j"
  using assms by (simp add: recordDelivery_def)

lemma deliveries_holes:
  assumes "res_fold (recordDelivery lib mark t) ds j = Inr j'" "hr_cleared_at h = None"
    "h \<in> set (j_holes j)"
  shows "h \<notin> set (j_holes j') \<longleftrightarrow> (\<exists>d \<in> set ds. repairs mark d h \<and> \<not> blank_delivery d)"
proof
  assume gone: "h \<notin> set (j_holes j')"
  show "\<exists>d \<in> set ds. repairs mark d h \<and> \<not> blank_delivery d"
  proof (rule ccontr)
    assume "\<not> ?thesis"
    then have "h \<in> set (j_holes j')"
      using assms(1,3)
      by - (rule res_fold_inv, assumption, assumption, metis recordDelivery_holes assms(2) blank_no_repair)
    with gone show False by simp
  qed
next
  assume "\<exists>d \<in> set ds. repairs mark d h \<and> \<not> blank_delivery d"
  then show "h \<notin> set (j_holes j')"
    using assms(1)
  proof (induction ds arbitrary: j)
    case (Cons d ds)
    then obtain j1 where j1: "recordDelivery lib mark t d j = Inr j1"
      "res_fold (recordDelivery lib mark t) ds j1 = Inr j'" by auto
    show ?case
    proof (cases "repairs mark d h \<and> \<not> blank_delivery d")
      case True
      then have "h \<notin> set (j_holes j1)" using recordDelivery_repairs j1(1) assms(2) by blast
      with j1(2) show ?thesis
        by (rule res_fold_inv) (use True assms(2) recordDelivery_no_new_hole repairs_def in blast)
    next
      case False
      with Cons j1 show ?thesis by auto
    qed
  qed simp
qed

lemma trim_deliveries_length:
  assumes "distinct (map dr_id rows)"
  shows "length (trim_deliveries limit rows) \<le> limit"
proof -
  let ?keep = "take limit (rev (sort_key delivery_rank rows))"
  have "distinct (map dr_id (trim_deliveries limit rows))"
    using assms by (simp add: trim_deliveries_def Let_def distinct_map_filter')
  moreover have "set (map dr_id (trim_deliveries limit rows)) \<subseteq> set (map dr_id ?keep)"
    by (auto simp: trim_deliveries_def Let_def)
  ultimately have "length (trim_deliveries limit rows) \<le> card (set (map dr_id ?keep))"
    by (metis List.finite_set card_mono distinct_card length_map)
  also have "\<dots> \<le> limit" using card_length [of "map dr_id ?keep"] by simp
  finally show ?thesis .
qed

lemma recordSourceTx_deliveries:
  assumes "recordSourceTx lib s t j = Inr j'"
  shows "length (j_deliveries j') \<le> length (j_deliveries j)"
  using assms
proof (cases rule: recordSourceTx_cases)
  case (written pid cid sync run gen inc fin j1 j2)
  then have "j_deliveries j2 = j_deliveries j"
    using recordBatchTx_frame(3) writeSourceTx_frame(3) by metis
  with written(8) show ?thesis by (simp add: pruneSourceTx_def split: prod.split)
qed simp

text \<open>The fence, read from its result: what a mark that is let through is, compared with
  the row on record.\<close>

lemma not_superseded:
  assumes "sourceReceiptSupersededTx lib s j = Inr False"
    "uuid_cast lib (s_ProjectID s) = Some p" "uuid_cast lib (s_ConnectorID s) = Some c"
    "source_lookup j (p, c, s_Table s) = Some r"
  shows "s_GenerationSeq s < sr_generation_seq r \<Longrightarrow> s_GenerationSeq s = 0 \<and>
      captured_after (s_CaptureStartedAt s) (sr_capture_started_at r)"
    and "s_GenerationSeq s = sr_generation_seq r \<Longrightarrow> generationKeyOf s \<noteq> sr_generation_key r \<Longrightarrow>
      s_GenerationSeq s = 0 \<and> captured_after (s_CaptureStartedAt s) (sr_capture_started_at r)"
  using assms
  by (auto simp: sourceReceiptSupersededTx_def cast_uuid_def Let_def word_gt_0 split: if_splits)

lemma upsert_fields [simp]:
  "sr_generation_seq (upsert_source ex r) = sr_generation_seq ex"
  "sr_generation_key (upsert_source ex r) = sr_generation_key ex"
  "sr_mutation_seq (upsert_source ex r) = sr_mutation_seq r + 1"
  by (simp_all add: upsert_source_def Let_def)

lemma proposed_fields [simp]:
  "sr_source (proposed_source lib s k a b c inc fin t) = k"
  "sr_generation_seq (proposed_source lib s k a b c inc fin t) = s_GenerationSeq s"
  "sr_generation_key (proposed_source lib s k a b c inc fin t) = generationKeyOf s"
  "sr_completion_seen (proposed_source lib s k a b c inc fin t) = s_Complete s"
  "sr_ordering_ambiguous (proposed_source lib s k a b c inc fin t) = inc"
  "sr_landed_generation_key (proposed_source lib s k a b c inc fin t)
     = (if s_Promoted s then Some (generationKeyOf s) else None)"
  by (simp_all add: proposed_source_def)

lemma upsert_unambiguous:
  assumes "\<not> sr_ordering_ambiguous (upsert_source ex r)" "sr_ordering_ambiguous r"
  shows "sr_generation_seq ex > 0 \<and> sr_completion_seen ex \<and>
    sr_landed_generation_key ex = Some (sr_generation_key ex)"
  using assms by (auto simp: upsert_source_def Let_def split: if_splits)

lemma touched_fields:
  assumes "touched r r'"
  shows "sr_generation_seq r' = sr_generation_seq r" "sr_generation_key r' = sr_generation_key r"
    "sr_ordering_ambiguous r' = sr_ordering_ambiguous r"
    "sr_capture_started_at r' = sr_capture_started_at r" "sr_mutation_seq r \<le> sr_mutation_seq r'"
  using assms by (cases r; cases r'; auto simp: touched_def)+

lemma recordApplied_lookup:
  assumes "recordAppliedReceiptsTx lib mark t j = Inr j'" "source_lookup j k = Some r"
  obtains (touched) r' where "source_lookup j' k = Some r'" "touched r r'"
  | (upserted) s r1 j1 sync run gen inc fin where "m_Source mark = Some s" "touched r r1"
      "source_lookup j1 k = Some r1"
      "source_lookup j' k = Some (upsert_source (proposed_source lib s k sync run gen inc fin t) r1)"
      "sourceReceiptSupersededTx lib s j1 = Inr False" "sr_mutation_seq r1 \<noteq> max_u64"
      "uuid_parse lib (s_ProjectID s) = Some (fst k)"
      "uuid_parse lib (s_ConnectorID s) = Some (fst (snd k))" "s_Table s = snd (snd k)"
  using assms(1)
proof (rule recordApplied_steps)
  fix j1
  assume "res_fold (recordDelivery lib mark t) (m_Deliveries mark) j = Inr j1"
    and rest: "j' = trimJournalTx j1 \<or> (\<exists>s. m_Source mark = Some s \<and> \<not> m_suppressSourceMutation mark \<and>
        recordSourceTx lib s t (trimJournalTx j1) = Inr j')"
  then obtain r1 where r1: "source_lookup j1 k = Some r1" "touched r r1"
    using deliveries_lookup assms(2) by blast
  then have l: "source_lookup (trimJournalTx j1) k = Some r1" by (simp add: source_lookup_def)
  from rest show thesis
  proof
    assume "j' = trimJournalTx j1"
    with l r1 touched show thesis by blast
  next
    assume "\<exists>s. m_Source mark = Some s \<and> \<not> m_suppressSourceMutation mark \<and>
        recordSourceTx lib s t (trimJournalTx j1) = Inr j'"
    then obtain s where s: "m_Source mark = Some s" "recordSourceTx lib s t (trimJournalTx j1) = Inr j'"
      by blast
    from s(2) l show thesis
    proof (cases rule: recordSourceTx_lookup)
      case same
      with r1 touched show thesis by blast
    next
      case (upserted sync run gen inc fin)
      with s(1) r1(2) l that(2) show thesis by blast
    qed
  qed
qed

section \<open>Properties\<close>

text \<open>C8: an open hole in the journal disappears exactly when the mark carries a replay of that
  very delivery: same stream, subject, sequence and digest, marked as replayed, verifiable, and
  not a rowless settlement. No other write, however many rows it lands, clears a hole.\<close>

theorem hole_cleared_iff_replayed:
  assumes "recordAppliedReceiptsTx lib mark t j = Inr j'"
    and "h \<in> set (j_holes j)" and "hr_cleared_at h = None"
  shows "h \<notin> set (j_holes j') \<longleftrightarrow>
    (\<exists>d \<in> set (m_Deliveries mark). repairs mark d h \<and> \<not> blank_delivery d)"
  using assms(1)
proof (rule recordApplied_steps)
  fix j1
  assume j1: "res_fold (recordDelivery lib mark t) (m_Deliveries mark) j = Inr j1"
    and rest: "j' = trimJournalTx j1 \<or> (\<exists>s. m_Source mark = Some s \<and> \<not> m_suppressSourceMutation mark \<and>
        recordSourceTx lib s t (trimJournalTx j1) = Inr j')"
  from rest have "j_holes j' = j_holes (trimJournalTx j1)" using recordSourceTx_holes by auto
  then have "h \<in> set (j_holes j') \<longleftrightarrow> h \<in> set (j_holes j1)"
    using assms(3) by (simp add: trimJournalTx_def)
  with deliveries_holes [OF j1 assms(3,2)] show ?thesis by simp
qed

definition wit_lib :: db_lib where
  "wit_lib = \<lparr>uuid_parse = Some, uuid_cast = Some, stamp = (\<lambda>t. t)\<rparr>"

definition wit_delivery :: delivery_mark where
  "wit_delivery = \<lparr>d_StreamID = ''s'', d_Subject = ''e'', d_StreamSeq = 7, d_PayloadSHA256 = ''h'',
     d_PublishedAt = None, d_ProjectID = ''p'', d_ConnectorID = '''', d_Table = '''',
     d_Replayed = True, d_Unverifiable = False\<rparr>"

definition wit_mark :: applied_mark where
  "wit_mark = \<lparr>m_Durable = ''blue'', m_Seq = 12, m_Deliveries = [wit_delivery], m_Source = None,
     m_SettlementOnly = False, m_suppressSourceMutation = False\<rparr>"

definition wit_hole :: hole_row where
  "wit_hole = \<lparr>hr_id = delivery_id wit_delivery, hr_project_id = Some ''p'', hr_connector_id = None,
     hr_table_name = None, hr_unverifiable = False, hr_cleared_at = None\<rparr>"

definition wit_journal :: journal where
  "wit_journal = \<lparr>j_positions = Map.empty, j_sources = [], j_batches = [], j_deliveries = [],
     j_holes = [wit_hole]\<rparr>"

lemma wit_applied: "\<exists>j'. recordAppliedReceiptsTx wit_lib wit_mark 5 wit_journal = Inr j'"
  by (simp add: recordAppliedReceiptsTx_def recordDelivery_def wit_mark_def wit_delivery_def wit_lib_def
      wit_journal_def wit_hole_def delivery_scope_def opt_uuid_def insert_delivery_def repair_hole_def
      open_hole_def delivery_id_def invalidateSourceConfirmationsTx_def cast_opt_def cast_uuid_def Let_def
      blank_delivery_def)

lemma wit_not_blank: "\<not> blank_delivery wit_delivery"
  by (simp add: blank_delivery_def wit_delivery_def trim_space_plain plain_def)

theorem hole_cleared_iff_replayed_witness:
  "\<exists>j'. recordAppliedReceiptsTx wit_lib wit_mark 5 wit_journal = Inr j' \<and> wit_hole \<notin> set (j_holes j')"
proof -
  obtain j' where j': "recordAppliedReceiptsTx wit_lib wit_mark 5 wit_journal = Inr j'"
    using wit_applied by blast
  have "wit_hole \<in> set (j_holes wit_journal)" "hr_cleared_at wit_hole = None"
    by (simp_all add: wit_journal_def wit_hole_def)
  moreover have "wit_delivery \<in> set (m_Deliveries wit_mark)" "repairs wit_mark wit_delivery wit_hole"
    by (simp_all add: wit_mark_def repairs_def wit_hole_def, simp_all add: wit_delivery_def)
  ultimately show ?thesis
    using hole_cleared_iff_replayed [OF j'] wit_not_blank j' by blast
qed

text \<open>Every write that records receipts keeps the primary keys of the journal and leaves at
  most \<open>deliveryReceiptSuffixLimit\<close> delivery rows, so the journal cannot grow without bound.\<close>

theorem delivery_journal_bounded:
  assumes "recordAppliedReceiptsTx lib mark t j = Inr j'" and "journal_keys j"
  shows "journal_keys j' \<and> length (j_deliveries j') \<le> deliveryReceiptSuffixLimit"
proof
  show "journal_keys j'" using assms by (rule recordApplied_keys)
  from assms(1) show "length (j_deliveries j') \<le> deliveryReceiptSuffixLimit"
  proof (rule recordApplied_steps)
    fix j1
    assume j1: "res_fold (recordDelivery lib mark t) (m_Deliveries mark) j = Inr j1"
      and rest: "j' = trimJournalTx j1 \<or> (\<exists>s. m_Source mark = Some s \<and> \<not> m_suppressSourceMutation mark \<and>
        recordSourceTx lib s t (trimJournalTx j1) = Inr j')"
    from j1 assms(2) have "journal_keys j1" by (rule res_fold_inv) (rule recordDelivery_keys)
    then have "length (j_deliveries (trimJournalTx j1)) \<le> deliveryReceiptSuffixLimit"
      using trim_deliveries_length journal_keysD(3) by (simp add: trimJournalTx_def)
    with rest show ?thesis using recordSourceTx_deliveries by (meson order_trans)
  qed
qed

theorem delivery_journal_bounded_witness:
  "\<exists>j'. recordAppliedReceiptsTx wit_lib wit_mark 5 wit_journal = Inr j' \<and> journal_keys j' \<and>
     length (j_deliveries j') \<le> deliveryReceiptSuffixLimit"
proof -
  obtain j' where j': "recordAppliedReceiptsTx wit_lib wit_mark 5 wit_journal = Inr j'"
    using wit_applied by blast
  have "journal_keys wit_journal" by (simp add: journal_keys_def wit_journal_def)
  from delivery_journal_bounded [OF j' this] j' show ?thesis by blast
qed

text \<open>C31: a write that records receipts never removes a source from the journal, and it either
  leaves the source's row as it was or moves its mutation counter strictly forward (the counter
  cannot wrap), so a query confirmation taken of an earlier row never matches a later one.\<close>

theorem source_mutation_fence:
  assumes "recordAppliedReceiptsTx lib mark t j = Inr j'" and "source_lookup j k = Some r"
  shows "\<exists>r'. source_lookup j' k = Some r' \<and> (r' = r \<or> sr_mutation_seq r < sr_mutation_seq r')"
  using assms
proof (cases rule: recordApplied_lookup)
  case (touched r')
  then show ?thesis by (auto simp: touched_def)
next
  case (upserted s r1 j1 sync run gen inc fin)
  then have "sr_mutation_seq r < sr_mutation_seq r1 + 1"
    using touched_fields(5) next_greater order_le_less_trans by blast
  with upserted show ?thesis by simp
qed

definition wit_source :: source_mark where
  "wit_source = \<lparr>s_ProjectID = ''p'', s_ConnectorID = ''c'', s_Table = ''t'', s_SyncID = ''y'',
     s_RunID = ''r2'', s_Generation = '''', s_GenerationSeq = 0, s_BindingDigest = '''',
     s_BatchID = ''b'', s_BatchIndex = None, s_PayloadSHA256 = ''x'', s_ExpectedBatches = None,
     s_ExpectedRows = None, s_CaptureStartedAt = Some 9, s_CaptureFinishedAt = None,
     s_PublishedAt = None, s_Complete = False, s_Promoted = False\<rparr>"

definition wit_row :: source_row where
  "wit_row = \<lparr>sr_source = (''p'', ''c'', ''t''), sr_sync_id = Some ''y'', sr_run_id = None,
     sr_generation = Some ''g'', sr_generation_key = ''g'', sr_generation_seq = 3,
     sr_binding_digest = '''', sr_capture_started_at = Some 4, sr_capture_finished_at = Some 5,
     sr_published_at = None, sr_landed_at = Some 6, sr_landed_generation_key = Some ''g'',
     sr_last_complete_at = Some 6, sr_expected_batches = Some 1, sr_expected_rows = Some 1,
     sr_completion_seen = True, sr_ordering_ambiguous = True, sr_mutation_seq = 2, sr_updated_at = 6\<rparr>"

definition wit_source_journal :: journal where
  "wit_source_journal = wit_journal\<lparr>j_sources := [wit_row], j_holes := []\<rparr>"

definition wit_source_mark :: applied_mark where
  "wit_source_mark = wit_mark\<lparr>m_Deliveries := [], m_Source := Some wit_source\<rparr>"

lemma trim_t: "trim_space ''t'' = ''t''" by code_simp

lemmas wit_source_defs = wit_source_mark_def wit_mark_def wit_source_def wit_row_def
  wit_source_journal_def wit_journal_def wit_lib_def

lemmas receipt_unfold = recordAppliedReceiptsTx_def recordSourceTx_def req_uuid_def Let_def
  sourceReceiptSupersededTx_def cast_uuid_def source_lookup_def generationKeyOf_def captured_after_def
  prior_state_def recordBatchTx_def opt_uuid_def writeSourceTx_def max_u64_def locally_complete_def
  proposed_source_def trimJournalTx_def trim_deliveries_def

lemma wit_source_lookup: "source_lookup wit_source_journal (''p'', ''c'', ''t'') = Some wit_row"
  by (simp add: source_lookup_def wit_source_journal_def wit_journal_def wit_row_def)

lemma wit_source_applied:
  "\<exists>j'. recordAppliedReceiptsTx wit_lib wit_source_mark 8 wit_source_journal = Inr j'"
  by (simp add: receipt_unfold wit_source_defs trim_t)

theorem source_mutation_fence_witness:
  "\<exists>j' r'. recordAppliedReceiptsTx wit_lib wit_source_mark 8 wit_source_journal = Inr j' \<and>
     source_lookup j' (''p'', ''c'', ''t'') = Some r' \<and> (r' = wit_row \<or> sr_mutation_seq wit_row < sr_mutation_seq r')"
  using wit_source_applied source_mutation_fence wit_source_lookup by blast

text \<open>C29: the authority of a source never regresses. After any write that records receipts, the
  row of a source carries a smaller generation sequence than before only when an incremental run,
  captured strictly later, took over from a snapshot; and at an equal sequence the generation
  changes only between incremental runs, again to a strictly later capture.\<close>

theorem source_order_never_regresses:
  assumes "recordAppliedReceiptsTx lib mark t j = Inr j'" and "source_lookup j k = Some r"
    and "source_lookup j' k = Some r'"
    and "\<And>s. m_Source mark = Some s \<Longrightarrow> uuid_cast lib (s_ProjectID s) = uuid_parse lib (s_ProjectID s) \<and>
      uuid_cast lib (s_ConnectorID s) = uuid_parse lib (s_ConnectorID s)"
    and "sr_generation_seq r' < sr_generation_seq r \<or>
      sr_generation_seq r' = sr_generation_seq r \<and> sr_generation_key r' \<noteq> sr_generation_key r"
  shows "sr_generation_seq r' = 0 \<and>
    (\<exists>s. m_Source mark = Some s \<and> captured_after (s_CaptureStartedAt s) (sr_capture_started_at r))"
  using assms(1,2)
proof (cases rule: recordApplied_lookup)
  case (touched r'')
  with assms(3,5) touched_fields show ?thesis by auto
next
  case (upserted s r1 j1 sync run gen inc fin)
  have k: "k = (fst k, fst (snd k), s_Table s)" using upserted(9) by simp
  have "uuid_cast lib (s_ProjectID s) = Some (fst k)"
    "uuid_cast lib (s_ConnectorID s) = Some (fst (snd k))"
    "source_lookup j1 (fst k, fst (snd k), s_Table s) = Some r1"
    using assms(4) [OF upserted(1)] upserted(3,7,8) k by simp_all
  note fence = not_superseded [OF upserted(5) this]
  have "r' = upsert_source (proposed_source lib s k sync run gen inc fin t) r1"
    using upserted(4) assms(3) by simp
  with assms(5) touched_fields [OF upserted(2)] fence upserted(1) show ?thesis by auto
qed

theorem source_order_never_regresses_witness:
  "\<exists>j' r'. recordAppliedReceiptsTx wit_lib wit_source_mark 8 wit_source_journal = Inr j' \<and>
     source_lookup j' (''p'', ''c'', ''t'') = Some r' \<and> sr_generation_seq r' < sr_generation_seq wit_row \<and>
     sr_generation_seq r' = 0"
proof -
  obtain j' where j': "recordAppliedReceiptsTx wit_lib wit_source_mark 8 wit_source_journal = Inr j'"
    using wit_source_applied by blast
  then obtain r' where r': "source_lookup j' (''p'', ''c'', ''t'') = Some r'"
    "sr_generation_seq r' < sr_generation_seq wit_row"
    by (auto simp: receipt_unfold wit_source_defs trim_t upsert_source_def)
  have "uuid_cast wit_lib x = uuid_parse wit_lib x" for x by (simp add: wit_lib_def)
  with source_order_never_regresses [OF j' wit_source_lookup r'(1)] r' j' show ?thesis by blast
qed

text \<open>C30: the durable ordering doubt of a source is cleared by nothing but a complete, promoted,
  sequenced snapshot of that source.\<close>

theorem ordering_doubt_sticks:
  assumes "recordAppliedReceiptsTx lib mark t j = Inr j'" and "source_lookup j k = Some r"
    and "sr_ordering_ambiguous r" and "source_lookup j' k = Some r'" and "\<not> sr_ordering_ambiguous r'"
  shows "\<exists>s. m_Source mark = Some s \<and> 0 < s_GenerationSeq s \<and> s_Complete s \<and> s_Promoted s"
  using assms(1,2)
proof (cases rule: recordApplied_lookup)
  case (touched r'')
  with assms(3-5) touched_fields(3) show ?thesis by auto
next
  case (upserted s r1 j1 sync run gen inc fin)
  then have "sr_ordering_ambiguous r1" using assms(3) touched_fields(3) by simp
  with upserted(4) assms(4,5) have "0 < s_GenerationSeq s \<and> s_Complete s \<and> s_Promoted s"
    using upsert_unambiguous [of "proposed_source lib s k sync run gen inc fin t" r1]
    by (auto split: if_splits)
  with upserted(1) show ?thesis by blast
qed

definition wit_snapshot_mark :: applied_mark where
  "wit_snapshot_mark = wit_source_mark\<lparr>m_Source := Some (wit_source\<lparr>s_Generation := ''g4'',
     s_GenerationSeq := 4, s_BatchID := '''', s_ExpectedBatches := Some 0, s_Complete := True,
     s_Promoted := True\<rparr>)\<rparr>"

theorem ordering_doubt_sticks_witness:
  "\<exists>j' r'. recordAppliedReceiptsTx wit_lib wit_snapshot_mark 8 wit_source_journal = Inr j' \<and>
     source_lookup j' (''p'', ''c'', ''t'') = Some r' \<and> \<not> sr_ordering_ambiguous r' \<and>
     (\<exists>s. m_Source wit_snapshot_mark = Some s \<and> 0 < s_GenerationSeq s)"
proof -
  obtain j' r' where j': "recordAppliedReceiptsTx wit_lib wit_snapshot_mark 8 wit_source_journal = Inr j'"
    and r': "source_lookup j' (''p'', ''c'', ''t'') = Some r'" "\<not> sr_ordering_ambiguous r'"
    by (simp add: receipt_unfold wit_snapshot_mark_def wit_source_defs trim_t upsert_source_def
        batches_match_def count_batches_def pruneSourceTx_def)
  have "sr_ordering_ambiguous wit_row" by (simp add: wit_row_def)
  from ordering_doubt_sticks [OF j' wit_source_lookup this r'] j' r' show ?thesis by blast
qed

end
