(* ===== verification/Readiness.thy ===== *)
theory Readiness
  imports Receipts
begin

text \<open>
  The public readiness answer (\<open>SourceReadiness\<close>, \<open>localReadiness\<close> and
  \<open>scheduleFreshness\<close> of \<open>internal/dataplane/store/data_readiness.go\<close>, the query
  confirmations of \<open>query_evidence.go\<close>) and the publication receipts it is compared with.
\<close>

section \<open>Confirmations\<close>

record source_confirmation =
  c_MutationSeq :: u64
  c_GenerationKey :: string
  c_CaptureStartedAt :: "time option"
  c_CaptureFinishedAt :: "time option"
  c_ConfirmedAt :: time

record local_receipt =
  l_PublishedAt :: "time option"
  l_LandedAt :: "time option"
  l_LastCompleteAt :: "time option"
  l_CaptureStartedAt :: "time option"
  l_CaptureFinishedAt :: "time option"
  l_Generation :: "string option"
  l_RunID :: string
  l_GenerationKey :: string
  l_GenerationSeq :: u64
  l_MutationSeq :: u64
  l_CompletionSeen :: bool
  l_AppliedBatches :: nat
  l_ExpectedBatches :: "u64 option"
  l_HasHole :: bool
  l_OrderingAmbiguous :: bool

definition sameInstant :: "time option \<Rightarrow> time option \<Rightarrow> bool" where
  "sameInstant a b =
     (case (a, b) of (Some x, Some y) \<Rightarrow> x = y | (None, None) \<Rightarrow> True | _ \<Rightarrow> False)"

definition confirmation_matches :: "source_confirmation \<Rightarrow> local_receipt \<Rightarrow> bool" where
  "confirmation_matches c r \<longleftrightarrow> c_MutationSeq c = l_MutationSeq r \<and> c_GenerationKey c = l_GenerationKey r \<and>
     sameInstant (c_CaptureStartedAt c) (l_CaptureStartedAt r) \<and>
     sameInstant (c_CaptureFinishedAt c) (l_CaptureFinishedAt r)"

section \<open>The local evidence\<close>

record readiness_source =
  q_SyncID :: string
  q_ConnectorID :: string
  q_Table :: string
  q_ScheduleCron :: string
  q_Configured :: bool

definition hole_covers :: "hole_row \<Rightarrow> source_row \<Rightarrow> bool" where
  "hole_covers h s \<longleftrightarrow> hr_cleared_at h = None \<and>
     (case sr_source s of (p, c, t) \<Rightarrow>
        hr_project_id h = None \<or>
        (hr_project_id h = Some p \<and> (hr_connector_id h = None \<or> hr_connector_id h = Some c) \<and>
         (hr_table_name h = None \<or> hr_table_name h = Some t)))"

text \<open>\<open>refused\<close> is \<open>EXISTS (SELECT 1 FROM ingest_position WHERE refused_missing > 0)\<close>, over
  the durables the file has a position for.\<close>

definition local_row :: "bool \<Rightarrow> journal \<Rightarrow> source_row \<Rightarrow> local_receipt" where
  "local_row refused j s =
     \<lparr>l_PublishedAt = sr_published_at s,
      l_LandedAt = (if sr_landed_generation_key s = Some (sr_generation_key s) then sr_landed_at s else None),
      l_LastCompleteAt = sr_last_complete_at s,
      l_CaptureStartedAt = sr_capture_started_at s,
      l_CaptureFinishedAt = sr_capture_finished_at s,
      l_Generation = sr_generation s,
      l_RunID = (case sr_run_id s of None \<Rightarrow> '''' | Some r \<Rightarrow> r),
      l_GenerationKey = sr_generation_key s,
      l_GenerationSeq = sr_generation_seq s,
      l_MutationSeq = sr_mutation_seq s,
      l_CompletionSeen = sr_completion_seen s,
      l_AppliedBatches = count_batches (sr_source s)
        (case sr_generation s of Some g \<Rightarrow> g
         | None \<Rightarrow> (case sr_run_id s of Some r \<Rightarrow> r | None \<Rightarrow> ''legacy-unknown'')) j,
      l_ExpectedBatches = sr_expected_batches s,
      l_HasHole = (refused \<or> list_ex (\<lambda>h. hole_covers h s) (j_holes j)),
      l_OrderingAmbiguous = sr_ordering_ambiguous s\<rparr>"

definition localSource ::
  "db_lib \<Rightarrow> bool \<Rightarrow> journal \<Rightarrow> string \<Rightarrow> readiness_source \<Rightarrow> store_error + local_receipt option" where
  "localSource lib refused j projectID q =
     res_bind (cast_uuid lib projectID) (\<lambda>p.
     res_bind (cast_uuid lib (q_ConnectorID q)) (\<lambda>c.
     res_bind (cast_uuid lib (q_SyncID q)) (\<lambda>y.
       Inr (case source_lookup j (p, c, q_Table q) of
              None \<Rightarrow> None
            | Some s \<Rightarrow> if sr_sync_id s = Some y then Some (local_row refused j s) else None))))"

definition localReadiness ::
  "db_lib \<Rightarrow> bool \<Rightarrow> journal \<Rightarrow> string \<Rightarrow> readiness_source list \<Rightarrow>
     store_error + (string \<rightharpoonup> local_receipt)" where
  "localReadiness lib refused j projectID sources =
     res_fold (\<lambda>q out.
       if \<not> q_Configured q then Inr out
       else res_bind (localSource lib refused j projectID q) (\<lambda>r.
              Inr (case r of None \<Rightarrow> out | Some l \<Rightarrow> out(q_SyncID q \<mapsto> l))))
     sources Map.empty"

section \<open>The answer\<close>

record publication_target =
  t_PublishedAt :: time
  t_CaptureStarted :: "time option"
  t_RunID :: string
  t_Generation :: string
  t_GenerationSeq :: u64

definition publicationRequiresNewerLocal :: "publication_target \<Rightarrow> local_receipt \<Rightarrow> bool" where
  "publicationRequiresNewerLocal target loc =
     (if t_GenerationSeq target > l_GenerationSeq loc then True
      else if t_GenerationSeq target < l_GenerationSeq loc then False
      else if t_Generation target \<noteq> '''' then
        l_Generation loc = None \<or> l_Generation loc \<noteq> Some (t_Generation target)
      else if t_RunID target = '''' \<or> l_RunID loc = t_RunID target then False
      else (case (t_CaptureStarted target, l_CaptureStartedAt loc) of
              (Some a, Some b) \<Rightarrow> a > b
            | _ \<Rightarrow> True))"

record readiness =
  State :: string
  PublishedAt :: "time option"
  LandedAt :: "time option"
  QueryableAt :: "time option"
  Generation :: "string option"
  CaptureStartedAt :: "time option"
  CaptureFinishedAt :: "time option"
  ReadinessReason :: "string option"
  LastCompleteAt :: "time option"

definition ReadinessNotConfigured :: string where "ReadinessNotConfigured = ''not_configured''"
definition ReadinessSyncing :: string where "ReadinessSyncing = ''syncing''"
definition ReadinessReady :: string where "ReadinessReady = ''ready''"
definition ReadinessStale :: string where "ReadinessStale = ''stale''"
definition ReadinessIncomplete :: string where "ReadinessIncomplete = ''incomplete''"

lemmas readiness_states = ReadinessNotConfigured_def ReadinessSyncing_def ReadinessReady_def
  ReadinessStale_def ReadinessIncomplete_def

definition bare_readiness :: "string \<Rightarrow> string \<Rightarrow> readiness" where
  "bare_readiness st why = \<lparr>State = st, PublishedAt = None, LandedAt = None, QueryableAt = None,
     Generation = None, CaptureStartedAt = None, CaptureFinishedAt = None,
     ReadinessReason = Some why, LastCompleteAt = None\<rparr>"

text \<open>The three first matching minutes of January 2026 onwards decide the period of a
  schedule. January 1st 2026 is a Thursday.\<close>

definition minute_clock :: "nat \<Rightarrow> clock" where
  "minute_clock i =
     (let day = i div 1440 in
      \<lparr>Minute = int (i mod 60), Hour = int (i div 60 mod 24),
       Day = int (if day < 31 then day + 1 else day - 30),
       Month = (if day < 31 then 1 else 2), Weekday = int ((day + 4) mod 7)\<rparr>)"

fun schedule_hits :: "string \<Rightarrow> nat \<Rightarrow> nat \<Rightarrow> nat \<Rightarrow> nat list" where
  "schedule_hits expr 0 at wanted = []"
| "schedule_hits expr (Suc n) at wanted =
     (if wanted = 0 then []
      else if Matches expr (minute_clock at) then at # schedule_hits expr n (Suc at) (wanted - 1)
      else schedule_hits expr n (Suc at) wanted)"

definition scheduleMinutes :: nat where "scheduleMinutes = 32 * 24 * 60"

definition scheduleFreshness :: "string \<Rightarrow> duration option" where
  "scheduleFreshness expr =
     (if trim_space expr = '''' then None
      else (case schedule_hits expr scheduleMinutes 0 3 of
              [h0, h1, h2] \<Rightarrow>
                let a = minute * int (h1 - h0); b = minute * int (h2 - h1)
                in if a \<le> 0 \<or> a \<noteq> b then None else Some (2 * a + minute)
            | _ \<Rightarrow> None))"

definition readinessFresh ::
  "time \<Rightarrow> duration \<Rightarrow> readiness_source \<Rightarrow> local_receipt \<Rightarrow> string \<times> string option" where
  "readinessFresh now manualFreshness q r =
     (let (maxAge, known) = (case scheduleFreshness (q_ScheduleCron q) of
            Some d \<Rightarrow> (d, True)
          | None \<Rightarrow> (manualFreshness, manualFreshness > 0))
      in if \<not> known then (ReadinessStale, Some ''freshness_policy_unknown'')
         else (case l_CaptureFinishedAt r of
             Some f \<Rightarrow> if time_sub now f > maxAge then (ReadinessStale, Some ''freshness_deadline_missed'')
                       else (ReadinessReady, None)
           | None \<Rightarrow>
               (case l_CaptureStartedAt r of
                  None \<Rightarrow> (ReadinessStale, Some ''capture_boundary_unknown'')
                | Some s \<Rightarrow> if time_sub now s > maxAge
                            then (ReadinessStale, Some ''freshness_deadline_missed'')
                            else (ReadinessReady, None))))"

definition local_base :: "publication_target option \<Rightarrow> local_receipt \<Rightarrow> readiness" where
  "local_base target r = \<lparr>State = ReadinessSyncing,
     PublishedAt = (case (target, l_PublishedAt r) of
         (Some t, None) \<Rightarrow> Some (t_PublishedAt t) | _ \<Rightarrow> l_PublishedAt r),
     LandedAt = l_LandedAt r, QueryableAt = None, Generation = l_Generation r,
     CaptureStartedAt = l_CaptureStartedAt r, CaptureFinishedAt = l_CaptureFinishedAt r,
     ReadinessReason = None, LastCompleteAt = l_LastCompleteAt r\<rparr>"

definition newer_target :: "publication_target option \<Rightarrow> local_receipt \<Rightarrow> publication_target option" where
  "newer_target target r =
     (case target of None \<Rightarrow> None
      | Some t \<Rightarrow> if publicationRequiresNewerLocal t r then Some t else None)"

definition sourceReadinessOf ::
  "time \<Rightarrow> duration \<Rightarrow> (string \<rightharpoonup> local_receipt) \<Rightarrow> (string \<rightharpoonup> publication_target) \<Rightarrow>
     (string \<rightharpoonup> source_confirmation) \<Rightarrow> readiness_source \<Rightarrow> readiness" where
  "sourceReadinessOf now manualFreshness loc targets confirmations q =
     (if \<not> q_Configured q then bare_readiness ReadinessNotConfigured ''source_not_configured''
      else (case loc (q_SyncID q) of
          None \<Rightarrow>
            (case targets (q_SyncID q) of
               None \<Rightarrow> bare_readiness ReadinessSyncing ''unknown_receipt''
             | Some t \<Rightarrow> (bare_readiness ReadinessSyncing ''awaiting_landing'')
                  \<lparr>PublishedAt := Some (t_PublishedAt t), Generation := opt_text (t_Generation t)\<rparr>)
        | Some r \<Rightarrow>
            let ready = local_base (targets (q_SyncID q)) r
            in (case newer_target (targets (q_SyncID q)) r of
                Some t \<Rightarrow> ready\<lparr>PublishedAt := Some (t_PublishedAt t), LandedAt := None, QueryableAt := None,
                    Generation := (if t_Generation t \<noteq> '''' then Some (t_Generation t) else Generation ready),
                    ReadinessReason := Some ''awaiting_landing''\<rparr>
              | None \<Rightarrow>
                  if l_HasHole r then
                    ready\<lparr>State := ReadinessIncomplete, ReadinessReason := Some ''coverage_hole''\<rparr>
                  else if l_OrderingAmbiguous r then
                    ready\<lparr>State := ReadinessIncomplete,
                          ReadinessReason := Some ''incremental_ordering_ambiguous''\<rparr>
                  else if \<not> l_CompletionSeen r then ready\<lparr>ReadinessReason := Some ''awaiting_completion''\<rparr>
                  else if \<not> batches_match (l_AppliedBatches r) (l_ExpectedBatches r) then
                    ready\<lparr>State := ReadinessIncomplete, ReadinessReason := Some ''coverage_hole''\<rparr>
                  else if l_LandedAt r = None then ready\<lparr>ReadinessReason := Some ''awaiting_landing''\<rparr>
                  else (case confirmations (q_ConnectorID q @ [char_of (0::nat)] @ q_Table q) of
                      None \<Rightarrow> ready\<lparr>ReadinessReason := Some ''awaiting_query_confirmation''\<rparr>
                    | Some c \<Rightarrow>
                        if \<not> confirmation_matches c r
                        then ready\<lparr>ReadinessReason := Some ''awaiting_query_confirmation''\<rparr>
                        else let (st, why) = readinessFresh now manualFreshness q r
                             in ready\<lparr>QueryableAt := Some (c_ConfirmedAt c), State := st,
                                      ReadinessReason := why\<rparr>))))"

definition SourceReadiness ::
  "db_lib \<Rightarrow> bool \<Rightarrow> journal \<Rightarrow> time \<Rightarrow> duration \<Rightarrow> (string \<rightharpoonup> publication_target) \<Rightarrow>
     (string \<rightharpoonup> source_confirmation) \<Rightarrow> string \<Rightarrow> readiness_source list \<Rightarrow>
     store_error + (string \<rightharpoonup> readiness)" where
  "SourceReadiness lib refused j now manualFreshness targets confirmations projectID sources =
     res_bind (localReadiness lib refused j projectID sources) (\<lambda>loc.
       Inr (fold (\<lambda>q out. out(q_SyncID q \<mapsto>
              sourceReadinessOf now manualFreshness loc targets confirmations q)) sources Map.empty))"

section \<open>Lemmas\<close>

lemma schedule_hits_cases:
  assumes "schedule_hits expr n at wanted = h # hs" "0 < wanted"
  obtains m where "at \<le> h" "h < at + n" "m = n - Suc (h - at)"
    "hs = schedule_hits expr m (Suc h) (wanted - 1)" "Matches expr (minute_clock h)"
    "\<forall>i. at \<le> i \<and> i < h \<longrightarrow> \<not> Matches expr (minute_clock i)"
  using assms
proof (induction n arbitrary: "at" thesis)
  case (Suc n)
  show ?case
  proof (cases "Matches expr (minute_clock at)")
    case True
    with Suc.prems(2,3) show ?thesis by (intro Suc.prems(1) [of n]) auto
  next
    case False
    with Suc.prems(2,3) have "schedule_hits expr n (Suc at) wanted = h # hs" by simp
    then obtain m where m: "Suc at \<le> h" "h < Suc at + n" "m = n - Suc (h - Suc at)"
      "hs = schedule_hits expr m (Suc h) (wanted - 1)" "Matches expr (minute_clock h)"
      "\<forall>i. Suc at \<le> i \<and> i < h \<longrightarrow> \<not> Matches expr (minute_clock i)"
      using Suc.IH [of "Suc at"] Suc.prems(3) by blast
    have "\<not> Matches expr (minute_clock i)" if "at \<le> i \<and> i < h" for i
      using that m(6) False by (cases "i = at") auto
    moreover have "m = Suc n - Suc (h - at)" "at \<le> h" "h < at + Suc n" using m(1-3) by auto
    ultimately show ?thesis using m(4,5) by (intro Suc.prems(1)) auto
  qed
qed simp

lemma schedule_hits_three:
  assumes "schedule_hits expr n 0 3 = [h0, h1, h2]"
  shows "h0 < h1 \<and> h1 < h2 \<and> h2 < n \<and>
    {i. i \<le> h2 \<and> Matches expr (minute_clock i)} = {h0, h1, h2}"
proof -
  obtain m where a: "h0 < n" "m = n - Suc h0" "schedule_hits expr m (Suc h0) 2 = [h1, h2]"
    "Matches expr (minute_clock h0)" "\<forall>i. i < h0 \<longrightarrow> \<not> Matches expr (minute_clock i)"
    by (rule schedule_hits_cases [OF assms]) auto
  obtain m' where b: "Suc h0 \<le> h1" "h1 < Suc h0 + m" "m' = m - Suc (h1 - Suc h0)"
    "schedule_hits expr m' (Suc h1) 1 = [h2]"
    "Matches expr (minute_clock h1)" "\<forall>i. Suc h0 \<le> i \<and> i < h1 \<longrightarrow> \<not> Matches expr (minute_clock i)"
    by (rule schedule_hits_cases [OF a(3)]) auto
  obtain m'' where c: "Suc h1 \<le> h2" "h2 < Suc h1 + m'"
    "Matches expr (minute_clock h2)" "\<forall>i. Suc h1 \<le> i \<and> i < h2 \<longrightarrow> \<not> Matches expr (minute_clock i)"
    by (rule schedule_hits_cases [OF b(4)]) auto
  have "h2 < n" using a(1,2) b(1-3) c(1,2) by arith
  moreover have "i = h0 \<or> i = h1 \<or> i = h2" if "i \<le> h2" "Matches expr (minute_clock i)" for i
    using that a(5) b(6) c(4) by (metis Suc_leI le_neq_implies_less nat_neq_iff)
  ultimately show ?thesis using a(4) b(1,5) c(1,3) by auto
qed

lemma localReadiness_row:
  assumes "localReadiness lib refused j projectID sources = Inr loc" "loc y = Some l"
  shows "\<exists>q \<in> set sources. q_Configured q \<and> q_SyncID q = y \<and>
    localSource lib refused j projectID q = Inr (Some l)"
proof -
  let ?I = "\<lambda>loc. \<forall>l. loc y = Some l \<longrightarrow> (\<exists>q \<in> set sources. q_Configured q \<and> q_SyncID q = y \<and>
    localSource lib refused j projectID q = Inr (Some l))"
  have "?I loc"
    using assms(1) unfolding localReadiness_def
    by (rule res_fold_inv) (auto split: if_splits option.splits)
  with assms(2) show ?thesis by blast
qed

lemma localSource_row:
  assumes "localSource lib refused j projectID q = Inr (Some l)"
  obtains p c s where "source_lookup j (p, c, q_Table q) = Some s" "l = local_row refused j s"
    "uuid_cast lib projectID = Some p" "uuid_cast lib (q_ConnectorID q) = Some c"
  using assms
  by (auto simp: localSource_def cast_uuid_def split: option.splits if_splits)

lemma readiness_fold:
  "fold (\<lambda>q out. out(q_SyncID q \<mapsto> f q)) qs m y =
     (case find (\<lambda>q. q_SyncID q = y) (rev qs) of None \<Rightarrow> m y | Some q \<Rightarrow> Some (f q))"
proof (induction qs arbitrary: m)
  case (Cons q qs)
  then show ?case by (auto simp: find_append split: option.splits)
qed simp

lemma readiness_state_simps [simp]:
  "State (local_base target r) = ReadinessSyncing" "State (bare_readiness st why) = st"
  "ReadinessSyncing \<noteq> ReadinessReady" "ReadinessIncomplete \<noteq> ReadinessReady"
  "ReadinessNotConfigured \<noteq> ReadinessReady" "ReadinessStale \<noteq> ReadinessReady"
  by (simp_all add: local_base_def bare_readiness_def readiness_states)

lemma readinessOf_ready:
  assumes "State (sourceReadinessOf now manual loc targets confs q) = ReadinessReady"
  obtains r c where "q_Configured q" "loc (q_SyncID q) = Some r"
    "newer_target (targets (q_SyncID q)) r = None"
    "\<not> l_HasHole r" "\<not> l_OrderingAmbiguous r" "l_CompletionSeen r"
    "batches_match (l_AppliedBatches r) (l_ExpectedBatches r)" "l_LandedAt r \<noteq> None"
    "confs (q_ConnectorID q @ [char_of (0::nat)] @ q_Table q) = Some c" "confirmation_matches c r"
    "fst (readinessFresh now manual q r) = ReadinessReady"
  using assms
  by (auto simp: sourceReadinessOf_def Let_def split_beta split: if_splits option.splits)

section \<open>Properties\<close>

text \<open>C22: a source is answered ready only on evidence. Its row is in the journal; no boot has
  refused the file; no open hole of the journal covers it; its order is not in doubt; its
  completion has been seen and the batches landed under its current identity are as many as
  expected; that identity is the one whose rows are live; no publication is ahead of it; and a
  query has confirmed exactly this state of the row.\<close>

theorem readiness_ready_sound:
  assumes "SourceReadiness lib refused j now manual targets confs projectID sources = Inr out"
    and "distinct (map q_SyncID sources)"
    and "out y = Some ans" and "State ans = ReadinessReady"
  shows "\<exists>q \<in> set sources. q_SyncID q = y \<and> q_Configured q \<and>
    (\<exists>p c s cf. uuid_cast lib projectID = Some p \<and> uuid_cast lib (q_ConnectorID q) = Some c \<and>
       source_lookup j (p, c, q_Table q) = Some s \<and> \<not> refused \<and>
       (\<forall>h \<in> set (j_holes j). \<not> hole_covers h s) \<and> \<not> sr_ordering_ambiguous s \<and> sr_completion_seen s \<and>
       batches_match (l_AppliedBatches (local_row refused j s)) (sr_expected_batches s) \<and>
       sr_landed_generation_key s = Some (sr_generation_key s) \<and> sr_landed_at s \<noteq> None \<and>
       (\<forall>t. targets y = Some t \<longrightarrow> \<not> publicationRequiresNewerLocal t (local_row refused j s)) \<and>
       confs (q_ConnectorID q @ [char_of (0::nat)] @ q_Table q) = Some cf \<and>
       c_MutationSeq cf = sr_mutation_seq s \<and> c_GenerationKey cf = sr_generation_key s)"
proof -
  from assms(1) obtain loc where loc: "localReadiness lib refused j projectID sources = Inr loc"
    and out: "out = fold (\<lambda>q out. out(q_SyncID q \<mapsto>
      sourceReadinessOf now manual loc targets confs q)) sources Map.empty"
    by (auto simp: SourceReadiness_def)
  from assms(3) obtain q where q: "q \<in> set sources" "q_SyncID q = y"
    "ans = sourceReadinessOf now manual loc targets confs q"
    unfolding out readiness_fold by (auto split: option.splits dest!: find_Some_iff')
  with assms(4) obtain r cf where r: "q_Configured q" "loc y = Some r"
    "newer_target (targets y) r = None"
    "\<not> l_HasHole r" "\<not> l_OrderingAmbiguous r" "l_CompletionSeen r"
    "batches_match (l_AppliedBatches r) (l_ExpectedBatches r)" "l_LandedAt r \<noteq> None"
    "confs (q_ConnectorID q @ [char_of (0::nat)] @ q_Table q) = Some cf" "confirmation_matches cf r"
    by (auto elim!: readinessOf_ready)
  obtain q' where "q' \<in> set sources" "q_SyncID q' = y"
    "localSource lib refused j projectID q' = Inr (Some r)"
    using localReadiness_row [OF loc r(2)] by blast
  moreover from this q assms(2) have "q' = q" by (auto dest: map_of_eq_Some_iff simp: distinct_map inj_on_def)
  ultimately obtain p c s where s: "source_lookup j (p, c, q_Table q) = Some s"
    "r = local_row refused j s" "uuid_cast lib projectID = Some p"
    "uuid_cast lib (q_ConnectorID q) = Some c"
    using localSource_row by metis
  have "\<forall>t. targets y = Some t \<longrightarrow> \<not> publicationRequiresNewerLocal t r"
    using r(3) by (auto simp: newer_target_def split: if_splits)
  moreover have "\<not> refused \<and> (\<forall>h \<in> set (j_holes j). \<not> hole_covers h s)"
    using r(4) s(2) by (auto simp: local_row_def list_ex_iff)
  moreover have "\<not> sr_ordering_ambiguous s" "sr_completion_seen s"
    "sr_landed_generation_key s = Some (sr_generation_key s)" "sr_landed_at s \<noteq> None"
    "l_ExpectedBatches r = sr_expected_batches s"
    "c_MutationSeq cf = sr_mutation_seq s" "c_GenerationKey cf = sr_generation_key s"
    using r(5,6,8,10) s(2) by (auto simp: local_row_def confirmation_matches_def split: if_splits)
  ultimately show ?thesis using q(1,2) r(1,7,9) s by metis
qed

definition wit_query :: readiness_source where
  "wit_query = \<lparr>q_SyncID = ''y'', q_ConnectorID = ''c'', q_Table = ''t'', q_ScheduleCron = '''',
     q_Configured = True\<rparr>"

definition wit_ready_row :: source_row where
  "wit_ready_row = wit_row\<lparr>sr_ordering_ambiguous := False\<rparr>"

definition wit_ready_journal :: journal where
  "wit_ready_journal = \<lparr>j_positions = Map.empty, j_sources = [wit_ready_row],
     j_batches = [\<lparr>br_source = (''p'', ''c'', ''t''), br_generation_key = ''g'', br_batch_id = ''b'',
       br_batch_index = Some 0, br_payload_sha256 = ''x'', br_landed_at = 6\<rparr>],
     j_deliveries = [], j_holes = []\<rparr>"

definition wit_confirmations :: "string \<rightharpoonup> source_confirmation" where
  "wit_confirmations = [''c'' @ [char_of (0::nat)] @ ''t'' \<mapsto> \<lparr>c_MutationSeq = 2, c_GenerationKey = ''g'',
     c_CaptureStartedAt = Some 4, c_CaptureFinishedAt = Some 5, c_ConfirmedAt = 7\<rparr>]"

lemma wit_local:
  "localReadiness wit_lib False wit_ready_journal ''p'' [wit_query]
     = Inr [''y'' \<mapsto> local_row False wit_ready_journal wit_ready_row]"
  by (simp add: localReadiness_def localSource_def cast_uuid_def wit_lib_def wit_query_def
      source_lookup_def wit_ready_journal_def wit_ready_row_def wit_row_def)

lemma wit_answer:
  "State (sourceReadinessOf 10 minute [''y'' \<mapsto> local_row False wit_ready_journal wit_ready_row]
     Map.empty wit_confirmations wit_query) = ReadinessReady"
  by (simp add: sourceReadinessOf_def wit_query_def newer_target_def local_row_def wit_ready_journal_def
      wit_ready_row_def wit_row_def wit_confirmations_def confirmation_matches_def sameInstant_def
      batches_match_def count_batches_def readinessFresh_def scheduleFreshness_def time_sub_def
      time_defs trim_space_def)

theorem readiness_ready_sound_witness:
  "\<exists>out ans. SourceReadiness wit_lib False wit_ready_journal 10 minute Map.empty wit_confirmations
       ''p'' [wit_query] = Inr out \<and> out ''y'' = Some ans \<and> State ans = ReadinessReady \<and>
     (\<exists>q \<in> set [wit_query]. q_SyncID q = ''y'' \<and> (\<exists>p c s. source_lookup wit_ready_journal (p, c, q_Table q) = Some s \<and>
        sr_completion_seen s))"
proof -
  let ?ans = "sourceReadinessOf 10 minute [''y'' \<mapsto> local_row False wit_ready_journal wit_ready_row]
     Map.empty wit_confirmations wit_query"
  have y: "q_SyncID wit_query = ''y''" by (simp add: wit_query_def)
  have out: "SourceReadiness wit_lib False wit_ready_journal 10 minute Map.empty wit_confirmations
      ''p'' [wit_query] = Inr [''y'' \<mapsto> ?ans]"
    by (simp add: SourceReadiness_def wit_local y)
  from readiness_ready_sound [OF out, of "''y''" ?ans] wit_answer out show ?thesis by fastforce
qed

text \<open>The freshness deadline of a schedule is two periods and a minute, where the period is
  read off its first three firings: when a deadline is given, exactly the minutes \<open>h\<close>,
  \<open>h + p\<close> and \<open>h + 2p\<close> fire up to the third firing, inside the 32 days that are searched.\<close>

theorem schedule_freshness_period:
  assumes "scheduleFreshness expr = Some d"
  shows "\<exists>h p. 0 < p \<and> h + 2 * p < scheduleMinutes \<and> d = 2 * (minute * int p) + minute \<and>
    {i. i \<le> h + 2 * p \<and> Matches expr (minute_clock i)} = {h, h + p, h + 2 * p}"
proof -
  from assms obtain h0 h1 h2 where h: "schedule_hits expr scheduleMinutes 0 3 = [h0, h1, h2]"
    and eq: "minute * int (h1 - h0) = minute * int (h2 - h1)"
    and d: "d = 2 * (minute * int (h1 - h0)) + minute"
    by (auto simp: scheduleFreshness_def Let_def split: if_splits list.splits)
  define p where "p = h1 - h0"
  from schedule_hits_three [OF h] eq have p: "h1 = h0 + p" "h2 = h0 + 2 * p" "0 < p"
    by (auto simp: time_defs p_def)
  have "h0 + 2 * p < scheduleMinutes \<and>
      {i. i \<le> h0 + 2 * p \<and> Matches expr (minute_clock i)} = {h0, h0 + p, h0 + 2 * p}"
    using schedule_hits_three [OF h] unfolding p(1,2) by blast
  moreover have "d = 2 * (minute * int p) + minute" using d by (simp add: p(1))
  ultimately show ?thesis using p(3) by blast
qed

lemma atoi_0_2: "atoi ''0'' = Some 0" "atoi ''2'' = Some 2"
  by (simp_all add: atoi_def digit_val_def has_prefix_def Let_def)

lemma burst_fields: "str_fields ''0-2 0 * * *'' = [''0-2'', ''0'', ''*'', ''*'', ''*'']"
  "map trim_space (str_split CHR '','' ''0'') = [''0'']"
  "map trim_space (str_split CHR '','' ''0-2'') = [''0-2'']"
  "map trim_space (str_split CHR '','' ''*'') = [''*'']"
  by code_simp+

lemma field_of_one: "map trim_space (str_split CHR '','' f) = [g] \<Longrightarrow> fieldMatches f v = singleFieldMatches g v"
  by (auto simp: fieldMatches_def list_ex_iff)

lemma burst_matches:
  "Matches ''0-2 0 * * *'' t \<longleftrightarrow> 0 \<le> Minute t \<and> Minute t \<le> 2 \<and> Hour t = 0"
proof -
  have "singleFieldMatches ''*'' v" "singleFieldMatches ''0'' v \<longleftrightarrow> v = 0"
    "singleFieldMatches ''0-2'' v \<longleftrightarrow> 0 \<le> v \<and> v \<le> 2" for v
    by (auto simp: singleFieldMatches_def step_of_def has_prefix_def atoi_0_2 go_rem_def)
  then show ?thesis
    by (simp add: Matches_def burst_fields(1) field_of_one [OF burst_fields(2)]
        field_of_one [OF burst_fields(3)] field_of_one [OF burst_fields(4)])
qed

lemma burst_freshness: "scheduleFreshness ''0-2 0 * * *'' = Some (3 * minute)"
proof -
  have m: "scheduleMinutes = Suc (Suc (Suc 46077))" by (simp add: scheduleMinutes_def)
  have none: "schedule_hits e n a 0 = []" for e n a by (cases n) simp_all
  have hits: "schedule_hits ''0-2 0 * * *'' (Suc (Suc (Suc n))) 0 3 = [0, 1, 2]" for n
    by (simp add: burst_matches minute_clock_def Let_def none)
  have "trim_space ''0-2 0 * * *'' \<noteq> ''''" by code_simp
  moreover have "schedule_hits ''0-2 0 * * *'' scheduleMinutes 0 3 = [0, 1, 2]"
    unfolding m by (rule hits)
  ultimately show ?thesis by (simp add: scheduleFreshness_def time_defs)
qed

theorem schedule_freshness_period_witness:
  "\<exists>h p. 0 < p \<and> h + 2 * p < scheduleMinutes \<and> 3 * minute = 2 * (minute * int p) + minute \<and>
    {i. i \<le> h + 2 * p \<and> Matches ''0-2 0 * * *'' (minute_clock i)} = {h, h + p, h + 2 * p}"
  using schedule_freshness_period [OF burst_freshness] .

text \<open>An irregular schedule is taken for a regular one when its first three firings are
  evenly spaced. A sync that runs at 00:00, 00:01 and 00:02 of every day, and at no other
  minute of the day, gets a freshness deadline of three minutes.\<close>

theorem schedule_freshness_burst:
  "scheduleFreshness ''0-2 0 * * *'' = Some (3 * minute) \<and>
   (\<forall>i. i < 1440 \<longrightarrow> (Matches ''0-2 0 * * *'' (minute_clock i) \<longleftrightarrow> i \<le> 2))"
proof
  show "scheduleFreshness ''0-2 0 * * *'' = Some (3 * minute)" by (rule burst_freshness)
  show "\<forall>i. i < 1440 \<longrightarrow> (Matches ''0-2 0 * * *'' (minute_clock i) \<longleftrightarrow> i \<le> 2)"
  proof (intro allI impI)
    fix i :: nat
    assume "i < 1440"
    then have "i div 60 mod 24 = i div 60" by simp
    then show "Matches ''0-2 0 * * *'' (minute_clock i) \<longleftrightarrow> i \<le> 2"
      by (auto simp: burst_matches minute_clock_def Let_def)
  qed
qed

theorem schedule_freshness_burst_witness:
  "\<not> Matches ''0-2 0 * * *'' (minute_clock 720)"
  using schedule_freshness_burst by (auto dest: spec [of _ 720])

end
