(* ===== verification/Persons.thy ===== *)
theory Persons
  imports Prelude
begin

text \<open>
  Person profiles (\<open>internal/dataplane/store/persons_profile.go\<close>): the trait deltas of a
  batch of events and their merge onto a stored profile. A trait map is a map from keys to raw
  JSON texts (the decoded maps of an event as the list of their entries); iterating over one is the pointwise update it makes, because the result
  of the loops does not depend on the order of the keys. What \<open>json.Unmarshal\<close> makes of
  an event's properties, and of a raw trait read as a string, are the arguments \<open>decode\<close>
  and \<open>unquote\<close>.
\<close>

type_synonym traits = "string \<rightharpoonup> string"

record person_event =
  e_ProjectID :: string
  e_DistinctID :: string
  e_Properties :: string
  e_Timestamp :: time

record event_props =
  p_Set :: "(string \<times> string) list"
  p_SetOnce :: "(string \<times> string) list"
  p_Email :: string
  p_Name :: string

record person_delta =
  setProps :: traits
  onceProps :: traits
  setTS :: "string \<rightharpoonup> time"
  onceTS :: "string \<rightharpoonup> time"
  email :: string
  name :: string
  emailTS :: time
  nameTS :: time
  firstSeen :: time
  lastSeen :: time

record person_row =
  SetProps :: traits
  OnceProps :: traits
  Email :: string
  Name :: string
  FirstSeen :: time
  LastSeen :: time

definition firstNonEmpty :: "string \<Rightarrow> string \<Rightarrow> string" where
  "firstNonEmpty a b = (if a \<noteq> '''' then a else b)"

definition stringTrait :: "(string \<Rightarrow> string option) \<Rightarrow> traits \<Rightarrow> string \<Rightarrow> string" where
  "stringTrait unquote m k =
     (case m k of None \<Rightarrow> '''' | Some raw \<Rightarrow> (case unquote raw of None \<Rightarrow> '''' | Some s \<Rightarrow> s))"

section \<open>The delta of a batch\<close>

definition new_delta :: "time \<Rightarrow> person_delta" where
  "new_delta t = \<lparr>setProps = Map.empty, onceProps = Map.empty, setTS = Map.empty, onceTS = Map.empty,
     email = '''', name = '''', emailTS = zero_time, nameTS = zero_time, firstSeen = t, lastSeen = t\<rparr>"

definition set_wins :: "person_delta \<Rightarrow> time \<Rightarrow> string \<Rightarrow> bool" where
  "set_wins d t k = (case setTS d k of None \<Rightarrow> True | Some prev \<Rightarrow> \<not> t < prev)"

definition once_wins :: "person_delta \<Rightarrow> time \<Rightarrow> string \<Rightarrow> bool" where
  "once_wins d t k = (case onceTS d k of None \<Rightarrow> True | Some prev \<Rightarrow> t < prev)"

definition fold_event :: "event_props \<Rightarrow> time \<Rightarrow> string \<Rightarrow> string \<Rightarrow> person_delta \<Rightarrow> person_delta" where
  "fold_event p t emailTrait nameTrait d =
     \<lparr>setProps = (\<lambda>k. if map_of (p_Set p) k \<noteq> None \<and> set_wins d t k then map_of (p_Set p) k else setProps d k),
      onceProps = (\<lambda>k. if map_of (p_SetOnce p) k \<noteq> None \<and> once_wins d t k then map_of (p_SetOnce p) k else onceProps d k),
      setTS = (\<lambda>k. if map_of (p_Set p) k \<noteq> None \<and> set_wins d t k then Some t else setTS d k),
      onceTS = (\<lambda>k. if map_of (p_SetOnce p) k \<noteq> None \<and> once_wins d t k then Some t else onceTS d k),
      email = (if emailTrait \<noteq> '''' \<and> (email d = '''' \<or> \<not> t < emailTS d) then emailTrait else email d),
      name = (if nameTrait \<noteq> '''' \<and> (name d = '''' \<or> \<not> t < nameTS d) then nameTrait else name d),
      emailTS = (if emailTrait \<noteq> '''' \<and> (email d = '''' \<or> \<not> t < emailTS d) then t else emailTS d),
      nameTS = (if nameTrait \<noteq> '''' \<and> (name d = '''' \<or> \<not> t < nameTS d) then t else nameTS d),
      firstSeen = (if t < firstSeen d then t else firstSeen d),
      lastSeen = (if t > lastSeen d then t else lastSeen d)\<rparr>"

type_synonym deltas = "string \<times> string \<rightharpoonup> person_delta"

definition extract_event ::
  "(string \<Rightarrow> event_props) \<Rightarrow> (string \<Rightarrow> string option) \<Rightarrow> (string \<Rightarrow> string \<Rightarrow> string) \<Rightarrow>
     person_event \<Rightarrow> deltas \<Rightarrow> deltas" where
  "extract_event decode unquote resolve e out =
     (if e_DistinctID e = '''' \<or> e_ProjectID e = '''' then out
      else
        let p = decode (e_Properties e);
            emailTrait = firstNonEmpty (p_Email p) (stringTrait unquote (map_of (p_Set p)) ''email'');
            nameTrait = firstNonEmpty (p_Name p) (stringTrait unquote (map_of (p_Set p)) ''name'')
        in if length (p_Set p) = 0 \<and> length (p_SetOnce p) = 0 \<and> emailTrait = '''' \<and> nameTrait = '''' then out
           else
             let key = (e_ProjectID e, resolve (e_ProjectID e) (e_DistinctID e));
                 d = (case out key of None \<Rightarrow> new_delta (e_Timestamp e) | Some d \<Rightarrow> d)
             in out(key \<mapsto> fold_event p (e_Timestamp e) emailTrait nameTrait d))"

definition extractPersonDeltas ::
  "(string \<Rightarrow> event_props) \<Rightarrow> (string \<Rightarrow> string option) \<Rightarrow> (string \<Rightarrow> string \<Rightarrow> string) \<Rightarrow>
     person_event list \<Rightarrow> deltas" where
  "extractPersonDeltas decode unquote resolve events =
     fold (extract_event decode unquote resolve) events Map.empty"

section \<open>The merge\<close>

definition fresh :: "time \<Rightarrow> person_delta \<Rightarrow> time \<Rightarrow> bool" where
  "fresh watermark d ts =
     (let ts = (if ts = zero_time then lastSeen d else ts)
      in watermark = zero_time \<or> \<not> ts < watermark)"

definition ts_of :: "(string \<rightharpoonup> time) \<Rightarrow> string \<Rightarrow> time" where
  "ts_of m k = (case m k of None \<Rightarrow> zero_time | Some t \<Rightarrow> t)"

definition empty_row :: person_row where
  "empty_row = \<lparr>SetProps = Map.empty, OnceProps = Map.empty, Email = '''', Name = '''',
     FirstSeen = zero_time, LastSeen = zero_time\<rparr>"

definition mergePersonDelta :: "person_row option \<Rightarrow> person_delta \<Rightarrow> person_row" where
  "mergePersonDelta existing d =
     (let m = (case existing of None \<Rightarrow> empty_row | Some r \<Rightarrow> r);
          watermark = (case existing of None \<Rightarrow> zero_time | Some r \<Rightarrow> LastSeen r)
      in \<lparr>SetProps = (\<lambda>k. case setProps d k of
              None \<Rightarrow> SetProps m k
            | Some v \<Rightarrow> if SetProps m k = None \<or> fresh watermark d (ts_of (setTS d) k) then Some v
                        else SetProps m k),
          OnceProps = (\<lambda>k. case onceProps d k of
              None \<Rightarrow> OnceProps m k
            | Some v \<Rightarrow> if OnceProps m k = None then Some v else OnceProps m k),
          Email = (if email d \<noteq> '''' \<and> (Email m = '''' \<or> fresh watermark d (emailTS d))
                   then email d else Email m),
          Name = (if name d \<noteq> '''' \<and> (Name m = '''' \<or> fresh watermark d (nameTS d))
                  then name d else Name m),
          FirstSeen = (if FirstSeen m = zero_time \<or> (firstSeen d \<noteq> zero_time \<and> firstSeen d < FirstSeen m)
                       then firstSeen d else FirstSeen m),
          LastSeen = (if lastSeen d > LastSeen m then lastSeen d else LastSeen m)\<rparr>)"

text \<open>\<open>PersonProfile\<close> answers the stored maps combined, \<open>$set\<close> over \<open>$set_once\<close>.\<close>

definition PersonProfile :: "person_row option \<Rightarrow> traits" where
  "PersonProfile p = (case p of None \<Rightarrow> Map.empty | Some r \<Rightarrow> OnceProps r ++ SetProps r)"

section \<open>Lemmas\<close>

lemma merge_fields [simp]:
  "LastSeen (mergePersonDelta e d) =
     max (case e of None \<Rightarrow> zero_time | Some r \<Rightarrow> LastSeen r) (lastSeen d)"
  by (auto simp: mergePersonDelta_def Let_def empty_row_def max_def split: option.splits)

lemma merge_props:
  "SetProps (mergePersonDelta e d) k =
     (case setProps d k of None \<Rightarrow> SetProps (case e of None \<Rightarrow> empty_row | Some r \<Rightarrow> r) k
      | Some v \<Rightarrow> if SetProps (case e of None \<Rightarrow> empty_row | Some r \<Rightarrow> r) k = None \<or>
            fresh (case e of None \<Rightarrow> zero_time | Some r \<Rightarrow> LastSeen r) d (ts_of (setTS d) k) then Some v
          else SetProps (case e of None \<Rightarrow> empty_row | Some r \<Rightarrow> r) k)"
  "Email (mergePersonDelta e d) =
     (if email d \<noteq> '''' \<and> (Email (case e of None \<Rightarrow> empty_row | Some r \<Rightarrow> r) = '''' \<or>
         fresh (case e of None \<Rightarrow> zero_time | Some r \<Rightarrow> LastSeen r) d (emailTS d)) then email d
      else Email (case e of None \<Rightarrow> empty_row | Some r \<Rightarrow> r))"
  "Name (mergePersonDelta e d) =
     (if name d \<noteq> '''' \<and> (Name (case e of None \<Rightarrow> empty_row | Some r \<Rightarrow> r) = '''' \<or>
         fresh (case e of None \<Rightarrow> zero_time | Some r \<Rightarrow> LastSeen r) d (nameTS d)) then name d
      else Name (case e of None \<Rightarrow> empty_row | Some r \<Rightarrow> r))"
  "OnceProps (mergePersonDelta e d) k =
     (case onceProps d k of None \<Rightarrow> OnceProps (case e of None \<Rightarrow> empty_row | Some r \<Rightarrow> r) k
      | Some v \<Rightarrow> if OnceProps (case e of None \<Rightarrow> empty_row | Some r \<Rightarrow> r) k = None then Some v
          else OnceProps (case e of None \<Rightarrow> empty_row | Some r \<Rightarrow> r) k)"
  "FirstSeen (mergePersonDelta e d) =
     (if FirstSeen (case e of None \<Rightarrow> empty_row | Some r \<Rightarrow> r) = zero_time \<or> (firstSeen d \<noteq> zero_time \<and>
         firstSeen d < FirstSeen (case e of None \<Rightarrow> empty_row | Some r \<Rightarrow> r)) then firstSeen d
      else FirstSeen (case e of None \<Rightarrow> empty_row | Some r \<Rightarrow> r))"
  by (simp_all add: mergePersonDelta_def Let_def)

lemma fresh_again:
  assumes "fresh (max w (lastSeen d)) d ts" "zero_time \<le> w"
  shows "fresh w d ts"
  using assms by (auto simp: fresh_def Let_def max_def split: if_splits)

text \<open>The delta of a person collects the events of its key: the newest timestamp per
  \<open>$set\<close> key, the oldest per \<open>$set_once\<close> key.\<close>

definition contributes ::
  "(string \<Rightarrow> event_props) \<Rightarrow> (string \<Rightarrow> string \<Rightarrow> string) \<Rightarrow> string \<times> string \<Rightarrow> string \<Rightarrow>
     person_event \<Rightarrow> bool" where
  "contributes decode resolve key k e \<longleftrightarrow> e_DistinctID e \<noteq> '''' \<and> e_ProjectID e \<noteq> '''' \<and>
     (e_ProjectID e, resolve (e_ProjectID e) (e_DistinctID e)) = key \<and>
     map_of (p_Set (decode (e_Properties e))) k \<noteq> None"

definition set_latest ::
  "(string \<Rightarrow> event_props) \<Rightarrow> (string \<Rightarrow> string \<Rightarrow> string) \<Rightarrow> string \<times> string \<Rightarrow> string \<Rightarrow>
     person_event list \<Rightarrow> person_delta option \<Rightarrow> bool" where
  "set_latest decode resolve key k es d =
     (case (case d of None \<Rightarrow> None | Some d \<Rightarrow> setTS d k) of
        None \<Rightarrow> (case d of None \<Rightarrow> True | Some d \<Rightarrow> setProps d k = None) \<and>
                (\<forall>e \<in> set es. \<not> contributes decode resolve key k e)
      | Some ts \<Rightarrow>
          (\<exists>e \<in> set es. contributes decode resolve key k e \<and> e_Timestamp e = ts \<and>
             setProps (the d) k = map_of (p_Set (decode (e_Properties e))) k) \<and>
          (\<forall>e \<in> set es. contributes decode resolve key k e \<longrightarrow> e_Timestamp e \<le> ts))"

lemma set_latest_step:
  assumes "set_latest decode resolve key k es (out key)"
  shows "set_latest decode resolve key k (es @ [e]) (extract_event decode unquote resolve e out key)"
proof (cases "contributes decode resolve key k e")
  case True
  then have key: "key = (e_ProjectID e, resolve (e_ProjectID e) (e_DistinctID e))"
    and set: "map_of (p_Set (decode (e_Properties e))) k \<noteq> None" by (auto simp: contributes_def)
  then have "p_Set (decode (e_Properties e)) \<noteq> []" by auto
  with True have step: "extract_event decode unquote resolve e out key =
      Some (fold_event (decode (e_Properties e)) (e_Timestamp e)
        (firstNonEmpty (p_Email (decode (e_Properties e)))
          (stringTrait unquote (map_of (p_Set (decode (e_Properties e)))) ''email''))
        (firstNonEmpty (p_Name (decode (e_Properties e)))
          (stringTrait unquote (map_of (p_Set (decode (e_Properties e)))) ''name''))
        (case out key of None \<Rightarrow> new_delta (e_Timestamp e) | Some d \<Rightarrow> d))"
    by (auto simp: extract_event_def contributes_def key Let_def)
  from assms set True show ?thesis
    unfolding step set_latest_def
    by (auto simp: fold_event_def set_wins_def new_delta_def not_less split: option.splits
        intro: order_trans less_imp_le)
next
  case False
  then have "set_latest decode resolve key k (es @ [e]) (out key)"
    using assms by (auto simp: set_latest_def split: option.splits)
  moreover have "set_latest decode resolve key k (es @ [e])
      (Some (fold_event p t a b (case out key of None \<Rightarrow> new_delta t' | Some d \<Rightarrow> d)))"
    if "map_of (p_Set p) k = None" for p t a b t'
    using that False assms
    by (auto simp: set_latest_def fold_event_def new_delta_def split: option.splits)
  ultimately show ?thesis
    using False by (auto simp: extract_event_def contributes_def Let_def)
qed

lemma set_latest_run:
  "set_latest decode resolve key k es (out key) \<Longrightarrow>
     set_latest decode resolve key k (es @ fs) (fold (extract_event decode unquote resolve) fs out key)"
proof (induction fs arbitrary: es out)
  case (Cons f fs)
  from set_latest_step [of decode resolve key k es out, OF Cons.prems, of f unquote] Cons.IH
  show ?case by fastforce
qed simp

section \<open>Properties\<close>

text \<open>Folding the same batch twice changes nothing. A redelivered batch merges into the
  profile it already produced as a no-op, for any stored profile not last seen before year 1.\<close>

theorem person_merge_idempotent:
  assumes "\<forall>r. existing = Some r \<longrightarrow> zero_time \<le> LastSeen r"
  shows "mergePersonDelta (Some (mergePersonDelta existing d)) d = mergePersonDelta existing d"
proof -
  let ?m = "mergePersonDelta existing d"
  let ?w = "case existing of None \<Rightarrow> zero_time | Some r \<Rightarrow> LastSeen r"
  have w: "zero_time \<le> ?w" using assms by (auto split: option.splits)
  have f: "fresh ?w d ts" if "fresh (max ?w (lastSeen d)) d ts" for ts
    using that by (rule fresh_again) (rule w)
  have "SetProps (mergePersonDelta (Some ?m) d) k = SetProps ?m k" for k
    unfolding merge_props(1) [of "Some ?m"] option.case merge_props(1) [of existing d k]
    by (cases "setProps d k") (auto dest: f)
  then have "SetProps (mergePersonDelta (Some ?m) d) = SetProps ?m" by (rule ext)
  moreover have "OnceProps (mergePersonDelta (Some ?m) d) k = OnceProps ?m k" for k
    unfolding merge_props(4) [of "Some ?m"] option.case merge_props(4) [of existing d k]
    by (cases "onceProps d k") auto
  then have "OnceProps (mergePersonDelta (Some ?m) d) = OnceProps ?m" by (rule ext)
  moreover have "Email (mergePersonDelta (Some ?m) d) = Email ?m"
    unfolding merge_props(2) [of "Some ?m"] option.case merge_props(2) [of existing] by (auto dest: f)
  moreover have "Name (mergePersonDelta (Some ?m) d) = Name ?m"
    unfolding merge_props(3) [of "Some ?m"] option.case merge_props(3) [of existing] by (auto dest: f)
  moreover have "FirstSeen (mergePersonDelta (Some ?m) d) = FirstSeen ?m"
    unfolding merge_props(5) [of "Some ?m"] option.case merge_props(5) [of existing] by auto
  moreover have "LastSeen (mergePersonDelta (Some ?m) d) = LastSeen ?m" by simp
  ultimately show ?thesis by (simp add: person_row.equality)
qed

definition wit_delta :: person_delta where
  "wit_delta = (new_delta 7)\<lparr>setProps := [''plan'' \<mapsto> ''pro''], setTS := [''plan'' \<mapsto> 7], email := ''a@b''\<rparr>"

theorem person_merge_idempotent_witness:
  "mergePersonDelta (Some (mergePersonDelta (Some (empty_row\<lparr>LastSeen := 5\<rparr>)) wit_delta)) wit_delta
     = mergePersonDelta (Some (empty_row\<lparr>LastSeen := 5\<rparr>)) wit_delta"
  by (rule person_merge_idempotent) (simp add: zero_time_def)



text \<open>Within a batch the newest event wins a \<open>$set\<close> key. The delta of a person holds, for
  each key, the value of an event of that person with the greatest timestamp among those that
  set the key, and no value when none does.\<close>

theorem person_delta_latest:
  assumes "extractPersonDeltas decode unquote resolve es key = Some d"
  shows "case setTS d k of
      None \<Rightarrow> setProps d k = None \<and> (\<forall>e \<in> set es. \<not> contributes decode resolve key k e)
    | Some ts \<Rightarrow> (\<exists>e \<in> set es. contributes decode resolve key k e \<and> e_Timestamp e = ts \<and>
          setProps d k = map_of (p_Set (decode (e_Properties e))) k) \<and>
        (\<forall>e \<in> set es. contributes decode resolve key k e \<longrightarrow> e_Timestamp e \<le> ts)"
proof -
  have "set_latest decode resolve key k [] (Map.empty key)" by (simp add: set_latest_def)
  then have "set_latest decode resolve key k es (Some d)"
    using set_latest_run [of decode resolve key k "[]" Map.empty es unquote] assms
    by (simp only: extractPersonDeltas_def append_Nil)
  then show ?thesis by (auto simp: set_latest_def split: option.splits)
qed

definition wit_decode :: "string \<Rightarrow> event_props" where
  "wit_decode s = \<lparr>p_Set = [(''plan'', s)], p_SetOnce = [], p_Email = '''', p_Name = ''''\<rparr>"

definition wit_event :: "string \<Rightarrow> time \<Rightarrow> person_event" where
  "wit_event s t = \<lparr>e_ProjectID = ''p'', e_DistinctID = ''u'', e_Properties = s, e_Timestamp = t\<rparr>"

theorem person_delta_latest_witness:
  "\<exists>d ts. extractPersonDeltas wit_decode (\<lambda>_. None) (\<lambda>_ i. i) [wit_event ''pro'' 8, wit_event ''free'' 3]
       (''p'', ''u'') = Some d \<and> setTS d ''plan'' = Some ts \<and>
     (\<forall>e \<in> set [wit_event ''pro'' 8, wit_event ''free'' 3].
        contributes wit_decode (\<lambda>_ i. i) (''p'', ''u'') ''plan'' e \<longrightarrow> e_Timestamp e \<le> ts)"
proof -
  let ?es = "[wit_event ''pro'' 8, wit_event ''free'' 3]"
  obtain d where d: "extractPersonDeltas wit_decode (\<lambda>_. None) (\<lambda>_ i. i) ?es (''p'', ''u'') = Some d"
    "setTS d ''plan'' \<noteq> None"
    by (simp add: extractPersonDeltas_def extract_event_def wit_event_def wit_decode_def Let_def
        fold_event_def new_delta_def set_wins_def)
  from person_delta_latest [OF d(1), of "''plan''"] d show ?thesis by (auto split: option.splits)
qed

end
