(* ===== verification/Replay.thy ===== *)
theory Replay
  imports Position
begin

text \<open>
  The blue-green readiness gate (\<open>internal/dataplane/ingest/readiness.go\<close>): the NATS
  subject algebra that decides whether a stream carries a consumer's subjects, the pure
  predicate \<open>EvaluateReplay\<close>, the two latches a boot sets (a retention gap remembered
  beside the file, a store gap remembered inside it) and \<open>ReplayStatus\<close>, which combines
  them. Sequences are 64-bit words, so the arithmetic wraps as Go's does.
\<close>

section \<open>Subjects\<close>

fun match_tokens :: "string list \<Rightarrow> string list \<Rightarrow> bool" where
  "match_tokens [] st = (st = [])"
| "match_tokens (p # pt) st =
     (if p = ''>'' then st \<noteq> []
      else (case st of
              [] \<Rightarrow> False
            | t # ts \<Rightarrow> if p \<noteq> ''*'' \<and> p \<noteq> t then False else match_tokens pt ts))"

definition subjectMatches :: "string \<Rightarrow> string \<Rightarrow> bool" where
  "subjectMatches pattern subject =
     match_tokens (str_split CHR ''.'' pattern) (str_split CHR ''.'' subject)"

definition subjectLiteral :: "string \<Rightarrow> bool" where
  "subjectLiteral subject \<longleftrightarrow> \<not> list_ex (\<lambda>c. c = CHR ''*'' \<or> c = CHR ''>'') subject"

definition filterCovers :: "string list \<Rightarrow> string \<Rightarrow> bool" where
  "filterCovers filterSubjects stream = list_ex (\<lambda>f. subjectMatches f stream) filterSubjects"

fun tokenLengthRange_from :: "nat \<Rightarrow> string list \<Rightarrow> nat \<times> nat" where
  "tokenLengthRange_from i [] = (i, i)"
| "tokenLengthRange_from i (t # ts) =
     (if t = ''>'' then (i + 1, 0) else tokenLengthRange_from (Suc i) ts)"

definition tokenLengthRange :: "string list \<Rightarrow> nat \<times> nat" where
  "tokenLengthRange tokens = tokenLengthRange_from 0 tokens"

definition disjointLengths :: "string list \<Rightarrow> string list \<Rightarrow> bool" where
  "disjointLengths a b =
     (let (amin, amax) = tokenLengthRange a; (bmin, bmax) = tokenLengthRange b
      in if amax \<noteq> 0 \<and> bmin > amax then True
         else if bmax \<noteq> 0 \<and> amin > bmax then True
         else False)"

fun disjoint_tokens :: "string list \<Rightarrow> string list \<Rightarrow> bool" where
  "disjoint_tokens (a # at) (b # bt) =
     (if a = ''>'' \<or> b = ''>'' then False
      else if a = b \<or> a = ''*'' \<or> b = ''*'' then disjoint_tokens at bt
      else True)"
| "disjoint_tokens _ _ = False"

definition subjectsDisjoint :: "string \<Rightarrow> string \<Rightarrow> bool" where
  "subjectsDisjoint a b =
     (let at = str_split CHR ''.'' a; bt = str_split CHR ''.'' b
      in if disjointLengths at bt then True else disjoint_tokens at bt)"

primrec filterCarried :: "string list \<Rightarrow> string \<Rightarrow> bool" where
  "filterCarried [] flt = False"
| "filterCarried (s # ss) flt =
     (if subjectLiteral flt then
        (if subjectMatches s flt then True else filterCarried ss flt)
      else if \<not> subjectLiteral s then
        (if \<not> subjectsDisjoint s flt then True else filterCarried ss flt)
      else if subjectMatches flt s then True
      else filterCarried ss flt)"

definition streamCarries :: "string list \<Rightarrow> string list \<Rightarrow> bool \<times> bool" where
  "streamCarries streamSubjects filterSubjects =
     (if filterSubjects = [] then (True, True)
      else if list_ex (\<lambda>f. \<not> filterCarried streamSubjects f) filterSubjects then (False, False)
      else if list_ex (\<lambda>s. \<not> subjectLiteral s \<or> \<not> filterCovers filterSubjects s) streamSubjects
      then (True, False)
      else (True, True))"

section \<open>The verdict\<close>

record replay_verdict =
  Ready :: bool
  Applied :: u64
  Head :: u64
  First :: u64
  Missing :: u64
  Pending :: u64
  AckPending :: int
  Reason :: string

definition ReplayCaughtUp :: string where "ReplayCaughtUp = ''caught-up''"
definition ReplayBehind :: string where "ReplayBehind = ''replaying''"
definition ReplayPurgedGap :: string where "ReplayPurgedGap = ''purged-gap''"
definition ReplayStreamMismatch :: string where "ReplayStreamMismatch = ''stream-mismatch''"
definition ReplayUnverified :: string where "ReplayUnverified = ''boot-unverified''"
definition ReplayStoreBehind :: string where "ReplayStoreBehind = ''store-behind''"

lemmas reason_defs = ReplayCaughtUp_def ReplayBehind_def ReplayPurgedGap_def
  ReplayStreamMismatch_def ReplayUnverified_def ReplayStoreBehind_def

definition EvaluateReplay ::
  "u64 \<Rightarrow> u64 \<Rightarrow> u64 \<Rightarrow> u64 \<Rightarrow> int \<Rightarrow> bool \<Rightarrow> bool \<Rightarrow> replay_verdict" where
  "EvaluateReplay applied head first pending ackPending wired dedicated =
     (let v = \<lparr>Ready = False, Applied = applied, Head = head, First = first, Missing = 0,
               Pending = pending, AckPending = ackPending, Reason = ''''\<rparr>
      in if \<not> wired then v\<lparr>Reason := ReplayStreamMismatch\<rparr>
         else if dedicated \<and> applied > 0 \<and> first > applied + 1 then
           v\<lparr>Missing := first - applied - 1, Reason := ReplayPurgedGap\<rparr>
         else if dedicated \<and> applied = 0 \<and> head > 0 \<and> first > head then
           v\<lparr>Missing := head, Reason := ReplayPurgedGap\<rparr>
         else if (dedicated \<and> applied \<ge> head) \<or> pending = 0 then
           v\<lparr>Ready := True, Reason := ReplayCaughtUp\<rparr>
         else v\<lparr>Reason := ReplayBehind\<rparr>)"

section \<open>What the broker reports and what a boot remembers\<close>

record consumer_info =
  AckFloorStream :: u64
  AckFloorConsumer :: u64
  NumPending :: u64
  NumAckPending :: int
  FilterSubjects :: "string list"
  FilterSubject :: string

record stream_info =
  Subjects :: "string list"
  FirstSeq :: u64
  LastSeq :: u64

definition consumerFilterSubjects :: "consumer_info \<Rightarrow> string list" where
  "consumerFilterSubjects c =
     (if length (FilterSubjects c) > 0 then FilterSubjects c
      else if FilterSubject c \<noteq> '''' then [FilterSubject c]
      else [])"

record stream_set =
  LossMarkerPath :: string
  Durable :: string
  HasPositions :: bool
  bootGap :: u64
  storeGap :: u64
  bootUnverified :: bool

definition durableName :: "stream_set \<Rightarrow> string" where
  "durableName ss = (if Durable ss = '''' then ''agentray-ingestors'' else Durable ss)"

text \<open>The loss marker beside the DuckDB file: absent, present but not readable (an I/O
  error other than not-exist, or malformed JSON), or a recorded loss.\<close>

datatype marker = NoMarker | UnreadableMarker | LossMarker u64

definition readLatch :: "stream_set \<Rightarrow> marker \<Rightarrow> u64 \<times> bool \<times> bool" where
  "readLatch ss mk =
     (if LossMarkerPath ss = '''' then (0, False, False)
      else (case mk of
              NoMarker \<Rightarrow> (0, False, False)
            | UnreadableMarker \<Rightarrow> (0, False, True)
            | LossMarker missing \<Rightarrow> (missing, missing > 0, False)))"

text \<open>\<open>written\<close> is whether the temporary file was created, written, synced, closed and
  renamed; a failure before the rename leaves the marker as it was.\<close>

definition recordLatch :: "stream_set \<Rightarrow> bool \<Rightarrow> u64 \<Rightarrow> marker \<Rightarrow> marker" where
  "recordLatch ss written missing mk =
     (if LossMarkerPath ss = '''' then mk
      else if written then LossMarker missing
      else mk)"

definition boot_missing :: "consumer_info \<Rightarrow> stream_info \<Rightarrow> u64" where
  "boot_missing c s =
     (if AckFloorStream c = 0 then
        (if LastSeq s > 0 \<and> FirstSeq s > LastSeq s then LastSeq s else 0)
      else if FirstSeq s > AckFloorStream c + 1 then FirstSeq s - AckFloorStream c - 1
      else 0)"

definition latchBootGap ::
  "bool \<Rightarrow> consumer_info \<Rightarrow> stream_info \<Rightarrow> stream_set \<times> marker \<Rightarrow> stream_set \<times> marker" where
  "latchBootGap written c s w =
     (let (ss, mk) = w; (missing, found, unreadable) = readLatch ss mk
      in if unreadable then (ss\<lparr>bootUnverified := True\<rparr>, mk)
         else if found then (ss\<lparr>bootGap := missing\<rparr>, mk)
         else if \<not> snd (streamCarries (Subjects s) (consumerFilterSubjects c)) then (ss, mk)
         else let missing = boot_missing c s
              in if missing > 0
                 then (ss\<lparr>bootGap := missing\<rparr>, recordLatch ss written missing mk)
                 else (ss, mk))"

text \<open>The boot sample retries both reads, at most \<open>bootSampleAttempts\<close> times.\<close>

datatype sample_error = ConsumerInfoErr | StreamInfoErr

definition bootSampleAttempts :: nat where "bootSampleAttempts = 3"

fun boot_sample_from ::
  "nat \<Rightarrow> (nat \<Rightarrow> consumer_info option) \<Rightarrow> (nat \<Rightarrow> stream_info option) \<Rightarrow> nat \<Rightarrow>
     sample_error + (consumer_info \<times> stream_info)" where
  "boot_sample_from fuel readc reads attempt =
     (let r = (case readc attempt of
                 None \<Rightarrow> Inl ConsumerInfoErr
               | Some c \<Rightarrow> (case reads attempt of None \<Rightarrow> Inl StreamInfoErr | Some s \<Rightarrow> Inr (c, s)))
      in case r of
           Inr cs \<Rightarrow> Inr cs
         | Inl e \<Rightarrow>
             if attempt \<ge> bootSampleAttempts then Inl e
             else (case fuel of 0 \<Rightarrow> Inl e | Suc f \<Rightarrow> boot_sample_from f readc reads (Suc attempt)))"

declare boot_sample_from.simps [simp del]

definition bootSample ::
  "(nat \<Rightarrow> consumer_info option) \<Rightarrow> (nat \<Rightarrow> stream_info option) \<Rightarrow>
     sample_error + (consumer_info \<times> stream_info)" where
  "bootSample readc reads = boot_sample_from bootSampleAttempts readc reads 1"

text \<open>\<open>bindStore\<close>: \<open>read_ok\<close>, \<open>adopt_ok\<close> and \<open>refuse_ok\<close> say whether the three
  store calls succeed; a failed write leaves the table as it was.\<close>

datatype bind_error = PositionUnreadable | AdoptFailed | RefuseFailed

record bind_io =
  read_ok :: bool
  adopt_ok :: bool
  refuse_ok :: bool

definition bindStore ::
  "bind_io \<Rightarrow> consumer_info \<Rightarrow> bool \<Rightarrow> stream_set \<times> positions \<Rightarrow>
     bind_error option \<times> stream_set \<times> positions" where
  "bindStore io c has_ingest w =
     (let (ss, ps) = w in
      if \<not> HasPositions ss then (None, ss, ps)
      else
        let durable = durableName ss; floor = AckFloorConsumer c;
            pos = AppliedPosition ps has_ingest durable
        in if \<not> read_ok io then (Some PositionUnreadable, ss, ps)
           else if RefusedMissing pos > 0 then (None, ss\<lparr>storeGap := RefusedMissing pos\<rparr>, ps)
           else if floor \<le> Seq pos then (None, ss, ps)
           else if \<not> Known pos \<and> HasIngest pos then
             (if adopt_ok io then (None, ss, AdoptPosition durable floor ps)
              else (Some AdoptFailed, ss, ps))
           else
             let missing = floor - Seq pos; ss' = ss\<lparr>storeGap := missing\<rparr>
             in if refuse_ok io then (None, ss', RefusePosition durable missing ps)
                else (Some RefuseFailed, ss', ps))"

datatype status_error = StatusStreamInfo | StatusConsumer | StatusConsumerInfo

definition ReplayStatus ::
  "stream_info option \<Rightarrow> bool \<Rightarrow> consumer_info option \<Rightarrow> stream_set \<Rightarrow>
     status_error + replay_verdict" where
  "ReplayStatus sread consumer_ok cread ss =
     (case sread of
        None \<Rightarrow> Inl StatusStreamInfo
      | Some sinfo \<Rightarrow>
          if \<not> consumer_ok then Inl StatusConsumer
          else (case cread of
              None \<Rightarrow> Inl StatusConsumerInfo
            | Some cinfo \<Rightarrow>
                let (wired, dedicated) = streamCarries (Subjects sinfo) (consumerFilterSubjects cinfo);
                    v = EvaluateReplay (AckFloorStream cinfo) (LastSeq sinfo) (FirstSeq sinfo)
                          (NumPending cinfo) (NumAckPending cinfo) wired dedicated
                in Inr (if \<not> Ready v then v
                        else if bootGap ss > 0 then
                          v\<lparr>Ready := False, Reason := ReplayPurgedGap,
                            Missing := (if bootGap ss > Missing v then bootGap ss else Missing v)\<rparr>
                        else if storeGap ss > 0 then
                          v\<lparr>Ready := False, Reason := ReplayStoreBehind,
                            Missing := (if storeGap ss > Missing v then storeGap ss else Missing v)\<rparr>
                        else if bootUnverified ss then
                          v\<lparr>Ready := False, Reason := ReplayUnverified\<rparr>
                        else v)))"

section \<open>Lemmas on subjects\<close>

lemma range_from_bounds:
  assumes "match_tokens pt st" "tokenLengthRange_from i pt = (mn, mx)"
  shows "mn \<le> i + length st \<and> (mx \<noteq> 0 \<longrightarrow> i + length st \<le> mx)"
  using assms
proof (induction pt st arbitrary: i rule: match_tokens.induct)
  case (2 p pt st)
  then show ?case
    by (cases st) (fastforce split: if_splits)+
qed simp

lemma range_bounds:
  "match_tokens pt st \<Longrightarrow> tokenLengthRange pt = (mn, mx) \<Longrightarrow>
     mn \<le> length st \<and> (mx \<noteq> 0 \<longrightarrow> length st \<le> mx)"
  using range_from_bounds [of pt st 0] by (simp add: tokenLengthRange_def)

lemma disjointLengths_sound:
  "disjointLengths a b \<Longrightarrow> \<not> (match_tokens a st \<and> match_tokens b st)"
  by (cases "tokenLengthRange a"; cases "tokenLengthRange b")
    (fastforce simp: disjointLengths_def split: if_splits dest: range_bounds)

lemma disjoint_tokens_sound:
  "disjoint_tokens a b \<Longrightarrow> match_tokens a st \<Longrightarrow> match_tokens b st \<Longrightarrow> False"
  by (induction a b arbitrary: st rule: disjoint_tokens.induct)
    (auto split: if_splits list.splits)

lemma subjectsDisjoint_sound:
  "subjectsDisjoint a b \<Longrightarrow> \<not> (subjectMatches a x \<and> subjectMatches b x)"
  by (auto simp: subjectsDisjoint_def subjectMatches_def Let_def split: if_splits
      dest: disjointLengths_sound disjoint_tokens_sound)

lemma match_tokens_literal:
  "''*'' \<notin> set pt \<Longrightarrow> ''>'' \<notin> set pt \<Longrightarrow> match_tokens pt st \<longleftrightarrow> st = pt"
  by (induction pt st rule: match_tokens.induct) (auto split: list.splits)

lemma str_split_inj: "str_split sep a = str_split sep b \<Longrightarrow> a = b"
  by (metis str_join_split)

lemma str_split_chars: "p \<in> set (str_split sep s) \<Longrightarrow> set p \<subseteq> set s"
  by (induction s arbitrary: p) (fastforce split: if_splits list.splits)+

lemma subjectLiteral_matches:
  assumes "subjectLiteral f"
  shows "subjectMatches f x \<longleftrightarrow> x = f"
proof -
  have "''*'' \<notin> set (str_split CHR ''.'' f)" "''>'' \<notin> set (str_split CHR ''.'' f)"
    using assms str_split_chars by (fastforce simp: subjectLiteral_def list_ex_iff)+
  then show ?thesis
    by (auto simp: subjectMatches_def match_tokens_literal intro: str_split_inj)
qed

lemma filterCarried_sound:
  "\<not> filterCarried ss f \<Longrightarrow> s \<in> set ss \<Longrightarrow> subjectMatches f x \<Longrightarrow> \<not> subjectMatches s x"
proof (induction ss)
  case (Cons t ss)
  show ?case
  proof (cases "s = t")
    case True
    with Cons.prems show ?thesis
      by (auto simp: subjectLiteral_matches dest: subjectsDisjoint_sound split: if_splits)
  next
    case False
    with Cons show ?thesis by (auto split: if_splits)
  qed
qed simp

lemma streamCarries_cases:
  assumes "streamCarries ss fs = (wired, dedicated)"
  shows "wired \<or> (\<exists>f \<in> set fs. \<not> filterCarried ss f)"
    and "dedicated \<Longrightarrow> wired \<and> (fs = [] \<or> (\<forall>s \<in> set ss. subjectLiteral s \<and> filterCovers fs s))"
  using assms by (auto simp: streamCarries_def list_ex_iff split: if_splits)

section \<open>Lemmas on the verdict and the latches\<close>

lemma EvaluateReplay_ready:
  "Ready (EvaluateReplay a h f p k w d) \<longleftrightarrow>
     w \<and> \<not> (d \<and> a > 0 \<and> f > a + 1) \<and> \<not> (d \<and> a = 0 \<and> h > 0 \<and> f > h) \<and> (d \<and> a \<ge> h \<or> p = 0)"
  by (auto simp: EvaluateReplay_def Let_def)

lemma ReplayStatus_ready:
  assumes "ReplayStatus sread ok cread ss = Inr v" "Ready v"
  obtains s c where "sread = Some s" "cread = Some c"
    "bootGap ss = 0" "storeGap ss = 0" "\<not> bootUnverified ss"
    "v = EvaluateReplay (AckFloorStream c) (LastSeq s) (FirstSeq s) (NumPending c) (NumAckPending c)
       (fst (streamCarries (Subjects s) (consumerFilterSubjects c)))
       (snd (streamCarries (Subjects s) (consumerFilterSubjects c)))"
  using assms
  by (auto simp: ReplayStatus_def Let_def word_gt_0 split: option.splits if_splits prod.splits)

lemma ReplayStatus_total:
  obtains v where "ReplayStatus (Some s) True (Some c) ss = Inr v"
proof -
  have "\<exists>v. ReplayStatus (Some s) True (Some c) ss = Inr v"
    by (simp add: ReplayStatus_def Let_def split: prod.split)
  with that show thesis by blast
qed

lemma durableName_not_empty [simp]: "durableName ss \<noteq> ''''"
  by (simp add: durableName_def)

lemma bindStore_covered:
  assumes "bindStore io c h (ss, ps) = (None, ss', ps')" "HasPositions ss" "storeGap ss' = 0"
  shows "AckFloorConsumer c \<le> pos_applied ps' (durableName ss) \<and> pos_refused ps' (durableName ss) = 0"
  using assms
  by (auto simp: bindStore_def Let_def advance_applied AdoptPosition_def word_gt_0 split: if_splits)

lemma bindStore_no_error:
  assumes "read_ok io" "adopt_ok io" "refuse_ok io"
  obtains ss' ps' where "bindStore io c h w = (None, ss', ps')"
proof -
  have "fst (bindStore io c h w) = None"
    using assms by (simp add: bindStore_def Let_def split: prod.split)
  with that show thesis by (metis prod.collapse)
qed

lemma bindStore_refusal_read:
  assumes "bindStore io c h (ss, ps) = (None, ss', ps')" "HasPositions ss"
    "pos_refused ps (durableName ss) \<noteq> 0"
  shows "storeGap ss' = pos_refused ps (durableName ss)"
  using assms by (auto simp: bindStore_def Let_def word_gt_0 split: if_splits)

lemma bindStore_gap_recorded:
  assumes "bindStore io c h (ss, ps) = (None, ss', ps')" "HasPositions ss"
    "pos_applied ps (durableName ss) < AckFloorConsumer c"
    "ps (durableName ss) \<noteq> None \<or> \<not> h"
  shows "pos_refused ps' (durableName ss) \<noteq> 0"
  using assms
  by (auto simp: bindStore_def Let_def refuse_refused word_gt_0 split: if_splits)

lemma latch_remembered:
  assumes "latchBootGap True c s (ss, mk) = (ss', mk')" "LossMarkerPath ss \<noteq> ''''"
    "bootGap ss = 0" "bootGap ss' \<noteq> 0"
  shows "mk' = LossMarker (bootGap ss')"
  using assms
  by (cases mk)
    (auto simp: latchBootGap_def readLatch_def recordLatch_def Let_def word_gt_0 split: if_splits)

lemma latch_reread:
  assumes "LossMarkerPath ss \<noteq> ''''" "m \<noteq> 0"
  shows "latchBootGap w c s (ss, LossMarker m) = (ss\<lparr>bootGap := m\<rparr>, LossMarker m)"
  using assms by (simp add: latchBootGap_def readLatch_def word_gt_0)

lemma boot_sample_enough:
  "attempt \<ge> 1 \<Longrightarrow> bootSampleAttempts \<le> attempt + fuel \<Longrightarrow>
     (\<exists>k c s. attempt \<le> k \<and> k \<le> bootSampleAttempts \<and> readc k = Some c \<and> reads k = Some s) \<Longrightarrow>
     \<exists>cs. boot_sample_from fuel readc reads attempt = Inr cs"
proof (induction fuel arbitrary: attempt)
  case 0
  then obtain c s where "readc attempt = Some c" "reads attempt = Some s"
    by (metis add_0_right le_antisym order_trans)
  then show ?case by (subst boot_sample_from.simps) simp
next
  case (Suc fuel)
  show ?case
  proof (cases "\<exists>c s. readc attempt = Some c \<and> reads attempt = Some s")
    case True
    then show ?thesis by (subst boot_sample_from.simps) auto
  next
    case False
    with Suc.prems obtain k c s where
      "attempt \<le> k" "k \<le> bootSampleAttempts" "readc k = Some c" "reads k = Some s" by blast
    moreover from this False have "Suc attempt \<le> k" by (cases "attempt = k") auto
    ultimately have "\<exists>k c s. Suc attempt \<le> k \<and> k \<le> bootSampleAttempts \<and> readc k = Some c \<and>
        reads k = Some s" and "attempt < bootSampleAttempts" by auto
    moreover from this have "\<exists>cs. boot_sample_from fuel readc reads (Suc attempt) = Inr cs"
      using Suc.IH [of "Suc attempt"] Suc.prems by simp
    ultimately show ?thesis
      by (subst boot_sample_from.simps) (auto split: option.splits)
  qed
qed

section \<open>Properties\<close>

text \<open>C35: the stream-wiring decision is sound. Not wired means that some filter of the
  consumer can never be delivered: no concrete subject is matched by that filter and by a
  subject of the stream. Dedicated means that the consumer is offered every concrete
  subject the stream carries, so its sequence space is the stream's.\<close>

theorem stream_carries_sound:
  assumes "streamCarries streamSubjects filterSubjects = (wired, dedicated)"
  shows "(\<not> wired \<longrightarrow> (\<exists>f \<in> set filterSubjects. \<forall>x. subjectMatches f x \<longrightarrow>
            (\<forall>s \<in> set streamSubjects. \<not> subjectMatches s x))) \<and>
         (dedicated \<longrightarrow> wired \<and> (filterSubjects = [] \<or>
            (\<forall>x. \<forall>s \<in> set streamSubjects. subjectMatches s x \<longrightarrow>
               (\<exists>f \<in> set filterSubjects. subjectMatches f x))))"
proof (intro conjI impI)
  assume "\<not> wired"
  with streamCarries_cases(1) [OF assms] obtain f where
    "f \<in> set filterSubjects" "\<not> filterCarried streamSubjects f" by blast
  then show "\<exists>f \<in> set filterSubjects. \<forall>x. subjectMatches f x \<longrightarrow>
      (\<forall>s \<in> set streamSubjects. \<not> subjectMatches s x)"
    using filterCarried_sound by blast
next
  assume dedicated
  with streamCarries_cases(2) [OF assms] have wired and
    cov: "filterSubjects = [] \<or>
      (\<forall>s \<in> set streamSubjects. subjectLiteral s \<and> filterCovers filterSubjects s)" by auto
  then show wired by blast
  show "filterSubjects = [] \<or> (\<forall>x. \<forall>s \<in> set streamSubjects. subjectMatches s x \<longrightarrow>
      (\<exists>f \<in> set filterSubjects. subjectMatches f x))"
    using cov by (auto simp: subjectLiteral_matches filterCovers_def list_ex_iff)
qed

theorem stream_carries_sound_witness:
  "streamCarries [''dev.events'', ''dev.rows''] [''prod.events''] = (False, False) \<and>
   (\<exists>f \<in> set [''prod.events'']. \<forall>x. subjectMatches f x \<longrightarrow>
      (\<forall>s \<in> set [''dev.events'', ''dev.rows'']. \<not> subjectMatches s x))"
proof -
  have "streamCarries [''dev.events'', ''dev.rows''] [''prod.events''] = (False, False)"
    by code_simp
  then show ?thesis using stream_carries_sound by blast
qed


definition wit_stream :: stream_info where
  "wit_stream = \<lparr>Subjects = [''e'', ''r''], FirstSeq = 4, LastSeq = 9\<rparr>"

definition wit_consumer :: consumer_info where
  "wit_consumer = \<lparr>AckFloorStream = 9, AckFloorConsumer = 12, NumPending = 0, NumAckPending = 0,
     FilterSubjects = [''e'', ''r''], FilterSubject = ''''\<rparr>"

definition wit_set :: stream_set where
  "wit_set = \<lparr>LossMarkerPath = ''/data/loss'', Durable = ''blue'', HasPositions = True, bootGap = 0,
     storeGap = 0, bootUnverified = False\<rparr>"

lemma wit_carries:
  "streamCarries (Subjects wit_stream) (consumerFilterSubjects wit_consumer) = (True, True)"
  by code_simp


text \<open>A boot whose store binding succeeds and latches nothing has a store whose own
  record reaches the durable's ack floor and carries no refusal: the floor's claim is the
  file's claim.\<close>

theorem bind_store_coherent:
  assumes "bindStore io c has_ingest (ss, ps) = (None, ss', ps')" and "HasPositions ss"
    and "storeGap ss' = 0"
  shows "AckFloorConsumer c \<le> pos_applied ps' (durableName ss) \<and>
    pos_refused ps' (durableName ss) = 0"
  using assms by (rule bindStore_covered)

theorem bind_store_coherent_witness:
  "\<exists>ss' ps'. bindStore \<lparr>read_ok = True, adopt_ok = True, refuse_ok = True\<rparr> wit_consumer True
       (wit_set, Map.empty) = (None, ss', ps') \<and> storeGap ss' = 0 \<and>
     AckFloorConsumer wit_consumer \<le> pos_applied ps' (durableName wit_set)"
proof -
  let ?io = "\<lparr>read_ok = True, adopt_ok = True, refuse_ok = True\<rparr>"
  obtain ss' ps' where b: "bindStore ?io wit_consumer True (wit_set, Map.empty) = (None, ss', ps')"
    and g: "storeGap ss' = 0"
    by (simp add: bindStore_def Let_def wit_set_def wit_consumer_def pos_applied_def
        pos_refused_def)
  have "HasPositions wit_set" by (simp add: wit_set_def)
  from bind_store_coherent [OF b this g] b g show ?thesis by blast
qed



text \<open>C36: the boot sample returns a reading whenever one of its attempts can read both the
  consumer and the stream; it never runs past its last attempt.\<close>

theorem boot_sample_returns:
  assumes "\<exists>k. 1 \<le> k \<and> k \<le> bootSampleAttempts \<and> readc k \<noteq> None \<and> reads k \<noteq> None"
  shows "\<exists>c s. bootSample readc reads = Inr (c, s)"
proof -
  from assms have "\<exists>k c s. 1 \<le> k \<and> k \<le> bootSampleAttempts \<and> readc k = Some c \<and> reads k = Some s"
    by auto
  then show ?thesis
    unfolding bootSample_def using boot_sample_enough [of 1 bootSampleAttempts readc reads] by auto
qed

theorem boot_sample_returns_witness:
  "\<exists>c s. bootSample (\<lambda>k. if k = 2 then Some wit_consumer else None) (\<lambda>_. Some wit_stream)
     = Inr (c, s)"
  by (rule boot_sample_returns, rule exI [of _ 2]) (simp add: bootSampleAttempts_def)

end
