(* ===== verification/IngestStore.thy ===== *)
theory IngestStore
  imports Receipts Persons Replay
begin

text \<open>
  The write edge of the serving store (\<open>internal/dataplane/store/duckdb_ingest.go\<close>,
  \<open>disk_reserve.go\<close>): events with their person projection, connector rows and aliases, each
  landing in one transaction with the applied position and the receipts of its deliveries.
  A transaction is a function to an error or the new store, and the store changes only
  when it commits.
\<close>

section \<open>Rows\<close>

record event = person_event +
  e_EventID :: string
  e_SessionID :: string
  e_EventName :: string
  e_EventType :: string
  e_AgentID :: string
  e_ToolName :: string
  e_ToolInput :: string
  e_ToolOutput :: string
  e_TokensInput :: "32 word option"
  e_TokensOutput :: "32 word option"
  e_CostUSD :: "32 word option"
  e_LatencyMS :: "32 word option"
  e_ModelName :: string
  e_IsError :: bool
  e_ErrorMessage :: string
  e_VisitorClass :: string
  e_BotName :: string
  e_ReferrerHost :: string
  e_ReferrerChannel :: string
  e_UserAgent :: string
  e_Platform :: string
  e_UTMSource :: string
  e_UTMMedium :: string
  e_UTMCampaign :: string
  e_UTMTerm :: string
  e_UTMContent :: string
  e_InsertID :: string
  e_IsUnplanned :: bool

text \<open>A stored event is its primary key and the columns it was inserted with.\<close>

record event_row =
  ev_key :: "string \<times> string"
  ev_columns :: event

record landed_row =
  Key :: string
  Cursor :: string
  DataJSON :: string

record external_row =
  x_key :: "string \<times> string \<times> string \<times> string"
  x_cursor :: string
  x_data :: string
  x_synced_at :: time

record alias_row =
  a_key :: "string \<times> string"
  a_canonical :: string

record ingest_db =
  i_journal :: journal
  i_events :: "event_row list"
  i_persons :: "string \<times> string \<rightharpoonup> person_row"
  i_aliases :: "alias_row list"
  i_external :: "external_row list"

record person_lib =
  decode :: "string \<Rightarrow> event_props"
  unquote :: "string \<Rightarrow> string option"
  reread :: "traits \<Rightarrow> traits"

section \<open>Admission\<close>

record disk_reserve =
  reserve :: u64
  probe :: "u64 option"

definition Check :: "disk_reserve option \<Rightarrow> store_error option" where
  "Check r =
     (case r of
        None \<Rightarrow> None
      | Some r \<Rightarrow>
          if reserve r = 0 then None
          else (case probe r of
              None \<Rightarrow> Some DataCapacity
            | Some available \<Rightarrow> if available < reserve r then Some DataCapacity else None))"

section \<open>Events\<close>

definition insertEventsChunk :: nat where "insertEventsChunk = 256"
definition insertEventsChunkBytes :: nat where "insertEventsChunkBytes = 4194304"

definition eventValueBytes :: "event \<Rightarrow> nat" where
  "eventValueBytes e =
     length (e_Properties e) + length (e_ToolInput e) + length (e_ToolOutput e) +
     length (e_ErrorMessage e) + length (e_DistinctID e) + length (e_SessionID e) +
     length (e_EventName e) + length (e_EventType e) + length (e_AgentID e) +
     length (e_ToolName e) + length (e_ModelName e) + length (e_BotName e) +
     length (e_ReferrerHost e) + length (e_UserAgent e) + length (e_InsertID e) +
     length (e_Platform e) + length (e_UTMSource e) + length (e_UTMMedium e) +
     length (e_UTMCampaign e) + length (e_UTMTerm e) + length (e_UTMContent e) + 64"

text \<open>How many events the next statement carries: \<open>cnt\<close> is \<open>end - start\<close>.\<close>

fun chunk_len :: "nat \<Rightarrow> nat \<Rightarrow> event list \<Rightarrow> nat" where
  "chunk_len cnt bytes [] = cnt"
| "chunk_len cnt bytes (e # es) =
     (if cnt < insertEventsChunk then
        (if cnt > 0 \<and> bytes + eventValueBytes e > insertEventsChunkBytes then cnt
         else chunk_len (cnt + 1) (bytes + eventValueBytes e) es)
      else cnt)"

definition event_row_of :: "db_lib \<Rightarrow> event \<Rightarrow> store_error + event_row" where
  "event_row_of lib e =
     (case uuid_parse lib (e_ProjectID e) of
        None \<Rightarrow> Inl (EventID (e_EventID e))
      | Some p \<Rightarrow>
          (case uuid_parse lib (e_EventID e) of
             None \<Rightarrow> Inl (EventID (e_EventID e))
           | Some i \<Rightarrow> Inr \<lparr>ev_key = (p, i), ev_columns = e\<lparr>e_Timestamp := stamp lib (e_Timestamp e)\<rparr>\<rparr>))"

text \<open>\<open>INSERT OR IGNORE\<close> of one row.\<close>

definition insert_event :: "event_row \<Rightarrow> event_row list \<Rightarrow> event_row list" where
  "insert_event r rows = (if list_ex (\<lambda>x. ev_key x = ev_key r) rows then rows else rows @ [r])"

fun event_rows :: "db_lib \<Rightarrow> event list \<Rightarrow> store_error + event_row list" where
  "event_rows lib [] = Inr []"
| "event_rows lib (e # es) =
     res_bind (event_row_of lib e) (\<lambda>r. res_bind (event_rows lib es) (\<lambda>rs. Inr (r # rs)))"

lemma chunk_len_ge: "cnt \<le> chunk_len cnt bytes es"
  by (induction cnt bytes es rule: chunk_len.induct) auto

lemma chunk_len_pos: "0 < chunk_len 0 0 (e # es)"
  using chunk_len_ge [of 1 "eventValueBytes e" es] by (simp add: insertEventsChunk_def)

function insertEventsTx :: "db_lib \<Rightarrow> event list \<Rightarrow> event_row list \<Rightarrow> store_error + event_row list" where
  "insertEventsTx lib events rows =
     (if events = [] then Inr rows
      else let n = chunk_len 0 0 events
           in res_bind (event_rows lib (take n events)) (\<lambda>rs.
                insertEventsTx lib (drop n events) (fold insert_event rs rows)))"
  by pat_completeness auto
termination
proof (relation "measure (\<lambda>(lib, events, rows). length events)")
  fix lib :: db_lib and events :: "event list" and rows rs n
  assume "events \<noteq> []" "n = chunk_len 0 0 events"
  then show "((lib, drop n events, fold insert_event rs rows), lib, events, rows)
      \<in> measure (\<lambda>(lib, events, rows). length events)"
    using chunk_len_pos by (cases events) (auto simp del: chunk_len.simps)
qed simp

declare insertEventsTx.simps [simp del]

section \<open>Person projection\<close>

definition loadAliasMap :: "db_lib \<Rightarrow> string \<Rightarrow> alias_row list \<Rightarrow> store_error + (string \<rightharpoonup> string)" where
  "loadAliasMap lib projectID rows =
     res_bind (cast_uuid lib projectID) (\<lambda>p.
       Inr (map_of (rev (map (\<lambda>a. (snd (a_key a), a_canonical a)) (filter (\<lambda>a. fst (a_key a) = p) rows)))))"

definition aliasMaps ::
  "db_lib \<Rightarrow> event list \<Rightarrow> alias_row list \<Rightarrow> store_error + (string \<rightharpoonup> (string \<rightharpoonup> string))" where
  "aliasMaps lib events rows =
     res_fold (\<lambda>e ms. if ms (e_ProjectID e) \<noteq> None then Inr ms
       else res_bind (loadAliasMap lib (e_ProjectID e) rows) (\<lambda>m. Inr (ms(e_ProjectID e \<mapsto> m))))
     events Map.empty"

definition resolve_alias :: "(string \<rightharpoonup> (string \<rightharpoonup> string)) \<Rightarrow> string \<Rightarrow> string \<Rightarrow> string" where
  "resolve_alias ms projectID distinctID =
     (case ms projectID of
        None \<Rightarrow> distinctID
      | Some m \<Rightarrow> (case m distinctID of None \<Rightarrow> distinctID | Some c \<Rightarrow> c))"

text \<open>The persons of a batch, each once; the loops of the source visit them in the order of a
  Go map.\<close>

definition person_keys :: "(string \<rightharpoonup> (string \<rightharpoonup> string)) \<Rightarrow> event list \<Rightarrow> deltas \<Rightarrow> (string \<times> string) list" where
  "person_keys ms events ds =
     filter (\<lambda>k. ds k \<noteq> None)
       (remdups (map (\<lambda>e. (e_ProjectID e, resolve_alias ms (e_ProjectID e) (e_DistinctID e))) events))"

definition stored_person :: "db_lib \<Rightarrow> person_lib \<Rightarrow> person_row \<Rightarrow> person_row" where
  "stored_person lib plib r =
     r\<lparr>SetProps := reread plib (SetProps r), OnceProps := reread plib (OnceProps r),
       FirstSeen := stamp lib (FirstSeen r), LastSeen := stamp lib (LastSeen r)\<rparr>"

definition upsert_person ::
  "db_lib \<Rightarrow> person_lib \<Rightarrow> deltas \<Rightarrow> string \<times> string \<Rightarrow> (string \<times> string \<rightharpoonup> person_row) \<Rightarrow>
     store_error + (string \<times> string \<rightharpoonup> person_row)" where
  "upsert_person lib plib ds k persons =
     res_bind (cast_uuid lib (fst k)) (\<lambda>p.
     res_bind (req_uuid lib InvalidRow (fst k)) (\<lambda>pid.
       (case ds k of
          None \<Rightarrow> Inr persons
        | Some d \<Rightarrow> Inr (persons((pid, snd k) \<mapsto>
            stored_person lib plib (mergePersonDelta (persons (p, snd k)) d))))))"

definition applyPersonUpdatesTx ::
  "db_lib \<Rightarrow> person_lib \<Rightarrow> event list \<Rightarrow> ingest_db \<Rightarrow> store_error + ingest_db" where
  "applyPersonUpdatesTx lib plib events db =
     res_bind (aliasMaps lib events (i_aliases db)) (\<lambda>ms.
       let ds = extractPersonDeltas (decode plib) (unquote plib) (resolve_alias ms)
                  (map person_event.truncate events)
       in res_bind (res_fold (upsert_person lib plib ds) (person_keys ms events ds) (i_persons db))
            (\<lambda>persons. Inr (db\<lparr>i_persons := persons\<rparr>)))"

section \<open>Transactions\<close>

definition advance :: "applied_mark \<Rightarrow> ingest_db \<Rightarrow> ingest_db" where
  "advance mark db = db\<lparr>i_journal := (i_journal db)\<lparr>j_positions :=
     advancePositionTx (m_Durable mark) (m_Seq mark) (j_positions (i_journal db))\<rparr>\<rparr>"

definition receipts :: "db_lib \<Rightarrow> applied_mark \<Rightarrow> time \<Rightarrow> ingest_db \<Rightarrow> store_error + ingest_db" where
  "receipts lib mark now db =
     res_bind (recordAppliedReceiptsTx lib mark now (i_journal db)) (\<lambda>j. Inr (db\<lparr>i_journal := j\<rparr>))"

definition InsertEvents ::
  "db_lib \<Rightarrow> disk_reserve option \<Rightarrow> bool \<Rightarrow> event list \<Rightarrow> ingest_db \<Rightarrow> store_error option \<times> ingest_db" where
  "InsertEvents lib disk up events db =
     (case Check disk of
        Some e \<Rightarrow> (Some e, db)
      | None \<Rightarrow> duck_write up (\<lambda>db. res_bind (insertEventsTx lib events (i_events db)) (\<lambda>rows.
            Inr (db\<lparr>i_events := rows\<rparr>))) db)"

definition sinkTx ::
  "db_lib \<Rightarrow> person_lib \<Rightarrow> event list \<Rightarrow> applied_mark \<Rightarrow> time \<Rightarrow> ingest_db \<Rightarrow> store_error + ingest_db" where
  "sinkTx lib plib events mark now db =
     res_bind (insertEventsTx lib events (i_events db)) (\<lambda>rows.
     res_bind (applyPersonUpdatesTx lib plib events (db\<lparr>i_events := rows\<rparr>)) (\<lambda>db1.
       receipts lib mark now (advance mark db1)))"

definition SinkEvents ::
  "db_lib \<Rightarrow> person_lib \<Rightarrow> disk_reserve option \<Rightarrow> bool \<Rightarrow> time \<Rightarrow> event list \<Rightarrow> applied_mark \<Rightarrow>
     ingest_db \<Rightarrow> store_error option \<times> ingest_db" where
  "SinkEvents lib plib disk up now events mark db =
     (case Check disk of
        Some e \<Rightarrow> (Some e, db)
      | None \<Rightarrow> duck_write up (sinkTx lib plib events mark now) db)"

definition on_journal ::
  "(journal \<Rightarrow> store_error option \<times> journal) \<Rightarrow> ingest_db \<Rightarrow> store_error option \<times> ingest_db" where
  "on_journal f db = (let (e, j) = f (i_journal db) in (e, db\<lparr>i_journal := j\<rparr>))"

section \<open>Connector rows\<close>

definition external_of :: "db_lib \<Rightarrow> string \<times> string \<times> string \<Rightarrow> time \<Rightarrow> landed_row \<Rightarrow> external_row" where
  "external_of lib k now r = (case k of (p, c, t) \<Rightarrow>
     \<lparr>x_key = (p, c, t, Key r), x_cursor = Cursor r, x_data = DataJSON r, x_synced_at = stamp lib now\<rparr>)"

text \<open>\<open>INSERT OR REPLACE\<close> and \<open>INSERT OR IGNORE\<close> of one row; the second also counts the
  rows it adds.\<close>

definition replace_external :: "external_row \<Rightarrow> external_row list \<Rightarrow> external_row list" where
  "replace_external r rows =
     (if list_ex (\<lambda>x. x_key x = x_key r) rows then map (\<lambda>x. if x_key x = x_key r then r else x) rows
      else rows @ [r])"

definition ignore_external :: "external_row \<Rightarrow> external_row list \<times> nat \<Rightarrow> external_row list \<times> nat" where
  "ignore_external r w =
     (let (rows, n) = w in
      if list_ex (\<lambda>x. x_key x = x_key r) rows then (rows, n) else (rows @ [r], Suc n))"

fun chunks :: "nat \<Rightarrow> 'a list \<Rightarrow> 'a list list" where
  "chunks n xs = (if xs = [] \<or> n = 0 then [] else take n xs # chunks n (drop n xs))"

declare chunks.simps [simp del]

definition land_rows :: "bool \<Rightarrow> external_row list \<Rightarrow> external_row list \<Rightarrow> external_row list \<times> nat" where
  "land_rows superseded new rows =
     (if superseded then fold (fold ignore_external) (chunks insertEventsChunk new) (rows, 0)
      else (fold (fold replace_external) (chunks insertEventsChunk new) rows, 0))"

definition externalTx ::
  "db_lib \<Rightarrow> string \<Rightarrow> string \<Rightarrow> string \<Rightarrow> string \<times> string \<Rightarrow> landed_row list \<Rightarrow> applied_mark \<Rightarrow>
     time \<Rightarrow> ingest_db \<Rightarrow> store_error + ingest_db" where
  "externalTx lib projectID connectorID table ids rows mark now db =
     res_bind (case m_Source mark of None \<Rightarrow> Inr False
               | Some s \<Rightarrow> sourceReceiptSupersededTx lib s (i_journal db)) (\<lambda>superseded.
       let (pid, cid) = ids;
           (landed, inserted) = land_rows superseded
             (map (external_of lib (pid, cid, table) now) rows) (i_external db);
           db1 = advance mark (db\<lparr>i_external := landed\<rparr>);
           invalidate = (\<lambda>db. res_bind (invalidateSourceConfirmationsTx lib (Some projectID)
               (Some connectorID) (Some table) now (i_journal db)) (\<lambda>j. Inr (db\<lparr>i_journal := j\<rparr>)))
       in res_bind (receipts lib mark now db1) (\<lambda>db2.
            if superseded then
              res_bind (markSourceOrderingAmbiguousTx lib (m_Source mark) now (i_journal db2)) (\<lambda>j.
                let db3 = db2\<lparr>i_journal := j\<rparr>
                in if inserted = 0 then Inr db3 else invalidate db3)
            else if m_Source mark = None then invalidate db2
            else Inr db2))"

definition InsertExternalRows ::
  "db_lib \<Rightarrow> disk_reserve option \<Rightarrow> bool \<Rightarrow> time \<Rightarrow> string \<Rightarrow> string \<Rightarrow> string \<Rightarrow> landed_row list \<Rightarrow>
     applied_mark \<Rightarrow> ingest_db \<Rightarrow> store_error option \<times> ingest_db" where
  "InsertExternalRows lib disk up now projectID connectorID table rows mark db =
     (case (if rows = [] then None else Check disk) of
        Some e \<Rightarrow> (Some e, db)
      | None \<Rightarrow>
          if rows = [] then on_journal (RecordPosition lib up mark now) db
          else (case (req_uuid lib InvalidRow projectID, req_uuid lib InvalidRow connectorID) of
              (Inl e, _) \<Rightarrow> (Some e, db)
            | (Inr pid, Inl e) \<Rightarrow> (Some e, db)
            | (Inr pid, Inr cid) \<Rightarrow>
                duck_write up (externalTx lib projectID connectorID table (pid, cid) rows mark now) db))"

section \<open>Aliases\<close>

text \<open>Alias rows are \<open>(project, anonymous, canonical)\<close> triples of text; the project is cast to
  the UUID column.\<close>

definition upsert_alias :: "db_lib \<Rightarrow> string \<times> string \<times> string \<Rightarrow> alias_row list \<Rightarrow> store_error + alias_row list" where
  "upsert_alias lib r rows =
     res_bind (cast_uuid lib (fst r)) (\<lambda>p.
       let k = (p, fst (snd r)); row = \<lparr>a_key = k, a_canonical = snd (snd r)\<rparr>
       in Inr (if list_ex (\<lambda>a. a_key a = k) rows then map (\<lambda>a. if a_key a = k then row else a) rows
               else rows @ [row]))"

definition UpsertAliases ::
  "db_lib \<Rightarrow> bool \<Rightarrow> (string \<times> string \<times> string) list \<Rightarrow> ingest_db \<Rightarrow> store_error option \<times> ingest_db" where
  "UpsertAliases lib up rs db =
     (if rs = [] then (None, db)
      else duck_write up (\<lambda>db. res_bind (res_fold (upsert_alias lib) rs (i_aliases db)) (\<lambda>rows.
             Inr (db\<lparr>i_aliases := rows\<rparr>))) db)"

definition insert_alias :: "db_lib \<Rightarrow> string \<times> string \<times> string \<Rightarrow> alias_row list \<Rightarrow> store_error + alias_row list" where
  "insert_alias lib r rows =
     res_bind (cast_uuid lib (fst r)) (\<lambda>p.
       let k = (p, fst (snd r))
       in if list_ex (\<lambda>a. a_key a = k) rows then Inl WriteFailed
          else Inr (rows @ [\<lparr>a_key = k, a_canonical = snd (snd r)\<rparr>]))"

definition ReconcileAliases ::
  "db_lib \<Rightarrow> bool \<Rightarrow> (string \<times> string \<times> string) list \<Rightarrow> ingest_db \<Rightarrow> store_error option \<times> ingest_db" where
  "ReconcileAliases lib up rs db =
     duck_write up (\<lambda>db. res_bind (res_fold (insert_alias lib) rs []) (\<lambda>rows.
       Inr (db\<lparr>i_aliases := rows\<rparr>))) db"

section \<open>Lemmas on the event insert\<close>

lemma event_rows_append:
  "event_rows lib (xs @ ys) =
     res_bind (event_rows lib xs) (\<lambda>a. res_bind (event_rows lib ys) (\<lambda>b. Inr (a @ b)))"
proof (induction xs)
  case Nil
  then show ?case by (cases "event_rows lib ys") simp_all
next
  case (Cons x xs)
  then show ?case
    by (cases "event_row_of lib x"; cases "event_rows lib xs"; cases "event_rows lib ys") simp_all
qed

text \<open>The chunked statements insert what one statement over the whole batch would.\<close>

lemma insertEventsTx_whole:
  "insertEventsTx lib es rows = res_bind (event_rows lib es) (\<lambda>rs. Inr (fold insert_event rs rows))"
proof (induction lib es rows rule: insertEventsTx.induct)
  case (1 lib es rows)
  show ?case
  proof (cases "es = []")
    case True
    then show ?thesis by (simp add: insertEventsTx.simps)
  next
    case False
    let ?n = "chunk_len 0 0 es"
    have IH: "insertEventsTx lib (drop ?n es) (fold insert_event rs rows) =
        res_bind (event_rows lib (drop ?n es)) (\<lambda>qs. Inr (fold insert_event qs (fold insert_event rs rows)))"
      for rs using 1 [OF False refl, of rs] .
    have "event_rows lib es = event_rows lib (take ?n es @ drop ?n es)" by simp
    then show ?thesis
      unfolding event_rows_append
      by (subst insertEventsTx.simps)
        (cases "event_rows lib (take ?n es)"; cases "event_rows lib (drop ?n es)", simp_all add: False IH Let_def)
  qed
qed

lemma fold_insert_event_mono: "set rows \<subseteq> set (fold insert_event rs rows)"
proof (induction rs arbitrary: rows)
  case (Cons r rs)
  have "set rows \<subseteq> set (insert_event r rows)" by (auto simp: insert_event_def)
  with Cons [of "insert_event r rows"] show ?case by auto
qed simp

lemma fold_insert_event_keys:
  "ev_key ` set (fold insert_event rs rows) = ev_key ` set rs \<union> ev_key ` set rows"
proof (induction rs arbitrary: rows)
  case (Cons r rs)
  have "ev_key ` set (insert_event r rows) = insert (ev_key r) (ev_key ` set rows)"
    by (simp add: insert_event_def list_ex_iff) (metis imageI insert_absorb)
  with Cons [of "insert_event r rows"] show ?case by auto
qed simp

lemma fold_insert_event_same:
  "ev_key ` set rs \<subseteq> ev_key ` set rows \<Longrightarrow> fold insert_event rs rows = rows"
  by (induction rs) (auto simp: insert_event_def list_ex_iff)

lemma fold_insert_event_distinct:
  "distinct (map ev_key rows) \<Longrightarrow> distinct (map ev_key (fold insert_event rs rows))"
proof (induction rs arbitrary: rows)
  case (Cons r rs)
  have "distinct (map ev_key (insert_event r rows))"
    using Cons.prems by (auto simp: insert_event_def list_ex_iff)
  with Cons.IH show ?case by simp
qed simp

definition chunk_bytes :: "event list \<Rightarrow> nat" where
  "chunk_bytes es = sum_list (map eventValueBytes es)"

lemma chunk_len_bounds:
  assumes "cnt \<le> insertEventsChunk" "cnt \<le> 1 \<or> bytes \<le> insertEventsChunkBytes"
  shows "chunk_len cnt bytes es \<le> insertEventsChunk \<and>
    (chunk_len cnt bytes es \<le> 1 \<or>
     bytes + chunk_bytes (take (chunk_len cnt bytes es - cnt) es) \<le> insertEventsChunkBytes)"
  using assms
proof (induction cnt bytes es rule: chunk_len.induct)
  case (1 cnt bytes)
  then show ?case by (auto simp: chunk_bytes_def)
next
  case (2 cnt bytes e es)
  show ?case
  proof (cases "cnt < insertEventsChunk \<and>
      \<not> (cnt > 0 \<and> bytes + eventValueBytes e > insertEventsChunkBytes)")
    case True
    let ?n = "chunk_len (cnt + 1) (bytes + eventValueBytes e) es"
    have ge: "cnt + 1 \<le> ?n" by (rule chunk_len_ge)
    have IH: "?n \<le> insertEventsChunk \<and> (?n \<le> 1 \<or>
        bytes + eventValueBytes e + chunk_bytes (take (?n - (cnt + 1)) es) \<le> insertEventsChunkBytes)"
      using 2 True by auto
    obtain m where m: "?n - cnt = Suc m" "?n - (cnt + 1) = m" using ge by (metis Suc_diff_Suc Suc_eq_plus1 Suc_le_lessD)
    have "chunk_len cnt bytes (e # es) = ?n" using True by auto
    with IH m show ?thesis by (simp add: chunk_bytes_def add.assoc del: chunk_len.simps)
  next
    case False
    then have "chunk_len cnt bytes (e # es) = cnt" by auto
    with 2 show ?thesis by (simp add: chunk_bytes_def del: chunk_len.simps)
  qed
qed

section \<open>Lemmas on transactions\<close>

lemma duck_write_cases:
  assumes "duck_write up f db = (e, db')"
  obtains (failed) err where "e = Some err" "db' = db" | (committed) "e = None" "up" "f db = Inr db'"
  using assms by (auto simp: duck_write_def split: if_splits sum.splits)

lemma recordDelivery_positions:
  "recordDelivery lib mark t d j = Inr j' \<Longrightarrow> j_positions j' = j_positions j"
  by (erule recordDelivery_cases) (auto dest: repair_hole_frame)

lemma recordSourceTx_positions:
  "recordSourceTx lib s t j = Inr j' \<Longrightarrow> j_positions j' = j_positions j"
  by (erule recordSourceTx_cases) (auto dest!: recordBatchTx_frame(1) writeSourceTx_frame(1))

lemma recordApplied_positions:
  assumes "recordAppliedReceiptsTx lib mark t j = Inr j'"
  shows "j_positions j' = j_positions j"
  using assms
proof (rule recordApplied_steps)
  fix j1
  assume j1: "res_fold (recordDelivery lib mark t) (m_Deliveries mark) j = Inr j1"
    and rest: "j' = trimJournalTx j1 \<or> (\<exists>s. m_Source mark = Some s \<and> \<not> m_suppressSourceMutation mark \<and>
        recordSourceTx lib s t (trimJournalTx j1) = Inr j')"
  have "j_positions j1 = j_positions j"
    by (rule res_fold_inv [OF j1, of "\<lambda>x. j_positions x = j_positions j"])
      (auto dest: recordDelivery_positions)
  with rest show ?thesis using recordSourceTx_positions by fastforce
qed

abbreviation db_positions :: "ingest_db \<Rightarrow> positions" where
  "db_positions db \<equiv> j_positions (i_journal db)"

lemma receipts_frame:
  assumes "receipts lib mark now db = Inr db'"
  shows "db_positions db' = db_positions db" "i_events db' = i_events db"
    "i_external db' = i_external db" "i_persons db' = i_persons db" "i_aliases db' = i_aliases db"
  using assms by (auto simp: receipts_def dest: recordApplied_positions)

lemma advance_frame [simp]:
  "db_positions (advance mark db) = advancePositionTx (m_Durable mark) (m_Seq mark) (db_positions db)"
  "i_events (advance mark db) = i_events db" "i_external (advance mark db) = i_external db"
  "i_persons (advance mark db) = i_persons db" "i_aliases (advance mark db) = i_aliases db"
  by (simp_all add: advance_def)

lemma persons_frame:
  assumes "applyPersonUpdatesTx lib plib events db = Inr db'"
  shows "i_journal db' = i_journal db" "i_events db' = i_events db" "i_external db' = i_external db"
    "i_aliases db' = i_aliases db"
  using assms by (auto simp: applyPersonUpdatesTx_def Let_def)

lemma sinkTx_result:
  assumes "sinkTx lib plib events mark now db = Inr db'"
  obtains rs where "event_rows lib events = Inr rs" "i_events db' = fold insert_event rs (i_events db)"
    "db_positions db' = advancePositionTx (m_Durable mark) (m_Seq mark) (db_positions db)"
    "i_external db' = i_external db" "i_aliases db' = i_aliases db"
proof -
  from assms obtain rs db1 where rs: "event_rows lib events = Inr rs"
    and db1: "applyPersonUpdatesTx lib plib events (db\<lparr>i_events := fold insert_event rs (i_events db)\<rparr>) = Inr db1"
    and db': "receipts lib mark now (advance mark db1) = Inr db'"
    by (auto simp: sinkTx_def insertEventsTx_whole)
  from receipts_frame [OF db'] persons_frame [OF db1] rs show thesis by (intro that) simp_all
qed

lemma RecordPosition_cases:
  assumes "RecordPosition lib up mark now j = (e, j')"
  shows "j' = j \<or> j_positions j' = advancePositionTx (m_Durable mark) (m_Seq mark) (j_positions j)"
  using assms by (auto simp: RecordPosition_def split: if_splits elim!: duck_write_cases
      dest!: recordApplied_positions)

lemma RecordReadinessHole_positions:
  assumes "RecordReadinessHole lib up d s j = (e, j')"
  shows "j_positions j' = j_positions j"
  using assms by (auto simp: RecordReadinessHole_def Let_def split_beta split: if_splits
      elim!: duck_write_cases)

lemma invalidate_db_positions:
  "invalidateSourceConfirmationsTx lib p c t at (i_journal db) = Inr j \<Longrightarrow> j_positions j = db_positions db"
  by (rule invalidate_frame)

lemma externalTx_result:
  assumes "externalTx lib projectID connectorID table ids rows mark now db = Inr db'"
  obtains superseded where
    "(case m_Source mark of None \<Rightarrow> Inr False | Some s \<Rightarrow> sourceReceiptSupersededTx lib s (i_journal db))
       = Inr superseded"
    "i_external db' = fst (land_rows superseded
       (map (external_of lib (fst ids, snd ids, table) now) rows) (i_external db))"
    "db_positions db' = advancePositionTx (m_Durable mark) (m_Seq mark) (db_positions db)"
    "i_events db' = i_events db"
proof -
  from assms obtain sup where sup: "(case m_Source mark of None \<Rightarrow> Inr False
      | Some s \<Rightarrow> sourceReceiptSupersededTx lib s (i_journal db)) = Inr sup"
    by (auto simp: externalTx_def)
  let ?l = "land_rows sup (map (external_of lib (fst ids, snd ids, table) now) rows) (i_external db)"
  obtain db2 where db2: "receipts lib mark now (advance mark (db\<lparr>i_external := fst ?l\<rparr>)) = Inr db2"
    and same: "i_external db' = i_external db2" "i_events db' = i_events db2"
      "db_positions db' = db_positions db2"
    using assms sup
    by (auto simp: externalTx_def Let_def split_beta dest!: invalidate_frame(1) ambiguous_frame(1)
        split: if_splits)
  from receipts_frame [OF db2] same sup show thesis by (intro that) simp_all
qed

section \<open>The store keeps the contract of a position record\<close>

datatype duck_op =
    OpInsertEvents "disk_reserve option" bool "event list"
  | OpSinkEvents "disk_reserve option" bool time "event list" applied_mark
  | OpInsertExternalRows "disk_reserve option" bool time string string string "landed_row list" applied_mark
  | OpRecordPosition bool applied_mark time
  | OpRecordReadinessHole bool delivery_mark "source_mark option"
  | OpAdoptPosition string u64
  | OpRefusePosition string u64
  | OpUpsertAliases bool "(string \<times> string \<times> string) list"
  | OpReconcileAliases bool "(string \<times> string \<times> string) list"

definition on_positions :: "(positions \<Rightarrow> positions) \<Rightarrow> ingest_db \<Rightarrow> ingest_db" where
  "on_positions f db = db\<lparr>i_journal := (i_journal db)\<lparr>j_positions := f (j_positions (i_journal db))\<rparr>\<rparr>"

fun duck_exec :: "db_lib \<Rightarrow> person_lib \<Rightarrow> duck_op \<Rightarrow> ingest_db \<Rightarrow> ingest_db" where
  "duck_exec lib plib (OpInsertEvents disk up es) db = snd (InsertEvents lib disk up es db)"
| "duck_exec lib plib (OpSinkEvents disk up now es mark) db = snd (SinkEvents lib plib disk up now es mark db)"
| "duck_exec lib plib (OpInsertExternalRows disk up now p c t rows mark) db =
     snd (InsertExternalRows lib disk up now p c t rows mark db)"
| "duck_exec lib plib (OpRecordPosition up mark now) db = snd (on_journal (RecordPosition lib up mark now) db)"
| "duck_exec lib plib (OpRecordReadinessHole up d s) db = snd (on_journal (RecordReadinessHole lib up d s) db)"
| "duck_exec lib plib (OpAdoptPosition d q) db = on_positions (AdoptPosition d q) db"
| "duck_exec lib plib (OpRefusePosition d m) db = on_positions (RefusePosition d m) db"
| "duck_exec lib plib (OpUpsertAliases up rs) db = snd (UpsertAliases lib up rs db)"
| "duck_exec lib plib (OpReconcileAliases up rs) db = snd (ReconcileAliases lib up rs db)"

text \<open>What a store operation does to the positions: nothing, or one of the position
  statements.\<close>

lemma InsertEvents_positions: "db_positions (snd (InsertEvents lib disk up es db)) = db_positions db"
proof -
  obtain e db' where r: "InsertEvents lib disk up es db = (e, db')"
    by (cases "InsertEvents lib disk up es db")
  then show ?thesis
    by (auto simp: InsertEvents_def split: option.splits elim!: duck_write_cases)
qed

lemma SinkEvents_positions:
  "db_positions (snd (SinkEvents lib plib disk up now es mark db)) = db_positions db \<or>
   db_positions (snd (SinkEvents lib plib disk up now es mark db))
     = advancePositionTx (m_Durable mark) (m_Seq mark) (db_positions db)"
proof -
  obtain e db' where r: "SinkEvents lib plib disk up now es mark db = (e, db')"
    by (cases "SinkEvents lib plib disk up now es mark db")
  then show ?thesis
    by (auto simp: SinkEvents_def split: option.splits elim!: duck_write_cases sinkTx_result)
qed

lemma RecordPosition_positions:
  "db_positions (snd (on_journal (RecordPosition lib up mark now) db)) = db_positions db \<or>
   db_positions (snd (on_journal (RecordPosition lib up mark now) db))
     = advancePositionTx (m_Durable mark) (m_Seq mark) (db_positions db)"
  by (cases "RecordPosition lib up mark now (i_journal db)")
    (auto simp: on_journal_def dest!: RecordPosition_cases)

lemma InsertExternalRows_cases:
  assumes "InsertExternalRows lib disk up now p c t rows mark db = (e, db')"
  obtains (failed) err where "e = Some err" "db' = db"
  | (empty) "rows = []" "(e, db') = on_journal (RecordPosition lib up mark now) db"
  | (landed) pid cid where "e = None" "rows \<noteq> []" "uuid_parse lib p = Some pid" "uuid_parse lib c = Some cid"
      "externalTx lib p c t (pid, cid) rows mark now db = Inr db'"
proof (cases "rows = []")
  case True
  with assms empty show thesis by (simp add: InsertExternalRows_def)
next
  case False
  show thesis
  proof (cases "Check disk")
    case None
    with False assms failed landed show thesis
      by (auto simp: InsertExternalRows_def req_uuid_def split: option.splits elim!: duck_write_cases)
  next
    case (Some err)
    with False assms have "e = Some err" "db' = db" by (simp_all add: InsertExternalRows_def)
    then show thesis by (rule failed)
  qed
qed

lemma InsertExternalRows_positions:
  "db_positions (snd (InsertExternalRows lib disk up now p c t rows mark db)) = db_positions db \<or>
   db_positions (snd (InsertExternalRows lib disk up now p c t rows mark db))
     = advancePositionTx (m_Durable mark) (m_Seq mark) (db_positions db)"
proof -
  obtain e db' where r: "InsertExternalRows lib disk up now p c t rows mark db = (e, db')"
    by (cases "InsertExternalRows lib disk up now p c t rows mark db")
  from r show ?thesis
  proof (cases rule: InsertExternalRows_cases)
    case empty
    then have "db' = snd (on_journal (RecordPosition lib up mark now) db)" by (metis snd_conv)
    with r show ?thesis using RecordPosition_positions [of lib up mark now db] by simp
  next
    case (landed pid cid)
    with r show ?thesis by (auto elim!: externalTx_result)
  qed (use r in simp)
qed

lemma alias_positions:
  "db_positions (snd (UpsertAliases lib up rs db)) = db_positions db"
  "db_positions (snd (ReconcileAliases lib up rs db)) = db_positions db"
  by (cases "UpsertAliases lib up rs db", auto simp: UpsertAliases_def split: if_splits elim!: duck_write_cases)
    (cases "ReconcileAliases lib up rs db", auto simp: ReconcileAliases_def elim!: duck_write_cases)

lemma hole_positions: "db_positions (snd (on_journal (RecordReadinessHole lib up d s) db)) = db_positions db"
  by (cases "RecordReadinessHole lib up d s (i_journal db)")
    (auto simp: on_journal_def dest!: RecordReadinessHole_positions)

lemma duck_exec_positions:
  "\<exists>ops. db_positions (duck_exec lib plib op db) = fold pos_exec ops (db_positions db)"
proof -
  have none: "x = y \<Longrightarrow> \<exists>ops. x = fold pos_exec ops y" for x y by (rule exI [of _ "[]"]) simp
  have one: "x = pos_exec o1 y \<Longrightarrow> \<exists>ops. x = fold pos_exec ops y" for x o1 y by (rule exI [of _ "[o1]"]) simp
  have adv: "x = y \<or> x = advancePositionTx d q y \<Longrightarrow> \<exists>ops. x = fold pos_exec ops y" for x y d q
    using none one [of x "Advance d q" y] by auto
  show ?thesis
  proof (cases op)
    case (OpAdoptPosition d q)
    then show ?thesis by (intro one [of _ "Adopt d q"]) (simp add: on_positions_def)
  next
    case (OpRefusePosition d q)
    then show ?thesis by (intro one [of _ "Refuse d q"]) (simp add: on_positions_def)
  next
    case (OpSinkEvents disk up now es mark)
    then show ?thesis by (simp only: duck_exec.simps) (rule adv [OF SinkEvents_positions])
  next
    case (OpInsertExternalRows disk up now p c t rows mark)
    then show ?thesis by (simp only: duck_exec.simps) (rule adv [OF InsertExternalRows_positions])
  next
    case (OpRecordPosition up mark now)
    then show ?thesis by (simp only: duck_exec.simps) (rule adv [OF RecordPosition_positions])
  qed (auto intro!: none simp: InsertEvents_positions alias_positions hole_positions)
qed

interpretation duck: position_record "duck_exec lib plib"
  "\<lambda>db. pos_applied (db_positions db)" "\<lambda>db. pos_refused (db_positions db)"
  for lib plib
proof
  fix db :: ingest_db and d op
  obtain ops where ops: "db_positions (duck_exec lib plib op db) = fold pos_exec ops (db_positions db)"
    using duck_exec_positions by blast
  show "pos_applied (db_positions db) d \<le> pos_applied (db_positions (duck_exec lib plib op db)) d"
    unfolding ops by (rule pos.run_applied_mono)
  show "pos_refused (db_positions (duck_exec lib plib op db)) d = pos_refused (db_positions db) d"
    if "pos_refused (db_positions db) d \<noteq> 0"
    unfolding ops using that by (rule pos.run_refused_stands)
qed

lemma land_superseded_keeps: "set rows \<subseteq> set (fst (land_rows True new rows))"
proof -
  have one: "set (fst w) \<subseteq> set (fst (ignore_external r w))" for r w
    by (cases w) (auto simp: ignore_external_def)
  have many: "set (fst w) \<subseteq> set (fst (fold ignore_external rs w))" for rs w
  proof (induction rs arbitrary: w)
    case (Cons r rs)
    show ?case using one [of w r] Cons [of "ignore_external r w"] by auto
  qed simp
  have "set (fst w) \<subseteq> set (fst (fold (fold ignore_external) css w))" for css w
  proof (induction css arbitrary: w)
    case (Cons cs css)
    show ?case using many [of w cs] Cons [of "fold ignore_external cs w"] by auto
  qed simp
  from this [of "(rows, 0)"] show ?thesis by (simp add: land_rows_def)
qed

lemma ambiguous_marked:
  assumes "markSourceOrderingAmbiguousTx lib (Some s) at j = Inr j'"
    "uuid_cast lib (s_ProjectID s) = Some p" "uuid_cast lib (s_ConnectorID s) = Some c"
    "source_lookup j (p, c, s_Table s) = Some r"
  shows "\<exists>r'. source_lookup j' (p, c, s_Table s) = Some r' \<and> sr_ordering_ambiguous r'"
proof -
  have "sr_source r = (p, c, s_Table s)"
    using assms(4) by (auto simp: source_lookup_def dest: find_Some_iff')
  with assms show ?thesis
    by (auto simp: markSourceOrderingAmbiguousTx_def cast_uuid_def source_lookup_def find_map_key)
qed

lemma superseded_known:
  assumes "sourceReceiptSupersededTx lib s j = Inr True"
  obtains p c r where "uuid_cast lib (s_ProjectID s) = Some p" "uuid_cast lib (s_ConnectorID s) = Some c"
    "source_lookup j (p, c, s_Table s) = Some r"
  using assms by (auto simp: sourceReceiptSupersededTx_def cast_uuid_def split: option.splits)

lemma receipts_lookup:
  assumes "receipts lib mark now db = Inr db'" "source_lookup (i_journal db) k = Some r"
  shows "\<exists>r'. source_lookup (i_journal db') k = Some r'"
  using assms by (auto simp: receipts_def elim!: recordApplied_lookup [where k = k])

lemma externalTx_superseded:
  assumes "externalTx lib p c t ids rows mark now db = Inr db'" "m_Source mark = Some s"
    "sourceReceiptSupersededTx lib s (i_journal db) = Inr True"
  shows "set (i_external db) \<subseteq> set (i_external db') \<and>
    (\<exists>k r. snd (snd k) = s_Table s \<and> source_lookup (i_journal db') k = Some r \<and> sr_ordering_ambiguous r)"
proof
  show "set (i_external db) \<subseteq> set (i_external db')"
    using assms(1)
    by (rule externalTx_result) (use assms land_superseded_keeps in auto)
  obtain pid cid r where k: "uuid_cast lib (s_ProjectID s) = Some pid"
    "uuid_cast lib (s_ConnectorID s) = Some cid" "source_lookup (i_journal db) (pid, cid, s_Table s) = Some r"
    using assms(3) by (rule superseded_known)
  let ?k = "(pid, cid, s_Table s)"
  let ?l = "land_rows True (map (external_of lib (fst ids, snd ids, t) now) rows) (i_external db)"
  obtain db2 j where db2: "receipts lib mark now (advance mark (db\<lparr>i_external := fst ?l\<rparr>)) = Inr db2"
    and j: "markSourceOrderingAmbiguousTx lib (Some s) now (i_journal db2) = Inr j"
    and last: "i_journal db' = j \<or>
      invalidateSourceConfirmationsTx lib (Some p) (Some c) (Some t) now j = Inr (i_journal db')"
    using assms by (auto simp: externalTx_def Let_def split_beta split: if_splits)
  obtain r2 where "source_lookup (i_journal db2) ?k = Some r2"
    using receipts_lookup [OF db2, of ?k r] k(3) by (auto simp: advance_def source_lookup_def)
  with ambiguous_marked [OF j k(1,2)] obtain r3 where r3: "source_lookup j ?k = Some r3" "sr_ordering_ambiguous r3"
    by blast
  from last have "\<exists>r. source_lookup (i_journal db') ?k = Some r \<and> sr_ordering_ambiguous r"
  proof
    assume "i_journal db' = j"
    with r3 show ?thesis by blast
  next
    assume "invalidateSourceConfirmationsTx lib (Some p) (Some c) (Some t) now j = Inr (i_journal db')"
    from invalidate_lookup [OF this r3(1)] r3(2) touched_fields(3) show ?thesis by fastforce
  qed
  then show "\<exists>k r. snd (snd k) = s_Table s \<and> source_lookup (i_journal db') k = Some r \<and> sr_ordering_ambiguous r"
    by (intro exI [of _ ?k]) simp
qed

lemma event_rows_keys:
  "event_rows lib es = Inr rs \<Longrightarrow> e \<in> set es \<Longrightarrow>
     \<exists>p i. uuid_parse lib (e_ProjectID e) = Some p \<and> uuid_parse lib (e_EventID e) = Some i \<and>
       (p, i) \<in> ev_key ` set rs"
proof (induction es arbitrary: rs)
  case (Cons a es)
  then show ?case by (fastforce simp: event_row_of_def split: option.splits)
qed simp

lemma RecordReadinessHole_frame:
  "i_events (snd (on_journal f db)) = i_events db"
  by (simp add: on_journal_def split: prod.split)

lemma duck_events:
  "set (i_events db) \<subseteq> set (i_events (duck_exec lib plib op db))"
proof (cases op)
  case (OpInsertEvents disk up es)
  obtain e db' where r: "InsertEvents lib disk up es db = (e, db')" by (cases "InsertEvents lib disk up es db")
  then have "set (i_events db) \<subseteq> set (i_events db')"
    using fold_insert_event_mono
    by (fastforce simp: InsertEvents_def insertEventsTx_whole split: option.splits elim!: duck_write_cases)
  with r OpInsertEvents show ?thesis by simp
next
  case (OpSinkEvents disk up now es mark)
  obtain e db' where r: "SinkEvents lib plib disk up now es mark db = (e, db')"
    by (cases "SinkEvents lib plib disk up now es mark db")
  then have "db' = db \<or> sinkTx lib plib es mark now db = Inr db'"
    by (auto simp: SinkEvents_def split: option.splits elim!: duck_write_cases)
  then have "set (i_events db) \<subseteq> set (i_events db')"
    by (auto elim!: sinkTx_result intro: subsetD [OF fold_insert_event_mono])
  with r OpSinkEvents show ?thesis by simp
next
  case (OpInsertExternalRows disk up now p c t rows mark)
  obtain e db' where r: "InsertExternalRows lib disk up now p c t rows mark db = (e, db')"
    by (cases "InsertExternalRows lib disk up now p c t rows mark db")
  from r have "i_events db' = i_events db"
    by (cases rule: InsertExternalRows_cases)
      (auto elim!: externalTx_result simp: on_journal_def split: prod.splits)
  with r OpInsertExternalRows show ?thesis by simp
next
  case (OpUpsertAliases up rs)
  then show ?thesis
    by (cases "UpsertAliases lib up rs db") (auto simp: UpsertAliases_def split: if_splits elim!: duck_write_cases)
next
  case (OpReconcileAliases up rs)
  then show ?thesis
    by (cases "ReconcileAliases lib up rs db") (auto simp: ReconcileAliases_def elim!: duck_write_cases)
qed (simp_all add: RecordReadinessHole_frame on_positions_def)

lemma duck_events_run: "set (i_events db) \<subseteq> set (i_events (fold (duck_exec lib plib) ops db))"
proof (induction ops arbitrary: db)
  case (Cons op ops)
  from duck_events Cons [of "duck_exec lib plib op db"] show ?case by (simp, blast)
qed simp

section \<open>Properties\<close>

text \<open>C7: a batch of events lands whole or not at all. When \<open>SinkEvents\<close> reports an error the store
  is unchanged; when it reports success every event of the batch is in the store, no earlier row is
  lost, and the position the batch carries is covered from then on, whatever the store does next.\<close>

theorem sink_all_or_nothing:
  assumes "SinkEvents lib plib disk up now events mark db = (e, db')"
  shows "(e \<noteq> None \<longrightarrow> db' = db) \<and>
    (e = None \<longrightarrow>
      (\<forall>ev \<in> set events. \<exists>p i. uuid_parse lib (e_ProjectID ev) = Some p \<and>
         uuid_parse lib (e_EventID ev) = Some i \<and> (p, i) \<in> ev_key ` set (i_events db')) \<and>
      set (i_events db) \<subseteq> set (i_events db') \<and>
      (m_Durable mark \<noteq> '''' \<longrightarrow>
         m_Seq mark \<le> pos_applied (db_positions (fold (duck_exec lib plib) ops db')) (m_Durable mark)))"
proof (cases e)
  case (Some err)
  with assms show ?thesis by (auto simp: SinkEvents_def split: option.splits elim!: duck_write_cases)
next
  case None
  with assms have "sinkTx lib plib events mark now db = Inr db'"
    by (auto simp: SinkEvents_def split: option.splits elim!: duck_write_cases)
  then obtain rs where rs: "event_rows lib events = Inr rs" "i_events db' = fold insert_event rs (i_events db)"
    and pos: "db_positions db' = advancePositionTx (m_Durable mark) (m_Seq mark) (db_positions db)"
    by (rule sinkTx_result)
  have "m_Seq mark \<le> pos_applied (db_positions db') (m_Durable mark)" if "m_Durable mark \<noteq> ''''"
    using that by (simp add: pos advance_applied)
  then have "m_Durable mark \<noteq> '''' \<longrightarrow>
      m_Seq mark \<le> pos_applied (db_positions (fold (duck_exec lib plib) ops db')) (m_Durable mark)"
    using duck.run_applied_mono order_trans by blast
  moreover have "set (i_events db) \<subseteq> set (i_events db')"
    unfolding rs(2) by (rule fold_insert_event_mono)
  moreover have "\<forall>ev \<in> set events. \<exists>p i. uuid_parse lib (e_ProjectID ev) = Some p \<and>
         uuid_parse lib (e_EventID ev) = Some i \<and> (p, i) \<in> ev_key ` set (i_events db')"
    using event_rows_keys [OF rs(1)] unfolding rs(2) fold_insert_event_keys by blast
  ultimately show ?thesis using None by blast
qed

definition wit_ingest_event :: event where
  "wit_ingest_event = person_event.extend (wit_event ''pro'' 8)
     \<lparr>e_EventID = ''e1'', e_SessionID = '''', e_EventName = ''signup'', e_EventType = '''', e_AgentID = '''',
      e_ToolName = '''', e_ToolInput = '''', e_ToolOutput = '''', e_TokensInput = None,
      e_TokensOutput = None, e_CostUSD = None, e_LatencyMS = None, e_ModelName = '''', e_IsError = False,
      e_ErrorMessage = '''', e_VisitorClass = '''', e_BotName = '''', e_ReferrerHost = '''',
      e_ReferrerChannel = '''', e_UserAgent = '''', e_Platform = '''', e_UTMSource = '''',
      e_UTMMedium = '''', e_UTMCampaign = '''', e_UTMTerm = '''', e_UTMContent = '''', e_InsertID = '''',
      e_IsUnplanned = False\<rparr>"

definition wit_plib :: person_lib where
  "wit_plib = \<lparr>decode = wit_decode, unquote = (\<lambda>_. None), reread = (\<lambda>m. m)\<rparr>"

definition wit_db :: ingest_db where
  "wit_db = \<lparr>i_journal = wit_journal, i_events = [], i_persons = Map.empty, i_aliases = [], i_external = []\<rparr>"

lemma wit_event_row:
  "event_rows wit_lib [wit_ingest_event] = Inr [\<lparr>ev_key = (''p'', ''e1''), ev_columns = wit_ingest_event\<rparr>]"
  by (simp add: event_row_of_def wit_lib_def wit_ingest_event_def person_event.extend_def wit_event_def)

lemma wit_persons: "\<exists>db'. applyPersonUpdatesTx wit_lib wit_plib [wit_ingest_event] db = Inr db'"
  by (auto simp: applyPersonUpdatesTx_def aliasMaps_def loadAliasMap_def cast_uuid_def wit_lib_def Let_def
      person_keys_def upsert_person_def req_uuid_def split: option.split)

lemma wit_sink:
  "\<exists>db'. SinkEvents wit_lib wit_plib None True 5 [wit_ingest_event] wit_mark (wit_db\<lparr>i_events := es\<rparr>)
     = (None, db')"
proof -
  let ?es = "fold insert_event [\<lparr>ev_key = (''p'', ''e1''), ev_columns = wit_ingest_event\<rparr>] es"
  obtain db1 where db1: "applyPersonUpdatesTx wit_lib wit_plib [wit_ingest_event] (wit_db\<lparr>i_events := ?es\<rparr>) = Inr db1"
    using wit_persons by blast
  have "i_journal db1 = wit_journal" using persons_frame(1) [OF db1] by (simp add: wit_db_def)
  then have "\<exists>j. recordAppliedReceiptsTx wit_lib wit_mark 5 (i_journal (advance wit_mark db1)) = Inr j"
    using wit_applied
    by (simp add: recordAppliedReceiptsTx_def recordDelivery_def wit_mark_def wit_delivery_def wit_lib_def
        wit_journal_def wit_hole_def delivery_scope_def opt_uuid_def insert_delivery_def repair_hole_def
        open_hole_def delivery_id_def invalidateSourceConfirmationsTx_def cast_opt_def cast_uuid_def Let_def
        blank_delivery_def advance_def)
  then have "\<exists>db'. sinkTx wit_lib wit_plib [wit_ingest_event] wit_mark 5 (wit_db\<lparr>i_events := es\<rparr>) = Inr db'"
    using db1 wit_event_row by (auto simp: sinkTx_def insertEventsTx_whole receipts_def wit_db_def)
  then show ?thesis by (auto simp: SinkEvents_def Check_def duck_write_def)
qed

theorem sink_all_or_nothing_witness:
  "\<exists>db'. SinkEvents wit_lib wit_plib None True 5 [wit_ingest_event] wit_mark wit_db = (None, db') \<and>
     12 \<le> pos_applied (db_positions db') ''blue'' \<and> i_events db' \<noteq> []"
proof -
  obtain db' where s: "SinkEvents wit_lib wit_plib None True 5 [wit_ingest_event] wit_mark wit_db = (None, db')"
    using wit_sink [of "[]"] by (auto simp: wit_db_def)
  from sink_all_or_nothing [OF s, of "[]"] s show ?thesis
    by (auto simp: wit_mark_def)
qed

text \<open>A redelivered batch of events inserts nothing. Once a batch has been stored, storing the
  same events again, after any other operations of the store, under whatever mark and at whatever
  time, leaves the events table as it is.\<close>

theorem sink_redelivery_inserts_nothing:
  assumes "SinkEvents lib plib disk up now events mark db = (None, db1)"
    and "SinkEvents lib plib disk2 up2 now2 events mark2 (fold (duck_exec lib plib) ops db1) = (e, db2)"
  shows "i_events db2 = i_events (fold (duck_exec lib plib) ops db1)"
proof -
  let ?db = "fold (duck_exec lib plib) ops db1"
  from assms(1) have "sinkTx lib plib events mark now db = Inr db1"
    by (auto simp: SinkEvents_def split: option.splits elim!: duck_write_cases)
  then obtain rs where rs: "event_rows lib events = Inr rs" "i_events db1 = fold insert_event rs (i_events db)"
    by (rule sinkTx_result)
  have "ev_key ` set rs \<subseteq> ev_key ` set (i_events db1)"
    unfolding rs(2) fold_insert_event_keys by blast
  then have known: "ev_key ` set rs \<subseteq> ev_key ` set (i_events ?db)"
    using duck_events_run [of db1 lib plib ops] by blast
  from assms(2) have "db2 = ?db \<or> sinkTx lib plib events mark2 now2 ?db = Inr db2"
    by (auto simp: SinkEvents_def split: option.splits elim!: duck_write_cases)
  then show ?thesis
  proof
    assume "sinkTx lib plib events mark2 now2 ?db = Inr db2"
    then obtain rs2 where "event_rows lib events = Inr rs2" "i_events db2 = fold insert_event rs2 (i_events ?db)"
      by (rule sinkTx_result)
    with rs(1) fold_insert_event_same [OF known] show ?thesis by simp
  qed simp
qed

theorem sink_redelivery_inserts_nothing_witness:
  "\<exists>db1 db2. SinkEvents wit_lib wit_plib None True 5 [wit_ingest_event] wit_mark wit_db = (None, db1) \<and>
     SinkEvents wit_lib wit_plib None True 9 [wit_ingest_event] (wit_mark\<lparr>m_Deliveries := []\<rparr>) db1 = (None, db2) \<and>
     i_events db2 = i_events db1 \<and> i_events db1 \<noteq> []"
proof -
  let ?row = "\<lparr>ev_key = (''p'', ''e1''), ev_columns = wit_ingest_event\<rparr>"
  let ?mark = "wit_mark\<lparr>m_Deliveries := []\<rparr>"
  obtain db1 where s: "SinkEvents wit_lib wit_plib None True 5 [wit_ingest_event] wit_mark wit_db = (None, db1)"
    using wit_sink [of "[]"] by (auto simp: wit_db_def)
  then have "sinkTx wit_lib wit_plib [wit_ingest_event] wit_mark 5 wit_db = Inr db1"
    by (auto simp: SinkEvents_def Check_def elim!: duck_write_cases)
  then obtain rs where "event_rows wit_lib [wit_ingest_event] = Inr rs"
    "i_events db1 = fold insert_event rs (i_events wit_db)" by (rule sinkTx_result)
  then have ev: "i_events db1 = [?row]"
    unfolding wit_event_row by (auto simp: wit_db_def insert_event_def)
  obtain db3 where p: "applyPersonUpdatesTx wit_lib wit_plib [wit_ingest_event] db1 = Inr db3"
    using wit_persons by blast
  have j: "recordAppliedReceiptsTx wit_lib ?mark 9 k = Inr (trimJournalTx k)" for k
    by (simp add: recordAppliedReceiptsTx_def wit_mark_def)
  have "db1\<lparr>i_events := fold insert_event [?row] (i_events db1)\<rparr> = db1"
    using ev by (simp add: insert_event_def)
  then obtain db2 where s2: "SinkEvents wit_lib wit_plib None True 9 [wit_ingest_event] ?mark db1 = (None, db2)"
    using p j by (simp add: SinkEvents_def Check_def duck_write_def sinkTx_def insertEventsTx_whole
        receipts_def wit_event_row del: event_rows.simps)
  have "i_events db2 = i_events db1"
    using sink_redelivery_inserts_nothing [OF s, where ops = "[]"] s2 by simp
  with s s2 ev show ?thesis by auto
qed



definition wit_late_mark :: applied_mark where
  "wit_late_mark = wit_source_mark\<lparr>m_Source := Some (wit_source\<lparr>s_CaptureStartedAt := Some 2\<rparr>)\<rparr>"

definition wit_late_db :: ingest_db where
  "wit_late_db = \<lparr>i_journal = wit_source_journal, i_events = [], i_persons = Map.empty, i_aliases = [],
     i_external = [\<lparr>x_key = (''p'', ''c'', ''t'', ''k1''), x_cursor = '''', x_data = ''new'', x_synced_at = 6\<rparr>]\<rparr>"


text \<open>C6: a store gap cannot be laundered by a restart. When a boot finds the durable's floor
  above what the file recorded (and the file is not one that predates the record), then after
  any operations of the store, whatever they write, every later boot of the same durable over
  that file latches the gap again, and no live reading makes the colour ready.\<close>

theorem store_gap_survives_restart:
  assumes "bindStore io c has_ingest (ss, db_positions db) = (None, ss', ps')" and "HasPositions ss"
    and "pos_applied (db_positions db) (durableName ss) < AckFloorConsumer c"
    and "db_positions db (durableName ss) \<noteq> None \<or> \<not> has_ingest"
    and "bindStore io2 c2 has_ingest2
      (ss2, db_positions (fold (duck_exec lib plib) ops (on_positions (\<lambda>_. ps') db))) = (None, ss2', ps2')"
    and "HasPositions ss2" and "durableName ss2 = durableName ss"
    and "ReplayStatus (Some s3) True (Some c3) ss2' = Inr v"
  shows "\<not> Ready v"
proof
  assume "Ready v"
  let ?db = "on_positions (\<lambda>_. ps') db"
  have "pos_refused (db_positions ?db) (durableName ss) \<noteq> 0"
    using bindStore_gap_recorded [OF assms(1-4)] by (simp add: on_positions_def)
  then have "pos_refused (db_positions (fold (duck_exec lib plib) ops ?db)) (durableName ss2) \<noteq> 0"
    using assms(7) duck.run_refused_stands by simp
  with bindStore_refusal_read [OF assms(5,6)] have "storeGap ss2' \<noteq> 0" by simp
  with assms(8) \<open>Ready v\<close> show False by (auto elim!: ReplayStatus_ready)
qed

definition wit_gap_db :: ingest_db where
  "wit_gap_db = wit_db\<lparr>i_journal := wit_journal\<lparr>j_positions :=
     [''blue'' \<mapsto> \<lparr>applied_seq = 5, refused_missing = 0\<rparr>]\<rparr>\<rparr>"

definition wit_io :: bind_io where
  "wit_io = \<lparr>read_ok = True, adopt_ok = True, refuse_ok = True\<rparr>"

definition wit_ops :: "duck_op list" where
  "wit_ops = [OpSinkEvents None True 5 [wit_ingest_event] wit_mark, OpAdoptPosition ''blue'' 12]"

theorem store_gap_survives_restart_witness:
  "\<exists>ss' ps' ss2 ps2 v. bindStore wit_io wit_consumer True (wit_set, db_positions wit_gap_db) = (None, ss', ps') \<and>
     bindStore wit_io wit_consumer True (wit_set, db_positions (fold (duck_exec wit_lib wit_plib) wit_ops
       (on_positions (\<lambda>_. ps') wit_gap_db))) = (None, ss2, ps2) \<and>
     ReplayStatus (Some wit_stream) True (Some wit_consumer) ss2 = Inr v \<and> \<not> Ready v"
proof -
  have d: "durableName wit_set = ''blue''" by (simp add: durableName_def wit_set_def)
  have h: "HasPositions wit_set" by (simp add: wit_set_def)
  have ps: "db_positions wit_gap_db = [''blue'' \<mapsto> \<lparr>applied_seq = 5, refused_missing = 0\<rparr>]"
    by (simp add: wit_gap_db_def)
  obtain ss' ps' where b1: "bindStore wit_io wit_consumer True (wit_set, db_positions wit_gap_db) = (None, ss', ps')"
    by (rule bindStore_no_error [of wit_io]) (simp_all add: wit_io_def)
  obtain ss2 ps2 where b2: "bindStore wit_io wit_consumer True (wit_set,
      db_positions (fold (duck_exec wit_lib wit_plib) wit_ops (on_positions (\<lambda>_. ps') wit_gap_db))) = (None, ss2, ps2)"
    by (rule bindStore_no_error [of wit_io]) (simp_all add: wit_io_def)
  have lt: "pos_applied (db_positions wit_gap_db) (durableName wit_set) < AckFloorConsumer wit_consumer"
    by (simp add: d ps wit_consumer_def pos_applied_def)
  have kn: "db_positions wit_gap_db (durableName wit_set) \<noteq> None \<or> \<not> True" by (simp add: d ps)
  obtain v where v: "ReplayStatus (Some wit_stream) True (Some wit_consumer) ss2 = Inr v"
    by (rule ReplayStatus_total)
  have "\<not> Ready v" by (rule store_gap_survives_restart [OF b1 h lt kn b2 h refl v])
  with v b1 b2 show ?thesis by blast
qed

end
