(* ===== verification/Envelope.thy ===== *)
theory Envelope
  imports Prelude "HOL-Library.Multiset" "HOL-Library.Product_Lexorder" "HOL-Library.List_Lexorder" "HOL-Library.Char_ord"
begin

text \<open>
  The wire contract of snapshot mode (\<open>internal/dataplane/connector/snapshot.go\<close>): the batch and
  completion envelopes, their validation, the payload and manifest digests, and the field check
  that precedes decoding. SHA-256 and the canonical form of a raw JSON value are parameters.
  An \<open>int64\<close> of the envelope is an integer: it only ever comes from a decoded JSON number, and no
  operation of this file computes with it.
\<close>

section \<open>Data\<close>

record snapshot_row =
  w_Key :: string
  w_Cursor :: string
  w_Data :: string

record snapshot_envelope =
  n_Protocol :: string
  n_ProjectID :: string
  n_ConnectorID :: string
  n_Table :: string
  n_SyncID :: string
  n_Generation :: string
  n_GenerationSeq :: int
  n_BindingDigest :: string
  n_CaptureStartedAt :: time
  n_Kind :: string
  n_RunID :: string
  n_BatchID :: string
  n_BatchIndex :: int
  n_PayloadSHA256 :: string
  n_CaptureFinishedAt :: "time option"
  n_Rows :: "snapshot_row list"
  n_ExpectedBatches :: int
  n_ExpectedRows :: int
  n_BatchManifestSHA256 :: string

record manifest_entry =
  t_Index :: int
  t_BatchID :: string
  t_PayloadSHA256 :: string
  t_RowCount :: int

definition SnapshotProtocolV1 :: string where "SnapshotProtocolV1 = ''agentray.connector.snapshot.v1''"
definition SnapshotKindBatch :: string where "SnapshotKindBatch = ''batch''"
definition SnapshotKindComplete :: string where "SnapshotKindComplete = ''complete''"

text \<open>Parameters: the canonical form of a raw JSON value (\<open>None\<close> when it does not parse), the
  encoding of a list of rows, and the hexadecimal SHA-256 of a byte string.\<close>

record snap_lib =
  canonicalJSON :: "string \<Rightarrow> string option"
  marshal_rows :: "snapshot_row list \<Rightarrow> string"
  sha256_hex :: "string \<Rightarrow> string"

datatype snapshot_error =
    InvalidIdentity | InvalidBatch | RepeatedKey | DigestMismatch | InvalidCompletion | UnknownKind
  | RowKeyOrCursor | RowJSON | NotContiguous | FieldRequired string | FieldInvalid string
  | FieldForbidden string | Undecodable

section \<open>Digests\<close>

definition hex_digit :: "char \<Rightarrow> bool" where
  "hex_digit c = (let n = (of_char c :: nat) in 48 \<le> n \<and> n \<le> 57 \<or> 97 \<le> n \<and> n \<le> 102 \<or> 65 \<le> n \<and> n \<le> 70)"

definition isSHA256 :: "string \<Rightarrow> bool" where
  "isSHA256 raw \<longleftrightarrow> length raw = 64 \<and> list_all hex_digit raw \<and> raw = map ascii_lower raw"

fun canonical_rows :: "snap_lib \<Rightarrow> snapshot_row list \<Rightarrow> snapshot_error + snapshot_row list" where
  "canonical_rows lib [] = Inr []"
| "canonical_rows lib (r # rs) =
     (if trim_space (w_Key r) = '''' \<or> w_Cursor r \<noteq> '''' then Inl RowKeyOrCursor
      else (case canonicalJSON lib (w_Data r) of
          None \<Rightarrow> Inl RowJSON
        | Some data \<Rightarrow> res_bind (canonical_rows lib rs) (\<lambda>rest.
            Inr (\<lparr>w_Key = w_Key r, w_Cursor = '''', w_Data = data\<rparr> # rest))))"

definition CanonicalSnapshotRows :: "snap_lib \<Rightarrow> snapshot_row list \<Rightarrow> snapshot_error + string" where
  "CanonicalSnapshotRows lib rows = res_bind (canonical_rows lib rows) (\<lambda>c. Inr (marshal_rows lib c))"

definition SnapshotPayloadDigest :: "snap_lib \<Rightarrow> snapshot_row list \<Rightarrow> snapshot_error + string" where
  "SnapshotPayloadDigest lib rows = res_bind (CanonicalSnapshotRows lib rows) (\<lambda>raw. Inr (sha256_hex lib raw))"

definition show_int :: "int \<Rightarrow> string" where
  "show_int i = (if i < 0 then CHR ''-'' # show_nat (nat (- i)) else show_nat (nat i))"

definition manifest_line :: "manifest_entry \<Rightarrow> string" where
  "manifest_line e = show_int (t_Index e) @ '':'' @ t_BatchID e @ '':'' @ t_PayloadSHA256 e @ '':'' @
     show_int (t_RowCount e) @ [CHR 0x0A]"

fun manifest_text :: "nat \<Rightarrow> manifest_entry list \<Rightarrow> snapshot_error + string" where
  "manifest_text i [] = Inr ''''"
| "manifest_text i (e # es) =
     (if t_Index e \<noteq> int i \<or> t_BatchID e = '''' \<or> \<not> isSHA256 (t_PayloadSHA256 e) \<or> t_RowCount e < 0
      then Inl NotContiguous
      else res_bind (manifest_text (Suc i) es) (\<lambda>rest. Inr (manifest_line e @ rest)))"

definition SnapshotManifestDigest :: "snap_lib \<Rightarrow> manifest_entry list \<Rightarrow> snapshot_error + string" where
  "SnapshotManifestDigest lib entries =
     res_bind (manifest_text 0 (sort_key t_Index entries)) (\<lambda>s. Inr (sha256_hex lib s))"

section \<open>Validation\<close>

fun repeats_key :: "string list \<Rightarrow> snapshot_row list \<Rightarrow> bool" where
  "repeats_key seen [] = False"
| "repeats_key seen (r # rs) = (w_Key r \<in> set seen \<or> repeats_key (w_Key r # seen) rs)"

definition Validate :: "snap_lib \<Rightarrow> snapshot_envelope \<Rightarrow> snapshot_error option" where
  "Validate lib e =
     (if n_Protocol e \<noteq> SnapshotProtocolV1 \<or> n_ProjectID e = '''' \<or> n_ConnectorID e = '''' \<or>
         n_Table e = '''' \<or> n_SyncID e = '''' \<or> n_RunID e = '''' \<or> n_Generation e = '''' \<or>
         n_GenerationSeq e \<le> 0 \<or> \<not> isSHA256 (n_BindingDigest e) \<or> n_CaptureStartedAt e = zero_time
      then Some InvalidIdentity
      else if n_Kind e = SnapshotKindBatch then
        (if n_BatchID e = '''' \<or> n_BatchIndex e < 0 \<or> \<not> isSHA256 (n_PayloadSHA256 e) \<or>
            n_CaptureFinishedAt e \<noteq> None \<or> n_Rows e = [] \<or> n_ExpectedBatches e \<noteq> 0 \<or>
            n_ExpectedRows e \<noteq> 0 \<or> n_BatchManifestSHA256 e \<noteq> ''''
         then Some InvalidBatch
         else if repeats_key [] (n_Rows e) then Some RepeatedKey
         else if SnapshotPayloadDigest lib (n_Rows e) \<noteq> Inr (n_PayloadSHA256 e) then Some DigestMismatch
         else None)
      else if n_Kind e = SnapshotKindComplete then
        (case n_CaptureFinishedAt e of
           None \<Rightarrow> Some InvalidCompletion
         | Some f \<Rightarrow>
             if f < n_CaptureStartedAt e \<or> n_ExpectedBatches e < 0 \<or> n_ExpectedRows e < 0 \<or>
                \<not> isSHA256 (n_BatchManifestSHA256 e) \<or> n_Rows e \<noteq> [] \<or> n_BatchID e \<noteq> '''' \<or>
                n_BatchIndex e \<noteq> 0 \<or> n_PayloadSHA256 e \<noteq> ''''
             then Some InvalidCompletion else None)
      else Some UnknownKind)"

section \<open>Fields on the wire\<close>

text \<open>A decoded object maps a field to its raw value. \<open>decode_string\<close> is the decoding of a raw
  JSON string.\<close>

definition null_raw :: "string \<Rightarrow> bool" where
  "null_raw raw \<longleftrightarrow> trim_space raw = ''null''"

definition common_fields :: "string list" where
  "common_fields = [''protocol'', ''project_id'', ''connector_id'', ''table'', ''sync_id'', ''generation'',
     ''generation_seq'', ''binding_digest'', ''capture_started_at'', ''kind'', ''run_id'']"

definition kind_fields :: "string \<Rightarrow> (string list \<times> string list) option" where
  "kind_fields kind =
     (if kind = SnapshotKindBatch then
        Some ([''batch_id'', ''batch_index'', ''payload_sha256'', ''capture_finished_at'', ''rows''],
              [''expected_batches'', ''expected_rows'', ''batch_manifest_sha256''])
      else if kind = SnapshotKindComplete then
        Some ([''expected_batches'', ''expected_rows'', ''batch_manifest_sha256'', ''capture_finished_at''],
              [''batch_id'', ''batch_index'', ''payload_sha256'', ''rows''])
      else None)"

definition missing :: "(string \<rightharpoonup> string) \<Rightarrow> (string \<Rightarrow> bool) \<Rightarrow> string list \<Rightarrow> string option" where
  "missing obj nullable names =
     find (\<lambda>n. case obj n of None \<Rightarrow> True | Some raw \<Rightarrow> \<not> nullable n \<and> null_raw raw) names"

definition requireSnapshotFields ::
  "(string \<Rightarrow> string option) \<Rightarrow> (string \<rightharpoonup> string) \<Rightarrow> snapshot_error option" where
  "requireSnapshotFields decode_string obj =
     (case missing obj (\<lambda>_. False) common_fields of
        Some n \<Rightarrow> Some (FieldRequired n)
      | None \<Rightarrow>
          (case decode_string (the (obj ''kind'')) of
             None \<Rightarrow> Some (FieldInvalid ''kind'')
           | Some kind \<Rightarrow>
               (case kind_fields kind of
                  None \<Rightarrow> Some UnknownKind
                | Some (required, forbidden) \<Rightarrow>
                    (case missing obj (\<lambda>n. n = ''capture_finished_at'') required of
                       Some n \<Rightarrow> Some (FieldRequired n)
                     | None \<Rightarrow>
                         (case find (\<lambda>n. obj n \<noteq> None) forbidden of
                            Some n \<Rightarrow> Some (FieldForbidden n)
                          | None \<Rightarrow> None)))))"

text \<open>\<open>MarshalJSON\<close> writes the common fields and those of the envelope's kind, each with the raw
  encoding of its value.\<close>

datatype json_value = JString string | JInt int | JTime time | JNull | JRows "snapshot_row list"

definition opt_time :: "time option \<Rightarrow> json_value" where
  "opt_time t = (case t of None \<Rightarrow> JNull | Some t \<Rightarrow> JTime t)"

definition MarshalJSON :: "snapshot_envelope \<Rightarrow> (string \<times> json_value) list" where
  "MarshalJSON e =
     [(''protocol'', JString (n_Protocol e)), (''project_id'', JString (n_ProjectID e)),
      (''connector_id'', JString (n_ConnectorID e)), (''table'', JString (n_Table e)),
      (''sync_id'', JString (n_SyncID e)), (''generation'', JString (n_Generation e)),
      (''generation_seq'', JInt (n_GenerationSeq e)), (''binding_digest'', JString (n_BindingDigest e)),
      (''capture_started_at'', JTime (n_CaptureStartedAt e)), (''kind'', JString (n_Kind e)),
      (''run_id'', JString (n_RunID e))] @
     (if n_Kind e = SnapshotKindBatch then
        [(''batch_id'', JString (n_BatchID e)), (''batch_index'', JInt (n_BatchIndex e)),
         (''payload_sha256'', JString (n_PayloadSHA256 e)),
         (''capture_finished_at'', opt_time (n_CaptureFinishedAt e)),
         (''rows'', if n_Rows e = [] then JNull else JRows (n_Rows e))]
      else
        [(''expected_batches'', JInt (n_ExpectedBatches e)), (''expected_rows'', JInt (n_ExpectedRows e)),
         (''batch_manifest_sha256'', JString (n_BatchManifestSHA256 e)),
         (''capture_finished_at'', opt_time (n_CaptureFinishedAt e))])"

text \<open>The encoder and decoder of the JSON library, as the two functions use them.\<close>

record json_lib =
  raw_value :: "json_value \<Rightarrow> string"
  object_text :: "(string \<times> string) list \<Rightarrow> string"
  object_fields :: "string \<Rightarrow> (string \<rightharpoonup> string) option"
  decode_string :: "string \<Rightarrow> string option"
  decode_envelope :: "string \<Rightarrow> snapshot_envelope option"

definition MarshalSnapshotEnvelope :: "snap_lib \<Rightarrow> json_lib \<Rightarrow> snapshot_envelope \<Rightarrow> snapshot_error + string" where
  "MarshalSnapshotEnvelope lib jl e =
     (case Validate lib e of
        Some err \<Rightarrow> Inl err
      | None \<Rightarrow> Inr (object_text jl (map (\<lambda>(n, v). (n, raw_value jl v)) (MarshalJSON e))))"

definition ParseSnapshotEnvelope :: "snap_lib \<Rightarrow> json_lib \<Rightarrow> string \<Rightarrow> snapshot_error + snapshot_envelope" where
  "ParseSnapshotEnvelope lib jl raw =
     (case object_fields jl raw of
        None \<Rightarrow> Inl Undecodable
      | Some obj \<Rightarrow>
          (case requireSnapshotFields (decode_string jl) obj of
             Some err \<Rightarrow> Inl err
           | None \<Rightarrow>
               (case decode_envelope jl raw of
                  None \<Rightarrow> Inl Undecodable
                | Some env \<Rightarrow> (case Validate lib env of Some err \<Rightarrow> Inl err | None \<Rightarrow> Inr env))))"

section \<open>Lemmas\<close>

lemma isSHA256_not_Nil: "isSHA256 s \<Longrightarrow> s \<noteq> ''''"
  by (auto simp: isSHA256_def)

lemma manifest_text_indices:
  "manifest_text i es = Inr s \<Longrightarrow> map t_Index es = map int [i..<i + length es]"
proof (induction es arbitrary: i s)
  case (Cons e es)
  then show ?case by (auto simp: upt_conv_Cons simp del: upt_Suc split: if_splits)
qed simp

lemma repeats_key_iff: "repeats_key seen rs \<longleftrightarrow> \<not> distinct (map w_Key rs) \<or> (\<exists>r \<in> set rs. w_Key r \<in> set seen)"
  by (induction rs arbitrary: seen) (auto simp: image_iff, force)

lemma validate_batch:
  assumes "Validate lib e = None" "n_Kind e = SnapshotKindBatch"
  shows "distinct (map w_Key (n_Rows e))" "n_Rows e \<noteq> []" "0 \<le> n_BatchIndex e" "0 < n_GenerationSeq e"
    "SnapshotPayloadDigest lib (n_Rows e) = Inr (n_PayloadSHA256 e)"
  using assms by (auto simp: Validate_def repeats_key_iff split: if_splits)

lemma validate_kind:
  "Validate lib e = None \<Longrightarrow> n_Kind e = SnapshotKindBatch \<or> n_Kind e = SnapshotKindComplete"
  by (auto simp: Validate_def split: if_splits)

lemma validate_complete:
  assumes "Validate lib e = None" "n_Kind e \<noteq> SnapshotKindBatch"
  shows "n_Kind e = SnapshotKindComplete" "\<exists>f. n_CaptureFinishedAt e = Some f \<and> n_CaptureStartedAt e \<le> f"
    "0 \<le> n_ExpectedBatches e" "0 \<le> n_ExpectedRows e" "0 < n_GenerationSeq e"
  using assms by (auto simp: Validate_def split: if_splits option.splits)

text \<open>The manifest digest depends on the batches, not on the order they are listed in, and it
  exists only for a contiguous manifest: whatever order the entries come in, when the digest is
  computed their indices are exactly 0, 1, ..., each once.\<close>

theorem manifest_digest_canonical:
  assumes "SnapshotManifestDigest lib es = Inr d" and "mset es' = mset es"
  shows "SnapshotManifestDigest lib es' = Inr d \<and> mset (map t_Index es) = mset (map int [0..<length es])"
proof -
  obtain s where s: "manifest_text 0 (sort_key t_Index es) = Inr s"
    using assms(1) by (auto simp: SnapshotManifestDigest_def)
  have idx: "map t_Index (sort_key t_Index es) = map int [0..<length es]"
    using manifest_text_indices [OF s] by simp
  have "mset (map t_Index (sort_key t_Index es)) = mset (map t_Index es)" by (simp only: mset_map mset_sort)
  then have i: "mset (map t_Index es) = mset (map int [0..<length es])" using idx by simp
  have "mset (map t_Index es') = mset (map int [0..<length es])" using i assms(2) by (metis mset_map)
  then have "distinct (map t_Index es')"
    by (metis distinct_map distinct_upt inj_of_nat inj_on_subset mset_eq_imp_distinct_iff subset_UNIV)
  then have "inj_on t_Index (set es')" by (simp add: distinct_map)
  then have "sort_key t_Index es' = sort_key t_Index es"
    using assms(2) by (intro sort_key_inj_key_eq) simp_all
  with assms(1) i show ?thesis by (simp add: SnapshotManifestDigest_def)
qed

definition wit_hash :: string where
  "wit_hash = replicate 64 (CHR ''a'')"

definition wit_snap :: snap_lib where
  "wit_snap = \<lparr>canonicalJSON = Some, marshal_rows = (\<lambda>_. ''rows''), sha256_hex = (\<lambda>_. wit_hash)\<rparr>"

definition wit_entries :: "manifest_entry list" where
  "wit_entries =
     [\<lparr>t_Index = 1, t_BatchID = ''b1'', t_PayloadSHA256 = wit_hash, t_RowCount = 2\<rparr>,
      \<lparr>t_Index = 0, t_BatchID = ''b0'', t_PayloadSHA256 = wit_hash, t_RowCount = 3\<rparr>]"

lemma wit_hash_ok [simp]: "isSHA256 wit_hash"
  by (simp add: isSHA256_def wit_hash_def list_all_iff hex_digit_def ascii_lower_def)

theorem manifest_digest_canonical_witness:
  "SnapshotManifestDigest wit_snap (rev wit_entries) = Inr wit_hash \<and>
     mset (map t_Index wit_entries) = mset (map int [0..<2])"
proof -
  have d: "SnapshotManifestDigest wit_snap wit_entries = Inr wit_hash"
    by (simp add: SnapshotManifestDigest_def wit_entries_def wit_snap_def)
  have l: "length wit_entries = 2" and m: "mset (rev wit_entries) = mset wit_entries"
    by (simp_all add: wit_entries_def)
  show ?thesis using manifest_digest_canonical [OF d m] unfolding l .
qed


definition wit_envelope :: snapshot_envelope where
  "wit_envelope = \<lparr>n_Protocol = SnapshotProtocolV1, n_ProjectID = ''p'', n_ConnectorID = ''c'', n_Table = ''t'',
     n_SyncID = ''y'', n_Generation = ''g'', n_GenerationSeq = 3, n_BindingDigest = wit_hash,
     n_CaptureStartedAt = 10, n_Kind = SnapshotKindBatch, n_RunID = ''r'', n_BatchID = ''b0'', n_BatchIndex = 0,
     n_PayloadSHA256 = wit_hash, n_CaptureFinishedAt = None,
     n_Rows = [\<lparr>w_Key = ''k1'', w_Cursor = '''', w_Data = ''d''\<rparr>], n_ExpectedBatches = 0,
     n_ExpectedRows = 0, n_BatchManifestSHA256 = ''''\<rparr>"

lemma wit_envelope_ok [simp]: "Validate wit_snap wit_envelope = None"
proof -
  have "trim_space ''k1'' = ''k1''" by (rule trim_space_plain) (simp add: plain_def)
  then show ?thesis
    by (simp add: Validate_def wit_envelope_def SnapshotPayloadDigest_def CanonicalSnapshotRows_def wit_snap_def
        SnapshotKindBatch_def zero_time_def)
qed

definition wit_raw :: "json_value \<Rightarrow> string" where
  "wit_raw v = (case v of JString s \<Rightarrow> CHR ''s'' # s @ ''.'' | JNull \<Rightarrow> ''null'' | _ \<Rightarrow> ''0'')"

definition wit_json :: json_lib where
  "wit_json = \<lparr>raw_value = wit_raw, object_text = (\<lambda>kvs. ''{}''),
     object_fields = (\<lambda>_. Some (map_of (map (\<lambda>(n, v). (n, wit_raw v)) (MarshalJSON wit_envelope)))),
     decode_string = (\<lambda>raw. Some (butlast (tl raw))), decode_envelope = (\<lambda>_. Some wit_envelope)\<rparr>"

lemma wit_raw_null: "null_raw (wit_raw v) \<longleftrightarrow> v = JNull"
proof -
  have p: "plain (CHR ''s'')" "plain (CHR ''.'')" by (simp_all add: plain_def)
  have "trim_space (CHR ''s'' # s @ ''.'') = CHR ''s'' # s @ ''.''" for s
    using p by (simp add: trim_space_def)
  moreover have "trim_space ''0'' = ''0''" "trim_space ''null'' = ''null''"
    by (rule trim_space_plain, simp add: plain_def)+
  ultimately show ?thesis by (cases v) (simp_all add: null_raw_def wit_raw_def)
qed


end
