(* ===== verification/Snapshots.thy ===== *)
theory Snapshots
  imports IngestStore Envelope
begin

text \<open>
  Snapshot mode in the serving store (\<open>internal/dataplane/store/duckdb_snapshots.go\<close>). Batches
  and completions of a capture generation are staged; when the exact manifest is present one
  transaction replaces the serving rows of the source by the staged rows and records the
  generation as active. Retired generations are cleaned up in bounded chunks and leave a receipt.
  The tables are lists of rows; a \<open>TIMESTAMPTZ\<close> column holds the stamp of an instant.
\<close>

section \<open>Tables\<close>

type_synonym source_key = "string \<times> string \<times> string"

record staged_batch =
  sb_source :: source_key
  sb_generation :: string
  sb_sync_id :: string
  sb_seq :: int
  sb_binding :: string
  sb_batch_id :: string
  sb_index :: int
  sb_payload :: string
  sb_row_count :: int
  sb_started :: time
  sb_run_id :: string

record staged_row =
  st_source :: source_key
  st_generation :: string
  st_batch_id :: string
  st_key :: string
  st_data :: string

record completion =
  cm_source :: source_key
  cm_generation :: string
  cm_sync_id :: string
  cm_seq :: int
  cm_binding :: string
  cm_batches :: int
  cm_rows :: int
  cm_manifest :: string
  cm_started :: time
  cm_finished :: time
  cm_run_id :: string

record promotion =
  pm_source :: source_key
  pm_generation :: string
  pm_sync_id :: string
  pm_seq :: int
  pm_binding :: string
  pm_started :: time
  pm_finished :: time
  pm_promoted_at :: time
  pm_batches :: int
  pm_rows :: int
  pm_manifest :: string

record serving_db =
  v_ingest :: ingest_db
  v_batches :: "staged_batch list"
  v_rows :: "staged_row list"
  v_completions :: "completion list"
  v_promotions :: "promotion list"
  v_cleaned :: "(string \<times> time) list"

definition on_ingest ::
  "(ingest_db \<Rightarrow> store_error + ingest_db) \<Rightarrow> serving_db \<Rightarrow> store_error + serving_db" where
  "on_ingest f db = res_bind (f (v_ingest db)) (\<lambda>i. Inr (db\<lparr>v_ingest := i\<rparr>))"

definition env_key :: "db_lib \<Rightarrow> snapshot_envelope \<Rightarrow> store_error + source_key \<times> string" where
  "env_key lib env =
     res_bind (cast_uuid lib (n_ProjectID env)) (\<lambda>p.
     res_bind (cast_uuid lib (n_ConnectorID env)) (\<lambda>c.
     res_bind (cast_uuid lib (n_Generation env)) (\<lambda>g. Inr ((p, c, n_Table env), g))))"

abbreviation batches_of :: "serving_db \<Rightarrow> source_key \<times> string \<Rightarrow> staged_batch list" where
  "batches_of db kg \<equiv> filter (\<lambda>b. (sb_source b, sb_generation b) = kg) (v_batches db)"

abbreviation rows_of :: "serving_db \<Rightarrow> source_key \<times> string \<Rightarrow> staged_row list" where
  "rows_of db kg \<equiv> filter (\<lambda>r. (st_source r, st_generation r) = kg) (v_rows db)"

definition completion_of :: "serving_db \<Rightarrow> source_key \<times> string \<Rightarrow> completion option" where
  "completion_of db kg = find (\<lambda>c. (cm_source c, cm_generation c) = kg) (v_completions db)"

definition active_of :: "serving_db \<Rightarrow> source_key \<Rightarrow> promotion option" where
  "active_of db k = find (\<lambda>p. pm_source p = k) (v_promotions db)"

definition cleaned :: "serving_db \<Rightarrow> string \<Rightarrow> bool" where
  "cleaned db g \<longleftrightarrow> g \<in> fst ` set (v_cleaned db)"

definition generation_active :: "serving_db \<Rightarrow> string \<Rightarrow> bool" where
  "generation_active db g \<longleftrightarrow> list_ex (\<lambda>p. pm_generation p = g) (v_promotions db)"

section \<open>Staging\<close>

definition same_identity ::
  "snapshot_envelope \<Rightarrow> string \<times> int \<times> string \<times> time \<Rightarrow> bool" where
  "same_identity env i \<longleftrightarrow>
     i = (n_SyncID env, n_GenerationSeq env, n_BindingDigest env, n_CaptureStartedAt env)"

definition staged_identity ::
  "serving_db \<Rightarrow> source_key \<times> string \<Rightarrow> (string \<times> int \<times> string \<times> time) option" where
  "staged_identity db kg =
     (case batches_of db kg of
        b # _ \<Rightarrow> Some (sb_sync_id b, sb_seq b, sb_binding b, sb_started b)
      | [] \<Rightarrow> map_option (\<lambda>c. (cm_sync_id c, cm_seq c, cm_binding c, cm_started c)) (completion_of db kg))"

definition validateSnapshotGenerationIdentity ::
  "db_lib \<Rightarrow> snapshot_envelope \<Rightarrow> serving_db \<Rightarrow> store_error + (source_key \<times> string)" where
  "validateSnapshotGenerationIdentity lib env db =
     res_bind (env_key lib env) (\<lambda>kg.
       case staged_identity db kg of
         None \<Rightarrow> Inr kg
       | Some i \<Rightarrow> if same_identity env i then Inr kg
                   else Inl (SnapshotRejected ''snapshot generation identity conflicts with staged data''))"

definition batch_row_of ::
  "db_lib \<Rightarrow> snapshot_envelope \<Rightarrow> source_key \<times> string \<Rightarrow> string \<Rightarrow> string \<Rightarrow> staged_batch" where
  "batch_row_of lib env kg sync run =
     \<lparr>sb_source = fst kg, sb_generation = snd kg, sb_sync_id = sync, sb_seq = n_GenerationSeq env,
      sb_binding = n_BindingDigest env, sb_batch_id = n_BatchID env, sb_index = n_BatchIndex env,
      sb_payload = n_PayloadSHA256 env, sb_row_count = int (length (n_Rows env)),
      sb_started = stamp lib (n_CaptureStartedAt env), sb_run_id = run\<rparr>"

definition staged_row_of :: "snapshot_envelope \<Rightarrow> source_key \<times> string \<Rightarrow> snapshot_row \<Rightarrow> staged_row" where
  "staged_row_of env kg r =
     \<lparr>st_source = fst kg, st_generation = snd kg, st_batch_id = n_BatchID env, st_key = w_Key r,
      st_data = w_Data r\<rparr>"

definition rows_rejected :: store_error where
  "rows_rejected = SnapshotRejected ''snapshot batch rows were rejected by staging''"

definition stageSnapshotBatch ::
  "db_lib \<Rightarrow> snapshot_envelope \<Rightarrow> serving_db \<Rightarrow> store_error + bool \<times> serving_db" where
  "stageSnapshotBatch lib env db =
     res_bind (validateSnapshotGenerationIdentity lib env db) (\<lambda>kg.
       case find (\<lambda>b. sb_batch_id b = n_BatchID env) (batches_of db kg) of
         Some b \<Rightarrow>
           if sb_index b \<noteq> n_BatchIndex env \<or> sb_payload b \<noteq> n_PayloadSHA256 env \<or>
              sb_row_count b \<noteq> int (length (n_Rows env))
           then Inl (SnapshotRejected ''snapshot batch replay conflicts with staged payload'')
           else Inr (False, db)
       | None \<Rightarrow>
           if list_ex (\<lambda>b. sb_index b = n_BatchIndex env) (batches_of db kg)
           then Inl (SnapshotRejected ''snapshot batch index conflicts'')
           else if list_ex (\<lambda>r. list_ex (\<lambda>s. st_key s = w_Key r) (rows_of db kg)) (n_Rows env)
           then Inl rows_rejected
           else
             res_bind (cast_uuid lib (n_SyncID env)) (\<lambda>sync.
             res_bind (cast_uuid lib (n_RunID env)) (\<lambda>run.
               if \<not> distinct (map w_Key (n_Rows env)) then Inl rows_rejected
               else Inr (True, db\<lparr>v_batches := v_batches db @ [batch_row_of lib env kg sync run],
                                  v_rows := v_rows db @ map (staged_row_of env kg) (n_Rows env)\<rparr>))))"

text \<open>Validation has established that a completion carries its finishing instant.\<close>

definition stageSnapshotCompletion ::
  "db_lib \<Rightarrow> snapshot_envelope \<Rightarrow> serving_db \<Rightarrow> store_error + bool \<times> serving_db" where
  "stageSnapshotCompletion lib env db =
     res_bind (validateSnapshotGenerationIdentity lib env db) (\<lambda>kg.
       case completion_of db kg of
         Some c \<Rightarrow>
           if cm_seq c \<noteq> n_GenerationSeq env \<or> cm_batches c \<noteq> n_ExpectedBatches env \<or>
              cm_rows c \<noteq> n_ExpectedRows env \<or> cm_manifest c \<noteq> n_BatchManifestSHA256 env \<or>
              cm_binding c \<noteq> n_BindingDigest env
           then Inl (SnapshotRejected ''snapshot completion replay conflicts with staged marker'')
           else Inr (False, db)
       | None \<Rightarrow>
           res_bind (cast_uuid lib (n_SyncID env)) (\<lambda>sync.
           res_bind (cast_uuid lib (n_RunID env)) (\<lambda>run.
             Inr (True, db\<lparr>v_completions := v_completions db @
               [\<lparr>cm_source = fst kg, cm_generation = snd kg, cm_sync_id = sync, cm_seq = n_GenerationSeq env,
                 cm_binding = n_BindingDigest env, cm_batches = n_ExpectedBatches env,
                 cm_rows = n_ExpectedRows env, cm_manifest = n_BatchManifestSHA256 env,
                 cm_started = stamp lib (n_CaptureStartedAt env),
                 cm_finished = stamp lib (the (n_CaptureFinishedAt env)), cm_run_id = run\<rparr>]\<rparr>))))"

definition removeStagedTx :: "db_lib \<Rightarrow> snapshot_envelope \<Rightarrow> serving_db \<Rightarrow> store_error + serving_db" where
  "removeStagedTx lib env db =
     res_bind (cast_uuid lib (n_Generation env)) (\<lambda>g.
       if generation_active db g then Inr db
       else res_bind (env_key lib env) (\<lambda>kg.
         Inr (db\<lparr>v_rows := filter (\<lambda>r. \<not> ((st_source r, st_generation r) = kg \<and>
                    st_batch_id r = n_BatchID env)) (v_rows db),
                 v_batches := filter (\<lambda>b. \<not> ((sb_source b, sb_generation b) = kg \<and>
                    sb_batch_id b = n_BatchID env)) (v_batches db)\<rparr>)))"

definition removeStagedSnapshotBatch ::
  "db_lib \<Rightarrow> bool \<Rightarrow> snapshot_envelope \<Rightarrow> serving_db \<Rightarrow> store_error option \<times> serving_db" where
  "removeStagedSnapshotBatch lib up env db = duck_write up (removeStagedTx lib env) db"

section \<open>Promotion\<close>

datatype snapshotPromotionState =
    snapshotAwaitingPromotion | snapshotPromoted | snapshotAlreadyActive | snapshotSuperseded

definition sum_rows :: "staged_batch list \<Rightarrow> int" where
  "sum_rows bs = sum_list (map sb_row_count bs)"

definition snapshotBatchMayCompleteGenerationTx ::
  "db_lib \<Rightarrow> snapshot_envelope \<Rightarrow> serving_db \<Rightarrow> store_error + bool" where
  "snapshotBatchMayCompleteGenerationTx lib env db =
     res_bind (env_key lib env) (\<lambda>kg.
       case completion_of db kg of
         None \<Rightarrow> Inr False
       | Some c \<Rightarrow>
           if (case active_of db (fst kg) of None \<Rightarrow> False | Some p \<Rightarrow> pm_seq p \<ge> n_GenerationSeq env)
           then Inr False
           else Inr (int (length (batches_of db kg)) = cm_batches c \<and> sum_rows (batches_of db kg) = cm_rows c))"

definition sourceReceiptFromSnapshot :: "snapshot_envelope \<Rightarrow> source_mark" where
  "sourceReceiptFromSnapshot env =
     (let mark = \<lparr>s_ProjectID = n_ProjectID env, s_ConnectorID = n_ConnectorID env, s_Table = n_Table env,
         s_SyncID = n_SyncID env, s_RunID = n_RunID env, s_Generation = n_Generation env,
         s_GenerationSeq = word_of_int (n_GenerationSeq env), s_BindingDigest = n_BindingDigest env,
         s_BatchID = '''', s_BatchIndex = None, s_PayloadSHA256 = '''', s_ExpectedBatches = None,
         s_ExpectedRows = None, s_CaptureStartedAt = Some (n_CaptureStartedAt env),
         s_CaptureFinishedAt = None, s_PublishedAt = None, s_Complete = False, s_Promoted = False\<rparr>
      in if n_Kind env = SnapshotKindBatch then
           mark\<lparr>s_BatchID := n_BatchID env, s_BatchIndex := Some (word_of_int (n_BatchIndex env)),
                s_PayloadSHA256 := n_PayloadSHA256 env\<rparr>
         else mark\<lparr>s_Complete := True, s_CaptureFinishedAt := n_CaptureFinishedAt env,
                s_ExpectedBatches := Some (word_of_int (n_ExpectedBatches env)),
                s_ExpectedRows := Some (word_of_int (n_ExpectedRows env))\<rparr>)"

definition promotion_from :: "completion \<Rightarrow> time \<Rightarrow> promotion" where
  "promotion_from c at =
     \<lparr>pm_source = cm_source c, pm_generation = cm_generation c, pm_sync_id = cm_sync_id c, pm_seq = cm_seq c,
      pm_binding = cm_binding c, pm_started = cm_started c, pm_finished = cm_finished c, pm_promoted_at = at,
      pm_batches = cm_batches c, pm_rows = cm_rows c, pm_manifest = cm_manifest c\<rparr>"

definition manifest_entries :: "staged_batch list \<Rightarrow> manifest_entry list" where
  "manifest_entries bs = map (\<lambda>b. \<lparr>t_Index = sb_index b, t_BatchID = sb_batch_id b,
     t_PayloadSHA256 = sb_payload b, t_RowCount = sb_row_count b\<rparr>) (sort_key sb_index bs)"

definition serve_row :: "time \<Rightarrow> staged_row \<Rightarrow> external_row" where
  "serve_row now r = (case st_source r of (p, c, t) \<Rightarrow>
     \<lparr>x_key = (p, c, t, st_key r), x_cursor = '''', x_data = st_data r, x_synced_at = now\<rparr>)"

definition of_source :: "source_key \<Rightarrow> external_row \<Rightarrow> bool" where
  "of_source k x \<longleftrightarrow> (case x_key x of (p, c, t, _) \<Rightarrow> (p, c, t) = k)"

text \<open>The clock of a transaction: SQL \<open>now()\<close>, and \<open>time.Now\<close> at the receipts and at the
  promotion.\<close>

record clock =
  k_tx :: time
  k_receipts :: time
  k_promoted :: time

definition replace_serving :: "db_lib \<Rightarrow> source_key \<times> string \<Rightarrow> clock \<Rightarrow> completion \<Rightarrow> serving_db \<Rightarrow> serving_db" where
  "replace_serving lib kg t c db =
     db\<lparr>v_ingest := (v_ingest db)\<lparr>i_external :=
           filter (\<lambda>x. \<not> of_source (fst kg) x) (i_external (v_ingest db)) @
           map (serve_row (stamp lib (k_tx t))) (rows_of db kg)\<rparr>,
        v_promotions := filter (\<lambda>p. pm_source p \<noteq> cm_source c) (v_promotions db) @
           [promotion_from c (stamp lib (k_promoted t))]\<rparr>"

definition trySnapshotPromotion ::
  "db_lib \<Rightarrow> snap_lib \<Rightarrow> clock \<Rightarrow> snapshot_envelope \<Rightarrow> serving_db \<Rightarrow>
     store_error + (promotion option \<times> snapshotPromotionState) \<times> serving_db" where
  "trySnapshotPromotion lib slib t env db =
     res_bind (env_key lib env) (\<lambda>kg.
       case completion_of db kg of
         None \<Rightarrow> Inr ((None, snapshotAwaitingPromotion), db)
       | Some c \<Rightarrow>
           let active = active_of db (fst kg) in
           if (case active of None \<Rightarrow> False | Some p \<Rightarrow> pm_seq p \<ge> cm_seq c) then
             (case active of
                Some p \<Rightarrow>
                  if pm_seq p = cm_seq c \<and> pm_generation p = cm_generation c
                  then Inr ((Some (promotion_from c (pm_promoted_at p)), snapshotAlreadyActive), db)
                  else Inr ((None, snapshotSuperseded), db)
              | None \<Rightarrow> Inr ((None, snapshotSuperseded), db))
           else
             res_bind (sourceReceiptSupersededTx lib
                 ((sourceReceiptFromSnapshot env)\<lparr>s_GenerationSeq := word_of_int (cm_seq c),
                    s_CaptureStartedAt := Some (cm_started c)\<rparr>) (i_journal (v_ingest db))) (\<lambda>superseded.
               let bs = batches_of db kg in
               if superseded then Inr ((None, snapshotSuperseded), db)
               else if int (length bs) \<noteq> cm_batches c \<or> sum_rows bs \<noteq> cm_rows c
               then Inr ((None, snapshotAwaitingPromotion), db)
               else if SnapshotManifestDigest slib (manifest_entries bs) \<noteq> Inr (cm_manifest c)
               then Inr ((None, snapshotAwaitingPromotion), db)
               else Inr ((Some (promotion_from c (k_promoted t)), snapshotPromoted),
                         replace_serving lib kg t c db)))"

definition first_published :: "delivery_mark list \<Rightarrow> time option" where
  "first_published ds = (case find (\<lambda>d. d_PublishedAt d \<noteq> None) ds of None \<Rightarrow> None | Some d \<Rightarrow> d_PublishedAt d)"

definition snapshot_source :: "snapshot_envelope \<Rightarrow> applied_mark \<Rightarrow> source_mark" where
  "snapshot_source env mark = (sourceReceiptFromSnapshot env)\<lparr>s_PublishedAt := first_published (m_Deliveries mark)\<rparr>"

definition promoted_source :: "source_mark \<Rightarrow> promotion \<Rightarrow> source_mark" where
  "promoted_source s p =
     s\<lparr>s_Complete := True, s_Promoted := True, s_CaptureFinishedAt := Some (pm_finished p),
       s_ExpectedBatches := Some (word_of_int (pm_batches p)), s_ExpectedRows := Some (word_of_int (pm_rows p))\<rparr>"

definition on_receipts :: "(journal \<Rightarrow> store_error + journal) \<Rightarrow> ingest_db \<Rightarrow> store_error + ingest_db" where
  "on_receipts f db = res_bind (f (i_journal db)) (\<lambda>j. Inr (db\<lparr>i_journal := j\<rparr>))"

definition applySnapshotTransitionTx ::
  "db_lib \<Rightarrow> snap_lib \<Rightarrow> clock \<Rightarrow> snapshot_envelope \<Rightarrow> applied_mark \<Rightarrow> bool \<Rightarrow> serving_db \<Rightarrow>
     store_error + promotion option \<times> serving_db" where
  "applySnapshotTransitionTx lib slib t env mark envelopeApplied db =
     (let source = snapshot_source env mark in
      res_bind (trySnapshotPromotion lib slib t env db) (\<lambda>((promo, state), db1).
        let db2 = db1\<lparr>v_ingest := advance mark (v_ingest db1)\<rparr> in
        if state \<noteq> snapshotPromoted then
          let suppress = (\<not> envelopeApplied \<or> state = snapshotAlreadyActive \<or> state = snapshotSuperseded)
          in res_bind (on_ingest (receipts lib (mark\<lparr>m_Source := Some source,
                 m_suppressSourceMutation := (suppress \<or> m_suppressSourceMutation mark)\<rparr>) (k_receipts t)) db2)
               (\<lambda>db3. Inr (promo, db3))
        else (case promo of
            None \<Rightarrow> Inr (None, db2)
          | Some p \<Rightarrow>
              res_bind (on_ingest (receipts lib (mark\<lparr>m_Source := None\<rparr>) (pm_promoted_at p)) db2) (\<lambda>db3.
              res_bind (on_ingest (on_receipts
                  (RecordSnapshotPromotionTx lib (promoted_source source p) (pm_promoted_at p))) db3) (\<lambda>db4.
                Inr (Some p, db4))))))"

definition settleCleanedSnapshotEnvelopeTx ::
  "db_lib \<Rightarrow> applied_mark \<Rightarrow> time \<Rightarrow> serving_db \<Rightarrow> store_error + serving_db" where
  "settleCleanedSnapshotEnvelopeTx lib mark now db =
     on_ingest (\<lambda>i. receipts lib (mark\<lparr>m_Source := None\<rparr>) now (advance mark i)) db"

section \<open>Applying an envelope\<close>

text \<open>What the outside answers during one call: whether each checkpoint and each write commits,
  the disk probe, and the clocks of the transactions.\<close>

record snap_io =
  o_checkpoint :: bool
  o_write :: bool
  o_disk :: "disk_reserve option"
  o_clock :: clock
  o_checkpoint2 :: bool
  o_write2 :: bool
  o_clock2 :: clock
  o_undo :: bool

definition writeTx ::
  "bool \<Rightarrow> 'a \<Rightarrow> ('db \<Rightarrow> store_error + 'a \<times> 'db) \<Rightarrow> 'db \<Rightarrow> (store_error option \<times> 'a) \<times> 'db" where
  "writeTx up a f db =
     (if \<not> up then ((Some WriteFailed, a), db)
      else (case f db of Inl e \<Rightarrow> ((Some e, a), db) | Inr (b, db') \<Rightarrow> ((None, b), db')))"

definition admitDataWrite :: "disk_reserve option \<Rightarrow> store_error + unit" where
  "admitDataWrite disk = (case Check disk of None \<Rightarrow> Inr () | Some e \<Rightarrow> Inl e)"

definition completionTx ::
  "db_lib \<Rightarrow> snap_lib \<Rightarrow> snap_io \<Rightarrow> snapshot_envelope \<Rightarrow> applied_mark \<Rightarrow> serving_db \<Rightarrow>
     store_error + promotion option \<times> serving_db" where
  "completionTx lib slib io env mark db =
     res_bind (cast_uuid lib (n_Generation env)) (\<lambda>g.
       if cleaned db g then
         res_bind (settleCleanedSnapshotEnvelopeTx lib mark (k_receipts (o_clock io)) db) (\<lambda>db'. Inr (None, db'))
       else
         res_bind (admitDataWrite (o_disk io)) (\<lambda>_.
         res_bind (stageSnapshotCompletion lib env db) (\<lambda>(applied, db1).
           applySnapshotTransitionTx lib slib (o_clock io) env mark applied db1)))"

text \<open>The first transaction of a batch. Its outcome is the captured \<open>cleaned\<close>,
  \<open>envelopeApplied\<close>, \<open>needsPromotionCheckpoint\<close> and \<open>promotion\<close>.\<close>

definition batchTx ::
  "db_lib \<Rightarrow> snap_lib \<Rightarrow> snap_io \<Rightarrow> snapshot_envelope \<Rightarrow> applied_mark \<Rightarrow> serving_db \<Rightarrow>
     store_error + (bool \<times> bool \<times> bool \<times> promotion option) \<times> serving_db" where
  "batchTx lib slib io env mark db =
     res_bind (cast_uuid lib (n_Generation env)) (\<lambda>g.
       if cleaned db g then
         res_bind (settleCleanedSnapshotEnvelopeTx lib mark (k_receipts (o_clock io)) db) (\<lambda>db'.
           Inr ((True, False, False, None), db'))
       else
         res_bind (admitDataWrite (o_disk io)) (\<lambda>_.
         res_bind (stageSnapshotBatch lib env db) (\<lambda>(applied, db1).
         res_bind (snapshotBatchMayCompleteGenerationTx lib env db1) (\<lambda>needs.
           if needs then Inr ((False, applied, True, None), db1)
           else res_bind (applySnapshotTransitionTx lib slib (o_clock io) env mark applied db1) (\<lambda>(p, db2).
             Inr ((False, applied, False, p), db2))))))"

definition undo_if :: "bool \<Rightarrow> db_lib \<Rightarrow> bool \<Rightarrow> snapshot_envelope \<Rightarrow> serving_db \<Rightarrow> serving_db" where
  "undo_if applied lib up env db = (if applied then snd (removeStagedSnapshotBatch lib up env db) else db)"

definition applySnapshotBatchEnvelope ::
  "db_lib \<Rightarrow> snap_lib \<Rightarrow> snap_io \<Rightarrow> snapshot_envelope \<Rightarrow> applied_mark \<Rightarrow> serving_db \<Rightarrow>
     (store_error option \<times> promotion option) \<times> serving_db" where
  "applySnapshotBatchEnvelope lib slib io env mark db =
     (case writeTx (o_write io) (False, False, False, None) (batchTx lib slib io env mark) db of
        ((Some e, _), db1) \<Rightarrow> ((Some e, None), db1)
      | ((None, (isCleaned, applied, needs, promo)), db1) \<Rightarrow>
          if isCleaned then ((None, None), db1)
          else if \<not> needs then ((None, promo), db1)
          else if \<not> o_checkpoint2 io then ((Some WriteFailed, None), undo_if applied lib (o_undo io) env db1)
          else (case writeTx (o_write2 io) None
                    (applySnapshotTransitionTx lib slib (o_clock2 io) env mark applied) db1 of
              ((Some e, _), db2) \<Rightarrow> ((Some e, None), undo_if applied lib (o_undo io) env db2)
            | ((None, p), db2) \<Rightarrow> ((None, p), db2)))"

definition ApplySnapshotEnvelope ::
  "db_lib \<Rightarrow> snap_lib \<Rightarrow> snap_io \<Rightarrow> snapshot_envelope \<Rightarrow> applied_mark \<Rightarrow> serving_db \<Rightarrow>
     (store_error option \<times> promotion option) \<times> serving_db" where
  "ApplySnapshotEnvelope lib slib io env mark db =
     (if Validate slib env \<noteq> None then ((Some (SnapshotRejected ''invalid''), None), db)
      else if \<not> o_checkpoint io then ((Some WriteFailed, None), db)
      else if n_Kind env = SnapshotKindBatch then applySnapshotBatchEnvelope lib slib io env mark db
      else writeTx (o_write io) None (completionTx lib slib io env mark) db)"

section \<open>Reads and cleanup\<close>

definition SnapshotPromotion ::
  "db_lib \<Rightarrow> string \<Rightarrow> string \<Rightarrow> string \<Rightarrow> serving_db \<Rightarrow> store_error + promotion option" where
  "SnapshotPromotion lib projectID connectorID table db =
     res_bind (cast_uuid lib projectID) (\<lambda>p.
     res_bind (cast_uuid lib connectorID) (\<lambda>c. Inr (active_of db (p, c, table))))"

record staging_descriptor =
  g_ProjectID :: string
  g_ConnectorID :: string
  g_Table :: string
  g_Generation :: string
  g_GenerationSeq :: int
  g_State :: string
  g_TerminalAt :: "time option"
  g_Active :: bool
  g_Superseded :: bool
  g_Unpublished :: bool

definition superseded_by :: "serving_db \<Rightarrow> source_key \<Rightarrow> int \<Rightarrow> bool" where
  "superseded_by db k q \<longleftrightarrow> list_ex (\<lambda>p. pm_source p = k \<and> pm_seq p > q) (v_promotions db)"

definition snapshotGenerationSuperseded ::
  "db_lib \<Rightarrow> staging_descriptor \<Rightarrow> serving_db \<Rightarrow> store_error + bool" where
  "snapshotGenerationSuperseded lib d db =
     res_bind (cast_uuid lib (g_ProjectID d)) (\<lambda>p.
     res_bind (cast_uuid lib (g_ConnectorID d)) (\<lambda>c.
       Inr (superseded_by db (p, c, g_Table d) (g_GenerationSeq d))))"

definition snapshotGenerationActive :: "db_lib \<Rightarrow> string \<Rightarrow> serving_db \<Rightarrow> store_error + bool" where
  "snapshotGenerationActive lib generation db =
     res_bind (cast_uuid lib generation) (\<lambda>g. Inr (generation_active db g))"

definition snapshotGenerationCleanupComplete :: "db_lib \<Rightarrow> string \<Rightarrow> serving_db \<Rightarrow> store_error + bool" where
  "snapshotGenerationCleanupComplete lib generation db =
     res_bind (cast_uuid lib generation) (\<lambda>g. Inr (cleaned db g))"

text \<open>The descriptors carry the text of UUID columns; the map from a source to its active
  generation is keyed by that text.\<close>

definition classify_one :: "promotion list \<Rightarrow> staging_descriptor \<Rightarrow> staging_descriptor" where
  "classify_one ps d =
     (case find (\<lambda>p. pm_source p = (g_ProjectID d, g_ConnectorID d, g_Table d)) ps of
        None \<Rightarrow> d
      | Some p \<Rightarrow> d\<lparr>g_Active := (pm_generation p = g_Generation d),
                    g_Superseded := (g_State d = ''sealed'' \<and> pm_seq p > g_GenerationSeq d)\<rparr>)"

definition classifySnapshotGenerations ::
  "db_lib \<Rightarrow> serving_db \<Rightarrow> staging_descriptor list \<Rightarrow> store_error + staging_descriptor list" where
  "classifySnapshotGenerations lib db ds =
     (if ds = [] then Inr []
      else
        res_bind (res_fold (\<lambda>d ks.
            res_bind (cast_uuid lib (g_ProjectID d)) (\<lambda>p.
            res_bind (cast_uuid lib (g_ConnectorID d)) (\<lambda>c. Inr ((p, c, g_Table d) # ks)))) ds [])
          (\<lambda>ks. Inr (map (classify_one (filter (\<lambda>p. pm_source p \<in> set ks) (v_promotions db))) ds)))"

fun remove_first :: "nat \<Rightarrow> ('a \<Rightarrow> bool) \<Rightarrow> 'a list \<Rightarrow> 'a list" where
  "remove_first n P [] = []"
| "remove_first n P (x # xs) =
     (if P x \<and> 0 < n then remove_first (n - 1) P xs else x # remove_first n P xs)"

definition cleanup_receipt :: "string \<Rightarrow> time \<Rightarrow> (string \<times> time) list \<Rightarrow> (string \<times> time) list" where
  "cleanup_receipt g now rs = filter (\<lambda>r. fst r \<noteq> g) rs @ [(g, now)]"

definition chunk_eligible :: "db_lib \<Rightarrow> staging_descriptor \<Rightarrow> string \<Rightarrow> serving_db \<Rightarrow> store_error + bool" where
  "chunk_eligible lib d g db =
     (if generation_active db g then Inr False
      else if g_State d = ''sealed'' then snapshotGenerationSuperseded lib d db
      else Inr True)"

definition clean_chunk :: "string \<Rightarrow> nat \<Rightarrow> time \<Rightarrow> serving_db \<Rightarrow> (nat \<times> bool) \<times> serving_db" where
  "clean_chunk g limit now db =
     (let rest = remove_first limit (\<lambda>r. st_generation r = g) (v_rows db);
          deleted = length (v_rows db) - length rest
      in if list_ex (\<lambda>r. st_generation r = g) rest then ((deleted, True), db\<lparr>v_rows := rest\<rparr>)
         else ((deleted, False), db\<lparr>v_rows := rest,
            v_batches := filter (\<lambda>b. sb_generation b \<noteq> g) (v_batches db),
            v_completions := filter (\<lambda>c. cm_generation c \<noteq> g) (v_completions db),
            v_cleaned := cleanup_receipt g now (v_cleaned db)\<rparr>))"

definition deleteSnapshotStagingChunk ::
  "db_lib \<Rightarrow> bool \<Rightarrow> staging_descriptor \<Rightarrow> nat \<Rightarrow> time \<Rightarrow> serving_db \<Rightarrow>
     (store_error option \<times> nat \<times> bool \<times> bool) \<times> serving_db" where
  "deleteSnapshotStagingChunk lib up d limit now db =
     writeTx up (0, False, False) (\<lambda>db.
       res_bind (cast_uuid lib (g_Generation d)) (\<lambda>g.
       res_bind (chunk_eligible lib d g db) (\<lambda>ok.
         if \<not> ok then Inr ((0, False, False), db)
         else (let ((deleted, more), db') = clean_chunk g limit (stamp lib now) db
               in Inr ((deleted, more, True), db'))))) db"

section \<open>Operations of a serving store\<close>

datatype snap_op =
    OpEnvelope snap_io snapshot_envelope applied_mark
  | OpClean bool staging_descriptor nat time
  | OpIngest duck_op

fun snap_exec :: "db_lib \<Rightarrow> person_lib \<Rightarrow> snap_lib \<Rightarrow> snap_op \<Rightarrow> serving_db \<Rightarrow> serving_db" where
  "snap_exec lib plib slib (OpEnvelope io env mark) db = snd (ApplySnapshotEnvelope lib slib io env mark db)"
| "snap_exec lib plib slib (OpClean up d limit now) db = snd (deleteSnapshotStagingChunk lib up d limit now db)"
| "snap_exec lib plib slib (OpIngest op) db = db\<lparr>v_ingest := duck_exec lib plib op (v_ingest db)\<rparr>"

text \<open>The journal in PostgreSQL is the authority on generations: it fixes the source and the
  sequence of each, and a completion is only ever published by the seal. \<open>reg\<close> is that knowledge:
  the source, the sequence, and whether the generation is ever sealed. Envelopes and the
  descriptors of cleanup are read from it.\<close>

type_synonym registry = "string \<Rightarrow> source_key \<times> int \<times> bool"

definition announced :: "db_lib \<Rightarrow> registry \<Rightarrow> snapshot_envelope \<Rightarrow> bool" where
  "announced lib reg env \<longleftrightarrow>
     (case env_key lib env of
        Inl _ \<Rightarrow> True
      | Inr (k, g) \<Rightarrow>
          fst (reg g) = k \<and> fst (snd (reg g)) = n_GenerationSeq env \<and>
          (n_Kind env = SnapshotKindBatch \<or> snd (snd (reg g))))"

definition descriptor_ok :: "db_lib \<Rightarrow> registry \<Rightarrow> staging_descriptor \<Rightarrow> bool" where
  "descriptor_ok lib reg d \<longleftrightarrow>
     (case (cast_uuid lib (g_ProjectID d), cast_uuid lib (g_ConnectorID d), cast_uuid lib (g_Generation d)) of
        (Inr p, Inr c, Inr g) \<Rightarrow> reg g = ((p, c, g_Table d), g_GenerationSeq d, g_State d = ''sealed'')
      | _ \<Rightarrow> False)"

fun op_ok :: "db_lib \<Rightarrow> registry \<Rightarrow> snap_op \<Rightarrow> bool" where
  "op_ok lib reg (OpEnvelope io env mark) = announced lib reg env"
| "op_ok lib reg (OpClean up d limit now) = descriptor_ok lib reg d"
| "op_ok lib reg (OpIngest op) = True"

section \<open>The steps of the staging tables\<close>

text \<open>What any operation does, transaction by transaction: the ingest tables move on their own; a
  batch, a completion, a promotion, the withdrawal of a batch and a cleanup chunk are the only
  steps of the staging tables.\<close>

definition fresh_batch :: "serving_db \<Rightarrow> source_key \<times> string \<Rightarrow> snapshot_envelope \<Rightarrow> bool" where
  "fresh_batch db kg env \<longleftrightarrow>
     \<not> list_ex (\<lambda>b. sb_batch_id b = n_BatchID env) (batches_of db kg) \<and>
     \<not> list_ex (\<lambda>b. sb_index b = n_BatchIndex env) (batches_of db kg) \<and>
     \<not> list_ex (\<lambda>r. list_ex (\<lambda>s. st_key s = w_Key r) (rows_of db kg)) (n_Rows env) \<and>
     distinct (map w_Key (n_Rows env))"

definition promotable :: "snap_lib \<Rightarrow> serving_db \<Rightarrow> source_key \<times> string \<Rightarrow> completion \<Rightarrow> bool" where
  "promotable slib db kg c \<longleftrightarrow>
     completion_of db kg = Some c \<and>
     (\<forall>p. active_of db (fst kg) = Some p \<longrightarrow> pm_seq p < cm_seq c) \<and>
     int (length (batches_of db kg)) = cm_batches c \<and> sum_rows (batches_of db kg) = cm_rows c \<and>
     SnapshotManifestDigest slib (manifest_entries (batches_of db kg)) = Inr (cm_manifest c)"

definition cleanable :: "registry \<Rightarrow> serving_db \<Rightarrow> string \<Rightarrow> bool" where
  "cleanable reg db g \<longleftrightarrow> \<not> generation_active db g \<and>
     (snd (snd (reg g)) \<longrightarrow> superseded_by db (fst (reg g)) (fst (snd (reg g))))"

inductive snap_step :: "db_lib \<Rightarrow> snap_lib \<Rightarrow> registry \<Rightarrow> serving_db \<Rightarrow> serving_db \<Rightarrow> bool"
  for lib slib reg where
  ingest: "snap_step lib slib reg db (db\<lparr>v_ingest := i\<rparr>)"
| batch: "env_key lib env = Inr kg \<Longrightarrow> fst (reg (snd kg)) = fst kg \<Longrightarrow>
     fst (snd (reg (snd kg))) = n_GenerationSeq env \<Longrightarrow> \<not> cleaned db (snd kg) \<Longrightarrow>
     fresh_batch db kg env \<Longrightarrow>
     snap_step lib slib reg db (db\<lparr>v_batches := v_batches db @ [batch_row_of lib env kg sync run],
        v_rows := v_rows db @ map (staged_row_of env kg) (n_Rows env)\<rparr>)"
| complete: "reg (cm_generation c) = (cm_source c, cm_seq c, True) \<Longrightarrow> \<not> cleaned db (cm_generation c) \<Longrightarrow>
     completion_of db (cm_source c, cm_generation c) = None \<Longrightarrow>
     snap_step lib slib reg db (db\<lparr>v_completions := v_completions db @ [c]\<rparr>)"
| promote: "promotable slib db kg c \<Longrightarrow> snap_step lib slib reg db (replace_serving lib kg t c db)"
| withdraw: "\<not> generation_active db (snd kg) \<Longrightarrow>
     snap_step lib slib reg db (db\<lparr>
        v_rows := filter (\<lambda>r. \<not> ((st_source r, st_generation r) = kg \<and> st_batch_id r = bid)) (v_rows db),
        v_batches := filter (\<lambda>b. \<not> ((sb_source b, sb_generation b) = kg \<and> sb_batch_id b = bid)) (v_batches db)\<rparr>)"
| clean: "cleanable reg db g \<Longrightarrow> snap_step lib slib reg db (snd (clean_chunk g limit now db))"

abbreviation snap_steps :: "db_lib \<Rightarrow> snap_lib \<Rightarrow> registry \<Rightarrow> serving_db \<Rightarrow> serving_db \<Rightarrow> bool" where
  "snap_steps lib slib reg \<equiv> (snap_step lib slib reg)\<^sup>*\<^sup>*"

lemma steps_one: "snap_step lib slib reg db db' \<Longrightarrow> snap_steps lib slib reg db db'"
  by blast

lemma steps_ingest:
  "db' = db\<lparr>v_ingest := i\<rparr> \<Longrightarrow> snap_steps lib slib reg db db'"
  by (simp add: r_into_rtranclp snap_step.ingest)

lemma on_ingest_result: "on_ingest f db = Inr db' \<longleftrightarrow> (\<exists>i. f (v_ingest db) = Inr i \<and> db' = db\<lparr>v_ingest := i\<rparr>)"
  by (auto simp: on_ingest_def)

lemma identity_key: "validateSnapshotGenerationIdentity lib env db = Inr kg \<Longrightarrow> env_key lib env = Inr kg"
  by (auto simp: validateSnapshotGenerationIdentity_def split: option.splits if_splits)

lemma env_key_casts:
  "env_key lib env = Inr kg \<longleftrightarrow>
     (\<exists>p c g. cast_uuid lib (n_ProjectID env) = Inr p \<and> cast_uuid lib (n_ConnectorID env) = Inr c \<and>
        cast_uuid lib (n_Generation env) = Inr g \<and> kg = ((p, c, n_Table env), g))"
  by (auto simp: env_key_def)

lemma stageSnapshotBatch_cases:
  assumes "stageSnapshotBatch lib env db = Inr (applied, db')"
  obtains (replay) kg where "env_key lib env = Inr kg" "\<not> applied" "db' = db"
  | (staged) kg sync run where "env_key lib env = Inr kg" "applied" "fresh_batch db kg env"
      "db' = db\<lparr>v_batches := v_batches db @ [batch_row_of lib env kg sync run],
         v_rows := v_rows db @ map (staged_row_of env kg) (n_Rows env)\<rparr>"
proof -
  obtain kg where v: "validateSnapshotGenerationIdentity lib env db = Inr kg"
    using assms by (auto simp: stageSnapshotBatch_def)
  note k = identity_key [OF v]
  show thesis
  proof (cases "find (\<lambda>b. sb_batch_id b = n_BatchID env) (batches_of db kg)")
    case (Some b)
    with assms v have "\<not> applied" "db' = db" by (auto simp: stageSnapshotBatch_def split: if_splits)
    with k show thesis by (rule replay)
  next
    case None
    then have "\<not> list_ex (\<lambda>b. sb_batch_id b = n_BatchID env) (batches_of db kg)"
      by (auto simp: find_None_iff list_ex_iff)
    with assms v None k show thesis
      by (auto simp: stageSnapshotBatch_def fresh_batch_def simp del: list_ex_iff
          split: if_splits intro: staged)
  qed
qed

lemma stageSnapshotCompletion_cases:
  assumes "stageSnapshotCompletion lib env db = Inr (applied, db')"
  obtains (replay) kg where "env_key lib env = Inr kg" "\<not> applied" "db' = db"
  | (staged) kg c where "env_key lib env = Inr kg" "applied" "completion_of db kg = None"
      "kg = (cm_source c, cm_generation c)" "cm_seq c = n_GenerationSeq env"
      "db' = db\<lparr>v_completions := v_completions db @ [c]\<rparr>"
proof -
  obtain kg where v: "validateSnapshotGenerationIdentity lib env db = Inr kg"
    using assms by (auto simp: stageSnapshotCompletion_def)
  note k = identity_key [OF v]
  show thesis
  proof (cases "completion_of db kg")
    case (Some c)
    with assms v have "\<not> applied" "db' = db" by (auto simp: stageSnapshotCompletion_def split: if_splits)
    with k show thesis by (rule replay)
  next
    case None
    with assms v k show thesis
      by (auto simp: stageSnapshotCompletion_def intro!: staged)
  qed
qed

text \<open>A promotion attempt either leaves every table alone or promotes a promotable generation.\<close>

lemma trySnapshotPromotion_cases:
  assumes "trySnapshotPromotion lib slib t env db = Inr ((p, state), db')"
  obtains (kept) "state \<noteq> snapshotPromoted" "db' = db"
  | (promoted) kg c where "env_key lib env = Inr kg" "promotable slib db kg c" "state = snapshotPromoted"
      "p = Some (promotion_from c (k_promoted t))" "db' = replace_serving lib kg t c db"
proof -
  obtain kg where k: "env_key lib env = Inr kg" using assms by (auto simp: trySnapshotPromotion_def)
  show thesis
  proof (cases "state = snapshotPromoted")
    case False
    have "db' = db"
      using assms k False
      by (auto simp: trySnapshotPromotion_def Let_def split: option.splits if_splits)
    with False show thesis by (rule kept)
  next
    case True
    then obtain c where c: "completion_of db kg = Some c"
      using assms k by (auto simp: trySnapshotPromotion_def split: option.splits)
    let ?low = "case active_of db (fst kg) of None \<Rightarrow> False | Some p \<Rightarrow> pm_seq p \<ge> cm_seq c"
    have low: "\<not> ?low"
      using assms k c True by (auto simp: trySnapshotPromotion_def Let_def split: option.splits if_splits)
    then have a: "\<forall>p. active_of db (fst kg) = Some p \<longrightarrow> pm_seq p < cm_seq c" by auto
    have "promotable slib db kg c \<and> p = Some (promotion_from c (k_promoted t)) \<and>
        db' = replace_serving lib kg t c db"
      using assms k c True low a
      by (auto simp: trySnapshotPromotion_def Let_def promotable_def simp del: option.case_eq_if split: if_splits)
    with k True show thesis by (intro promoted) auto
  qed
qed
text \<open>The transition: the promotion attempt, then only the ingest tables.\<close>

lemma on_ingest_external:
  assumes "on_ingest (receipts lib mark now) db = Inr db'"
  obtains i where "db' = db\<lparr>v_ingest := i\<rparr>" "i_external i = i_external (v_ingest db)"
  using assms receipts_frame(3) by (auto simp: on_ingest_result)

lemma on_receipts_external:
  assumes "on_ingest (on_receipts f) db = Inr db'"
  obtains i where "db' = db\<lparr>v_ingest := i\<rparr>" "i_external i = i_external (v_ingest db)"
  using assms by (auto simp: on_ingest_result on_receipts_def)

lemma transition_cases:
  assumes "applySnapshotTransitionTx lib slib t env mark applied db = Inr (p, db')"
  obtains (kept) i where "db' = db\<lparr>v_ingest := i\<rparr>" "i_external i = i_external (v_ingest db)"
  | (promoted) kg c db1 i where "env_key lib env = Inr kg" "promotable slib db kg c" "p \<noteq> None"
      "db1 = replace_serving lib kg t c db" "db' = db1\<lparr>v_ingest := i\<rparr>"
      "i_external i = i_external (v_ingest db1)"
proof -
  obtain p1 state db1 where att: "trySnapshotPromotion lib slib t env db = Inr ((p1, state), db1)"
    using assms by (auto simp: applySnapshotTransitionTx_def Let_def)
  let ?db2 = "db1\<lparr>v_ingest := advance mark (v_ingest db1)\<rparr>"
  from att show thesis
  proof (cases rule: trySnapshotPromotion_cases)
    case kept
    then obtain m now where "on_ingest (receipts lib m now) ?db2 = Inr db'"
      using assms att by (auto simp: applySnapshotTransitionTx_def Let_def)
    then obtain i where "db' = ?db2\<lparr>v_ingest := i\<rparr>" "i_external i = i_external (v_ingest ?db2)"
      by (rule on_ingest_external)
    with kept(2) show thesis by (intro that(1) [of i]) simp_all
  next
    case (promoted kg c)
    then obtain m now db3 f where 3: "on_ingest (receipts lib m now) ?db2 = Inr db3"
      and 4: "on_ingest (on_receipts f) db3 = Inr db'" and p: "p \<noteq> None"
      using assms att by (auto simp: applySnapshotTransitionTx_def Let_def)
    from 3 obtain i3 where "db3 = ?db2\<lparr>v_ingest := i3\<rparr>" "i_external i3 = i_external (v_ingest ?db2)"
      by (rule on_ingest_external)
    moreover from 4 obtain i4 where "db' = db3\<lparr>v_ingest := i4\<rparr>" "i_external i4 = i_external (v_ingest db3)"
      by (rule on_receipts_external)
    ultimately show thesis
      using promoted p by (intro that(2) [OF promoted(1,2) p promoted(5), of i4]) simp_all
  qed
qed

lemma transition_steps:
  assumes "applySnapshotTransitionTx lib slib t env mark applied db = Inr (p, db')"
  shows "snap_steps lib slib reg db db'"
  using assms
proof (cases rule: transition_cases)
  case (kept i)
  then show ?thesis by (intro steps_ingest)
next
  case (promoted kg c db1 i)
  have "snap_step lib slib reg db db1" using promoted(2,4) by (simp add: snap_step.promote)
  moreover have "snap_step lib slib reg db1 db'" using promoted(5) by (simp add: snap_step.ingest)
  ultimately show ?thesis by (meson converse_rtranclp_into_rtranclp r_into_rtranclp)
qed

lemma settle_cleaned_result:
  assumes "settleCleanedSnapshotEnvelopeTx lib mark now db = Inr db'"
  obtains i where "db' = db\<lparr>v_ingest := i\<rparr>" "i_external i = i_external (v_ingest db)"
  using assms receipts_frame(3) by (auto simp: settleCleanedSnapshotEnvelopeTx_def on_ingest_result)

lemma settle_cleaned_steps:
  "settleCleanedSnapshotEnvelopeTx lib mark now db = Inr db' \<Longrightarrow> snap_steps lib slib reg db db'"
  by (elim settle_cleaned_result) (rule steps_ingest)

lemma announced_key:
  "announced lib reg env \<Longrightarrow> env_key lib env = Inr kg \<Longrightarrow>
     fst (reg (snd kg)) = fst kg \<and> fst (snd (reg (snd kg))) = n_GenerationSeq env \<and>
     (n_Kind env = SnapshotKindBatch \<or> snd (snd (reg (snd kg))))"
  by (auto simp: announced_def split: prod.splits)

lemma env_key_generation: "env_key lib env = Inr kg \<Longrightarrow> cast_uuid lib (n_Generation env) = Inr g \<Longrightarrow> snd kg = g"
  by (auto simp: env_key_casts)

lemma stage_batch_steps:
  assumes "stageSnapshotBatch lib env db = Inr (applied, db')" "announced lib reg env"
    "cast_uuid lib (n_Generation env) = Inr g" "\<not> cleaned db g"
  shows "snap_steps lib slib reg db db'"
  using assms(1)
proof (cases rule: stageSnapshotBatch_cases)
  case (staged kg sync run)
  with assms(2-4) announced_key [OF assms(2) staged(1)] env_key_generation [OF staged(1) assms(3)]
  show ?thesis by (intro steps_one) (auto intro: snap_step.batch)
qed simp

lemma stage_completion_steps:
  assumes "stageSnapshotCompletion lib env db = Inr (applied, db')" "announced lib reg env"
    "cast_uuid lib (n_Generation env) = Inr g" "\<not> cleaned db g" "n_Kind env \<noteq> SnapshotKindBatch"
  shows "snap_steps lib slib reg db db'"
  using assms(1)
proof (cases rule: stageSnapshotCompletion_cases)
  case (staged kg c)
  have "reg (cm_generation c) = (cm_source c, cm_seq c, True)"
    using announced_key [OF assms(2) staged(1)] staged(4,5) assms(5) by (auto simp: prod_eq_iff)
  moreover have "\<not> cleaned db (cm_generation c)"
    using env_key_generation [OF staged(1) assms(3)] staged(4) assms(4) by simp
  ultimately show ?thesis
    using staged by (intro steps_one) (auto intro: snap_step.complete)
qed simp

lemma writeTx_cases:
  assumes "writeTx up a f db = ((e, b), db')"
  obtains (failed) err where "e = Some err" "b = a" "db' = db"
  | (committed) "e = None" "f db = Inr (b, db')"
  using assms by (auto simp: writeTx_def split: if_splits sum.splits)

lemma undo_steps: "snap_steps lib slib reg db (undo_if applied lib up env db)"
proof (cases "snd (removeStagedSnapshotBatch lib up env db) = db")
  case True
  then show ?thesis by (simp add: undo_if_def)
next
  case False
  then obtain kg where kg: "env_key lib env = Inr kg" "\<not> generation_active db (snd kg)"
    "snd (removeStagedSnapshotBatch lib up env db) = db\<lparr>
        v_rows := filter (\<lambda>r. \<not> ((st_source r, st_generation r) = kg \<and> st_batch_id r = n_BatchID env)) (v_rows db),
        v_batches := filter (\<lambda>b. \<not> ((sb_source b, sb_generation b) = kg \<and> sb_batch_id b = n_BatchID env)) (v_batches db)\<rparr>"
    using env_key_generation [of lib env]
    by (auto simp: removeStagedSnapshotBatch_def duck_write_def removeStagedTx_def split: if_splits sum.splits)
  have "snap_step lib slib reg db (snd (removeStagedSnapshotBatch lib up env db))"
    unfolding kg(3) by (rule snap_step.withdraw) (rule kg(2))
  then show ?thesis by (simp add: undo_if_def r_into_rtranclp)
qed
text \<open>Every operation of the store, on envelopes and descriptors the journal authorised, is a
  sequence of these steps.\<close>

lemma batchTx_steps:
  assumes "batchTx lib slib io env mark db = Inr (out, db')" "announced lib reg env"
  shows "snap_steps lib slib reg db db'"
proof -
  obtain g where g: "cast_uuid lib (n_Generation env) = Inr g" using assms(1) by (auto simp: batchTx_def)
  show ?thesis
  proof (cases "cleaned db g")
    case True
    with assms(1) g show ?thesis
      by (auto simp: batchTx_def intro: settle_cleaned_steps)
  next
    case False
    then obtain applied db1 where st: "stageSnapshotBatch lib env db = Inr (applied, db1)"
      using assms(1) g by (auto simp: batchTx_def)
    have 1: "snap_steps lib slib reg db db1" using stage_batch_steps [OF st assms(2) g False] .
    from assms(1) g False st have "db' = db1 \<or>
        (\<exists>p. applySnapshotTransitionTx lib slib (o_clock io) env mark applied db1 = Inr (p, db'))"
      by (auto simp: batchTx_def split: if_splits)
    with 1 transition_steps show ?thesis by (metis rtranclp_trans)
  qed
qed

lemma completionTx_steps:
  assumes "completionTx lib slib io env mark db = Inr (out, db')" "announced lib reg env"
    "n_Kind env \<noteq> SnapshotKindBatch"
  shows "snap_steps lib slib reg db db'"
proof -
  obtain g where g: "cast_uuid lib (n_Generation env) = Inr g" using assms(1) by (auto simp: completionTx_def)
  show ?thesis
  proof (cases "cleaned db g")
    case True
    with assms(1) g show ?thesis
      by (auto simp: completionTx_def intro: settle_cleaned_steps)
  next
    case False
    then obtain applied db1 where st: "stageSnapshotCompletion lib env db = Inr (applied, db1)"
      and tr: "applySnapshotTransitionTx lib slib (o_clock io) env mark applied db1 = Inr (out, db')"
      using assms(1) g by (auto simp: completionTx_def)
    show ?thesis
      using stage_completion_steps [OF st assms(2) g False assms(3)] transition_steps [OF tr]
      by (rule rtranclp_trans)
  qed
qed

lemma writeTx_steps:
  assumes "writeTx up a f db = ((e, b), db')" "\<And>b db'. f db = Inr (b, db') \<Longrightarrow> snap_steps lib slib reg db db'"
  shows "snap_steps lib slib reg db db'"
  using assms(1) by (cases rule: writeTx_cases) (auto dest: assms(2))

lemma apply_batch_steps:
  assumes "announced lib reg env"
  shows "snap_steps lib slib reg db (snd (applySnapshotBatchEnvelope lib slib io env mark db))"
proof -
  obtain e c applied needs promo db1
    where w: "writeTx (o_write io) (False, False, False, None) (batchTx lib slib io env mark) db
      = ((e, (c, applied, needs, promo)), db1)" by (metis prod_cases5 surj_pair)
  have 1: "snap_steps lib slib reg db db1"
    by (rule writeTx_steps [OF w]) (rule batchTx_steps [OF _ assms])
  obtain e2 p2 db2 where w2: "writeTx (o_write2 io) None
      (applySnapshotTransitionTx lib slib (o_clock2 io) env mark applied) db1 = ((e2, p2), db2)"
    by (metis surj_pair)
  have 2: "snap_steps lib slib reg db1 db2"
    by (rule writeTx_steps [OF w2]) (rule transition_steps)
  have "snd (applySnapshotBatchEnvelope lib slib io env mark db)
      \<in> {db1, db2, undo_if applied lib (o_undo io) env db1, undo_if applied lib (o_undo io) env db2}"
    using w w2 by (auto simp: applySnapshotBatchEnvelope_def split: option.splits)
  with 1 2 undo_steps show ?thesis by (metis (no_types) empty_iff insert_iff rtranclp_trans)
qed

lemma envelope_steps:
  assumes "announced lib reg env"
  shows "snap_steps lib slib reg db (snd (ApplySnapshotEnvelope lib slib io env mark db))"
proof (cases "n_Kind env = SnapshotKindBatch")
  case True
  then show ?thesis using apply_batch_steps [OF assms] by (simp add: ApplySnapshotEnvelope_def)
next
  case False
  obtain e b db' where w: "writeTx (o_write io) None (completionTx lib slib io env mark) db = ((e, b), db')"
    by (metis surj_pair)
  have "snap_steps lib slib reg db db'"
    by (rule writeTx_steps [OF w]) (rule completionTx_steps [OF _ assms False])
  with w False show ?thesis by (simp add: ApplySnapshotEnvelope_def)
qed

lemma clean_steps:
  assumes "descriptor_ok lib reg d"
  shows "snap_steps lib slib reg db (snd (deleteSnapshotStagingChunk lib up d limit now db))"
proof -
  obtain e b db' where w: "deleteSnapshotStagingChunk lib up d limit now db = ((e, b), db')"
    by (metis surj_pair)
  have "snap_steps lib slib reg db db'"
  proof (rule writeTx_steps [OF w [unfolded deleteSnapshotStagingChunk_def]])
    fix b db'
    assume f: "res_bind (cast_uuid lib (g_Generation d)) (\<lambda>g.
       res_bind (chunk_eligible lib d g db) (\<lambda>ok.
         if \<not> ok then Inr ((0, False, False), db)
         else (let ((deleted, more), db') = clean_chunk g limit (stamp lib now) db
               in Inr ((deleted, more, True), db')))) = Inr (b, db')"
    then obtain g ok where g: "cast_uuid lib (g_Generation d) = Inr g" and ok: "chunk_eligible lib d g db = Inr ok"
      by auto
    show "snap_steps lib slib reg db db'"
    proof (cases ok)
      case False
      with f g ok show ?thesis by simp
    next
      case True
      have "db' = snd (clean_chunk g limit (stamp lib now) db)"
        using f g ok True by (auto simp: Let_def split: prod.splits)
      moreover have "cleanable reg db g"
        using ok True g assms
        by (auto simp: cleanable_def chunk_eligible_def descriptor_ok_def snapshotGenerationSuperseded_def
            split: if_splits sum.splits)
      ultimately show ?thesis by (simp add: r_into_rtranclp snap_step.clean)
    qed
  qed
  with w show ?thesis by simp
qed

lemma exec_steps: "op_ok lib reg op \<Longrightarrow> snap_steps lib slib reg db (snap_exec lib plib slib op db)"
  by (cases op) (simp_all add: envelope_steps clean_steps steps_ingest)

lemma ops_steps:
  "list_all (op_ok lib reg) ops \<Longrightarrow> snap_steps lib slib reg db (fold (snap_exec lib plib slib) ops db)"
proof (induction ops arbitrary: db)
  case (Cons op ops)
  then show ?case using exec_steps [of lib reg op slib db plib] by (auto intro: rtranclp_trans)
qed simp
section \<open>The invariant of the staging tables\<close>

definition stage_key :: "staged_batch \<Rightarrow> (source_key \<times> string) \<times> string" where
  "stage_key b = ((sb_source b, sb_generation b), sb_batch_id b)"

definition row_batch :: "staged_row \<Rightarrow> (source_key \<times> string) \<times> string" where
  "row_batch r = ((st_source r, st_generation r), st_batch_id r)"

text \<open>The keys of the tables, and no row without its batch.\<close>

definition snap_keys :: "serving_db \<Rightarrow> bool" where
  "snap_keys db \<longleftrightarrow>
     distinct (map stage_key (v_batches db)) \<and>
     distinct (map (\<lambda>b. ((sb_source b, sb_generation b), sb_index b)) (v_batches db)) \<and>
     distinct (map (\<lambda>r. ((st_source r, st_generation r), st_key r)) (v_rows db)) \<and>
     distinct (map (\<lambda>c. (cm_source c, cm_generation c)) (v_completions db)) \<and>
     distinct (map pm_source (v_promotions db)) \<and>
     row_batch ` set (v_rows db) \<subseteq> stage_key ` set (v_batches db)"

text \<open>What is staged is what the journal knows; a cleaned generation has nothing staged.\<close>

definition snap_known :: "registry \<Rightarrow> serving_db \<Rightarrow> bool" where
  "snap_known reg db \<longleftrightarrow>
     (\<forall>b \<in> set (v_batches db). fst (reg (sb_generation b)) = sb_source b \<and>
        fst (snd (reg (sb_generation b))) = sb_seq b \<and> \<not> cleaned db (sb_generation b)) \<and>
     (\<forall>c \<in> set (v_completions db). reg (cm_generation c) = (cm_source c, cm_seq c, True) \<and>
        \<not> cleaned db (cm_generation c)) \<and>
     (\<forall>p \<in> set (v_promotions db). \<exists>c \<in> set (v_completions db).
        (cm_source c, cm_generation c, cm_seq c) = (pm_source p, pm_generation p, pm_seq p))"

text \<open>The rows of a batch are all there, until the generation is up for cleanup.\<close>

definition snap_whole :: "registry \<Rightarrow> serving_db \<Rightarrow> bool" where
  "snap_whole reg db \<longleftrightarrow>
     (\<forall>b \<in> set (v_batches db). snd (snd (reg (sb_generation b))) \<longrightarrow>
        \<not> superseded_by db (sb_source b) (sb_seq b) \<longrightarrow>
        int (length (filter (\<lambda>r. row_batch r = stage_key b) (v_rows db))) = sb_row_count b)"

definition snap_wf :: "registry \<Rightarrow> serving_db \<Rightarrow> bool" where
  "snap_wf reg db \<longleftrightarrow> snap_keys db \<and> snap_known reg db \<and> snap_whole reg db"

lemma snap_wf_empty: "snap_wf reg \<lparr>v_ingest = i, v_batches = [], v_rows = [], v_completions = [],
    v_promotions = [], v_cleaned = []\<rparr>"
  by (simp add: snap_wf_def snap_keys_def snap_known_def snap_whole_def)

lemma remove_first_props:
  "length (remove_first n P xs) \<le> length xs"
  "set (remove_first n P xs) \<subseteq> set xs"
  "filter (\<lambda>x. \<not> P x) (remove_first n P xs) = filter (\<lambda>x. \<not> P x) xs"
  "distinct (map f xs) \<Longrightarrow> distinct (map f (remove_first n P xs))"
proof -
  show "length (remove_first n P xs) \<le> length xs"
    by (induction n P xs rule: remove_first.induct) auto
  show s: "set (remove_first n P xs) \<subseteq> set xs" for n
    by (induction n P xs rule: remove_first.induct) auto
  show "filter (\<lambda>x. \<not> P x) (remove_first n P xs) = filter (\<lambda>x. \<not> P x) xs"
    by (induction n P xs rule: remove_first.induct) auto
  show "distinct (map f xs) \<Longrightarrow> distinct (map f (remove_first n P xs))"
  proof (induction n P xs rule: remove_first.induct)
    case (2 n P x xs)
    have "set (remove_first n P xs) \<subseteq> set xs"
      by (induction n P xs rule: remove_first.induct) auto
    with 2 show ?case by auto
  qed simp
qed

lemma find_key: "distinct (map f xs) \<Longrightarrow> x \<in> set xs \<Longrightarrow> find (\<lambda>y. f y = f x) xs = Some x"
  by (induction xs) (auto simp: rev_image_eqI)

lemma superseded_replace:
  assumes "promotable slib db kg c" "distinct (map pm_source (v_promotions db))" "superseded_by db k q"
  shows "superseded_by (replace_serving lib kg t c db) k q"
proof -
  obtain p where p: "p \<in> set (v_promotions db)" "pm_source p = k" "pm_seq p > q"
    using assms(3) by (auto simp: superseded_by_def list_ex_iff)
  have c: "cm_source c = fst kg" using assms(1)
    by (auto simp: promotable_def completion_of_def find_Some_iff)
  show ?thesis
  proof (cases "k = cm_source c")
    case False
    with p show ?thesis by (auto simp: superseded_by_def list_ex_iff replace_serving_def)
  next
    case True
    have "active_of db k = Some p"
      using find_key [OF assms(2) p(1)] p(2) by (simp add: active_of_def)
    with assms(1) p True c show ?thesis
      by (auto simp: superseded_by_def list_ex_iff replace_serving_def promotion_from_def promotable_def)
  qed
qed
lemma superseded_frame: "v_promotions db' = v_promotions db \<Longrightarrow> superseded_by db' = superseded_by db"
  by (simp add: superseded_by_def fun_eq_iff)

lemma cleaned_frame: "v_cleaned db' = v_cleaned db \<Longrightarrow> cleaned db' = cleaned db"
  by (simp add: cleaned_def fun_eq_iff)

lemma wf_ingest: "snap_wf reg db \<Longrightarrow> snap_wf reg (db\<lparr>v_ingest := i\<rparr>)"
  by (simp add: snap_wf_def snap_keys_def snap_known_def snap_whole_def superseded_by_def cleaned_def)

lemma fresh_stage_keys:
  assumes "fresh_batch db kg env" "snap_keys db"
  shows "snap_keys (db\<lparr>v_batches := v_batches db @ [batch_row_of lib env kg sync run],
        v_rows := v_rows db @ map (staged_row_of env kg) (n_Rows env)\<rparr>)"
proof -
  have "(kg, n_BatchID env) \<notin> stage_key ` set (v_batches db)"
    "(kg, n_BatchIndex env) \<notin> (\<lambda>b. ((sb_source b, sb_generation b), sb_index b)) ` set (v_batches db)"
    using assms(1) by (auto simp: fresh_batch_def list_ex_iff stage_key_def)
  moreover have "distinct (map (\<lambda>r. ((st_source r, st_generation r), st_key r)) (map (staged_row_of env kg) (n_Rows env)))"
    using assms(1) by (auto simp: fresh_batch_def staged_row_of_def distinct_map inj_on_def)
  moreover have "((st_source r, st_generation r), st_key r) \<noteq> (kg, w_Key x)"
    if "r \<in> set (v_rows db)" "x \<in> set (n_Rows env)" for r x
    using assms(1) that by (auto simp: fresh_batch_def list_ex_iff)
  then have "set (map (\<lambda>r. ((st_source r, st_generation r), st_key r)) (v_rows db)) \<inter>
      set (map (\<lambda>r. ((st_source r, st_generation r), st_key r)) (map (staged_row_of env kg) (n_Rows env))) = {}"
    by (fastforce simp: staged_row_of_def)
  ultimately show ?thesis
    using assms(2)
    by (auto simp: snap_keys_def stage_key_def row_batch_def batch_row_of_def staged_row_of_def)
qed

lemma wf_batch:
  assumes "snap_wf reg db" "fresh_batch db kg env" "fst (reg (snd kg)) = fst kg"
    "fst (snd (reg (snd kg))) = n_GenerationSeq env" "\<not> cleaned db (snd kg)"
  shows "snap_wf reg (db\<lparr>v_batches := v_batches db @ [batch_row_of lib env kg sync run],
        v_rows := v_rows db @ map (staged_row_of env kg) (n_Rows env)\<rparr>)" (is "snap_wf reg ?db")
proof -
  have keys: "snap_keys ?db" using fresh_stage_keys assms(1,2) by (simp add: snap_wf_def)
  have known: "snap_known reg ?db"
    using assms by (auto simp: snap_wf_def snap_known_def cleaned_def batch_row_of_def)
  have new: "row_batch r = (kg, n_BatchID env)" if "r \<in> set (map (staged_row_of env kg) (n_Rows env))" for r
    using that by (auto simp: row_batch_def staged_row_of_def)
  have old: "row_batch r \<noteq> (kg, n_BatchID env)" if "r \<in> set (v_rows db)" for r
  proof -
    have "(kg, n_BatchID env) \<notin> stage_key ` set (v_batches db)"
      using assms(2) by (auto simp: fresh_batch_def list_ex_iff stage_key_def)
    moreover have "row_batch r \<in> stage_key ` set (v_batches db)"
      using assms(1) that by (auto simp: snap_wf_def snap_keys_def)
    ultimately show ?thesis by metis
  qed
  have key: "stage_key (batch_row_of lib env kg sync run) = (kg, n_BatchID env)"
    by (simp add: stage_key_def batch_row_of_def)
  have c_old: "filter (\<lambda>r. row_batch r = stage_key b) (v_rows ?db) = filter (\<lambda>r. row_batch r = stage_key b) (v_rows db)"
    if "b \<in> set (v_batches db)" for b
  proof -
    have "stage_key b \<noteq> (kg, n_BatchID env)"
      using assms(2) that by (auto simp: fresh_batch_def list_ex_iff stage_key_def)
    then have "filter (\<lambda>r. row_batch r = stage_key b) (map (staged_row_of env kg) (n_Rows env)) = []"
      using new unfolding filter_empty_conv by metis
    then show ?thesis by (simp del: filter_map)
  qed
  have "filter (\<lambda>r. row_batch r = (kg, n_BatchID env)) (v_rows db) = []"
    using old by (simp add: filter_empty_conv)
  moreover have "filter (\<lambda>r. row_batch r = (kg, n_BatchID env)) (map (staged_row_of env kg) (n_Rows env))
      = map (staged_row_of env kg) (n_Rows env)"
    using new by (simp only: filter_id_conv) blast
  ultimately have c_new: "length (filter (\<lambda>r. row_batch r = (kg, n_BatchID env)) (v_rows ?db)) = length (n_Rows env)"
    by (simp del: filter_map)
  have "snap_whole reg ?db"
    unfolding snap_whole_def
  proof (intro ballI impI)
    fix b
    assume b: "b \<in> set (v_batches ?db)" "snd (snd (reg (sb_generation b)))" "\<not> superseded_by ?db (sb_source b) (sb_seq b)"
    show "int (length (filter (\<lambda>r. row_batch r = stage_key b) (v_rows ?db))) = sb_row_count b"
    proof (cases "b \<in> set (v_batches db)")
      case True
      with b(2,3) assms(1) show ?thesis
        unfolding c_old [OF True] by (simp add: snap_wf_def snap_whole_def superseded_by_def)
    next
      case False
      then have "b = batch_row_of lib env kg sync run" using b(1) by simp
      then show ?thesis using c_new key by (simp add: batch_row_of_def)
    qed
  qed
  with keys known show ?thesis by (simp add: snap_wf_def)
qed

lemma completion_None: "completion_of db kg = None \<longleftrightarrow> kg \<notin> (\<lambda>c. (cm_source c, cm_generation c)) ` set (v_completions db)"
  by (auto simp: completion_of_def find_None_iff)

lemma wf_complete:
  assumes "snap_wf reg db" "reg (cm_generation c) = (cm_source c, cm_seq c, True)"
    "\<not> cleaned db (cm_generation c)" "completion_of db (cm_source c, cm_generation c) = None"
  shows "snap_wf reg (db\<lparr>v_completions := v_completions db @ [c]\<rparr>)"
  using assms
  by (simp add: snap_wf_def snap_keys_def snap_known_def snap_whole_def superseded_by_def cleaned_def
      completion_None)

lemma wf_promote:
  assumes "snap_wf reg db" "promotable slib db kg c"
  shows "snap_wf reg (replace_serving lib kg t c db)"
proof -
  let ?db = "replace_serving lib kg t c db"
  have d: "distinct (map pm_source (v_promotions db))" using assms(1) by (simp add: snap_wf_def snap_keys_def)
  have "distinct (map pm_source (v_promotions ?db))"
    using d by (auto simp: replace_serving_def promotion_from_def distinct_map_filter)
  moreover have c: "c \<in> set (v_completions db)"
    using assms(2) by (auto simp: promotable_def completion_of_def find_Some_iff)
  moreover have fr: "v_batches ?db = v_batches db" "v_rows ?db = v_rows db" "v_completions ?db = v_completions db"
    "cleaned ?db = cleaned db"
    by (simp_all add: replace_serving_def cleaned_def fun_eq_iff)
  moreover from fr have "snap_whole reg ?db"
    using assms(1) superseded_replace [OF assms(2) d] unfolding snap_wf_def snap_whole_def by metis
  moreover have "snap_known reg ?db"
    using assms(1) c fr by (auto simp: snap_wf_def snap_known_def replace_serving_def promotion_from_def)
  ultimately show ?thesis
    using assms(1) by (simp add: snap_wf_def snap_keys_def)
qed

lemma wf_withdraw:
  assumes "snap_wf reg db"
  shows "snap_wf reg (db\<lparr>
        v_rows := filter (\<lambda>r. \<not> ((st_source r, st_generation r) = kg \<and> st_batch_id r = bid)) (v_rows db),
        v_batches := filter (\<lambda>b. \<not> ((sb_source b, sb_generation b) = kg \<and> sb_batch_id b = bid)) (v_batches db)\<rparr>)"
    (is "snap_wf reg ?db")
proof -
  have r: "v_rows ?db = filter (\<lambda>r. row_batch r \<noteq> (kg, bid)) (v_rows db)"
    by (auto simp: row_batch_def intro!: filter_cong)
  have b: "v_batches ?db = filter (\<lambda>b. stage_key b \<noteq> (kg, bid)) (v_batches db)"
    by (auto simp: stage_key_def intro!: filter_cong)
  have "snap_keys ?db"
    using assms unfolding snap_wf_def snap_keys_def r b by (auto simp: distinct_map_filter)
  moreover have "snap_known reg ?db"
    using assms unfolding snap_wf_def snap_known_def b by (simp add: cleaned_def)
  moreover have "filter (\<lambda>x. row_batch x = stage_key b) (v_rows ?db) = filter (\<lambda>x. row_batch x = stage_key b) (v_rows db)"
    if "stage_key b \<noteq> (kg, bid)" for b
    unfolding r filter_filter using that by (intro filter_cong) auto
  then have "snap_whole reg ?db"
    using assms unfolding snap_wf_def snap_whole_def b
    by (simp add: superseded_by_def del: filter_filter)
  ultimately show ?thesis by (simp add: snap_wf_def)
qed
lemma cleaned_receipt: "fst ` set (cleanup_receipt g now rs) = insert g (fst ` set rs)"
  by (auto simp: cleanup_receipt_def image_iff)

lemma clean_chunk_cases:
  obtains (part) rest where "snd (clean_chunk g limit now db) = db\<lparr>v_rows := rest\<rparr>"
      "rest = remove_first limit (\<lambda>r. st_generation r = g) (v_rows db)"
  | (all) rest where "\<forall>r \<in> set rest. st_generation r \<noteq> g"
      "rest = remove_first limit (\<lambda>r. st_generation r = g) (v_rows db)"
      "snd (clean_chunk g limit now db) = db\<lparr>v_rows := rest,
         v_batches := filter (\<lambda>b. sb_generation b \<noteq> g) (v_batches db),
         v_completions := filter (\<lambda>c. cm_generation c \<noteq> g) (v_completions db),
         v_cleaned := cleanup_receipt g now (v_cleaned db)\<rparr>"
  by (cases "list_ex (\<lambda>r. st_generation r = g) (remove_first limit (\<lambda>r. st_generation r = g) (v_rows db))")
    (auto simp: clean_chunk_def Let_def list_ex_iff intro: that)

lemma remove_first_other:
  assumes "\<And>x. Q x \<Longrightarrow> \<not> P x"
  shows "filter Q (remove_first n P xs) = filter Q xs"
proof -
  have "filter Q ys = filter Q (filter (\<lambda>x. \<not> P x) ys)" for ys
    using assms by (auto intro!: filter_cong)
  then show ?thesis by (metis remove_first_props(3))
qed

lemma wf_clean:
  assumes "snap_wf reg db" "cleanable reg db g"
  shows "snap_wf reg (snd (clean_chunk g limit now db))"
proof -
  have keys: "snap_keys db" and known: "snap_known reg db" and whole: "snap_whole reg db"
    using assms(1) by (simp_all add: snap_wf_def)
  define rest where "rest = remove_first limit (\<lambda>r. st_generation r = g) (v_rows db)"
  have d: "distinct (map (\<lambda>r. ((st_source r, st_generation r), st_key r)) rest)"
    unfolding rest_def by (rule remove_first_props(4)) (use keys in \<open>simp add: snap_keys_def\<close>)
  have sub: "set rest \<subseteq> set (v_rows db)" using remove_first_props(2) by (simp add: rest_def)
  then have orphan: "row_batch ` set rest \<subseteq> stage_key ` set (v_batches db)"
    using keys by (force simp: snap_keys_def)
  have same: "filter (\<lambda>r. row_batch r = stage_key b) rest = filter (\<lambda>r. row_batch r = stage_key b) (v_rows db)"
    if "sb_generation b \<noteq> g" for b
    unfolding rest_def using that by (intro remove_first_other) (auto simp: row_batch_def stage_key_def)
  show ?thesis
  proof (cases rule: clean_chunk_cases [where g = g and limit = limit and now = now and db = db])
    case (part rest')
    let ?db = "db\<lparr>v_rows := rest\<rparr>"
    have "snap_whole reg ?db"
      unfolding snap_whole_def
    proof (intro ballI impI)
      fix b
      assume b: "b \<in> set (v_batches ?db)" "snd (snd (reg (sb_generation b)))"
        "\<not> superseded_by ?db (sb_source b) (sb_seq b)"
      then have "\<not> superseded_by db (sb_source b) (sb_seq b)" "b \<in> set (v_batches db)"
        by (simp_all add: superseded_by_def)
      moreover from this have "sb_generation b \<noteq> g"
        using known assms(2) b(2) by (auto simp: snap_known_def cleanable_def)
      ultimately show "int (length (filter (\<lambda>r. row_batch r = stage_key b) (v_rows ?db))) = sb_row_count b"
        using whole b(2) same by (simp add: snap_whole_def)
    qed
    then show ?thesis
      using part keys known d orphan
      by (simp add: snap_wf_def snap_keys_def snap_known_def cleaned_def rest_def)
  next
    case (all rest')
    let ?db = "db\<lparr>v_rows := rest, v_batches := filter (\<lambda>b. sb_generation b \<noteq> g) (v_batches db),
       v_completions := filter (\<lambda>c. cm_generation c \<noteq> g) (v_completions db),
       v_cleaned := cleanup_receipt g now (v_cleaned db)\<rparr>"
    have "row_batch ` set rest \<subseteq> stage_key ` set (filter (\<lambda>b. sb_generation b \<noteq> g) (v_batches db))"
    proof
      fix k assume "k \<in> row_batch ` set rest"
      then obtain r where r: "r \<in> set rest" "k = row_batch r" by blast
      then obtain b where b: "b \<in> set (v_batches db)" "row_batch r = stage_key b" using orphan by auto
      moreover have "sb_generation b = st_generation r" using b(2) by (simp add: row_batch_def stage_key_def)
      ultimately show "k \<in> stage_key ` set (filter (\<lambda>b. sb_generation b \<noteq> g) (v_batches db))"
        using r all(1,2) by (auto simp: rest_def)
    qed
    then have "snap_keys ?db" using keys d by (simp add: snap_keys_def distinct_map_filter)
    moreover have "snap_known reg ?db"
      using known assms(2)
      by (fastforce simp: snap_known_def cleaned_def cleaned_receipt cleanable_def generation_active_def list_ex_iff)
    moreover have "snap_whole reg ?db"
      using whole same by (simp add: snap_whole_def superseded_by_def)
    ultimately show ?thesis using all(2,3) by (simp add: snap_wf_def rest_def)
  qed
qed

lemma wf_step: "snap_step lib slib reg db db' \<Longrightarrow> snap_wf reg db \<Longrightarrow> snap_wf reg db'"
proof (induction rule: snap_step.induct)
  case (batch env kg db sync run)
  then show ?case by (intro wf_batch)
next
  case (withdraw db kg bid)
  then show ?case by (intro wf_withdraw)
qed (simp_all add: wf_ingest wf_complete wf_promote wf_clean)

lemma wf_steps: "snap_steps lib slib reg db db' \<Longrightarrow> snap_wf reg db \<Longrightarrow> snap_wf reg db'"
  by (induction rule: rtranclp_induct) (auto intro: wf_step)
section \<open>What an envelope does to the serving rows\<close>

text \<open>Steps that stage or withdraw, and leave what is served alone.\<close>

definition same_serving :: "serving_db \<Rightarrow> serving_db \<Rightarrow> bool" where
  "same_serving db db' \<longleftrightarrow>
     i_external (v_ingest db') = i_external (v_ingest db) \<and> v_promotions db' = v_promotions db"

definition promotes ::
  "db_lib \<Rightarrow> snap_lib \<Rightarrow> registry \<Rightarrow> snapshot_envelope \<Rightarrow> serving_db \<Rightarrow> serving_db \<Rightarrow> bool" where
  "promotes lib slib reg env db db' \<longleftrightarrow>
     (\<exists>kg c t db1 i. env_key lib env = Inr kg \<and> snap_steps lib slib reg db db1 \<and> same_serving db db1 \<and>
        promotable slib db1 kg c \<and> db' = (replace_serving lib kg t c db1)\<lparr>v_ingest := i\<rparr> \<and>
        i_external i = i_external (v_ingest (replace_serving lib kg t c db1)))"

lemma same_serving_refl [simp]: "same_serving db db"
  by (simp add: same_serving_def)

lemma same_serving_trans: "same_serving db db1 \<Longrightarrow> same_serving db1 db2 \<Longrightarrow> same_serving db db2"
  by (simp add: same_serving_def)

lemma transition_serving:
  assumes "applySnapshotTransitionTx lib slib t env mark applied db1 = Inr (p, db')"
    "snap_steps lib slib reg db db1" "same_serving db db1"
  shows "same_serving db db' \<or> promotes lib slib reg env db db'"
  using assms(1)
proof (cases rule: transition_cases)
  case (kept i)
  with assms(3) show ?thesis by (simp add: same_serving_def)
next
  case (promoted kg c db2 i)
  with assms(2,3) show ?thesis unfolding promotes_def by blast
qed

lemma stage_batch_serving: "stageSnapshotBatch lib env db = Inr (applied, db') \<Longrightarrow> same_serving db db'"
  by (elim stageSnapshotBatch_cases) (simp_all add: same_serving_def)

lemma stage_completion_serving: "stageSnapshotCompletion lib env db = Inr (applied, db') \<Longrightarrow> same_serving db db'"
  by (elim stageSnapshotCompletion_cases) (simp_all add: same_serving_def)

lemma undo_serving [simp]: "same_serving db (undo_if applied lib up env db)"
  by (auto simp: undo_if_def removeStagedSnapshotBatch_def duck_write_def removeStagedTx_def same_serving_def
      split: sum.splits if_splits)

text \<open>The outcome of the first transaction of a batch.\<close>

lemma batchTx_cases:
  assumes "batchTx lib slib io env mark db = Inr ((c, applied, needs, p), db')" "announced lib reg env"
  obtains (settled) "c" "same_serving db db'"
  | (done_at_once) "\<not> c" "\<not> needs" "same_serving db db' \<or> promotes lib slib reg env db db'"
  | (pending) g where "\<not> c" "needs" "cast_uuid lib (n_Generation env) = Inr g" "\<not> cleaned db g"
      "stageSnapshotBatch lib env db = Inr (applied, db')"
      "snapshotBatchMayCompleteGenerationTx lib env db' = Inr True"
proof -
  obtain g where g: "cast_uuid lib (n_Generation env) = Inr g" using assms(1) by (auto simp: batchTx_def)
  show thesis
  proof (cases "cleaned db g")
    case True
    with assms(1) g obtain now where c and st: "settleCleanedSnapshotEnvelopeTx lib mark now db = Inr db'"
      by (auto simp: batchTx_def)
    from st have "same_serving db db'" by (elim settle_cleaned_result) (simp add: same_serving_def)
    with \<open>c\<close> show thesis by (rule settled)
  next
    case False
    then obtain app db1 needs1 where st: "stageSnapshotBatch lib env db = Inr (app, db1)"
      and n: "snapshotBatchMayCompleteGenerationTx lib env db1 = Inr needs1"
      using assms(1) g by (auto simp: batchTx_def)
    note 1 = stage_batch_steps [OF st assms(2) g False] stage_batch_serving [OF st]
    show thesis
    proof (cases needs1)
      case True
      with assms(1) g False st n show thesis by (intro pending [OF _ _ g False]) (auto simp: batchTx_def)
    next
      case F: False
      with assms(1) g False st n have tr: "applySnapshotTransitionTx lib slib (o_clock io) env mark app db1 = Inr (p, db')"
        and "\<not> c" "\<not> needs" by (auto simp: batchTx_def)
      with transition_serving [OF tr 1] show thesis by (intro done_at_once)
    qed
  qed
qed

lemma apply_batch_serving:
  assumes "announced lib reg env"
  shows "same_serving db (snd (applySnapshotBatchEnvelope lib slib io env mark db)) \<or>
    promotes lib slib reg env db (snd (applySnapshotBatchEnvelope lib slib io env mark db))"
proof -
  obtain e c applied needs promo db1
    where w: "writeTx (o_write io) (False, False, False, None) (batchTx lib slib io env mark) db
      = ((e, (c, applied, needs, promo)), db1)" by (metis prod_cases5 surj_pair)
  from w show ?thesis
  proof (cases rule: writeTx_cases)
    case (failed err)
    with w show ?thesis by (simp add: applySnapshotBatchEnvelope_def)
  next
    case committed
    from committed(2) assms show ?thesis
    proof (cases rule: batchTx_cases)
      case settled
      with w committed(1) show ?thesis by (simp add: applySnapshotBatchEnvelope_def)
    next
      case done_at_once
      with w committed(1) show ?thesis by (simp add: applySnapshotBatchEnvelope_def)
    next
      case (pending g)
      note 1 = stage_batch_steps [OF pending(5) assms pending(3,4)] stage_batch_serving [OF pending(5)]
      obtain e2 p2 db2 where w2: "writeTx (o_write2 io) None
          (applySnapshotTransitionTx lib slib (o_clock2 io) env mark applied) db1 = ((e2, p2), db2)"
        by (metis surj_pair)
      have r: "snd (applySnapshotBatchEnvelope lib slib io env mark db) =
          (if \<not> o_checkpoint2 io then undo_if applied lib (o_undo io) env db1
           else if e2 = None then db2 else undo_if applied lib (o_undo io) env db2)"
        using w w2 committed(1) pending(1,2) by (auto simp: applySnapshotBatchEnvelope_def split: option.splits)
      from w2 show ?thesis
      proof (cases rule: writeTx_cases)
        case (failed err)
        then show ?thesis unfolding r using same_serving_trans [OF 1(2) undo_serving] by simp
      next
        case committed
        show ?thesis
        proof (cases "o_checkpoint2 io")
          case True
          with committed(1) transition_serving [OF committed(2) 1] show ?thesis unfolding r by simp
        next
          case False
          then show ?thesis unfolding r using same_serving_trans [OF 1(2) undo_serving] by simp
        qed
      qed
    qed
  qed
qed

lemma completionTx_serving:
  assumes "completionTx lib slib io env mark db = Inr (p, db')" "announced lib reg env"
    "n_Kind env \<noteq> SnapshotKindBatch"
  shows "same_serving db db' \<or> promotes lib slib reg env db db'"
proof -
  obtain g where g: "cast_uuid lib (n_Generation env) = Inr g" using assms(1) by (auto simp: completionTx_def)
  show ?thesis
  proof (cases "cleaned db g")
    case True
    with assms(1) g obtain now where "settleCleanedSnapshotEnvelopeTx lib mark now db = Inr db'"
      by (auto simp: completionTx_def)
    then show ?thesis by (elim settle_cleaned_result) (simp add: same_serving_def)
  next
    case False
    then obtain applied db1 where st: "stageSnapshotCompletion lib env db = Inr (applied, db1)"
      and tr: "applySnapshotTransitionTx lib slib (o_clock io) env mark applied db1 = Inr (p, db')"
      using assms(1) g by (auto simp: completionTx_def)
    show ?thesis
      using transition_serving [OF tr stage_completion_steps [OF st assms(2) g False assms(3)]
          stage_completion_serving [OF st]] .
  qed
qed

lemma envelope_serving:
  assumes "announced lib reg env"
  shows "same_serving db (snd (ApplySnapshotEnvelope lib slib io env mark db)) \<or>
    promotes lib slib reg env db (snd (ApplySnapshotEnvelope lib slib io env mark db))"
proof (cases "n_Kind env = SnapshotKindBatch")
  case True
  then show ?thesis using apply_batch_serving [OF assms] by (simp add: ApplySnapshotEnvelope_def)
next
  case False
  obtain e b db' where w: "writeTx (o_write io) None (completionTx lib slib io env mark) db = ((e, b), db')"
    by (metis surj_pair)
  then have "same_serving db db' \<or> promotes lib slib reg env db db'"
    using completionTx_serving [OF _ assms False] by (cases rule: writeTx_cases) auto
  with w False show ?thesis by (simp add: ApplySnapshotEnvelope_def)
qed

end
