(* ===== verification/Promotion.thy ===== *)
theory Promotion
  imports Snapshots
begin

text \<open>
  What snapshot mode guarantees: the serving rows of a source are replaced only by a complete
  generation, stale generations serve nothing, the active generation only advances, a cleaned
  generation stays gone, and a batch that fails leaves nothing behind. All of it holds for any
  sequence of operations of the store, each transaction of which may be refused or fail.
\<close>

section \<open>What a promotion serves\<close>

lemma count_partition:
  "distinct (map f bs) \<Longrightarrow> g ` set rs \<subseteq> f ` set bs \<Longrightarrow>
     sum_list (map (\<lambda>b. length (filter (\<lambda>r. g r = f b) rs)) bs) = length rs"
proof (induction bs arbitrary: rs)
  case (Cons b bs)
  let ?rs = "filter (\<lambda>r. g r \<noteq> f b) rs"
  have sub: "g ` set ?rs \<subseteq> f ` set bs" using Cons.prems(2) by auto
  have "filter (\<lambda>r. g r = f x) ?rs = filter (\<lambda>r. g r = f x) rs" if "x \<in> set bs" for x
    unfolding filter_filter using that Cons.prems(1) by (intro filter_cong) auto
  then have m: "map (\<lambda>x. length (filter (\<lambda>r. g r = f x) ?rs)) bs = map (\<lambda>x. length (filter (\<lambda>r. g r = f x) rs)) bs"
    by (intro map_cong) (simp_all del: filter_filter)
  have "sum_list (map (\<lambda>x. length (filter (\<lambda>r. g r = f x) ?rs)) bs) = length ?rs"
    using Cons.prems(1) sub by (intro Cons.IH) auto
  then have "sum_list (map (\<lambda>x. length (filter (\<lambda>r. g r = f x) rs)) bs) = length ?rs"
    unfolding m .
  then show ?case using sum_length_filter_compl [of "\<lambda>r. g r = f b" rs] by simp
qed simp

lemma rows_of_batches:
  assumes "snap_keys db"
  shows "sum_list (map (\<lambda>b. length (filter (\<lambda>r. row_batch r = stage_key b) (v_rows db))) (batches_of db kg))
    = length (rows_of db kg)"
proof -
  have sub: "row_batch ` set (rows_of db kg) \<subseteq> stage_key ` set (batches_of db kg)"
  proof
    fix x assume "x \<in> row_batch ` set (rows_of db kg)"
    then obtain r where r: "r \<in> set (v_rows db)" "(st_source r, st_generation r) = kg" "x = row_batch r" by auto
    then obtain b where b: "b \<in> set (v_batches db)" "row_batch r = stage_key b"
      using assms by (force simp: snap_keys_def)
    then show "x \<in> stage_key ` set (batches_of db kg)"
      using r by (auto simp: row_batch_def stage_key_def)
  qed
  have "filter (\<lambda>r. row_batch r = stage_key b) (v_rows db) = filter (\<lambda>r. row_batch r = stage_key b) (rows_of db kg)"
    if "b \<in> set (batches_of db kg)" for b
    unfolding filter_filter using that by (intro filter_cong) (auto simp: row_batch_def stage_key_def)
  then have m: "map (\<lambda>b. length (filter (\<lambda>r. row_batch r = stage_key b) (v_rows db))) (batches_of db kg)
      = map (\<lambda>b. length (filter (\<lambda>r. row_batch r = stage_key b) (rows_of db kg))) (batches_of db kg)"
    by (intro map_cong) (simp_all del: filter_filter)
  have "distinct (map stage_key (batches_of db kg))" using assms by (simp add: snap_keys_def distinct_map_filter)
  from count_partition [OF this sub] show ?thesis unfolding m .
qed

lemma completion_of_Some:
  "completion_of db kg = Some c \<Longrightarrow> c \<in> set (v_completions db) \<and> (cm_source c, cm_generation c) = kg"
  by (auto simp: completion_of_def find_Some_iff)

lemma active_of_iff:
  "distinct (map pm_source (v_promotions db)) \<Longrightarrow>
     active_of db k = Some p \<longleftrightarrow> p \<in> set (v_promotions db) \<and> pm_source p = k"
  using find_key [of pm_source "v_promotions db"] by (auto simp: active_of_def find_Some_iff)

lemma no_newer:
  assumes "snap_wf reg db" "promotable slib db kg c"
  shows "\<not> superseded_by db (fst kg) (cm_seq c)"
proof -
  have "distinct (map pm_source (v_promotions db))" using assms(1) by (simp add: snap_wf_def snap_keys_def)
  with assms(2) show ?thesis
    by (fastforce simp: superseded_by_def list_ex_iff promotable_def active_of_iff)
qed

lemma sum_list_int: "int (sum_list xs) = sum_list (map int xs)"
  by (induction xs) simp_all

lemma promotable_rows:
  assumes wf: "snap_wf reg db" and pr: "promotable slib db kg c"
  shows "int (length (rows_of db kg)) = cm_rows c"
proof -
  have c: "c \<in> set (v_completions db)" "(cm_source c, cm_generation c) = kg"
    using pr completion_of_Some [of db kg c] by (simp_all add: promotable_def)
  then have reg: "reg (snd kg) = (fst kg, cm_seq c, True)" using wf by (auto simp: snap_wf_def snap_known_def)
  have "int (length (filter (\<lambda>r. row_batch r = stage_key b) (v_rows db))) = sb_row_count b"
    if "b \<in> set (batches_of db kg)" for b
  proof -
    have b: "b \<in> set (v_batches db)" "sb_source b = fst kg" "sb_generation b = snd kg" using that by auto
    moreover have "sb_seq b = cm_seq c" using wf b reg by (auto simp: snap_wf_def snap_known_def)
    ultimately show ?thesis
      using wf reg no_newer [OF wf pr] by (simp add: snap_wf_def snap_whole_def)
  qed
  then have m: "map (\<lambda>b. int (length (filter (\<lambda>r. row_batch r = stage_key b) (v_rows db)))) (batches_of db kg)
      = map sb_row_count (batches_of db kg)" by (intro map_cong) auto
  have "sum_rows (batches_of db kg)
      = int (sum_list (map (\<lambda>b. length (filter (\<lambda>r. row_batch r = stage_key b) (v_rows db))) (batches_of db kg)))"
    unfolding sum_rows_def m [symmetric] sum_list_int map_map comp_def by (rule refl)
  also have "\<dots> = int (length (rows_of db kg))"
    using rows_of_batches wf by (simp add: snap_wf_def)
  finally show ?thesis using pr by (simp add: promotable_def)
qed

lemma promotable_indices:
  assumes "promotable slib db kg c"
  shows "map sb_index (sort_key sb_index (batches_of db kg)) = map int [0..<length (batches_of db kg)]"
proof -
  let ?es = "manifest_entries (batches_of db kg)"
  have m: "map t_Index ?es = map sb_index (sort_key sb_index (batches_of db kg))"
    by (simp add: manifest_entries_def comp_def)
  then have sorted: "sorted (map t_Index ?es)" by simp
  obtain s where "manifest_text 0 (sort_key t_Index ?es) = Inr s"
    using assms by (auto simp: promotable_def SnapshotManifestDigest_def)
  from manifest_text_indices [OF this] have "map t_Index ?es = map int [0..<length ?es]"
    unfolding sort_key_id_if_sorted [OF sorted] by simp
  then show ?thesis using m by (simp add: manifest_entries_def)
qed

text \<open>The serving rows of a source are exactly one complete generation: its completion is staged,
  its batches are contiguous and as many as announced, its staged rows are as many as announced,
  and the serving rows are those rows, in order, and no others.\<close>

definition serves_exactly :: "serving_db \<Rightarrow> source_key \<Rightarrow> string \<Rightarrow> completion \<Rightarrow> bool" where
  "serves_exactly db k g c \<longleftrightarrow>
     completion_of db (k, g) = Some c \<and>
     map sb_index (sort_key sb_index (batches_of db (k, g))) = map int [0..<nat (cm_batches c)] \<and>
     int (length (rows_of db (k, g))) = cm_rows c \<and>
     distinct (map st_key (rows_of db (k, g))) \<and>
     map (\<lambda>x. (x_key x, x_data x)) (filter (of_source k) (i_external (v_ingest db)))
       = map (\<lambda>r. ((fst k, fst (snd k), snd (snd k), st_key r), st_data r)) (rows_of db (k, g))"

lemma serve_row_fields:
  "st_source r = k \<Longrightarrow> of_source k (serve_row now r)"
  "st_source r = k \<Longrightarrow> (x_key (serve_row now r), x_data (serve_row now r))
     = ((fst k, fst (snd k), snd (snd k), st_key r), st_data r)"
  by (cases k; simp add: serve_row_def of_source_def)+

lemma replaced_rows:
  "filter (of_source (fst kg)) (i_external (v_ingest (replace_serving lib kg t c db)))
     = map (serve_row (stamp lib (k_tx t))) (rows_of db kg)"
  "filter (\<lambda>x. \<not> of_source (fst kg) x) (i_external (v_ingest (replace_serving lib kg t c db)))
     = filter (\<lambda>x. \<not> of_source (fst kg) x) (i_external (v_ingest db))"
proof -
  let ?new = "map (serve_row (stamp lib (k_tx t))) (rows_of db kg)"
  have "\<forall>x \<in> set ?new. of_source (fst kg) x" by (auto simp: serve_row_fields)
  then have "filter (of_source (fst kg)) ?new = ?new" "filter (\<lambda>x. \<not> of_source (fst kg) x) ?new = []"
    by (simp_all only: filter_id_conv filter_empty_conv) blast+
  then show "filter (of_source (fst kg)) (i_external (v_ingest (replace_serving lib kg t c db))) = ?new"
    "filter (\<lambda>x. \<not> of_source (fst kg) x) (i_external (v_ingest (replace_serving lib kg t c db)))
      = filter (\<lambda>x. \<not> of_source (fst kg) x) (i_external (v_ingest db))"
    by (simp_all add: replace_serving_def filter_filter del: filter_map)
qed

lemma active_replaced:
  assumes "cm_source c = k"
  shows "active_of (replace_serving lib kg t c db) k = Some (promotion_from c (stamp lib (k_promoted t)))"
proof -
  have "find (\<lambda>p. pm_source p = k) (filter (\<lambda>p. pm_source p \<noteq> k) ps) = None" for ps :: "promotion list"
    by (simp add: find_None_iff)
  then show ?thesis
    using assms by (simp add: active_of_def replace_serving_def promotion_from_def find_append)
qed

lemma promote_serves:
  assumes wf: "snap_wf reg db" and pr: "promotable slib db (k, g) c"
    and db': "db' = (replace_serving lib (k, g) t c db)\<lparr>v_ingest := i\<rparr>"
    and i: "i_external i = i_external (v_ingest (replace_serving lib (k, g) t c db))"
  shows "serves_exactly db' k g c"
proof -
  have fr: "v_batches db' = v_batches db" "v_rows db' = v_rows db" "completion_of db' = completion_of db"
    by (simp_all add: db' replace_serving_def completion_of_def fun_eq_iff)
  have ext: "i_external (v_ingest db') = i_external (v_ingest (replace_serving lib (k, g) t c db))"
    by (simp add: db' i)
  have "map (\<lambda>x. (x_key x, x_data x)) (filter (of_source k) (i_external (v_ingest db')))
       = map (\<lambda>r. ((fst k, fst (snd k), snd (snd k), st_key r), st_data r)) (rows_of db (k, g))"
    unfolding ext using replaced_rows(1) [of "(k, g)" lib t c db] serve_row_fields(2) by auto
  moreover have "distinct (map (\<lambda>r. ((st_source r, st_generation r), st_key r)) (rows_of db (k, g)))"
    using wf by (simp add: snap_wf_def snap_keys_def distinct_map_filter)
  then have "distinct (map st_key (rows_of db (k, g)))" by (auto simp: distinct_map inj_on_def)
  moreover have "length (batches_of db (k, g)) = nat (cm_batches c)" using pr by (auto simp: promotable_def)
  ultimately show ?thesis
    using promotable_rows [OF wf pr] promotable_indices [OF pr] pr
    unfolding serves_exactly_def fr by (simp add: promotable_def)
qed
section \<open>Properties\<close>

definition empty_staging :: "ingest_db \<Rightarrow> serving_db" where
  "empty_staging i = \<lparr>v_ingest = i, v_batches = [], v_rows = [], v_completions = [], v_promotions = [],
     v_cleaned = []\<rparr>"

lemma reachable_wf:
  "list_all (op_ok lib reg) ops \<Longrightarrow> snap_wf reg (fold (snap_exec lib plib slib) ops (empty_staging i))"
  unfolding empty_staging_def by (rule wf_steps [OF ops_steps snap_wf_empty])

text \<open>C3: the serving rows of a source change only to a complete generation. After any operations
  on a fresh store (envelopes, cleanup chunks, ingest, under crashes and refusals of any write), an
  envelope either leaves all serving rows and the active generations as they are, or promotes its
  own generation: then the rows served for its source are exactly the staged rows of that
  generation, with every announced batch present and contiguous and exactly the announced number
  of rows, no two with the same key; the rows of every other source are untouched; and the active
  sequence of the source has grown.\<close>

theorem snapshot_promotion_exact:
  assumes db: "db = fold (snap_exec lib plib slib) ops (empty_staging i)"
    and "list_all (op_ok lib reg) ops" "announced lib reg env"
    and "ApplySnapshotEnvelope lib slib io env mark db = (r, db')"
  shows "i_external (v_ingest db') = i_external (v_ingest db) \<and> v_promotions db' = v_promotions db \<or>
    (\<exists>k g c p. env_key lib env = Inr (k, g) \<and> serves_exactly db' k g c \<and>
       filter (\<lambda>x. \<not> of_source k x) (i_external (v_ingest db')) = filter (\<lambda>x. \<not> of_source k x) (i_external (v_ingest db)) \<and>
       active_of db' k = Some p \<and> pm_generation p = g \<and> pm_seq p = cm_seq c \<and>
       (\<forall>q. active_of db k = Some q \<longrightarrow> pm_seq q < pm_seq p))"
proof -
  have wf: "snap_wf reg db" unfolding db using assms(2) by (rule reachable_wf)
  have "same_serving db db' \<or> promotes lib slib reg env db db'"
    using envelope_serving [OF assms(3), of db slib io mark] assms(4) by simp
  then show ?thesis
  proof
    assume "promotes lib slib reg env db db'"
    then obtain k g c t db1 i1 where p: "env_key lib env = Inr (k, g)" "snap_steps lib slib reg db db1"
      "same_serving db db1" "promotable slib db1 (k, g) c"
      "db' = (replace_serving lib (k, g) t c db1)\<lparr>v_ingest := i1\<rparr>"
      "i_external i1 = i_external (v_ingest (replace_serving lib (k, g) t c db1))"
      unfolding promotes_def by auto
    have wf1: "snap_wf reg db1" using wf_steps [OF p(2) wf] .
    have c: "cm_source c = k" "cm_generation c = g"
      using p(4) completion_of_Some [of db1 "(k, g)" c] by (simp_all add: promotable_def)
    have "active_of db' k = Some (promotion_from c (stamp lib (k_promoted t)))"
      using active_replaced [OF c(1), of lib "(k, g)" t db1] by (simp add: p(5) active_of_def)
    moreover have "\<forall>q. active_of db k = Some q \<longrightarrow> pm_seq q < cm_seq c"
      using p(3,4) by (simp add: promotable_def same_serving_def active_of_def)
    moreover have "filter (\<lambda>x. \<not> of_source k x) (i_external (v_ingest db'))
        = filter (\<lambda>x. \<not> of_source k x) (i_external (v_ingest db))"
      using replaced_rows(2) [of "(k, g)" lib t c db1] p(3,5,6) by (simp add: same_serving_def)
    ultimately show ?thesis
      using promote_serves [OF wf1 p(4,5,6)] p(1) c by (auto simp: promotion_from_def)
  qed (simp add: same_serving_def)
qed

text \<open>C25: a stale or replayed generation serves nothing. Once a generation is active for a source, an
  envelope of a generation with the same or a lower sequence leaves every serving row and every
  active generation as it is.\<close>

theorem stale_generation_serves_nothing:
  assumes db: "db = fold (snap_exec lib plib slib) ops (empty_staging i)"
    and "list_all (op_ok lib reg) ops" "announced lib reg env"
    and "env_key lib env = Inr (k, g)" "active_of db k = Some p" "n_GenerationSeq env \<le> pm_seq p"
    and "ApplySnapshotEnvelope lib slib io env mark db = (r, db')"
  shows "i_external (v_ingest db') = i_external (v_ingest db) \<and> v_promotions db' = v_promotions db"
proof -
  have wf: "snap_wf reg db" unfolding db using assms(2) by (rule reachable_wf)
  have "\<not> promotes lib slib reg env db db'"
  proof
    assume "promotes lib slib reg env db db'"
    then obtain c db1 where p: "snap_steps lib slib reg db db1" "same_serving db db1" "promotable slib db1 (k, g) c"
      unfolding promotes_def using assms(4) by auto
    have wf1: "snap_wf reg db1" using wf_steps [OF p(1) wf] .
    have "c \<in> set (v_completions db1)" "cm_generation c = g"
      using p(3) completion_of_Some [of db1 "(k, g)" c] by (simp_all add: promotable_def)
    then have "reg g = (cm_source c, cm_seq c, True)" using wf1 by (auto simp: snap_wf_def snap_known_def)
    then have "cm_seq c = n_GenerationSeq env" using announced_key [OF assms(3,4)] by simp
    moreover have "pm_seq p < cm_seq c"
      using p(2,3) assms(5) by (simp add: promotable_def same_serving_def active_of_def)
    ultimately show False using assms(6) by simp
  qed
  then show ?thesis
    using envelope_serving [OF assms(3), of db slib io mark] assms(7) by (simp add: same_serving_def)
qed

lemma clean_chunk_promotions [simp]: "v_promotions (snd (clean_chunk g limit now db)) = v_promotions db"
  by (simp add: clean_chunk_def Let_def)

lemma step_active:
  assumes "snap_step lib slib reg db db'" "active_of db k = Some p"
  shows "\<exists>p'. active_of db' k = Some p' \<and> (p' = p \<or> pm_seq p < pm_seq p')"
  using assms
proof (induction rule: snap_step.induct)
  case (promote db kg c t)
  have c: "cm_source c = fst kg" using promote(1) completion_of_Some [of db kg c] by (auto simp: promotable_def)
  show ?case
  proof (cases "k = fst kg")
    case True
    then have "active_of (replace_serving lib kg t c db) k = Some (promotion_from c (stamp lib (k_promoted t)))"
      using c by (simp add: active_replaced)
    then show ?thesis using promote True by (simp add: promotable_def promotion_from_def)
  next
    case False
    then have "find (\<lambda>p. pm_source p = k) (filter (\<lambda>p. pm_source p \<noteq> fst kg) ps) = find (\<lambda>p. pm_source p = k) ps" for ps :: "promotion list"
      by (induction ps) auto
    then show ?thesis using promote(2) c by (auto simp: active_of_def replace_serving_def find_append)
  qed
qed (simp_all add: active_of_def)

lemma step_cleaned: "snap_step lib slib reg db db' \<Longrightarrow> cleaned db g \<Longrightarrow> cleaned db' g"
  by (induction rule: snap_step.induct)
    (auto simp: cleaned_def clean_chunk_def Let_def cleaned_receipt replace_serving_def)

text \<open>What a serving store has promoted never goes back. Whatever operations follow, a source
  with an active generation keeps one, and it is the same promotion or one of a strictly higher
  sequence.\<close>

theorem active_generation_advances:
  assumes "list_all (op_ok lib reg) ops" "active_of db k = Some p"
  shows "\<exists>p'. active_of (fold (snap_exec lib plib slib) ops db) k = Some p' \<and> (p' = p \<or> pm_seq p < pm_seq p')"
  using ops_steps [OF assms(1), of slib db plib] assms(2)
proof (induction rule: rtranclp_induct)
  case (step db1 db2)
  then obtain p1 where 1: "active_of db1 k = Some p1" "p1 = p \<or> pm_seq p < pm_seq p1" by blast
  with step_active [OF step(2) 1(1)] show ?case by auto
qed simp

text \<open>C24: a cleaned generation stays gone. Once the last chunk of a generation has left its receipt,
  no later operation, a redelivered batch or completion of that generation included, leaves a row,
  a batch or a completion of it in the staging tables.\<close>

theorem cleaned_generation_stays_gone:
  assumes db: "db = fold (snap_exec lib plib slib) ops (empty_staging i)"
    and "list_all (op_ok lib reg) ops" "list_all (op_ok lib reg) ops'" "cleaned db g"
    and db': "db' = fold (snap_exec lib plib slib) ops' db"
  shows "cleaned db' g \<and> (\<forall>b \<in> set (v_batches db'). sb_generation b \<noteq> g) \<and>
    (\<forall>r \<in> set (v_rows db'). st_generation r \<noteq> g) \<and> (\<forall>c \<in> set (v_completions db'). cm_generation c \<noteq> g)"
proof -
  have "snap_steps lib slib reg db db'" unfolding db' using assms(3) by (rule ops_steps)
  then have c: "cleaned db' g"
    using assms(4) by (induction rule: rtranclp_induct) (auto dest: step_cleaned)
  have "db' = fold (snap_exec lib plib slib) (ops @ ops') (empty_staging i)" by (simp add: db' db)
  then have wf: "snap_wf reg db'" using reachable_wf [of lib reg "ops @ ops'" plib slib i] assms(2,3) by simp
  have "st_generation r \<noteq> g" if "r \<in> set (v_rows db')" for r
  proof -
    have "row_batch r \<in> stage_key ` set (v_batches db')"
      using wf that by (auto simp: snap_wf_def snap_keys_def)
    then obtain b where "b \<in> set (v_batches db')" "row_batch r = stage_key b" by blast
    then show ?thesis using wf c by (auto simp: snap_wf_def snap_known_def row_batch_def stage_key_def)
  qed
  with c wf show ?thesis by (auto simp: snap_wf_def snap_known_def)
qed

lemma may_complete_inactive:
  assumes "snapshotBatchMayCompleteGenerationTx lib env db = Inr True" "env_key lib env = Inr kg"
    "announced lib reg env" "snap_wf reg db"
  shows "\<not> generation_active db (snd kg)"
proof
  assume "generation_active db (snd kg)"
  then obtain p where p: "p \<in> set (v_promotions db)" "pm_generation p = snd kg"
    by (auto simp: generation_active_def list_ex_iff)
  have kn: "snap_known reg db" and d: "distinct (map pm_source (v_promotions db))"
    using assms(4) by (simp_all add: snap_wf_def snap_keys_def)
  from p(1) kn obtain c where "c \<in> set (v_completions db)"
    "(cm_source c, cm_generation c, cm_seq c) = (pm_source p, pm_generation p, pm_seq p)"
    unfolding snap_known_def by blast
  with kn p(2) have "reg (snd kg) = (pm_source p, pm_seq p, True)" by (auto simp: snap_known_def)
  with announced_key [OF assms(3,2)] have "pm_source p = fst kg" "pm_seq p = n_GenerationSeq env" by simp_all
  then have "active_of db (fst kg) = Some p" "pm_seq p \<ge> n_GenerationSeq env"
    using p(1) active_of_iff [OF d] by simp_all
  with assms(1,2) show False
    by (auto simp: snapshotBatchMayCompleteGenerationTx_def split: option.splits)
qed

lemma wf_fresh_rows:
  assumes "snap_wf reg db" "fresh_batch db kg env"
  shows "filter (\<lambda>r. \<not> ((st_source r, st_generation r) = kg \<and> st_batch_id r = n_BatchID env)) (v_rows db) = v_rows db"
    "filter (\<lambda>b. \<not> ((sb_source b, sb_generation b) = kg \<and> sb_batch_id b = n_BatchID env)) (v_batches db) = v_batches db"
proof -
  have new: "(kg, n_BatchID env) \<notin> stage_key ` set (v_batches db)"
    using assms(2) by (auto simp: fresh_batch_def list_ex_iff stage_key_def)
  then have "(kg, n_BatchID env) \<notin> row_batch ` set (v_rows db)"
    using assms(1) by (auto simp: snap_wf_def snap_keys_def)
  then show "filter (\<lambda>r. \<not> ((st_source r, st_generation r) = kg \<and> st_batch_id r = n_BatchID env)) (v_rows db) = v_rows db"
    by (auto simp: filter_id_conv row_batch_def)
  show "filter (\<lambda>b. \<not> ((sb_source b, sb_generation b) = kg \<and> sb_batch_id b = n_BatchID env)) (v_batches db) = v_batches db"
    using new by (auto simp: filter_id_conv stage_key_def)
qed

lemma undo_restores:
  assumes "stageSnapshotBatch lib env db = Inr (applied, db1)" "snap_wf reg db" "announced lib reg env"
    "snapshotBatchMayCompleteGenerationTx lib env db1 = Inr True" "snap_wf reg db1"
  shows "undo_if applied lib True env db1 = db"
  using assms(1)
proof (cases rule: stageSnapshotBatch_cases)
  case (replay kg)
  then show ?thesis by (simp add: undo_if_def)
next
  case (staged kg sync run)
  have g: "cast_uuid lib (n_Generation env) = Inr (snd kg)" using staged(1) by (auto simp: env_key_casts)
  have "\<not> generation_active db1 (snd kg)"
    by (rule may_complete_inactive [OF assms(4) staged(1) assms(3,5)])
  then have "undo_if applied lib True env db1 = db1\<lparr>
      v_rows := filter (\<lambda>r. \<not> ((st_source r, st_generation r) = kg \<and> st_batch_id r = n_BatchID env)) (v_rows db1),
      v_batches := filter (\<lambda>b. \<not> ((sb_source b, sb_generation b) = kg \<and> sb_batch_id b = n_BatchID env)) (v_batches db1)\<rparr>"
    using staged(1,2) g
    by (simp add: undo_if_def removeStagedSnapshotBatch_def duck_write_def removeStagedTx_def)
  also have "\<dots> = db"
    using wf_fresh_rows [OF assms(2) staged(3)] unfolding staged(4)
    by (simp add: batch_row_of_def staged_row_of_def)
  finally show ?thesis .
qed

text \<open>C23: a batch that fails is withdrawn. When applying a batch reports an error, be it a refused
  payload, a full disk, a failed checkpoint or a failed promotion commit, and the compensating write
  goes through, the store is exactly as it was before the envelope.\<close>

theorem failed_batch_leaves_nothing:
  assumes db: "db = fold (snap_exec lib plib slib) ops (empty_staging i)"
    and "list_all (op_ok lib reg) ops" "announced lib reg env" "n_Kind env = SnapshotKindBatch" "o_undo io"
    and "ApplySnapshotEnvelope lib slib io env mark db = ((Some e, p), db')"
  shows "db' = db"
proof (cases "Validate slib env \<noteq> None \<or> \<not> o_checkpoint io")
  case True
  with assms(6) show ?thesis by (auto simp: ApplySnapshotEnvelope_def split: if_splits)
next
  case False
  then have ap: "applySnapshotBatchEnvelope lib slib io env mark db = ((Some e, p), db')"
    using assms(4,6) by (simp add: ApplySnapshotEnvelope_def)
  have wf: "snap_wf reg db" unfolding db using assms(2) by (rule reachable_wf)
  obtain e1 c applied needs promo db1
    where w: "writeTx (o_write io) (False, False, False, None) (batchTx lib slib io env mark) db
      = ((e1, (c, applied, needs, promo)), db1)" by (metis prod_cases5 surj_pair)
  from w show ?thesis
  proof (cases rule: writeTx_cases)
    case (failed err)
    with w ap show ?thesis by (simp add: applySnapshotBatchEnvelope_def)
  next
    case committed
    from committed(2) assms(3) show ?thesis
    proof (cases rule: batchTx_cases)
      case (pending g)
      have "snap_wf reg db1" using wf_steps [OF stage_batch_steps [OF pending(5) assms(3) pending(3,4)] wf] .
      then have undo: "undo_if applied lib (o_undo io) env db1 = db"
        using undo_restores [OF pending(5) wf assms(3) pending(6)] assms(5) by simp
      obtain e2 p2 db2 where w2: "writeTx (o_write2 io) None
          (applySnapshotTransitionTx lib slib (o_clock2 io) env mark applied) db1 = ((e2, p2), db2)"
        by (metis surj_pair)
      from w2 have "e2 \<noteq> None \<Longrightarrow> db2 = db1" by (cases rule: writeTx_cases) auto
      then show ?thesis
        using ap w w2 committed(1) pending(1,2) undo
        by (auto simp: applySnapshotBatchEnvelope_def split: option.splits if_splits)
    qed (use w ap committed(1) in \<open>simp_all add: applySnapshotBatchEnvelope_def\<close>)
  qed
qed

section \<open>Examples\<close>

definition wit_complete :: snapshot_envelope where
  "wit_complete = wit_envelope\<lparr>n_Kind := SnapshotKindComplete, n_BatchID := '''', n_PayloadSHA256 := '''',
     n_CaptureFinishedAt := Some 11, n_Rows := [], n_ExpectedBatches := 1, n_ExpectedRows := 1,
     n_BatchManifestSHA256 := wit_hash\<rparr>"

definition wit_reg :: registry where
  "wit_reg g = ((''p'', ''c'', ''t''), 3, True)"

definition wit_clock :: clock where
  "wit_clock = \<lparr>k_tx = 20, k_receipts = 20, k_promoted = 20\<rparr>"

definition wit_snap_io :: snap_io where
  "wit_snap_io = \<lparr>o_checkpoint = True, o_write = True, o_disk = None, o_clock = wit_clock,
     o_checkpoint2 = True, o_write2 = True, o_clock2 = wit_clock, o_undo = True\<rparr>"

definition wit_bare :: applied_mark where
  "wit_bare = \<lparr>m_Durable = '''', m_Seq = 0, m_Deliveries = [], m_Source = None, m_SettlementOnly = False,
     m_suppressSourceMutation = False\<rparr>"

definition wit_ingest :: ingest_db where
  "wit_ingest = \<lparr>i_journal = \<lparr>j_positions = Map.empty, j_sources = [], j_batches = [], j_deliveries = [],
       j_holes = []\<rparr>, i_events = [], i_persons = Map.empty, i_aliases = [],
     i_external = [\<lparr>x_key = (''p'', ''c'', ''t'', ''old''), x_cursor = '''', x_data = ''x'', x_synced_at = 1\<rparr>]\<rparr>"

lemma wit_complete_ok [simp]: "Validate wit_snap wit_complete = None"
  by (simp add: Validate_def wit_complete_def wit_envelope_def SnapshotKindBatch_def SnapshotKindComplete_def
      zero_time_def)

lemma wit_key [simp]: "env_key wit_lib wit_envelope = Inr ((''p'', ''c'', ''t''), ''g'')"
  "env_key wit_lib wit_complete = Inr ((''p'', ''c'', ''t''), ''g'')"
  by (simp_all add: env_key_def cast_uuid_def wit_lib_def wit_envelope_def wit_complete_def)

lemma wit_lib_simps [simp]:
  "cast_uuid wit_lib x = Inr x" "uuid_parse wit_lib x = Some x" "stamp wit_lib t = t"
  "opt_uuid wit_lib e x = Inr (if x = '''' then None else Some x)" "req_uuid wit_lib e x = Inr x"
  by (simp_all add: cast_uuid_def opt_uuid_def req_uuid_def wit_lib_def)

text \<open>Journals that know nothing but the generation of the example.\<close>

definition wit_quiet :: "nat \<Rightarrow> journal \<Rightarrow> bool" where
  "wit_quiet n j \<longleftrightarrow>
     (\<forall>r \<in> set (j_sources j). sr_generation_seq r = 3 \<and> sr_generation_key r = ''g'' \<and> unat (sr_mutation_seq r) \<le> n) \<and>
     (\<forall>b \<in> set (j_batches j). br_payload_sha256 b = wit_hash)"

definition wit_quiet_source :: "source_mark \<Rightarrow> bool" where
  "wit_quiet_source s \<longleftrightarrow> s_ProjectID s = ''p'' \<and> s_ConnectorID s = ''c'' \<and> s_Table s = ''t'' \<and>
     s_Generation s = ''g'' \<and> s_GenerationSeq s = 3 \<and> (s_BatchID s = '''' \<or> s_PayloadSHA256 s = wit_hash)"

lemma quiet_lookup: "wit_quiet n j \<Longrightarrow> source_lookup j k = Some r \<Longrightarrow>
    sr_generation_seq r = 3 \<and> sr_generation_key r = ''g'' \<and> unat (sr_mutation_seq r) \<le> n"
  by (auto simp: wit_quiet_def source_lookup_def find_Some_iff)

lemma quiet_superseded:
  assumes "wit_quiet n j" "s_GenerationSeq s = 3" "generationKeyOf s = ''g''"
  shows "sourceReceiptSupersededTx wit_lib s j = Inr False"
  using quiet_lookup [OF assms(1)] assms(2,3)
  by (simp add: sourceReceiptSupersededTx_def Let_def split: option.splits)

lemma quiet_generation: "wit_quiet_source s \<Longrightarrow> generationKeyOf s = ''g''"
  by (simp add: wit_quiet_source_def generationKeyOf_def)

lemma quiet_batch:
  assumes "wit_quiet n j" "wit_quiet_source s"
  shows "\<exists>j'. recordBatchTx wit_lib s k t j = Inr j' \<and> wit_quiet n j'"
  using assms
  by (auto simp: recordBatchTx_def Let_def wit_quiet_def wit_quiet_source_def find_Some_iff
      split: option.splits)

lemma quiet_write:
  assumes "wit_quiet n j" "n < 9" "sr_generation_seq ex = 3" "sr_generation_key ex = ''g''" "sr_mutation_seq ex = 1"
  obtains j' where "writeSourceTx ex j = Inr j'" "wit_quiet (Suc n) j'"
proof -
  have inc: "unat (sr_mutation_seq r + 1) \<le> Suc n" if "r \<in> set (j_sources j)" for r
  proof -
    have "unat (sr_mutation_seq r) \<le> n" using assms(1) that by (simp add: wit_quiet_def)
    then show ?thesis using mod_less_eq_dividend [of "unat (sr_mutation_seq r) + 1"]
      by (simp add: unat_word_ariths)
  qed
  have m: "sr_mutation_seq r \<noteq> max_u64" if "source_lookup j (sr_source ex) = Some r" for r
  proof
    assume "sr_mutation_seq r = max_u64"
    then have "unat (max_u64) \<le> n" using quiet_lookup [OF assms(1) that] by simp
    then show False using assms(2) by (simp add: max_u64_def unsigned_minus_1_eq_mask mask_eq_exp_minus_1)
  qed
  show thesis
  proof (cases "source_lookup j (sr_source ex)")
    case None
    have "wit_quiet (Suc n) (j\<lparr>j_sources := j_sources j @ [ex]\<rparr>)"
      using assms by (auto simp: wit_quiet_def)
    with None show thesis by (intro that) (auto simp: writeSourceTx_def)
  next
    case (Some r)
    have "wit_quiet (Suc n) (j\<lparr>j_sources := map (\<lambda>r. if sr_source r = sr_source ex then upsert_source ex r
        else r) (j_sources j)\<rparr>)"
      using assms inc by (auto simp: wit_quiet_def upsert_source_def Let_def le_SucI)
    with Some m show thesis by (intro that) (auto simp: writeSourceTx_def)
  qed
qed

lemma quiet_record:
  assumes "wit_quiet n j" "n < 9" "wit_quiet_source s"
  obtains j' where "recordSourceTx wit_lib s t j = Inr j'" "wit_quiet (Suc n) j'"
proof -
  let ?k = "(''p'', ''c'', ''t'')"
  obtain j1 where j1: "recordBatchTx wit_lib s ?k t j = Inr j1" "wit_quiet n j1"
    using quiet_batch [OF assms(1,3)] by blast
  let ?ex = "\<lambda>c. proposed_source wit_lib s ?k (if s_SyncID s = '''' then None else Some (s_SyncID s))
     (if s_RunID s = '''' then None else Some (s_RunID s)) (Some ''g'') False c t"
  have f: "sr_generation_seq (?ex c) = 3" "sr_generation_key (?ex c) = ''g''" "sr_mutation_seq (?ex c) = 1" for c
    using assms(3) quiet_generation [OF assms(3)] by (simp_all add: proposed_source_def wit_quiet_source_def)
  let ?c = "locally_complete s ?k False False j1"
  obtain j2 where j2: "writeSourceTx (?ex ?c) j1 = Inr j2" "wit_quiet (Suc n) j2"
    using quiet_write [OF j1(2) assms(2) f] by blast
  have "wit_quiet (Suc n) (pruneSourceTx ?k g j2)" for g
    using j2(2) by (auto simp: pruneSourceTx_def wit_quiet_def)
  moreover have "prior_state s ?k j = (False, False)"
    using assms(3) by (simp add: prior_state_def wit_quiet_source_def)
  moreover have "sourceReceiptSupersededTx wit_lib s j = Inr False"
    using assms(3) by (intro quiet_superseded [OF assms(1)]) (simp_all add: quiet_generation wit_quiet_source_def)
  ultimately show thesis
    using assms(3) j1(1) j2
    by (intro that [of "if ?c then pruneSourceTx ?k (generationKeyOf s) j2 else j2"])
      (auto simp: recordSourceTx_def Let_def wit_quiet_source_def trim_t)
qed

lemma quiet_trim: "wit_quiet n (trimJournalTx j) \<longleftrightarrow> wit_quiet n j"
  by (simp add: wit_quiet_def trimJournalTx_def)

lemma quiet_receipts:
  assumes "wit_quiet n (i_journal i)" "n < 9" "m_Deliveries mark = []"
    and "\<And>s. m_Source mark = Some s \<Longrightarrow> wit_quiet_source s"
  shows "\<exists>j. receipts wit_lib mark t i = Inr (i\<lparr>i_journal := j\<rparr>) \<and> wit_quiet (Suc n) j"
proof -
  have q: "wit_quiet n (trimJournalTx (i_journal i))"
    using assms(1) by (simp add: wit_quiet_def trimJournalTx_def)
  then have q': "wit_quiet (Suc n) (trimJournalTx (i_journal i))" by (auto simp: wit_quiet_def)
  show ?thesis
  proof (cases "m_Source mark")
    case None
    with q' assms(3) show ?thesis by (auto simp: receipts_def recordAppliedReceiptsTx_def Let_def)
  next
    case (Some s)
    from quiet_record [OF q assms(2) assms(4) [OF Some], of t] obtain j' where
      "recordSourceTx wit_lib s t (trimJournalTx (i_journal i)) = Inr j'" "wit_quiet (Suc n) j'" by blast
    with q' assms(3) Some show ?thesis
      by (cases "m_suppressSourceMutation mark") (auto simp: receipts_def recordAppliedReceiptsTx_def Let_def)
  qed
qed

definition wit_mid :: "journal \<Rightarrow> serving_db" where
  "wit_mid j = \<lparr>v_ingest = wit_ingest\<lparr>i_journal := j\<rparr>,
     v_batches = [batch_row_of wit_lib wit_envelope ((''p'', ''c'', ''t''), ''g'') ''y'' ''r''],
     v_rows = map (staged_row_of wit_envelope ((''p'', ''c'', ''t''), ''g'')) (n_Rows wit_envelope),
     v_completions = [], v_promotions = [], v_cleaned = []\<rparr>"

lemma wit_envelope_fields [simp]:
  "n_ProjectID wit_envelope = ''p''" "n_ConnectorID wit_envelope = ''c''" "n_Table wit_envelope = ''t''"
  "n_SyncID wit_envelope = ''y''" "n_Generation wit_envelope = ''g''" "n_GenerationSeq wit_envelope = 3"
  "n_BindingDigest wit_envelope = wit_hash" "n_CaptureStartedAt wit_envelope = 10"
  "n_Kind wit_envelope = SnapshotKindBatch" "n_RunID wit_envelope = ''r''" "n_BatchID wit_envelope = ''b0''"
  "n_BatchIndex wit_envelope = 0" "n_PayloadSHA256 wit_envelope = wit_hash"
  "n_Rows wit_envelope = [\<lparr>w_Key = ''k1'', w_Cursor = '''', w_Data = ''d''\<rparr>]"
  by (simp_all add: wit_envelope_def)

lemma wit_complete_fields [simp]:
  "n_ProjectID wit_complete = ''p''" "n_ConnectorID wit_complete = ''c''" "n_Table wit_complete = ''t''"
  "n_SyncID wit_complete = ''y''" "n_Generation wit_complete = ''g''" "n_GenerationSeq wit_complete = 3"
  "n_BindingDigest wit_complete = wit_hash" "n_CaptureStartedAt wit_complete = 10"
  "n_Kind wit_complete = SnapshotKindComplete" "n_RunID wit_complete = ''r''" "n_BatchID wit_complete = ''''"
  "n_CaptureFinishedAt wit_complete = Some 11" "n_ExpectedBatches wit_complete = 1"
  "n_ExpectedRows wit_complete = 1" "n_BatchManifestSHA256 wit_complete = wit_hash"
  by (simp_all add: wit_complete_def)

lemma wit_kinds [simp]: "SnapshotKindComplete \<noteq> SnapshotKindBatch" "SnapshotKindBatch \<noteq> SnapshotKindComplete"
  by (simp_all add: SnapshotKindBatch_def SnapshotKindComplete_def)

lemma wit_io_fields [simp]: "o_checkpoint wit_snap_io" "o_write wit_snap_io" "o_disk wit_snap_io = None"
  by (simp_all add: wit_snap_io_def)

lemma wit_bare_fields [simp]: "m_Deliveries wit_bare = []" "m_Durable wit_bare = ''''"
  by (simp_all add: wit_bare_def)

lemma wit_advance [simp]: "advance wit_bare i = i"
  by (simp add: advance_def advancePositionTx_def)

lemma wit_source_quiet:
  "wit_quiet_source (snapshot_source wit_envelope wit_bare)"
  "wit_quiet_source (snapshot_source wit_complete wit_bare)"
  "wit_quiet_source (promoted_source (snapshot_source wit_complete wit_bare) p)"
  by (simp_all add: wit_quiet_source_def snapshot_source_def sourceReceiptFromSnapshot_def promoted_source_def Let_def)

lemma wit_quiet_start: "wit_quiet 0 (i_journal wit_ingest)"
  by (simp add: wit_quiet_def wit_ingest_def)

lemma wit_step1:
  "\<exists>j p. ApplySnapshotEnvelope wit_lib wit_snap wit_snap_io wit_envelope wit_bare (empty_staging wit_ingest)
       = ((None, p), wit_mid j) \<and> wit_quiet 1 j"
proof -
  let ?mark = "wit_bare\<lparr>m_Source := Some (snapshot_source wit_envelope wit_bare), m_suppressSourceMutation := False\<rparr>"
  obtain j where j: "receipts wit_lib ?mark (k_receipts (o_clock wit_snap_io)) wit_ingest
      = Inr (wit_ingest\<lparr>i_journal := j\<rparr>)" "wit_quiet 1 j"
    using quiet_receipts [OF wit_quiet_start, of ?mark] wit_source_quiet(1) by fastforce
  have db: "v_ingest (empty_staging i) = i" "v_batches (empty_staging i) = []" "v_rows (empty_staging i) = []"
    "v_completions (empty_staging i) = []" "v_promotions (empty_staging i) = []" "\<not> cleaned (empty_staging i) g" for i g
    by (simp_all add: empty_staging_def cleaned_def)
  let ?mid = "(wit_mid (i_journal wit_ingest))"
  have mid: "v_ingest ?mid = wit_ingest" "completion_of ?mid kg = None" for kg
    by (simp_all add: wit_mid_def completion_of_def)
  have 1: "stageSnapshotBatch wit_lib wit_envelope (empty_staging wit_ingest) = Inr (True, ?mid)"
    by (simp add: stageSnapshotBatch_def validateSnapshotGenerationIdentity_def staged_identity_def db
        completion_of_def wit_mid_def) (simp add: empty_staging_def)
  have 2: "snapshotBatchMayCompleteGenerationTx wit_lib wit_envelope ?mid = Inr False"
    by (simp add: snapshotBatchMayCompleteGenerationTx_def mid)
  have "wit_bare\<lparr>m_Source := Some (snapshot_source wit_envelope wit_bare), m_suppressSourceMutation := m_suppressSourceMutation wit_bare\<rparr> = ?mark"
    by (simp add: wit_bare_def)
  then have 3: "applySnapshotTransitionTx wit_lib wit_snap (o_clock wit_snap_io) wit_envelope wit_bare True ?mid
      = Inr (None, wit_mid j)"
    using j(1) by (simp add: applySnapshotTransitionTx_def Let_def trySnapshotPromotion_def mid on_ingest_def)
      (simp add: wit_mid_def)
  show ?thesis
    using j(2) by (auto simp: ApplySnapshotEnvelope_def applySnapshotBatchEnvelope_def writeTx_def batchTx_def db
        admitDataWrite_def Check_def 1 2 3)
qed

definition wit_marker :: completion where
  "wit_marker = \<lparr>cm_source = (''p'', ''c'', ''t''), cm_generation = ''g'', cm_sync_id = ''y'', cm_seq = 3,
     cm_binding = wit_hash, cm_batches = 1, cm_rows = 1, cm_manifest = wit_hash, cm_started = 10,
     cm_finished = 11, cm_run_id = ''r''\<rparr>"

lemma wit_manifest:
  "SnapshotManifestDigest wit_snap (manifest_entries [batch_row_of wit_lib wit_envelope kg sync run]) = Inr wit_hash"
  by (simp add: SnapshotManifestDigest_def manifest_entries_def batch_row_of_def) (simp add: wit_snap_def)

lemma wit_step2:
  assumes "wit_quiet 1 j"
  shows "\<exists>i'. ApplySnapshotEnvelope wit_lib wit_snap wit_snap_io wit_complete wit_bare (wit_mid j)
     = ((None, Some (promotion_from wit_marker 20)),
        (replace_serving wit_lib ((''p'', ''c'', ''t''), ''g'') wit_clock wit_marker
          (wit_mid j\<lparr>v_completions := [wit_marker]\<rparr>))\<lparr>v_ingest := i'\<rparr>)"
proof -
  let ?k = "((''p'', ''c'', ''t''), ''g'')"
  let ?db1 = "wit_mid j\<lparr>v_completions := [wit_marker]\<rparr>"
  let ?db2 = "replace_serving wit_lib ?k wit_clock wit_marker ?db1"
  let ?p = "promotion_from wit_marker 20"
  have mid: "v_batches (wit_mid j) = [batch_row_of wit_lib wit_envelope ?k ''y'' ''r'']"
    "v_promotions (wit_mid j) = []" "\<not> cleaned (wit_mid j) g" "i_journal (v_ingest (wit_mid j)) = j"
    "completion_of (wit_mid j) kg = None" "v_completions (wit_mid j) = []" for g kg
    by (simp_all add: wit_mid_def cleaned_def completion_of_def)
  have id: "staged_identity (wit_mid j) ?k = Some (''y'', 3, wit_hash, 10)"
    by (simp add: staged_identity_def mid) (simp add: batch_row_of_def)
  have 1: "stageSnapshotCompletion wit_lib wit_complete (wit_mid j) = Inr (True, ?db1)"
    by (simp add: stageSnapshotCompletion_def validateSnapshotGenerationIdentity_def id same_identity_def mid)
      (simp add: wit_marker_def)
  have c: "completion_of ?db1 ?k = Some wit_marker" "active_of ?db1 (fst ?k) = None"
    by (simp_all add: completion_of_def active_of_def mid wit_marker_def)
  have b: "batches_of ?db1 ?k = [batch_row_of wit_lib wit_envelope ?k ''y'' ''r'']"
    by (simp add: mid batch_row_of_def)
  have m: "cm_batches wit_marker = 1" "cm_rows wit_marker = 1" "cm_manifest wit_marker = wit_hash" "cm_seq wit_marker = 3"
    "cm_started wit_marker = 10" by (simp_all add: wit_marker_def)
  have s: "sum_rows [batch_row_of wit_lib wit_envelope ?k ''y'' ''r''] = 1"
    by (simp add: sum_rows_def batch_row_of_def)
  have sup: "sourceReceiptSupersededTx wit_lib ((sourceReceiptFromSnapshot wit_complete)\<lparr>s_GenerationSeq := 3,
      s_CaptureStartedAt := Some 10\<rparr>) j = Inr False"
    by (rule quiet_superseded [OF assms]) (simp_all add: sourceReceiptFromSnapshot_def generationKeyOf_def Let_def)
  have 2: "trySnapshotPromotion wit_lib wit_snap wit_clock wit_complete ?db1
      = Inr ((Some ?p, snapshotPromoted), ?db2)"
    unfolding trySnapshotPromotion_def wit_key res_bind_simps c b s option.case
    by (simp add: Let_def c m sup mid wit_manifest b s) (simp add: wit_clock_def)
  let ?i2 = "v_ingest ?db2"
  have q2: "wit_quiet 1 (i_journal ?i2)" using assms by (simp add: replace_serving_def mid)
  obtain j3 where 3: "receipts wit_lib (wit_bare\<lparr>m_Source := None\<rparr>) 20 ?i2 = Inr (?i2\<lparr>i_journal := j3\<rparr>)" "wit_quiet 2 j3"
    using quiet_receipts [OF q2, of "wit_bare\<lparr>m_Source := None\<rparr>" 20] by (auto simp: numeral_2_eq_2)
  let ?s = "promoted_source (snapshot_source wit_complete wit_bare) ?p"
  have "?s\<lparr>s_Complete := True, s_Promoted := True\<rparr> = ?s" by (simp add: promoted_source_def)
  moreover obtain j4 where 4: "recordSourceTx wit_lib ?s 20 (trimJournalTx j3) = Inr j4"
  proof -
    have "wit_quiet 2 (trimJournalTx j3)" using 3(2) by (simp add: quiet_trim)
    then show thesis by (rule quiet_record [OF _ _ wit_source_quiet(3)]) (simp, rule that)
  qed
  ultimately have 5: "RecordSnapshotPromotionTx wit_lib ?s 20 j3 = Inr j4"
    by (simp add: RecordSnapshotPromotionTx_def recordAppliedReceiptsTx_def Let_def)
  have t: "o_clock wit_snap_io = wit_clock" "pm_promoted_at ?p = 20"
    by (simp_all add: wit_snap_io_def promotion_from_def)
  have "applySnapshotTransitionTx wit_lib wit_snap wit_clock wit_complete wit_bare True ?db1
      = Inr (Some ?p, ?db2\<lparr>v_ingest := ?i2\<lparr>i_journal := j4\<rparr>\<rparr>)"
    unfolding applySnapshotTransitionTx_def Let_def 2
    using 3(1) 5 by (simp add: t on_ingest_def on_receipts_def)
  with 1 t show ?thesis
    by (auto simp: ApplySnapshotEnvelope_def completionTx_def writeTx_def mid admitDataWrite_def Check_def)
qed

abbreviation wit_run :: "snap_op list \<Rightarrow> serving_db" where
  "wit_run ops \<equiv> fold (snap_exec wit_lib wit_plib wit_snap) ops (empty_staging wit_ingest)"

abbreviation wit_source_key :: source_key where
  "wit_source_key \<equiv> (''p'', ''c'', ''t'')"

abbreviation op_batch :: snap_op where "op_batch \<equiv> OpEnvelope wit_snap_io wit_envelope wit_bare"
abbreviation op_complete :: snap_op where "op_complete \<equiv> OpEnvelope wit_snap_io wit_complete wit_bare"

lemma wit_announced [simp]: "announced wit_lib wit_reg wit_envelope" "announced wit_lib wit_reg wit_complete"
  by (simp_all add: announced_def wit_reg_def)

lemma wit_promoted:
  obtains j i' where "wit_run [op_batch] = wit_mid j"
    "ApplySnapshotEnvelope wit_lib wit_snap wit_snap_io wit_complete wit_bare (wit_run [op_batch])
       = ((None, Some (promotion_from wit_marker 20)), wit_run [op_batch, op_complete])"
    "wit_run [op_batch, op_complete] = (replace_serving wit_lib (wit_source_key, ''g'') wit_clock wit_marker
       (wit_mid j\<lparr>v_completions := [wit_marker]\<rparr>))\<lparr>v_ingest := i'\<rparr>"
proof -
  obtain j p where j: "ApplySnapshotEnvelope wit_lib wit_snap wit_snap_io wit_envelope wit_bare (empty_staging wit_ingest)
      = ((None, p), wit_mid j)" "wit_quiet 1 j" using wit_step1 by blast
  then have 1: "wit_run [op_batch] = wit_mid j" by simp
  from wit_step2 [OF j(2)] obtain i' where
    2: "ApplySnapshotEnvelope wit_lib wit_snap wit_snap_io wit_complete wit_bare (wit_mid j)
     = ((None, Some (promotion_from wit_marker 20)),
        (replace_serving wit_lib (wit_source_key, ''g'') wit_clock wit_marker
          (wit_mid j\<lparr>v_completions := [wit_marker]\<rparr>))\<lparr>v_ingest := i'\<rparr>)" by blast
  have "wit_run [op_batch, op_complete] = snd (ApplySnapshotEnvelope wit_lib wit_snap wit_snap_io wit_complete wit_bare (wit_run [op_batch]))"
    by simp
  with 1 2 show thesis by (intro that [of j i']) simp_all
qed

lemma wit_active: "\<exists>p. active_of (wit_run [op_batch, op_complete]) wit_source_key = Some p \<and> pm_seq p = 3"
proof -
  obtain j i' where r: "wit_run [op_batch, op_complete] = (replace_serving wit_lib (wit_source_key, ''g'') wit_clock wit_marker
       (wit_mid j\<lparr>v_completions := [wit_marker]\<rparr>))\<lparr>v_ingest := i'\<rparr>" by (rule wit_promoted)
  show ?thesis unfolding r
    by (simp add: active_of_def replace_serving_def wit_mid_def promotion_from_def wit_marker_def)
qed

theorem snapshot_promotion_exact_witness:
  "\<exists>r db' c. ApplySnapshotEnvelope wit_lib wit_snap wit_snap_io wit_complete wit_bare (wit_run [op_batch]) = (r, db') \<and>
     serves_exactly db' wit_source_key ''g'' c"
proof -
  obtain j i' where r: "ApplySnapshotEnvelope wit_lib wit_snap wit_snap_io wit_complete wit_bare (wit_run [op_batch])
       = ((None, Some (promotion_from wit_marker 20)), wit_run [op_batch, op_complete])"
    and mid: "wit_run [op_batch] = wit_mid j"
    and fin: "wit_run [op_batch, op_complete] = (replace_serving wit_lib (wit_source_key, ''g'') wit_clock wit_marker
       (wit_mid j\<lparr>v_completions := [wit_marker]\<rparr>))\<lparr>v_ingest := i'\<rparr>"
    by (rule wit_promoted)
  have "v_promotions (wit_run [op_batch, op_complete]) \<noteq> v_promotions (wit_run [op_batch])"
    unfolding fin mid by (simp add: replace_serving_def wit_mid_def)
  with snapshot_promotion_exact [OF refl _ _ r, of wit_reg] r show ?thesis by auto
qed

theorem stale_generation_serves_nothing_witness:
  "v_promotions (snd (ApplySnapshotEnvelope wit_lib wit_snap wit_snap_io wit_complete wit_bare (wit_run [op_batch, op_complete])))
     = v_promotions (wit_run [op_batch, op_complete])"
proof -
  obtain p where p: "active_of (wit_run [op_batch, op_complete]) wit_source_key = Some p" "pm_seq p = 3"
    using wit_active by blast
  show ?thesis
    using stale_generation_serves_nothing [OF refl _ _ wit_key(2) p(1) _ surjective_pairing, of wit_reg wit_snap_io wit_bare] p(2)
    by simp
qed

theorem active_generation_advances_witness:
  "\<exists>p'. active_of (wit_run [op_batch, op_complete, op_batch]) wit_source_key = Some p' \<and> 3 \<le> pm_seq p'"
proof -
  obtain p where p: "active_of (wit_run [op_batch, op_complete]) wit_source_key = Some p" "pm_seq p = 3"
    using wit_active by blast
  show ?thesis using active_generation_advances [OF _ p(1), of wit_lib wit_reg "[op_batch]" wit_plib wit_snap] p(2) by auto
qed

definition wit_dropped :: registry where
  "wit_dropped g = (wit_source_key, 3, False)"

definition wit_descriptor :: staging_descriptor where
  "wit_descriptor = \<lparr>g_ProjectID = ''p'', g_ConnectorID = ''c'', g_Table = ''t'', g_Generation = ''g'',
     g_GenerationSeq = 3, g_State = ''failed'', g_TerminalAt = Some 15, g_Active = False, g_Superseded = False,
     g_Unpublished = False\<rparr>"

theorem cleaned_generation_stays_gone_witness:
  "filter (\<lambda>b. sb_generation b = ''g'') (v_batches (wit_run [OpClean True wit_descriptor 100 30, op_batch])) = []"
proof -
  have d: "descriptor_ok wit_lib wit_dropped wit_descriptor"
    by (simp add: descriptor_ok_def wit_dropped_def wit_descriptor_def)
  have a: "announced wit_lib wit_dropped wit_envelope" by (simp add: announced_def wit_dropped_def)
  have "cleaned (wit_run [OpClean True wit_descriptor 100 30]) ''g''"
    by (simp add: deleteSnapshotStagingChunk_def writeTx_def chunk_eligible_def generation_active_def
        wit_descriptor_def empty_staging_def clean_chunk_def cleaned_def cleanup_receipt_def)
  from cleaned_generation_stays_gone [OF refl _ _ this refl, of wit_dropped "[op_batch]"] d a show ?thesis
    by (simp add: filter_empty_conv)
qed

text \<open>The completion arrives first; the batch that makes the generation promotable then meets a
  failing checkpoint.\<close>

definition wit_marked :: "journal \<Rightarrow> serving_db" where
  "wit_marked j = (empty_staging (wit_ingest\<lparr>i_journal := j\<rparr>))\<lparr>v_completions := [wit_marker]\<rparr>"

lemma wit_first:
  obtains j where "wit_run [op_complete] = wit_marked j"
proof -
  let ?mark = "wit_bare\<lparr>m_Source := Some (snapshot_source wit_complete wit_bare), m_suppressSourceMutation := False\<rparr>"
  obtain j where j: "receipts wit_lib ?mark (k_receipts (o_clock wit_snap_io)) wit_ingest
      = Inr (wit_ingest\<lparr>i_journal := j\<rparr>)" "wit_quiet 1 j"
    using quiet_receipts [OF wit_quiet_start, of ?mark] wit_source_quiet(2) by fastforce
  let ?db = "wit_marked (i_journal wit_ingest)"
  have 1: "stageSnapshotCompletion wit_lib wit_complete (empty_staging wit_ingest) = Inr (True, ?db)"
    by (simp add: stageSnapshotCompletion_def validateSnapshotGenerationIdentity_def staged_identity_def
        completion_of_def wit_marked_def empty_staging_def wit_marker_def)
  have c: "completion_of ?db (wit_source_key, ''g'') = Some wit_marker" "active_of ?db k = None"
    "v_batches ?db = []" "v_ingest ?db = wit_ingest" for k
    by (simp_all add: completion_of_def active_of_def wit_marked_def empty_staging_def wit_marker_def)
  have m: "cm_batches wit_marker = 1" "cm_seq wit_marker = 3" "cm_started wit_marker = 10" by (simp_all add: wit_marker_def)
  have sup: "sourceReceiptSupersededTx wit_lib ((sourceReceiptFromSnapshot wit_complete)\<lparr>s_GenerationSeq := 3,
      s_CaptureStartedAt := Some 10\<rparr>) (i_journal wit_ingest) = Inr False"
    by (rule quiet_superseded [OF wit_quiet_start]) (simp_all add: sourceReceiptFromSnapshot_def generationKeyOf_def Let_def)
  have "wit_bare\<lparr>m_Source := Some (snapshot_source wit_complete wit_bare), m_suppressSourceMutation := m_suppressSourceMutation wit_bare\<rparr> = ?mark"
    by (simp add: wit_bare_def)
  then have 2: "applySnapshotTransitionTx wit_lib wit_snap (o_clock wit_snap_io) wit_complete wit_bare True ?db
      = Inr (None, wit_marked j)"
    using j(1) by (simp add: applySnapshotTransitionTx_def trySnapshotPromotion_def Let_def c m sup on_ingest_def)
      (simp add: wit_marked_def empty_staging_def)
  have "\<not> cleaned (empty_staging wit_ingest) ''g''" by (simp add: cleaned_def empty_staging_def)
  then have "ApplySnapshotEnvelope wit_lib wit_snap wit_snap_io wit_complete wit_bare (empty_staging wit_ingest)
      = ((None, None), wit_marked j)"
    using 1 2 by (simp add: ApplySnapshotEnvelope_def completionTx_def writeTx_def admitDataWrite_def Check_def)
  then show thesis by (intro that [of j]) simp
qed

theorem failed_batch_leaves_nothing_witness:
  "\<exists>e p. ApplySnapshotEnvelope wit_lib wit_snap (wit_snap_io\<lparr>o_checkpoint2 := False\<rparr>) wit_envelope wit_bare
     (wit_run [op_complete]) = ((Some e, p), wit_run [op_complete])"
proof -
  let ?io = "wit_snap_io\<lparr>o_checkpoint2 := False\<rparr>"
  let ?k = "(wit_source_key, ''g'')"
  obtain j where j: "wit_run [op_complete] = wit_marked j" by (rule wit_first)
  let ?db = "(wit_marked j)\<lparr>v_batches := [batch_row_of wit_lib wit_envelope ?k ''y'' ''r''],
     v_rows := map (staged_row_of wit_envelope ?k) (n_Rows wit_envelope)\<rparr>"
  have m: "completion_of (wit_marked j) ?k = Some wit_marker" "v_batches (wit_marked j) = []"
    "v_rows (wit_marked j) = []" "\<not> cleaned (wit_marked j) ''g''"
    by (simp_all add: wit_marked_def empty_staging_def completion_of_def wit_marker_def cleaned_def)
  have "staged_identity (wit_marked j) ?k = Some (''y'', 3, wit_hash, 10)"
    by (simp add: staged_identity_def m) (simp add: wit_marker_def)
  then have 1: "stageSnapshotBatch wit_lib wit_envelope (wit_marked j) = Inr (True, ?db)"
    by (simp add: stageSnapshotBatch_def validateSnapshotGenerationIdentity_def same_identity_def m)
  have c: "completion_of ?db ?k = Some wit_marker" "active_of ?db wit_source_key = None"
    "batches_of ?db ?k = [batch_row_of wit_lib wit_envelope ?k ''y'' ''r'']"
    by (simp_all add: wit_marked_def empty_staging_def completion_of_def active_of_def wit_marker_def batch_row_of_def)
  have 2: "snapshotBatchMayCompleteGenerationTx wit_lib wit_envelope ?db = Inr True"
    unfolding snapshotBatchMayCompleteGenerationTx_def wit_key res_bind_simps fst_conv c option.case
    by (simp add: sum_rows_def batch_row_of_def wit_marker_def)
  have "\<exists>e p db'. ApplySnapshotEnvelope wit_lib wit_snap ?io wit_envelope wit_bare (wit_marked j) = ((Some e, p), db')"
    using 1 2 m(4) by (simp add: ApplySnapshotEnvelope_def applySnapshotBatchEnvelope_def writeTx_def batchTx_def
        admitDataWrite_def Check_def)
  then obtain e p db' where r: "ApplySnapshotEnvelope wit_lib wit_snap ?io wit_envelope wit_bare (wit_run [op_complete])
      = ((Some e, p), db')" unfolding j by blast
  have "db' = wit_run [op_complete]"
    by (rule failed_batch_leaves_nothing [OF refl _ _ _ _ r, of wit_reg]) (simp_all add: wit_snap_io_def)
  with r show ?thesis by blast
qed

end
