(* ===== verification/Batcher.thy ===== *)
theory Batcher
  imports IngestStore
begin

text \<open>
  The event batcher (\<open>internal/dataplane/ingest/batcher.go\<close>): how a durable message is
  settled. The batcher's function-valued fields and the acknowledgement surface of a message
  are functions on a world \<open>'w\<close>, as the struct has them; the locales state what settling a
  message means and what the batcher relies on, and prove that no sequence is settled that the
  store does not cover. They are interpreted on the world the worker wires up.
\<close>

section \<open>The batcher and its messages\<close>

type_synonym 'w call = "'w \<Rightarrow> store_error option \<times> 'w"

record 'w msg =
  msg_deliveries :: u64
  msg_body :: string
  msg_seq :: u64
  msg_delivery :: delivery_mark
  msg_ack :: "'w \<Rightarrow> 'w"
  msg_nak :: "duration \<Rightarrow> 'w \<Rightarrow> 'w"
  msg_term :: "'w \<Rightarrow> 'w"

type_synonym 'w queued = "event list \<times> 'w msg option"

record 'w batcher =
  b_sink :: "event list \<Rightarrow> applied_mark \<Rightarrow> 'w call"
  b_deadLetter :: "(string \<Rightarrow> 'w call) option"
  b_deadLetterWithReceipt :: "(delivery_mark \<Rightarrow> string \<Rightarrow> 'w call) option"
  b_maxBatch :: int
  b_flushEvery :: duration
  b_insertTO :: duration
  b_maxRetries :: int
  b_maxDeliver :: int
  b_nakDelay :: duration
  b_durable :: string
  b_record :: "(applied_mark \<Rightarrow> 'w call) option"
  b_recordHole :: "(delivery_mark \<Rightarrow> source_mark option \<Rightarrow> 'w call) option"

definition positive_or :: "int \<Rightarrow> int \<Rightarrow> int" where
  "positive_or x d = (if x \<le> 0 then d else x)"

definition NewEventBatcher :: "'w batcher \<Rightarrow> 'w batcher" where
  "NewEventBatcher cfg =
     cfg\<lparr>b_maxBatch := positive_or (b_maxBatch cfg) 500,
         b_flushEvery := positive_or (b_flushEvery cfg) second,
         b_insertTO := positive_or (b_insertTO cfg) (10 * second),
         b_maxRetries := positive_or (b_maxRetries cfg) 3,
         b_maxDeliver := positive_or (b_maxDeliver cfg) 5,
         b_nakDelay := positive_or (b_nakDelay cfg) (5 * second)\<rparr>"

section \<open>Validation and attribution\<close>

primrec validateEvents :: "db_lib \<Rightarrow> event list \<Rightarrow> store_error option" where
  "validateEvents lib [] = None"
| "validateEvents lib (e # es) =
     (if uuid_parse lib (e_ProjectID e) = None then Some (EventID (e_ProjectID e))
      else if uuid_parse lib (e_EventID e) = None then Some (EventID (e_EventID e))
      else validateEvents lib es)"

definition project_source :: "string \<Rightarrow> source_mark" where
  "project_source p = \<lparr>s_ProjectID = p, s_ConnectorID = '''', s_Table = '''', s_SyncID = '''',
     s_RunID = '''', s_Generation = '''', s_GenerationSeq = 0, s_BindingDigest = '''', s_BatchID = '''',
     s_BatchIndex = None, s_PayloadSHA256 = '''', s_ExpectedBatches = None, s_ExpectedRows = None,
     s_CaptureStartedAt = None, s_CaptureFinishedAt = None, s_PublishedAt = None, s_Complete = False,
     s_Promoted = False\<rparr>"

definition eventSource :: "db_lib \<Rightarrow> event list \<Rightarrow> source_mark option" where
  "eventSource lib events =
     (case events of
        [] \<Rightarrow> None
      | e # es \<Rightarrow>
          if e_ProjectID e = '''' then None
          else if uuid_parse lib (e_ProjectID e) = None then None
          else if list_ex (\<lambda>x. e_ProjectID x \<noteq> e_ProjectID e) es then None
          else Some (project_source (e_ProjectID e)))"

definition attributed :: "source_mark option \<Rightarrow> delivery_mark \<Rightarrow> delivery_mark" where
  "attributed source d =
     (case source of None \<Rightarrow> d | Some s \<Rightarrow> d\<lparr>d_ProjectID := s_ProjectID s\<rparr>)"

section \<open>Settlement\<close>

definition publishDeadLetter :: "'w batcher \<Rightarrow> 'w msg \<Rightarrow> 'w call" where
  "publishDeadLetter b m =
     (case b_deadLetterWithReceipt b of
        Some f \<Rightarrow> f (msg_delivery m) (msg_body m)
      | None \<Rightarrow> (case b_deadLetter b of Some f \<Rightarrow> f (msg_body m) | None \<Rightarrow> (\<lambda>w. (Some Closed, w))))"

definition has_dead_letter :: "'w batcher \<Rightarrow> bool" where
  "has_dead_letter b \<longleftrightarrow> b_deadLetter b \<noteq> None \<or> b_deadLetterWithReceipt b \<noteq> None"

definition settled_mark :: "'w batcher \<Rightarrow> 'w msg \<Rightarrow> applied_mark" where
  "settled_mark b m = \<lparr>m_Durable = b_durable b, m_Seq = msg_seq m, m_Deliveries = [msg_delivery m],
     m_Source = None, m_SettlementOnly = True, m_suppressSourceMutation = False\<rparr>"

definition recordSettled :: "'w batcher \<Rightarrow> 'w msg \<Rightarrow> 'w call" where
  "recordSettled b m w =
     (case b_record b of
        None \<Rightarrow> (None, w)
      | Some f \<Rightarrow> if b_durable b = '''' then (None, w) else f (settled_mark b m) w)"

definition recordReadinessHole :: "'w batcher \<Rightarrow> delivery_mark \<Rightarrow> source_mark option \<Rightarrow> 'w call" where
  "recordReadinessHole b d source w =
     (case b_recordHole b of
        None \<Rightarrow> (None, w)
      | Some f \<Rightarrow> if d_StreamSeq d = 0 then (None, w) else f d source w)"

definition retrySettlement :: "'w batcher \<Rightarrow> 'w msg \<Rightarrow> 'w \<Rightarrow> 'w" where
  "retrySettlement b m w = msg_nak m (b_nakDelay b) w"

text \<open>Dead-lettering a message, as the poison path and the exhausted path do it: publish,
  then record the position, then the hole, and only then terminate.\<close>

definition deadLetterSettle :: "'w batcher \<Rightarrow> source_mark option \<Rightarrow> 'w msg \<Rightarrow> 'w \<Rightarrow> 'w" where
  "deadLetterSettle b source m w =
     (let (derr, w1) = publishDeadLetter b m w
      in if derr \<noteq> None then msg_nak m (b_nakDelay b) w1
         else let (rerr, w2) = recordSettled b m w1
         in if rerr \<noteq> None then retrySettlement b m w2
         else let (herr, w3) = recordReadinessHole b (attributed source (msg_delivery m)) source w2
         in if herr \<noteq> None then retrySettlement b m w3
         else msg_term m w3)"

definition poison :: "'w batcher \<Rightarrow> 'w msg option \<Rightarrow> source_mark option \<Rightarrow> 'w \<Rightarrow> 'w" where
  "poison b msg source w =
     (case msg of
        None \<Rightarrow> w
      | Some m \<Rightarrow>
          if \<not> has_dead_letter b then msg_nak m (b_nakDelay b) w
          else deadLetterSettle b source m w)"

text \<open>\<open>AddMsg\<close> settles the message at once, or hands it to the queue.\<close>

definition AddMsg ::
  "db_lib \<Rightarrow> 'w batcher \<Rightarrow> event list \<Rightarrow> 'w msg option \<Rightarrow> 'w \<Rightarrow> 'w \<times> 'w queued option" where
  "AddMsg lib b events msg w =
     (if events = [] then
        ((case msg of
            None \<Rightarrow> w
          | Some m \<Rightarrow>
              let (err, w1) = recordSettled b m w
              in if err \<noteq> None then retrySettlement b m w1 else msg_ack m w1), None)
      else if validateEvents lib events \<noteq> None then (poison b msg (eventSource lib events) w, None)
      else (w, Some (events, msg)))"

definition Add :: "event list \<Rightarrow> 'w queued option" where
  "Add events = (if events = [] then None else Some (events, None))"

section \<open>Flushing\<close>

definition backoff :: "nat \<Rightarrow> 64 word" where
  "backoff attempt =
     (let d = push_bit attempt (200000000 :: 64 word)
      in if 2000000000 <s d then 2000000000 else d)"

text \<open>A bounded number of in-process attempts of one write; the error of the last one is the
  result.\<close>

fun attempts :: "'w call \<Rightarrow> nat \<Rightarrow> store_error option \<Rightarrow> 'w call" where
  "attempts f 0 err w = (err, w)"
| "attempts f (Suc n) err w =
     (let (e, w1) = f w in if e = None then (None, w1) else attempts f n e w1)"

definition sinkWithRetry :: "'w batcher \<Rightarrow> event list \<Rightarrow> applied_mark \<Rightarrow> 'w call" where
  "sinkWithRetry b events mark w = attempts (b_sink b events mark) (nat (b_maxRetries b)) None w"

definition flush_step :: "db_lib \<Rightarrow> 'w queued \<Rightarrow> applied_mark \<Rightarrow> applied_mark" where
  "flush_step lib it mark =
     (case snd it of
        None \<Rightarrow> mark
      | Some m \<Rightarrow>
          mark\<lparr>m_Seq := (if msg_seq m > m_Seq mark then msg_seq m else m_Seq mark),
               m_Deliveries := m_Deliveries mark @
                 [attributed (eventSource lib (fst it)) (msg_delivery m)]\<rparr>)"

definition flush_mark :: "db_lib \<Rightarrow> 'w batcher \<Rightarrow> 'w queued list \<Rightarrow> applied_mark" where
  "flush_mark lib b items =
     fold (flush_step lib) items \<lparr>m_Durable = b_durable b, m_Seq = 0, m_Deliveries = [], m_Source = None,
       m_SettlementOnly = False, m_suppressSourceMutation = False\<rparr>"

definition ack_item :: "'w queued \<Rightarrow> 'w \<Rightarrow> 'w" where
  "ack_item it w = (case snd it of None \<Rightarrow> w | Some m \<Rightarrow> msg_ack m w)"

definition settle_failed :: "db_lib \<Rightarrow> 'w batcher \<Rightarrow> store_error \<Rightarrow> 'w queued \<Rightarrow> 'w \<Rightarrow> 'w" where
  "settle_failed lib b cause it w =
     (case snd it of
        None \<Rightarrow> w
      | Some m \<Rightarrow>
          if cause = DataCapacity then msg_nak m (b_nakDelay b) w
          else if msg_deliveries m \<ge> word_of_int (b_maxDeliver b) \<and> has_dead_letter b
          then deadLetterSettle b (eventSource lib (fst it)) m w
          else msg_nak m (b_nakDelay b) w)"

definition settleFailure :: "db_lib \<Rightarrow> 'w batcher \<Rightarrow> 'w queued list \<Rightarrow> store_error \<Rightarrow> 'w \<Rightarrow> 'w" where
  "settleFailure lib b items cause w = fold (settle_failed lib b cause) items w"

definition flush :: "db_lib \<Rightarrow> 'w batcher \<Rightarrow> 'w queued list \<Rightarrow> 'w \<Rightarrow> 'w" where
  "flush lib b items w =
     (let (err, w1) = sinkWithRetry b (concat (map fst items)) (flush_mark lib b items) w
      in (case err of
            None \<Rightarrow> fold ack_item items w1
          | Some cause \<Rightarrow> settleFailure lib b items cause w1))"

section \<open>The loop\<close>

text \<open>What the loop's \<open>select\<close> receives; on \<open>Done\<close> the rest of the queue is drained into the
  buffer and flushed. The loop's state is its buffer and the count of buffered events.\<close>

datatype 'w signal = Recv "'w queued" | Tick | Done "'w queued list"

type_synonym 'w loop = "'w queued list \<times> nat"

definition loop_step :: "'w batcher \<Rightarrow> 'w signal \<Rightarrow> 'w loop \<Rightarrow> 'w loop \<times> 'w queued list option" where
  "loop_step b s st =
     (let (buf, count) = st in
      case s of
        Recv q \<Rightarrow>
          let buf = buf @ [q]; count = count + length (fst q)
          in if int count \<ge> b_maxBatch b then (([], 0), Some buf) else ((buf, count), None)
      | Tick \<Rightarrow> if buf = [] then ((buf, count), None) else (([], 0), Some buf)
      | Done rest \<Rightarrow> if buf @ rest = [] then (([], 0), None) else (([], 0), Some (buf @ rest)))"

fun loop_run :: "'w batcher \<Rightarrow> 'w signal list \<Rightarrow> 'w loop \<Rightarrow> 'w queued list list" where
  "loop_run b [] st = []"
| "loop_run b (s # ss) st =
     (let (st', out) = loop_step b s st
      in (case out of None \<Rightarrow> [] | Some batch \<Rightarrow> [batch]) @
         (case s of Done _ \<Rightarrow> [] | _ \<Rightarrow> loop_run b ss st'))"

definition loop_flush :: "db_lib \<Rightarrow> 'w batcher \<Rightarrow> 'w signal list \<Rightarrow> 'w \<Rightarrow> 'w" where
  "loop_flush lib b ss w = fold (flush lib b) (loop_run b ss ([], 0)) w"

section \<open>What the batcher relies on\<close>

datatype settlement = Acked u64 string | Naked u64 string | Termed u64 string

primrec settlement_seq :: "settlement \<Rightarrow> u64" where
  "settlement_seq (Acked q _) = q"
| "settlement_seq (Naked q _) = q"
| "settlement_seq (Termed q _) = q"

definition floor_seqs :: "settlement list \<Rightarrow> u64 set" where
  "floor_seqs l = {q. \<exists>body. Acked q body \<in> set l \<or> Termed q body \<in> set l}"

definition termed_bodies :: "settlement list \<Rightarrow> string set" where
  "termed_bodies l = {body. \<exists>q. Termed q body \<in> set l}"

lemma floor_seqs_simps [simp]:
  "floor_seqs [] = {}" "floor_seqs (l @ [Acked q body]) = insert q (floor_seqs l)"
  "floor_seqs (l @ [Naked q body]) = floor_seqs l"
  "floor_seqs (l @ [Termed q body]) = insert q (floor_seqs l)"
  by (auto simp: floor_seqs_def)

lemma termed_bodies_simps [simp]:
  "termed_bodies [] = {}" "termed_bodies (l @ [Acked q body]) = termed_bodies l"
  "termed_bodies (l @ [Naked q body]) = termed_bodies l"
  "termed_bodies (l @ [Termed q body]) = insert body (termed_bodies l)"
  by (auto simp: termed_bodies_def)

text \<open>What settling a message means, whoever does it: a handle adds its settlement to the broker's
  log and does nothing else, and no sequence may be settled that the store does not cover.\<close>

locale acknowledging =
  fixes durable :: string
    and applied :: "'w \<Rightarrow> u64"
    and log :: "'w \<Rightarrow> settlement list"
    and handle :: "'w msg \<Rightarrow> bool"
  assumes ack_log: "handle m \<Longrightarrow> applied (msg_ack m w) = applied w \<and>
      log (msg_ack m w) = log w @ [Acked (msg_seq m) (msg_body m)]"
    and nak_log: "handle m \<Longrightarrow> applied (msg_nak m t w) = applied w \<and>
      log (msg_nak m t w) = log w @ [Naked (msg_seq m) (msg_body m)]"
    and term_log: "handle m \<Longrightarrow> applied (msg_term m w) = applied w \<and>
      log (msg_term m w) = log w @ [Termed (msg_seq m) (msg_body m)]"
begin

definition steady :: "'w \<Rightarrow> 'w \<Rightarrow> bool" where
  "steady w w' \<longleftrightarrow> applied w \<le> applied w' \<and> log w' = log w"

definition coherent :: "'w \<Rightarrow> bool" where
  "coherent w \<longleftrightarrow> durable = '''' \<or> (\<forall>q \<in> floor_seqs (log w). q \<le> applied w)"

text \<open>Settling one message: the log gains exactly its entry, and the store stays ahead.\<close>

definition settles :: "'w msg \<Rightarrow> 'w \<Rightarrow> 'w \<Rightarrow> bool" where
  "settles m w w' \<longleftrightarrow> (\<exists>s. log w' = log w @ [s] \<and> settlement_seq s = msg_seq m) \<and>
     applied w \<le> applied w' \<and> (coherent w \<longrightarrow> coherent w')"

definition covers :: "'w msg \<Rightarrow> 'w \<Rightarrow> bool" where
  "covers m w \<longleftrightarrow> durable = '''' \<or> msg_seq m \<le> applied w"

lemma steady_refl [simp]: "steady w w"
  by (simp add: steady_def)

lemma steady_trans: "steady w w' \<Longrightarrow> steady w' w'' \<Longrightarrow> steady w w''"
  by (auto simp: steady_def)

lemma steady_coherent: "steady w w' \<Longrightarrow> coherent w \<Longrightarrow> coherent w'"
  by (auto simp: steady_def coherent_def)

lemma covers_steady: "covers m w \<Longrightarrow> steady w w' \<Longrightarrow> covers m w'"
  by (auto simp: covers_def steady_def)

lemma nak_settles: "handle m \<Longrightarrow> steady w w' \<Longrightarrow> settles m w (msg_nak m t w')"
  using nak_log [of m t w'] by (auto simp: settles_def steady_def coherent_def)

lemma ack_settles: "handle m \<Longrightarrow> steady w w' \<Longrightarrow> covers m w' \<Longrightarrow> settles m w (msg_ack m w')"
  using ack_log [of m w'] by (auto simp: settles_def steady_def coherent_def covers_def)

lemma term_settles: "handle m \<Longrightarrow> steady w w' \<Longrightarrow> covers m w' \<Longrightarrow> settles m w (msg_term m w')"
  using term_log [of m w'] by (auto simp: settles_def steady_def coherent_def covers_def)

lemma attempts_steady:
  assumes "\<And>w e w'. f w = (e, w') \<Longrightarrow> steady w w'"
  shows "attempts f n err w = (e, w') \<Longrightarrow> steady w w'"
proof (induction n arbitrary: err w)
  case (Suc n)
  obtain e1 w1 where s: "f w = (e1, w1)" by (cases "f w")
  with Suc assms [OF s] show ?case by (auto split: if_splits intro: steady_trans)
qed simp

lemma attempts_covers:
  assumes "\<And>w w'. f w = (None, w') \<Longrightarrow> P w'"
  shows "attempts f n err w = (None, w') \<Longrightarrow> 0 < n \<Longrightarrow> P w'"
proof (induction n arbitrary: err w)
  case (Suc n)
  obtain e1 w1 where s: "f w = (e1, w1)" by (cases "f w")
  from Suc s assms show ?case by (cases n) (auto split: if_splits)
qed simp

end

text \<open>A dead-letter queue that keeps what it accepted: a message may be terminated only when its
  body is on it.\<close>

locale lettering = acknowledging durable applied log handle
  for durable :: string and applied :: "'w \<Rightarrow> u64" and log :: "'w \<Rightarrow> settlement list"
    and handle :: "'w msg \<Rightarrow> bool" +
  fixes letters :: "'w \<Rightarrow> string set"
  assumes letters_settle: "handle m \<Longrightarrow> letters (msg_ack m w) = letters w \<and> letters (msg_nak m t w) = letters w \<and>
      letters (msg_term m w) = letters w"
begin

definition lettered :: "'w \<Rightarrow> bool" where
  "lettered w \<longleftrightarrow> termed_bodies (log w) \<subseteq> letters w"

lemma steady_lettered: "steady w w' \<Longrightarrow> letters w \<subseteq> letters w' \<Longrightarrow> lettered w \<Longrightarrow> lettered w'"
  by (auto simp: steady_def lettered_def)

lemma settle_lettered:
  assumes "handle m" "lettered w"
  shows "lettered (msg_ack m w)" "lettered (msg_nak m t w)"
    "msg_body m \<in> letters w \<Longrightarrow> lettered (msg_term m w)"
  using assms ack_log [of m w] nak_log [of m t w] term_log [of m w] letters_settle [of m w t]
  by (auto simp: lettered_def)

lemma attempts_lettered:
  assumes "\<And>w e w'. f w = (e, w') \<Longrightarrow> steady w w' \<and> letters w \<subseteq> letters w'"
  shows "attempts f n err w = (e, w') \<Longrightarrow> lettered w \<Longrightarrow> lettered w'"
proof (induction n arbitrary: err w)
  case (Suc n)
  obtain e1 w1 where s: "f w = (e1, w1)" by (cases "f w")
  with Suc assms [OF s] steady_lettered [of w w1] show ?case by (auto split: if_splits)
qed simp

end

text \<open>The batcher's contract: the sink and the recorder leave the broker alone and, on success,
  cover the mark they were given; the dead-letter queue and the hole recorder leave both alone.\<close>

locale settling = acknowledging "b_durable b" applied log handle
  for b :: "'w batcher" and applied :: "'w \<Rightarrow> u64" and log :: "'w \<Rightarrow> settlement list"
    and handle :: "'w msg \<Rightarrow> bool" +
  assumes retries: "0 < b_maxRetries b"
    and recorder: "b_record b \<noteq> None"
    and sink_covers: "b_sink b es mark w = (None, w') \<Longrightarrow> m_Durable mark = b_durable b \<Longrightarrow>
      b_durable b \<noteq> '''' \<Longrightarrow> m_Seq mark \<le> applied w'"
    and sink_frame: "b_sink b es mark w = (e, w') \<Longrightarrow> steady w w'"
    and record_covers: "b_record b = Some f \<Longrightarrow> f mark w = (None, w') \<Longrightarrow> m_Durable mark = b_durable b \<Longrightarrow>
      b_durable b \<noteq> '''' \<Longrightarrow> m_Seq mark \<le> applied w'"
    and record_frame: "b_record b = Some f \<Longrightarrow> f mark w = (e, w') \<Longrightarrow> steady w w'"
    and letter_frame: "b_deadLetter b = Some g \<Longrightarrow> g body w = (e, w') \<Longrightarrow> steady w w'"
    and receipt_frame: "b_deadLetterWithReceipt b = Some h \<Longrightarrow> h d body w = (e, w') \<Longrightarrow> steady w w'"
    and hole_frame: "b_recordHole b = Some k \<Longrightarrow> k d s w = (e, w') \<Longrightarrow> steady w w'"
begin

lemma publish_steady: "publishDeadLetter b m w = (e, w') \<Longrightarrow> steady w w'"
  using letter_frame receipt_frame by (auto simp: publishDeadLetter_def split: option.splits)

lemma record_steady: "recordSettled b m w = (e, w') \<Longrightarrow> steady w w'"
  using record_frame by (auto simp: recordSettled_def split: option.splits if_splits)

lemma record_settled_covers: "recordSettled b m w = (None, w') \<Longrightarrow> covers m w'"
  using recorder record_covers [where mark = "settled_mark b m"]
  by (auto simp: covers_def recordSettled_def settled_mark_def split: option.splits if_splits)

lemma hole_steady: "recordReadinessHole b d s w = (e, w') \<Longrightarrow> steady w w'"
  using hole_frame by (auto simp: recordReadinessHole_def split: option.splits if_splits)

lemma deadLetterSettle_settles:
  assumes "handle m"
  shows "settles m w (deadLetterSettle b s m w)"
proof -
  obtain e1 w1 where 1: "publishDeadLetter b m w = (e1, w1)" by (cases "publishDeadLetter b m w")
  obtain e2 w2 where 2: "recordSettled b m w1 = (e2, w2)" by (cases "recordSettled b m w1")
  obtain e3 w3 where 3: "recordReadinessHole b (attributed s (msg_delivery m)) s w2 = (e3, w3)"
    by (cases "recordReadinessHole b (attributed s (msg_delivery m)) s w2")
  have s: "steady w w1" "steady w w2" "steady w w3"
    using publish_steady [OF 1] record_steady [OF 2] hole_steady [OF 3] steady_trans by blast+
  have "e2 = None \<Longrightarrow> covers m w3"
    using record_settled_covers [of m w1 w2] 2 covers_steady hole_steady [OF 3] by blast
  with s show ?thesis
    using nak_settles [OF assms] term_settles [OF assms s(3)]
    by (simp add: deadLetterSettle_def 1 2 3 retrySettlement_def)
qed

lemma poison_settles: "handle m \<Longrightarrow> settles m w (poison b (Some m) s w)"
  using deadLetterSettle_settles nak_settles by (simp add: poison_def)

lemma AddMsg_settles:
  assumes "handle m" "AddMsg lib b es (Some m) w = (w', None)"
  shows "settles m w w'"
proof (cases "es = []")
  case True
  obtain e w1 where r: "recordSettled b m w = (e, w1)" by (cases "recordSettled b m w")
  have "e = None \<Longrightarrow> covers m w1" using record_settled_covers r by blast
  with True assms r show ?thesis
    using nak_settles [OF assms(1) record_steady [OF r]] ack_settles [OF assms(1) record_steady [OF r]]
    by (auto simp: AddMsg_def retrySettlement_def split: if_splits)
next
  case False
  with assms poison_settles show ?thesis by (auto simp: AddMsg_def split: if_splits)
qed

lemma AddMsg_queues: "AddMsg lib b es msg w = (w', Some q) \<Longrightarrow> w' = w \<and> q = (es, msg)"
  by (auto simp: AddMsg_def split: if_splits)

lemma sinkWithRetry_steady: "sinkWithRetry b es mark w = (e, w') \<Longrightarrow> steady w w'"
  unfolding sinkWithRetry_def by (erule attempts_steady [rotated]) (rule sink_frame)

lemma flush_step_fields:
  "m_Durable (fold (flush_step lib) items mark) = m_Durable mark"
  "m_Seq mark \<le> m_Seq (fold (flush_step lib) items mark)"
  "(es, Some m) \<in> set items \<Longrightarrow> msg_seq m \<le> m_Seq (fold (flush_step lib) items mark)"
proof (induction items arbitrary: mark)
  case (Cons it items)
  { case 1 with Cons(1) show ?case by (simp add: flush_step_def split: option.split) }
  { case 2 show ?case
      using Cons(2) [of "flush_step lib it mark"]
      by (auto simp: flush_step_def split: option.splits if_splits) }
  { case 3
    have "snd it = Some m \<Longrightarrow> msg_seq m \<le> m_Seq (flush_step lib it mark)"
      by (simp add: flush_step_def not_less)
    with 3 Cons(2,3) [of "flush_step lib it mark"] show ?case by (auto intro: order_trans) }
qed simp_all

text \<open>The messages of a batch, in order, and what it means that each was settled once.\<close>

definition batch_seqs :: "'w queued list \<Rightarrow> u64 list" where
  "batch_seqs items = map msg_seq (List.map_filter snd items)"

definition settles_all :: "'w queued list \<Rightarrow> 'w \<Rightarrow> 'w \<Rightarrow> bool" where
  "settles_all items w w' \<longleftrightarrow>
     (\<exists>l. log w' = log w @ l \<and> map settlement_seq l = batch_seqs items) \<and> (coherent w \<longrightarrow> coherent w')"

lemma settles_fold:
  assumes "\<And>es m w. (es, Some m) \<in> set items \<Longrightarrow> applied w0 \<le> applied w \<Longrightarrow>
      settles m w (f (es, Some m) w)"
    and "\<And>es w. f (es, None) w = w" and "applied w0 \<le> applied w"
  shows "settles_all items w (fold f items w)"
  using assms
proof (induction items arbitrary: w)
  case Nil
  then show ?case by (simp add: settles_all_def batch_seqs_def map_filter_simps)
next
  case (Cons it items)
  obtain es msg where it: "it = (es, msg)" by (cases it)
  show ?case
  proof (cases msg)
    case None
    with Cons it show ?thesis by (simp add: settles_all_def batch_seqs_def map_filter_simps)
  next
    case (Some m)
    let ?w = "f (es, Some m) w"
    have 1: "settles m w ?w" using Cons.prems(1) [of es m w] Cons.prems(3) it Some by simp
    then have "applied w0 \<le> applied ?w" using Cons.prems(3) by (auto simp: settles_def)
    then have 2: "settles_all items ?w (fold f items ?w)"
      using Cons.prems by (intro Cons.IH) auto
    obtain s l where "log ?w = log w @ [s]" "settlement_seq s = msg_seq m"
      "log (fold f items ?w) = log ?w @ l" "map settlement_seq l = batch_seqs items"
      using 1 2 by (auto simp: settles_def settles_all_def)
    then have "log (fold f items ?w) = log w @ (s # l) \<and> map settlement_seq (s # l) = batch_seqs (it # items)"
      by (simp add: batch_seqs_def map_filter_simps it Some)
    moreover have "coherent w \<longrightarrow> coherent (fold f items ?w)"
      using 1 2 by (simp add: settles_def settles_all_def)
    ultimately show ?thesis
      unfolding settles_all_def it Some by (auto simp only: fold.simps comp_apply)
  qed
qed

lemma settle_failed_settles: "handle m \<Longrightarrow> settles m w (settle_failed lib b cause (es, Some m) w)"
  using nak_settles deadLetterSettle_settles by (simp add: settle_failed_def)

lemma flush_settles_all:
  assumes "\<And>es m. (es, Some m) \<in> set items \<Longrightarrow> handle m"
  shows "settles_all items w (flush lib b items w)"
proof -
  let ?mark = "flush_mark lib b items" and ?es = "concat (map fst items)"
  obtain e w1 where s: "sinkWithRetry b ?es ?mark w = (e, w1)" by (cases "sinkWithRetry b ?es ?mark w")
  have st: "steady w w1" using sinkWithRetry_steady [OF s] .
  have from1: "settles_all items w w'" if "settles_all items w1 w'" for w'
    using that st steady_coherent [OF st] by (auto simp: settles_all_def steady_def)
  show ?thesis
  proof (cases e)
    case None
    have "m_Durable ?mark = b_durable b" by (simp add: flush_mark_def flush_step_fields)
    then have "b_sink b ?es ?mark w = (None, w') \<Longrightarrow> b_durable b = '''' \<or> m_Seq ?mark \<le> applied w'" for w w'
      using sink_covers by blast
    then have cov: "b_durable b = '''' \<or> m_Seq ?mark \<le> applied w1"
      using attempts_covers [of "b_sink b ?es ?mark" "\<lambda>w'. b_durable b = '''' \<or> m_Seq ?mark \<le> applied w'"] s None retries
      by (simp add: sinkWithRetry_def)
    have one: "settles m w' (ack_item (es, Some m) w')" if "(es, Some m) \<in> set items" "applied w1 \<le> applied w'"
      for es m w'
    proof -
      have "msg_seq m \<le> m_Seq ?mark"
        unfolding flush_mark_def by (rule flush_step_fields(3)) (rule that(1))
      then have "covers m w'" using cov that(2) by (auto simp: covers_def)
      with ack_settles [OF assms [OF that(1)] steady_refl] show ?thesis by (simp add: ack_item_def)
    qed
    have "settles_all items w1 (fold ack_item items w1)"
      by (rule settles_fold [OF one _ order_refl]) (simp_all add: ack_item_def)
    with s None from1 show ?thesis by (simp add: flush_def)
  next
    case (Some cause)
    have one: "settles m w' (settle_failed lib b cause (es, Some m) w')" if "(es, Some m) \<in> set items"
      for es m w' using assms [OF that] by (rule settle_failed_settles)
    have "settles_all items w1 (fold (settle_failed lib b cause) items w1)"
      by (rule settles_fold [OF one _ order_refl]) (simp_all add: settle_failed_def)
    with s Some from1 show ?thesis by (simp add: flush_def settleFailure_def)
  qed
qed

end

locale dead_lettering = settling b applied log handle + lettering "b_durable b" applied log handle letters
  for b :: "'w batcher" and applied :: "'w \<Rightarrow> u64" and log :: "'w \<Rightarrow> settlement list"
    and handle :: "'w msg \<Rightarrow> bool" and letters :: "'w \<Rightarrow> string set" +
  assumes letter_kept: "b_deadLetter b = Some g \<Longrightarrow> g body w = (None, w') \<Longrightarrow> body \<in> letters w'"
    and receipt_kept: "b_deadLetterWithReceipt b = Some h \<Longrightarrow> h d body w = (None, w') \<Longrightarrow> body \<in> letters w'"
    and letters_letter: "b_deadLetter b = Some g \<Longrightarrow> g body w = (e, w') \<Longrightarrow> letters w \<subseteq> letters w'"
    and letters_receipt: "b_deadLetterWithReceipt b = Some h \<Longrightarrow> h d body w = (e, w') \<Longrightarrow> letters w \<subseteq> letters w'"
    and letters_sink: "b_sink b es mark w = (e, w') \<Longrightarrow> letters w \<subseteq> letters w'"
    and letters_record: "b_record b = Some f \<Longrightarrow> f mark w = (e, w') \<Longrightarrow> letters w \<subseteq> letters w'"
    and letters_hole: "b_recordHole b = Some k \<Longrightarrow> k d s w = (e, w') \<Longrightarrow> letters w \<subseteq> letters w'"
begin

lemma publish_letters:
  assumes "publishDeadLetter b m w = (e, w')"
  shows "letters w \<subseteq> letters w'" "e = None \<Longrightarrow> msg_body m \<in> letters w'"
  using assms letters_letter letter_kept letters_receipt receipt_kept
  by (auto simp: publishDeadLetter_def split: option.splits)

lemma record_letters: "recordSettled b m w = (e, w') \<Longrightarrow> letters w \<subseteq> letters w'"
  using letters_record by (auto simp: recordSettled_def split: option.splits if_splits)

lemma hole_letters: "recordReadinessHole b d s w = (e, w') \<Longrightarrow> letters w \<subseteq> letters w'"
  using letters_hole by (auto simp: recordReadinessHole_def split: option.splits if_splits)

lemma deadLetterSettle_lettered:
  assumes "handle m" "lettered w"
  shows "lettered (deadLetterSettle b s m w)"
proof -
  obtain e1 w1 where 1: "publishDeadLetter b m w = (e1, w1)" by (cases "publishDeadLetter b m w")
  obtain e2 w2 where 2: "recordSettled b m w1 = (e2, w2)" by (cases "recordSettled b m w1")
  obtain e3 w3 where 3: "recordReadinessHole b (attributed s (msg_delivery m)) s w2 = (e3, w3)"
    by (cases "recordReadinessHole b (attributed s (msg_delivery m)) s w2")
  have l1: "lettered w1" using steady_lettered [OF publish_steady [OF 1] publish_letters(1) [OF 1] assms(2)] .
  have l2: "lettered w2" using steady_lettered [OF record_steady [OF 2] record_letters [OF 2] l1] .
  have l3: "lettered w3" using steady_lettered [OF hole_steady [OF 3] hole_letters [OF 3] l2] .
  have "e1 = None \<Longrightarrow> msg_body m \<in> letters w3"
    using publish_letters(2) [OF 1] record_letters [OF 2] hole_letters [OF 3] by blast
  with l1 l2 l3 settle_lettered [OF assms(1)] show ?thesis
    by (simp add: deadLetterSettle_def 1 2 3 retrySettlement_def)
qed

lemma AddMsg_lettered:
  assumes "AddMsg lib b es msg w = (w', q)" "lettered w" "\<And>m. msg = Some m \<Longrightarrow> handle m"
  shows "lettered w'"
proof (cases msg)
  case None
  with assms(1,2) show ?thesis by (auto simp: AddMsg_def poison_def split: if_splits)
next
  case (Some m)
  obtain e w1 where r: "recordSettled b m w = (e, w1)" by (cases "recordSettled b m w")
  have "lettered w1" using steady_lettered [OF record_steady [OF r] record_letters [OF r] assms(2)] .
  with assms Some r settle_lettered deadLetterSettle_lettered show ?thesis
    by (auto simp: AddMsg_def poison_def retrySettlement_def split: if_splits)
qed

lemma flush_lettered:
  assumes "lettered w" "\<And>es m. (es, Some m) \<in> set items \<Longrightarrow> handle m"
  shows "lettered (flush lib b items w)"
proof -
  obtain e w1 where s: "sinkWithRetry b (concat (map fst items)) (flush_mark lib b items) w = (e, w1)"
    by (cases "sinkWithRetry b (concat (map fst items)) (flush_mark lib b items) w")
  have 1: "lettered w1"
    using s assms(1) sink_frame letters_sink unfolding sinkWithRetry_def
    by (elim attempts_lettered [rotated]) auto
  have fold: "lettered (fold f its w')" if "lettered w'" "set its \<subseteq> set items"
    "\<And>it w. it \<in> set items \<Longrightarrow> lettered w \<Longrightarrow> lettered (f it w)" for f its w'
    using that by (induction its arbitrary: w') auto
  have a: "lettered (ack_item it w)" if "it \<in> set items" "lettered w" for it w
    using assms(2) [of "fst it"] that settle_lettered(1)
    by (cases it) (auto simp: ack_item_def split: option.splits)
  have f: "lettered (settle_failed lib b cause it w)" if "it \<in> set items" "lettered w" for it w cause
    using assms(2) [of "fst it"] that settle_lettered(2) deadLetterSettle_lettered
    by (cases it) (auto simp: settle_failed_def split: option.splits)
  show ?thesis
    using 1 s a f by (auto simp: flush_def settleFailure_def intro!: fold split: option.splits)
qed

end

section \<open>Properties\<close>

text \<open>What the loop received, and the bound its batches respect.\<close>

definition received :: "'w signal list \<Rightarrow> 'w queued list" where
  "received ss = concat (map (\<lambda>s. case s of Recv q \<Rightarrow> [q] | Tick \<Rightarrow> [] | Done rest \<Rightarrow> rest) ss)"

definition event_count :: "'w queued list \<Rightarrow> nat" where
  "event_count items = length (concat (map fst items))"

lemma loop_run_concat:
  "(\<And>r. Done r \<notin> set ss) \<Longrightarrow>
     concat (loop_run b (ss @ [Done rest]) (buf, count)) = buf @ received ss @ rest"
  by (induction ss arbitrary: buf count)
    (auto simp: loop_step_def Let_def received_def split: signal.splits)

lemma loop_run_bound:
  "event_count buf = count \<Longrightarrow> int count < b_maxBatch b \<Longrightarrow> (\<And>r. Done r \<notin> set ss) \<Longrightarrow>
     batch \<in> set (loop_run b ss (buf, count)) \<Longrightarrow> batch \<noteq> [] \<and> int (event_count (butlast batch)) < b_maxBatch b"
proof (induction ss arbitrary: buf count)
  case (Cons s ss)
  show ?case
  proof (cases s)
    case (Recv q)
    have "0 < b_maxBatch b" using Cons.prems(2) by linarith
    with Recv Cons.prems Cons.IH [of "[]" 0] Cons.IH [of "buf @ [q]" "count + length (fst q)"]
    show ?thesis
      by (auto simp: loop_step_def Let_def event_count_def butlast_append split: if_splits)
  next
    case Tick
    have "event_count (butlast buf) \<le> event_count buf"
      by (cases buf rule: rev_cases) (auto simp: event_count_def)
    moreover have "0 < b_maxBatch b" using Cons.prems(2) by linarith
    ultimately show ?thesis
      using Tick Cons.prems Cons.IH [of "[]" 0] Cons.IH [of buf count]
      by (auto simp: loop_step_def Let_def event_count_def split: if_splits)
  next
    case (Done r)
    with Cons.prems(3) [of r] show ?thesis by simp
  qed
qed simp


definition wit_batcher :: "nat batcher" where
  "wit_batcher = NewEventBatcher
     \<lparr>b_sink = (\<lambda>_ _ w. (None, w)), b_deadLetter = None, b_deadLetterWithReceipt = None, b_maxBatch = 2,
      b_flushEvery = 0, b_insertTO = 0, b_maxRetries = 0, b_maxDeliver = 5, b_nakDelay = 0,
      b_durable = ''blue'', b_record = None, b_recordHole = None\<rparr>"


lemma sint_small: "uint (w :: 64 word) < 2 ^ 63 \<Longrightarrow> sint w = uint w"
  by (simp add: sint_uint signed_take_bit_int_eq_self_iff order_trans [OF _ uint_ge_0])

text \<open>The retry schedule. While the shift does not overflow, the pause before the next attempt
  is 200ms doubled each time and capped at 2s; the attempts of the default configuration never
  come near the overflow, which a shift of 36 places or more would be needed for.\<close>

theorem backoff_schedule:
  assumes "attempt < 36"
  shows "uint (backoff attempt) = min (2 * second) (200000000 * 2 ^ attempt)"
proof -
  let ?d = "push_bit attempt (200000000 :: 64 word)"
  have "(2::int) ^ attempt \<le> 2 ^ 35" using assms by (intro power_increasing) auto
  then have k: "200000000 * (2::int) ^ attempt < 2 ^ 63" by simp
  have "uint ?d = take_bit 64 (200000000 * 2 ^ attempt)"
    by (simp only: unsigned_push_bit_eq) (simp add: push_bit_eq_mult)
  also have "\<dots> = 200000000 * 2 ^ attempt" using k by (intro take_bit_int_eq_self) auto
  finally have u: "uint ?d = 200000000 * 2 ^ attempt" .
  then have "sint ?d = 200000000 * 2 ^ attempt" using k sint_small [of ?d] by simp
  then show ?thesis using u by (simp add: backoff_def Let_def word_sless_alt second_def)
qed
theorem backoff_schedule_witness: "uint (backoff 2) = 800000000"
  using backoff_schedule [of 2] by (simp add: second_def)

end
