(* ===== verification/Wire.thy ===== *)
theory Wire
  imports Batcher Snapshots "HOL-Library.Stream"
begin

unbundle bit_operations_syntax

text \<open>
  What travels on the connector subject (\<open>internal/dataplane/ingest/queue.go\<close> and
  \<open>snapshot_protocol.go\<close>): the wire form of a connector batch, the size estimate and the
  splitting of a batch into messages, and the decoding on the worker's side. A Go string is its
  bytes; ranging over it yields runes, so the size of a string is counted rune by rune, and the
  parts of \<open>encoding/json\<close> the estimate is about - the text of a string and the compaction of a
  raw message - are written out.
\<close>

section \<open>Runes\<close>

abbreviation byte_of :: "char \<Rightarrow> nat" where
  "byte_of c \<equiv> of_char c"

definition cont_byte :: "char \<Rightarrow> bool" where
  "cont_byte c \<longleftrightarrow> 0x80 \<le> byte_of c \<and> byte_of c \<le> 0xBF"

text \<open>How many bytes the first rune takes; a byte that starts no valid encoding is one (invalid)
  rune. The second byte has a narrower range after \<open>E0\<close>, \<open>ED\<close>, \<open>F0\<close> and \<open>F4\<close>.\<close>

definition second_ok :: "char \<Rightarrow> char \<Rightarrow> bool" where
  "second_ok c d \<longleftrightarrow> cont_byte d \<and>
     (byte_of c = 0xE0 \<longrightarrow> 0xA0 \<le> byte_of d) \<and> (byte_of c = 0xED \<longrightarrow> byte_of d \<le> 0x9F) \<and>
     (byte_of c = 0xF0 \<longrightarrow> 0x90 \<le> byte_of d) \<and> (byte_of c = 0xF4 \<longrightarrow> byte_of d \<le> 0x8F)"

definition rune_size :: "char \<Rightarrow> nat" where
  "rune_size c =
     (let b = byte_of c
      in if 0xC2 \<le> b \<and> b \<le> 0xDF then 2 else if 0xE0 \<le> b \<and> b \<le> 0xEF then 3
         else if 0xF0 \<le> b \<and> b \<le> 0xF4 then 4 else 1)"

definition rune_width :: "string \<Rightarrow> nat" where
  "rune_width s =
     (case s of
        [] \<Rightarrow> 0
      | c # cs \<Rightarrow>
          let n = rune_size c
          in if n \<le> length s \<and> (n = 1 \<or> second_ok c (hd cs) \<and> list_all cont_byte (take (n - 1) cs)) then n
             else 1)"

fun runes :: "string \<Rightarrow> string list" where
  "runes [] = []"
| "runes (c # cs) =
     (let n = rune_width (c # cs) in (c # take (n - 1) cs) # runes (drop (n - 1) cs))"

section \<open>Rows on the wire\<close>

record wire_row =
  er_Key :: string
  er_Cursor :: string
  er_Data :: string

record external_batch =
  eb_ProjectID :: string
  eb_ConnectorID :: string
  eb_Table :: string
  eb_Rows :: "wire_row list"
  eb_Source :: "source_mark option"

definition wireFramingBytes :: int where "wireFramingBytes = 44"

definition html_char :: "char \<Rightarrow> bool" where
  "html_char c \<longleftrightarrow> c = CHR ''<'' \<or> c = CHR ''>'' \<or> c = CHR ''&''"

definition safe_char :: "char \<Rightarrow> bool" where
  "safe_char c \<longleftrightarrow> 0x20 \<le> byte_of c \<and> byte_of c < 0x80 \<and> c \<noteq> CHR 0x22 \<and> c \<noteq> CHR 0x5C \<and> \<not> html_char c"

definition rune_cost :: "string \<Rightarrow> int" where
  "rune_cost r = (if safe_char (hd r) then 1 else 6)"

definition jsonStringBytes :: "string \<Rightarrow> int" where
  "jsonStringBytes s = 2 + sum_list (map rune_cost (runes s))"

definition rawJSONBytes :: "string \<Rightarrow> int" where
  "rawJSONBytes raw = int (length raw) + 5 * int (length (filter html_char raw))"

definition wireBytes :: "wire_row \<Rightarrow> int" where
  "wireBytes r = rawJSONBytes (er_Data r) + jsonStringBytes (er_Key r) + jsonStringBytes (er_Cursor r) +
     wireFramingBytes"

definition LandedRows :: "external_batch \<Rightarrow> landed_row list" where
  "LandedRows b = map (\<lambda>r. \<lparr>Key = er_Key r, Cursor = er_Cursor r, DataJSON = er_Data r\<rparr>) (eb_Rows b)"

definition row_of_landed :: "landed_row \<Rightarrow> wire_row" where
  "row_of_landed r = \<lparr>er_Key = Key r, er_Cursor = Cursor r, er_Data = DataJSON r\<rparr>"

text \<open>\<open>chunkRows\<close>: the loop's state is the current chunk and its size; the full chunks come out.\<close>

fun chunk_loop :: "int \<Rightarrow> wire_row list \<Rightarrow> int \<Rightarrow> landed_row list \<Rightarrow> wire_row list list" where
  "chunk_loop maxBytes cur used [] = (if cur = [] then [] else [cur])"
| "chunk_loop maxBytes cur used (r # rs) =
     (let row = row_of_landed r; rowBytes = wireBytes row
      in if cur \<noteq> [] \<and> used + rowBytes > maxBytes
         then cur # chunk_loop maxBytes [row] rowBytes rs
         else chunk_loop maxBytes (cur @ [row]) (used + rowBytes) rs)"

definition chunkRows :: "landed_row list \<Rightarrow> int \<Rightarrow> wire_row list list" where
  "chunkRows rows maxBytes = chunk_loop maxBytes [] 0 rows"

section \<open>The encoder\<close>

text \<open>The text of a string, rune by rune, and of a raw message: white space outside strings is
  dropped, and inside and outside \<open><\<close>, \<open>>\<close>, \<open>&\<close> and the two line separators are escaped.
  \<open>inside\<close> and \<open>escaped\<close> are what the scanner knows: within a string, after a backslash.\<close>

definition hex_char :: "nat \<Rightarrow> char" where
  "hex_char d = (if d < 10 then digit_char d else char_of (d + 87))"

definition u00 :: "char \<Rightarrow> string" where
  "u00 c = [CHR 0x5C, CHR ''u'', CHR ''0'', CHR ''0'', hex_char (byte_of c div 16), hex_char (byte_of c mod 16)]"

definition u202 :: "char \<Rightarrow> string" where
  "u202 c = [CHR 0x5C, CHR ''u'', CHR ''2'', CHR ''0'', CHR ''2'', hex_char (byte_of c mod 16)]"

definition line_separator :: "string \<Rightarrow> bool" where
  "line_separator s \<longleftrightarrow> take 2 s = [CHR 0xE2, CHR 0x80] \<and> 2 < length s \<and> (s ! 2 = CHR 0xA8 \<or> s ! 2 = CHR 0xA9)"

definition short_escape :: "char \<Rightarrow> char option" where
  "short_escape c =
     (if c = CHR 0x5C \<or> c = CHR 0x22 then Some c
      else if c = CHR 0x08 then Some CHR ''b'' else if c = CHR 0x0C then Some CHR ''f''
      else if c = CHR 0x0A then Some CHR ''n'' else if c = CHR 0x0D then Some CHR ''r''
      else if c = CHR 0x09 then Some CHR ''t'' else None)"

definition rune_text :: "string \<Rightarrow> string" where
  "rune_text r =
     (if byte_of (hd r) < 0x80 then
        (if safe_char (hd r) then r
         else (case short_escape (hd r) of Some e \<Rightarrow> [CHR 0x5C, e] | None \<Rightarrow> u00 (hd r)))
      else if length r = 1 then CHR 0x5C # ''ufffd''
      else if line_separator r then u202 (r ! 2)
      else r)"

definition json_string :: "string \<Rightarrow> string" where
  "json_string s = CHR 0x22 # concat (map rune_text (runes s)) @ [CHR 0x22]"

definition json_blank :: "char \<Rightarrow> bool" where
  "json_blank c \<longleftrightarrow> c = CHR '' '' \<or> c = CHR 0x09 \<or> c = CHR 0x0A \<or> c = CHR 0x0D"

fun compact :: "bool \<Rightarrow> bool \<Rightarrow> string \<Rightarrow> string" where
  "compact inside escaped [] = []"
| "compact inside escaped (c # cs) =
     (let inside' = (if \<not> inside then c = CHR 0x22 else escaped \<or> c \<noteq> CHR 0x22);
          escaped' = (inside \<and> \<not> escaped \<and> c = CHR 0x5C)
      in if html_char c then u00 c @ compact inside' escaped' cs
         else if line_separator (c # cs) then u202 (cs ! 1) @ compact inside' escaped' (drop 2 cs)
         else if \<not> inside \<and> json_blank c then compact inside' escaped' cs
         else c # compact inside' escaped' cs)"

text \<open>Parameters: which texts are JSON, the text of a source receipt, the decoders of a batch and
  of an event list, and the codecs of the envelope.\<close>

record wire_lib =
  json_valid :: "string \<Rightarrow> bool"
  receipt_text :: "source_mark \<Rightarrow> string"
  decode_batch :: "string \<Rightarrow> external_batch option"
  decode_events :: "string \<Rightarrow> event list option"
  events_text :: "event list \<Rightarrow> string option"
  wl_json :: json_lib
  wl_snap :: snap_lib

definition quoted :: "string \<Rightarrow> string" where
  "quoted s = CHR 0x22 # s @ [CHR 0x22]"

definition row_text :: "wire_row \<Rightarrow> string" where
  "row_text r = ''{'' @ quoted ''key'' @ '':'' @ json_string (er_Key r) @ '','' @ quoted ''cursor'' @ '':'' @
     json_string (er_Cursor r) @ '','' @ quoted ''data'' @ '':'' @ compact False False (er_Data r) @ ''}''"

definition rows_text :: "wire_row list \<Rightarrow> string" where
  "rows_text rows = ''['' @ str_join '','' (map row_text rows) @ '']''"

definition marshal_rows_wire :: "wire_lib \<Rightarrow> wire_row list \<Rightarrow> string option" where
  "marshal_rows_wire wl rows =
     (if list_all (\<lambda>r. json_valid wl (er_Data r)) rows then Some (rows_text rows) else None)"

definition batch_text :: "wire_lib \<Rightarrow> external_batch \<Rightarrow> string" where
  "batch_text wl b = ''{'' @ quoted ''project_id'' @ '':'' @ json_string (eb_ProjectID b) @ '','' @
     quoted ''connector_id'' @ '':'' @ json_string (eb_ConnectorID b) @ '','' @
     quoted ''table'' @ '':'' @ json_string (eb_Table b) @ '','' @
     quoted ''rows'' @ '':'' @ rows_text (eb_Rows b) @
     (case eb_Source b of None \<Rightarrow> '''' | Some s \<Rightarrow> '','' @ quoted ''source_receipt'' @ '':'' @ receipt_text wl s) @
     ''}''"

definition marshal_batch :: "wire_lib \<Rightarrow> external_batch \<Rightarrow> string option" where
  "marshal_batch wl b =
     (if list_all (\<lambda>r. json_valid wl (er_Data r)) (eb_Rows b) then Some (batch_text wl b) else None)"


section \<open>Publishing\<close>

text \<open>The dedup id of a body: FNV-1a over 64 bits, in base 16.\<close>

definition bodyMsgID_sum :: "string \<Rightarrow> u64" where
  "bodyMsgID_sum body =
     fold (\<lambda>c h. (h XOR word_of_nat (byte_of c)) * 1099511628211) body 14695981039346656037"

fun show_hex :: "nat \<Rightarrow> string" where
  "show_hex n = (if n < 16 then [hex_char n] else show_hex (n div 16) @ [hex_char (n mod 16)])"

declare show_hex.simps [simp del]

definition bodyMsgID :: "string \<Rightarrow> string" where
  "bodyMsgID body = show_hex (unat (bodyMsgID_sum body))"

text \<open>The queue: whether it has a JetStream context, the payload limit its connection advertises
  (if it has a connection), and its publication observer, if any, with whether it admits.\<close>

record event_queue =
  q_js :: bool
  q_maxPayload :: "int option"
  q_subject :: string
  q_connectorSubject :: string
  q_observer :: "bool option"

definition publishFallbackBudget :: int where "publishFallbackBudget = 512 * 1024"

definition publishBudget :: "event_queue \<Rightarrow> int" where
  "publishBudget q =
     (case q_maxPayload q of
        None \<Rightarrow> publishFallbackBudget
      | Some m \<Rightarrow> if m > 0 \<and> m - m div 8 > 0 then m - m div 8 else publishFallbackBudget)"

text \<open>What the outside answers to one publish: whether the observer admits it, whether the broker
  stores it and says so, whether the observation is recorded, and the clock. A publish whose
  acknowledgement is lost is stored and reported as failed.\<close>

datatype publish_answer = Accepted | AckLost | Refused

record publish_io =
  p_admits :: bool
  p_answer :: publish_answer
  p_records :: bool
  p_now :: time

record observation =
  ob_mark :: "source_mark option"
  ob_source :: "string \<times> string \<times> string"
  ob_stable :: string
  ob_digest :: string
  ob_published :: time

record published =
  pb_subject :: string
  pb_body :: string
  pb_id :: "string option"

record broker =
  k_io :: "publish_io stream"
  k_stream :: "published list"
  k_observed :: "observation list"

datatype publish_error =
    RowTooLarge int int | Unencodable | NotAdmitted | NotPublished | NotRecorded
  | NoJetStream | BatchTooLarge int | EnvelopeRejected snapshot_error

definition send :: "published \<Rightarrow> broker \<Rightarrow> publish_error option \<times> broker" where
  "send p k =
     (case p_answer (shd (k_io k)) of
        Accepted \<Rightarrow> (None, k\<lparr>k_stream := k_stream k @ [p]\<rparr>)
      | AckLost \<Rightarrow> (Some NotPublished, k\<lparr>k_stream := k_stream k @ [p]\<rparr>)
      | Refused \<Rightarrow> (Some NotPublished, k))"

definition observe :: "observation \<Rightarrow> broker \<Rightarrow> publish_error option \<times> broker" where
  "observe ob k =
     (if p_records (shd (k_io k)) then (None, k\<lparr>k_observed := k_observed k @ [ob]\<rparr>)
      else (Some NotRecorded, k))"

abbreviation next_call :: "broker \<Rightarrow> broker" where
  "next_call k \<equiv> k\<lparr>k_io := stl (k_io k)\<rparr>"

definition refused_admission :: "event_queue \<Rightarrow> broker \<Rightarrow> bool" where
  "refused_admission q k \<longleftrightarrow> q_observer q = Some True \<and> \<not> p_admits (shd (k_io k))"

definition InsertEventsQ :: "wire_lib \<Rightarrow> event_queue \<Rightarrow> event list \<Rightarrow> broker \<Rightarrow> publish_error option \<times> broker" where
  "InsertEventsQ wl q events k =
     (case events_text wl events of
        None \<Rightarrow> (Some Unencodable, k)
      | Some body \<Rightarrow>
          let (e, k1) = send \<lparr>pb_subject = q_subject q, pb_body = body,
                pb_id = (if q_js q then Some (bodyMsgID body) else None)\<rparr> k
          in (e, next_call k1))"

text \<open>One message of \<open>PublishExternalRows\<close>.\<close>

definition publish_chunk ::
  "wire_lib \<Rightarrow> event_queue \<Rightarrow> string \<times> string \<times> string \<Rightarrow> wire_row list \<Rightarrow> broker \<Rightarrow>
     publish_error option \<times> broker" where
  "publish_chunk wl q src chunk k =
     (let (projectID, connectorID, table) = src; budget = publishBudget q in
      if length chunk = 1 \<and> wireBytes (hd chunk) > budget then (Some (RowTooLarge (wireBytes (hd chunk)) budget), k)
      else (case marshal_batch wl \<lparr>eb_ProjectID = projectID, eb_ConnectorID = connectorID, eb_Table = table,
                eb_Rows = chunk, eb_Source = None\<rparr> of
          None \<Rightarrow> (Some Unencodable, k)
        | Some body \<Rightarrow>
            if q_js q then
              (if refused_admission q k then (Some NotAdmitted, next_call k)
               else let (e, k1) = send \<lparr>pb_subject = q_connectorSubject q, pb_body = body, pb_id = Some (bodyMsgID body)\<rparr> k
               in if e \<noteq> None then (e, next_call k1)
               else if q_observer q = None then (None, next_call k1)
               else let digest = sha256_hex (wl_snap wl) body;
                        (e, k2) = observe \<lparr>ob_mark = None, ob_source = src, ob_stable = digest, ob_digest = digest,
                           ob_published = p_now (shd (k_io k))\<rparr> k1
               in (e, next_call k2))
            else let (e, k1) = send \<lparr>pb_subject = q_connectorSubject q, pb_body = body, pb_id = None\<rparr> k
              in (e, next_call k1)))"

fun publish_chunks ::
  "wire_lib \<Rightarrow> event_queue \<Rightarrow> string \<times> string \<times> string \<Rightarrow> wire_row list list \<Rightarrow> broker \<Rightarrow>
     publish_error option \<times> broker" where
  "publish_chunks wl q src [] k = (None, k)"
| "publish_chunks wl q src (chunk # rest) k =
     (let (e, k1) = publish_chunk wl q src chunk k
      in if e \<noteq> None then (e, k1) else publish_chunks wl q src rest k1)"

definition PublishExternalRows ::
  "wire_lib \<Rightarrow> event_queue \<Rightarrow> string \<times> string \<times> string \<Rightarrow> landed_row list \<Rightarrow> broker \<Rightarrow>
     publish_error option \<times> broker" where
  "PublishExternalRows wl q src rows k =
     (if rows = [] then (None, k) else publish_chunks wl q src (chunkRows rows (publishBudget q)) k)"

text \<open>The receipted batches of an incremental run. The mark of a completion is observed under the
  digest of the whole body, that of a batch under the digest of its rows.\<close>

definition publishExternalEnvelope ::
  "wire_lib \<Rightarrow> event_queue \<Rightarrow> external_batch \<Rightarrow> broker \<Rightarrow> publish_error option \<times> broker" where
  "publishExternalEnvelope wl q batch k =
     (case marshal_batch wl batch of
        None \<Rightarrow> (Some Unencodable, k)
      | Some body \<Rightarrow>
          let published = p_now (shd (k_io k)) in
          if q_js q \<and> refused_admission q k then (Some NotAdmitted, next_call k)
          else let (e, k1) = send \<lparr>pb_subject = q_connectorSubject q, pb_body = body,
                     pb_id = (if q_js q then Some (bodyMsgID body) else None)\<rparr> k
          in if e \<noteq> None then (e, next_call k1)
          else (case (q_observer q, eb_Source batch) of
              (Some _, Some src) \<Rightarrow>
                let mark = src\<lparr>s_PublishedAt := Some published\<rparr>;
                    (e, k2) = observe \<lparr>ob_mark = Some mark,
                       ob_source = (s_ProjectID mark, s_ConnectorID mark, s_Table mark),
                       ob_stable = (if s_Complete mark then s_RunID mark @ '':complete''
                                    else s_RunID mark @ '':'' @ s_BatchID mark),
                       ob_digest = (if s_Complete mark then sha256_hex (wl_snap wl) body else s_PayloadSHA256 mark),
                       ob_published = published\<rparr> k1
                in (e, next_call k2)
            | _ \<Rightarrow> (None, next_call k1)))"

record incremental_receipt =
  ir_SyncID :: string
  ir_RunID :: string
  ir_BatchIndex :: "64 word"
  ir_ExpectedBatches :: "64 word"
  ir_ExpectedRows :: "64 word"
  ir_CaptureStartedAt :: time
  ir_CaptureFinishedAt :: "time option"

text \<open>\<open>%06d\<close>: at least six places, zeros in front and the sign counted.\<close>

definition pad6 :: "int \<Rightarrow> string" where
  "pad6 i =
     (let s = show_nat (nat \<bar>i\<bar>); w = (if i < 0 then 5 else 6)
      in (if i < 0 then ''-'' else '''') @ replicate (w - length s) (CHR ''0'') @ s)"

definition batch_id :: "int \<Rightarrow> string" where
  "batch_id i = ''batch-'' @ pad6 i"

definition incremental_mark :: "string \<times> string \<times> string \<Rightarrow> incremental_receipt \<Rightarrow> source_mark" where
  "incremental_mark src r = \<lparr>s_ProjectID = fst src, s_ConnectorID = fst (snd src), s_Table = snd (snd src),
     s_SyncID = ir_SyncID r, s_RunID = ir_RunID r, s_Generation = '''', s_GenerationSeq = 0, s_BindingDigest = '''',
     s_BatchID = '''', s_BatchIndex = None, s_PayloadSHA256 = '''', s_ExpectedBatches = None,
     s_ExpectedRows = None, s_CaptureStartedAt = Some (ir_CaptureStartedAt r), s_CaptureFinishedAt = None,
     s_PublishedAt = None, s_Complete = False, s_Promoted = False\<rparr>"

fun publish_incremental ::
  "wire_lib \<Rightarrow> event_queue \<Rightarrow> string \<times> string \<times> string \<Rightarrow> incremental_receipt \<Rightarrow> nat \<Rightarrow>
     wire_row list list \<Rightarrow> broker \<Rightarrow> (nat \<times> publish_error option) \<times> broker" where
  "publish_incremental wl q src r i [] k = ((i, None), k)"
| "publish_incremental wl q src r i (chunk # rest) k =
     (case marshal_rows_wire wl chunk of
        None \<Rightarrow> ((i, Some Unencodable), k)
      | Some digestBody \<Rightarrow>
          let index = ir_BatchIndex r + word_of_nat i;
              mark = (incremental_mark src r)\<lparr>s_BatchID := batch_id (uint index), s_BatchIndex := Some index,
                        s_PayloadSHA256 := sha256_hex (wl_snap wl) digestBody\<rparr>;
              (e, k1) = publishExternalEnvelope wl q \<lparr>eb_ProjectID = fst src, eb_ConnectorID = fst (snd src),
                        eb_Table = snd (snd src), eb_Rows = chunk, eb_Source = Some mark\<rparr> k
          in if e \<noteq> None then ((i, e), k1) else publish_incremental wl q src r (Suc i) rest k1)"

definition PublishIncrementalBatch ::
  "wire_lib \<Rightarrow> event_queue \<Rightarrow> string \<times> string \<times> string \<Rightarrow> incremental_receipt \<Rightarrow> landed_row list \<Rightarrow>
     broker \<Rightarrow> (nat \<times> publish_error option) \<times> broker" where
  "PublishIncrementalBatch wl q src r rows k =
     publish_incremental wl q src r 0 (chunkRows rows (publishBudget q)) k"

definition PublishIncrementalComplete ::
  "wire_lib \<Rightarrow> event_queue \<Rightarrow> string \<times> string \<times> string \<Rightarrow> incremental_receipt \<Rightarrow> broker \<Rightarrow>
     publish_error option \<times> broker" where
  "PublishIncrementalComplete wl q src r k =
     publishExternalEnvelope wl q \<lparr>eb_ProjectID = fst src, eb_ConnectorID = fst (snd src),
        eb_Table = snd (snd src), eb_Rows = [],
        eb_Source = Some ((incremental_mark src r)\<lparr>s_ExpectedBatches := Some (ir_ExpectedBatches r),
           s_ExpectedRows := Some (ir_ExpectedRows r), s_CaptureFinishedAt := ir_CaptureFinishedAt r,
           s_Complete := True\<rparr>)\<rparr> k"


section \<open>Snapshot batches\<close>

fun SnapshotRows :: "snap_lib \<Rightarrow> landed_row list \<Rightarrow> snapshot_error + snapshot_row list" where
  "SnapshotRows lib [] = Inr []"
| "SnapshotRows lib (r # rs) =
     (case canonicalJSON lib (DataJSON r) of
        None \<Rightarrow> Inl RowJSON
      | Some canon \<Rightarrow> res_bind (SnapshotRows lib rs) (\<lambda>rest.
          Inr (\<lparr>w_Key = Key r, w_Cursor = Cursor r, w_Data = canon\<rparr> # rest)))"

definition buildSnapshotBatch ::
  "wire_lib \<Rightarrow> snapshot_envelope \<Rightarrow> wire_row list \<Rightarrow> int \<Rightarrow> snapshot_error + snapshot_envelope \<times> string" where
  "buildSnapshotBatch wl common chunk index =
     res_bind (SnapshotRows (wl_snap wl) (map (\<lambda>r. \<lparr>Key = er_Key r, Cursor = '''', DataJSON = er_Data r\<rparr>) chunk))
       (\<lambda>wireRows.
     res_bind (SnapshotPayloadDigest (wl_snap wl) wireRows) (\<lambda>digest.
       let env = common\<lparr>n_Protocol := SnapshotProtocolV1, n_Kind := SnapshotKindBatch, n_BatchIndex := index,
             n_BatchID := batch_id index, n_Rows := wireRows, n_CaptureFinishedAt := None,
             n_PayloadSHA256 := digest\<rparr>
       in res_bind (MarshalSnapshotEnvelope (wl_snap wl) (wl_json wl) env) (\<lambda>raw. Inr (env, raw))))"

text \<open>An \<open>int64\<close> sum wraps.\<close>

definition int64 :: "int \<Rightarrow> int" where
  "int64 i = sint (word_of_int i :: 64 word)"

lemma buildSnapshotBatch_rows:
  assumes "buildSnapshotBatch wl common chunk index = Inr (env, raw)"
  shows "Validate (wl_snap wl) env = None" "n_Kind env = SnapshotKindBatch" "n_BatchIndex env = index"
    "n_BatchID env = batch_id index"
    "SnapshotRows (wl_snap wl) (map (\<lambda>r. \<lparr>Key = er_Key r, Cursor = '''', DataJSON = er_Data r\<rparr>) chunk) = Inr (n_Rows env)"
    "MarshalSnapshotEnvelope (wl_snap wl) (wl_json wl) env = Inr raw"
proof -
  from assms obtain rows where r: "SnapshotRows (wl_snap wl)
      (map (\<lambda>r. \<lparr>Key = er_Key r, Cursor = '''', DataJSON = er_Data r\<rparr>) chunk) = Inr rows"
    by (auto simp: buildSnapshotBatch_def)
  with assms show "n_Kind env = SnapshotKindBatch" "n_BatchIndex env = index" "n_BatchID env = batch_id index"
    "SnapshotRows (wl_snap wl) (map (\<lambda>r. \<lparr>Key = er_Key r, Cursor = '''', DataJSON = er_Data r\<rparr>) chunk) = Inr (n_Rows env)"
    and m: "MarshalSnapshotEnvelope (wl_snap wl) (wl_json wl) env = Inr raw"
    by (auto simp: buildSnapshotBatch_def Let_def)
  from m show "Validate (wl_snap wl) env = None" by (auto simp: MarshalSnapshotEnvelope_def split: option.splits)
qed

lemma SnapshotRows_length: "SnapshotRows lib rs = Inr out \<Longrightarrow> length out = length rs"
  by (induction rs arbitrary: out) (auto split: option.splits)

lemma buildSnapshotBatch_not_Nil:
  assumes "buildSnapshotBatch wl common chunk index = Inr (env, raw)"
  shows "chunk \<noteq> []"
proof -
  have "n_Rows env \<noteq> []"
    using validate_batch(2) [OF buildSnapshotBatch_rows(1,2) [OF assms]] .
  then show ?thesis using SnapshotRows_length [OF buildSnapshotBatch_rows(5) [OF assms]] by auto
qed

text \<open>The loop of \<open>BuildSnapshotBatches\<close>: a candidate over the budget is split in two and both halves
  are measured again. No empty candidate is ever marshalled, so a split strictly shrinks the work
  list.\<close>

function build_batches ::
  "wire_lib \<Rightarrow> int \<Rightarrow> snapshot_envelope \<Rightarrow> int \<Rightarrow> wire_row list list \<Rightarrow> snapshot_envelope list \<Rightarrow>
     publish_error + snapshot_envelope list" where
  "build_batches wl budget common startIndex [] out = Inr out"
| "build_batches wl budget common startIndex (chunk # todo) out =
     (let idx = int64 (startIndex + int (length out))
      in (case buildSnapshotBatch wl common chunk idx of
            Inl e \<Rightarrow> Inl (EnvelopeRejected e)
          | Inr (env, raw) \<Rightarrow>
              if int (length raw) > budget then
                (if length chunk = 1 then Inl (BatchTooLarge idx)
                 else let mid = length chunk div 2
                   in build_batches wl budget common startIndex (take mid chunk # drop mid chunk # todo) out)
              else build_batches wl budget common startIndex todo (out @ [env])))"
  by pat_completeness auto

termination
proof (relation "measure (\<lambda>(_, _, _, _, todo, _). sum_list (map (\<lambda>c. 2 * length c - 1) todo))",
    goal_cases)
  case 1
  then show ?case by simp
next
  case (2 wl budget common startIndex chunk todo out idx p env raw mid)
  then have "chunk \<noteq> []" using buildSnapshotBatch_not_Nil by metis
  with 2(5) have "2 \<le> length chunk" by (cases chunk rule: remdups_adj.cases) auto
  then have "1 \<le> length chunk div 2" "length chunk div 2 < length chunk" by auto
  then show ?case using 2(6) by simp
next
  case (3 wl budget common startIndex chunk todo out idx p env raw)
  then have "chunk \<noteq> []" using buildSnapshotBatch_not_Nil by metis
  then show ?case by (cases chunk) auto
qed

definition BuildSnapshotBatches ::
  "wire_lib \<Rightarrow> event_queue \<Rightarrow> snapshot_envelope \<Rightarrow> landed_row list \<Rightarrow> int \<Rightarrow>
     publish_error + snapshot_envelope list" where
  "BuildSnapshotBatches wl q common rows startIndex =
     (if \<not> q_js q then Inl NoJetStream
      else build_batches wl (publishBudget q) common startIndex (chunkRows rows (publishBudget q)) [])"

definition sourceReceiptFromSnapshotEnvelope :: "snapshot_envelope \<Rightarrow> time option \<Rightarrow> source_mark" where
  "sourceReceiptFromSnapshotEnvelope env published =
     (let mark = \<lparr>s_ProjectID = n_ProjectID env, s_ConnectorID = n_ConnectorID env, s_Table = n_Table env,
         s_SyncID = n_SyncID env, s_RunID = n_RunID env, s_Generation = n_Generation env,
         s_GenerationSeq = word_of_int (n_GenerationSeq env), s_BindingDigest = n_BindingDigest env,
         s_BatchID = '''', s_BatchIndex = None, s_PayloadSHA256 = '''', s_ExpectedBatches = None,
         s_ExpectedRows = None, s_CaptureStartedAt = Some (n_CaptureStartedAt env),
         s_CaptureFinishedAt = None, s_PublishedAt = published, s_Complete = False, s_Promoted = False\<rparr>
      in if n_Kind env = SnapshotKindBatch then
           mark\<lparr>s_BatchID := n_BatchID env, s_BatchIndex := Some (word_of_int (n_BatchIndex env)),
                s_PayloadSHA256 := n_PayloadSHA256 env\<rparr>
         else mark\<lparr>s_Complete := True, s_CaptureFinishedAt := n_CaptureFinishedAt env,
                s_ExpectedBatches := Some (word_of_int (n_ExpectedBatches env)),
                s_ExpectedRows := Some (word_of_int (n_ExpectedRows env))\<rparr>)"

definition snapshot_msg_id :: "snapshot_envelope \<Rightarrow> string" where
  "snapshot_msg_id env =
     str_join '':'' [n_Protocol env, n_ProjectID env, n_ConnectorID env, n_Table env, n_Generation env, n_Kind env] @
     (if n_Kind env = SnapshotKindBatch then '':'' @ n_BatchID env else '':complete'')"

definition PublishSnapshotEnvelope ::
  "wire_lib \<Rightarrow> event_queue \<Rightarrow> snapshot_envelope \<Rightarrow> broker \<Rightarrow> publish_error option \<times> broker" where
  "PublishSnapshotEnvelope wl q env k =
     (if \<not> q_js q then (Some NoJetStream, k)
      else if refused_admission q k then (Some NotAdmitted, next_call k)
      else (case MarshalSnapshotEnvelope (wl_snap wl) (wl_json wl) env of
          Inl e \<Rightarrow> (Some (EnvelopeRejected e), next_call k)
        | Inr body \<Rightarrow>
            let (e, k1) = send \<lparr>pb_subject = q_connectorSubject q, pb_body = body, pb_id = Some (snapshot_msg_id env)\<rparr> k
            in if e \<noteq> None then (e, next_call k1)
               else if q_observer q = None then (None, next_call k1)
               else let published = p_now (shd (k_io k));
                        mark = sourceReceiptFromSnapshotEnvelope env (Some published);
                        stable = n_Generation env @ '':'' @ n_Kind env @
                          (if n_Kind env = SnapshotKindBatch then '':'' @ n_BatchID env else '':complete'');
                        (e, k2) = observe \<lparr>ob_mark = Some mark,
                          ob_source = (s_ProjectID mark, s_ConnectorID mark, s_Table mark), ob_stable = stable,
                          ob_digest = (if n_Kind env = SnapshotKindBatch then n_PayloadSHA256 env
                                       else n_BatchManifestSHA256 env),
                          ob_published = published\<rparr> k1
                    in (e, next_call k2)))"

section \<open>Decoding\<close>

datatype connector_payload = Rows external_batch | Snapshot snapshot_envelope

definition snapshot_only_fields :: "string list" where
  "snapshot_only_fields = [''kind'', ''sync_id'', ''generation'', ''generation_seq'', ''batch_id'', ''batch_index'',
     ''expected_batches'', ''batch_manifest_sha256'', ''binding_digest'']"

definition decodeLegacyConnectorBatch :: "wire_lib \<Rightarrow> string \<Rightarrow> connector_payload option" where
  "decodeLegacyConnectorBatch wl raw =
     (case decode_batch wl raw of
        None \<Rightarrow> None
      | Some b \<Rightarrow>
          if eb_ProjectID b = '''' \<or> eb_ConnectorID b = '''' \<or> eb_Table b = '''' then None else Some (Rows b))"

definition decodeConnectorEnvelope :: "wire_lib \<Rightarrow> string \<Rightarrow> connector_payload option" where
  "decodeConnectorEnvelope wl raw =
     (case object_fields (wl_json wl) raw of
        None \<Rightarrow> None
      | Some obj \<Rightarrow>
          (case obj ''protocol'' of
             Some protocolRaw \<Rightarrow>
               if decode_string (wl_json wl) protocolRaw \<noteq> Some SnapshotProtocolV1 then None
               else (case ParseSnapshotEnvelope (wl_snap wl) (wl_json wl) raw of
                   Inl _ \<Rightarrow> None
                 | Inr env \<Rightarrow> Some (Snapshot env))
           | None \<Rightarrow>
               if list_ex (\<lambda>f. obj f \<noteq> None) snapshot_only_fields then None
               else decodeLegacyConnectorBatch wl raw))"


section \<open>The size estimate\<close>

lemma rune_size_le: "rune_size c \<le> 4" "1 \<le> rune_size c"
  by (simp_all add: rune_size_def Let_def)

lemma rune_width_le: "rune_width (c # cs) \<le> 4" "1 \<le> rune_width (c # cs)"
  using rune_size_le [of c] by (auto simp: rune_width_def Let_def)

lemma rune_width_ascii: "byte_of c < 0x80 \<Longrightarrow> rune_width (c # cs) = 1"
  by (simp add: rune_width_def rune_size_def Let_def)

lemma runes_shape:
  "r \<in> set (runes s) \<Longrightarrow> r \<noteq> [] \<and> length r \<le> 4 \<and> (byte_of (hd r) < 0x80 \<longrightarrow> length r = 1)"
proof (induction s rule: runes.induct)
  case (2 c cs)
  have "length (c # take (rune_width (c # cs) - 1) cs) \<le> 4"
    using rune_width_le [of c cs] by simp
  with 2 show ?case by (auto simp: Let_def rune_width_ascii)
qed simp

lemma rune_text_bound:
  assumes "r \<noteq> []" "length r \<le> 4" "byte_of (hd r) < 0x80 \<longrightarrow> length r = 1"
  shows "int (length (rune_text r)) \<le> rune_cost r"
proof (cases "safe_char (hd r)")
  case True
  then have "byte_of (hd r) < 0x80" by (simp add: safe_char_def)
  with True assms show ?thesis by (simp add: rune_text_def rune_cost_def)
next
  case False
  with assms show ?thesis
    by (auto simp: rune_text_def rune_cost_def u00_def u202_def split: option.split)
qed

lemma json_string_bound: "int (length (json_string s)) \<le> jsonStringBytes s"
proof -
  have "int (length (concat (map rune_text rs))) \<le> sum_list (map rune_cost rs)" if "set rs \<subseteq> set (runes s)" for rs
    using that
  proof (induction rs)
    case (Cons r rs)
    with rune_text_bound [of r] runes_shape [of r s] show ?case by fastforce
  qed simp
  from this [of "runes s"] show ?thesis by (simp add: json_string_def jsonStringBytes_def)
qed

text \<open>How many line separators the compaction of a raw message finds.\<close>

fun separators :: "string \<Rightarrow> nat" where
  "separators [] = 0"
| "separators (c # cs) = (if line_separator (c # cs) then Suc (separators (drop 2 cs)) else separators cs)"

lemma line_separator_Cons:
  "line_separator (c # cs) \<longleftrightarrow> c = CHR 0xE2 \<and> (\<exists>d cs'. cs = CHR 0x80 # d # cs' \<and> (d = CHR 0xA8 \<or> d = CHR 0xA9))"
proof (cases cs)
  case (Cons a cs1)
  then show ?thesis by (cases cs1) (auto simp: line_separator_def)
qed (simp add: line_separator_def)

lemma not_html_separator: "line_separator (c # cs) \<Longrightarrow> \<not> html_char c"
  by (simp add: line_separator_Cons html_char_def)

lemma rawJSONBytes_simps [simp]:
  "rawJSONBytes [] = 0" "rawJSONBytes (c # cs) = (if html_char c then 6 else 1) + rawJSONBytes cs"
  by (simp_all add: rawJSONBytes_def)

lemma compact_bound: "int (length (compact inside escaped raw)) \<le> rawJSONBytes raw + 3 * int (separators raw)"
proof (induction inside escaped raw rule: compact.induct)
  case (2 inside escaped c cs)
  show ?case
  proof (cases "line_separator (c # cs)")
    case True
    then obtain d cs' where cs: "c = CHR 0xE2" "cs = CHR 0x80 # d # cs'" by (auto simp: line_separator_Cons)
    have "\<not> html_char c" "\<not> html_char (CHR 0x80)" "\<not> html_char d"
      using True cs by (auto simp: line_separator_Cons html_char_def)
    with 2(2) [OF refl refl] True cs show ?thesis by (cases inside) (simp_all add: Let_def u202_def)
  next
    case False
    from 2(1) [OF refl refl] 2(3) [OF refl refl] 2(4) [OF refl refl] False show ?thesis
      by (cases "html_char c"; cases "\<not> inside \<and> json_blank c") (auto simp: Let_def u00_def)
  qed
qed simp

lemma row_text_bound:
  "int (length (row_text r)) + 1 \<le> wireBytes r + 3 * int (separators (er_Data r))"
  using json_string_bound [of "er_Key r"] json_string_bound [of "er_Cursor r"]
    compact_bound [of False False "er_Data r"]
  by (simp add: row_text_def quoted_def wireBytes_def wireFramingBytes_def)

lemma str_join_length: "length (str_join '','' ps) \<le> sum_list (map (\<lambda>p. length p + 1) ps)"
  by (induction ps rule: induct_list012) auto

abbreviation plain_batch :: "string \<times> string \<times> string \<Rightarrow> wire_row list \<Rightarrow> external_batch" where
  "plain_batch src chunk \<equiv> \<lparr>eb_ProjectID = fst src, eb_ConnectorID = fst (snd src), eb_Table = snd (snd src),
     eb_Rows = chunk, eb_Source = None\<rparr>"

lemma batch_text_bound:
  assumes "\<And>r. r \<in> set chunk \<Longrightarrow> separators (er_Data r) = 0"
  shows "int (length (batch_text wl (plain_batch src chunk)))
     \<le> int (length (batch_text wl (plain_batch src []))) + sum_list (map wireBytes chunk)"
proof -
  have "int (sum_list (map (\<lambda>p. length p + 1) (map row_text chunk))) \<le> sum_list (map wireBytes chunk)"
    using assms
  proof (induction chunk)
    case (Cons r chunk)
    with row_text_bound [of r] show ?case by fastforce
  qed simp
  with str_join_length [of "map row_text chunk"] show ?thesis
    by (simp add: batch_text_def rows_text_def)
qed

section \<open>Chunks\<close>

lemma chunk_loop_concat: "concat (chunk_loop m cur n rs) = cur @ map row_of_landed rs"
  by (induction m cur n rs rule: chunk_loop.induct) (auto simp: Let_def)

lemma chunk_loop_bound:
  assumes "n = sum_list (map wireBytes cur)" "length cur \<le> 1 \<or> n \<le> m" "chunk \<in> set (chunk_loop m cur n rs)"
  shows "chunk \<noteq> [] \<and> (length chunk = 1 \<or> sum_list (map wireBytes chunk) \<le> m)"
  using assms
proof (induction m cur n rs rule: chunk_loop.induct)
  case (1 m cur n)
  then show ?case by (cases cur) auto
next
  case (2 m cur n r rs)
  show ?case
  proof (cases "cur \<noteq> [] \<and> n + wireBytes (row_of_landed r) > m")
    case True
    then have "chunk = cur \<or> chunk \<in> set (chunk_loop m [row_of_landed r] (wireBytes (row_of_landed r)) rs)"
      using 2(5) by (simp add: Let_def)
    moreover have "length cur = 1 \<or> n \<le> m" using True 2(4) by (cases cur) auto
    ultimately show ?thesis using True 2(1,3) by (auto simp: Let_def)
  next
    case False
    then have c: "chunk \<in> set (chunk_loop m (cur @ [row_of_landed r]) (n + wireBytes (row_of_landed r)) rs)"
      using 2(5) by (auto simp: Let_def)
    show ?thesis
      by (rule 2(2) [OF refl refl False]) (use 2(3) False c in auto)
  qed
qed

lemma chunkRows_concat: "concat (chunkRows rows m) = map row_of_landed rows"
  by (simp add: chunkRows_def chunk_loop_concat)

lemma chunkRows_bound:
  "chunk \<in> set (chunkRows rows m) \<Longrightarrow> chunk \<noteq> [] \<and> (length chunk = 1 \<or> sum_list (map wireBytes chunk) \<le> m)"
  unfolding chunkRows_def by (rule chunk_loop_bound) auto

section \<open>What a publish leaves on the stream\<close>

lemma send_stream: "send p k = (e, k') \<Longrightarrow>
    k_stream k' = k_stream k @ (if e = None \<or> k_stream k' \<noteq> k_stream k then [p] else [])"
  by (auto simp: send_def split: publish_answer.splits)

lemma observe_stream: "observe ob k = (e, k') \<Longrightarrow> k_stream k' = k_stream k"
  by (auto simp: observe_def split: if_splits)

lemma publish_chunk_stream:
  assumes "publish_chunk wl q src chunk k = (e, k')"
  obtains (skipped) "e \<noteq> None" "k_stream k' = k_stream k"
  | (stored) body mid where "marshal_batch wl (plain_batch src chunk) = Some body"
      "\<not> (length chunk = 1 \<and> wireBytes (hd chunk) > publishBudget q)"
      "k_stream k' = k_stream k @ [\<lparr>pb_subject = q_connectorSubject q, pb_body = body, pb_id = mid\<rparr>]"
proof (cases "length chunk = 1 \<and> wireBytes (hd chunk) > publishBudget q")
  case True
  with assms skipped show thesis by (cases src) (auto simp: publish_chunk_def Let_def)
next
  case fits: False
  show thesis
  proof (cases "marshal_batch wl (plain_batch src chunk)")
    case None
    with assms fits skipped show thesis by (cases src) (auto simp: publish_chunk_def Let_def)
  next
    case (Some body)
    obtain p c t where src: "src = (p, c, t)" by (cases src)
    have "(\<exists>mid. k_stream k' = k_stream k @ [\<lparr>pb_subject = q_connectorSubject q, pb_body = body, pb_id = mid\<rparr>]) \<or>
        (e \<noteq> None \<and> k_stream k' = k_stream k)"
    proof (cases "q_js q")
      case False
      with assms fits Some src show ?thesis
        by (auto simp: publish_chunk_def Let_def send_def split: publish_answer.splits)
    next
      case True
      with assms fits Some src show ?thesis
        by (auto simp: publish_chunk_def Let_def send_def observe_def split: publish_answer.splits if_splits)
    qed
    with skipped stored [OF Some fits] show thesis by blast
  qed
qed

definition carries :: "wire_lib \<Rightarrow> event_queue \<Rightarrow> string \<times> string \<times> string \<Rightarrow> wire_row list \<Rightarrow> published \<Rightarrow> bool" where
  "carries wl q src chunk m \<longleftrightarrow> pb_subject m = q_connectorSubject q \<and>
     marshal_batch wl (plain_batch src chunk) = Some (pb_body m) \<and>
     \<not> (length chunk = 1 \<and> wireBytes (hd chunk) > publishBudget q)"

lemma publish_chunks_stream:
  assumes "publish_chunks wl q src cs k = (e, k')"
  shows "\<exists>n ms. n \<le> length cs \<and> (e = None \<longrightarrow> n = length cs) \<and> k_stream k' = k_stream k @ ms \<and>
    list_all2 (carries wl q src) (take n cs) ms"
  using assms
proof (induction cs arbitrary: k)
  case (Cons chunk rest)
  obtain e1 k1 where p: "publish_chunk wl q src chunk k = (e1, k1)" by (cases "publish_chunk wl q src chunk k")
  from p show ?case
  proof (cases rule: publish_chunk_stream)
    case skipped
    with Cons.prems p show ?thesis by (intro exI [of _ 0]) auto
  next
    case (stored body mid)
    let ?m = "\<lparr>pb_subject = q_connectorSubject q, pb_body = body, pb_id = mid\<rparr>"
    have c: "carries wl q src chunk ?m" using stored by (simp add: carries_def)
    show ?thesis
    proof (cases "e1 = None")
      case True
      with Cons.prems p have "publish_chunks wl q src rest k1 = (e, k')" by simp
      from Cons.IH [OF this] obtain n ms where "n \<le> length rest" "e = None \<longrightarrow> n = length rest"
        "k_stream k' = k_stream k1 @ ms" "list_all2 (carries wl q src) (take n rest) ms" by blast
      with stored(3) c show ?thesis by (intro exI [of _ "Suc n"] exI [of _ "?m # ms"]) auto
    next
      case False
      with Cons.prems p have "e = e1" "k' = k1" by auto
      with stored(3) c False show ?thesis by (intro exI [of _ 1] exI [of _ "[?m]"]) auto
    qed
  qed
qed simp

lemma PublishExternalRows_stream:
  assumes "PublishExternalRows wl q src rows k = (e, k')"
  obtains n ms where "n \<le> length (chunkRows rows (publishBudget q))"
    "e = None \<longrightarrow> n = length (chunkRows rows (publishBudget q))" "k_stream k' = k_stream k @ ms"
    "list_all2 (carries wl q src) (take n (chunkRows rows (publishBudget q))) ms"
proof (cases "rows = []")
  case True
  with assms have "chunkRows rows (publishBudget q) = []" "k' = k" "e = None"
    by (simp_all add: PublishExternalRows_def chunkRows_def)
  then show thesis by (intro that [of 0 "[]"]) simp_all
next
  case False
  with assms have "publish_chunks wl q src (chunkRows rows (publishBudget q)) k = (e, k')"
    by (simp add: PublishExternalRows_def)
  from publish_chunks_stream [OF this] that show thesis by blast
qed

section \<open>Properties\<close>

text \<open>What the worker lands of one message, and the row the engine's row becomes on the way: the
  encoder compacts the raw JSON of its body.\<close>

definition landed_of :: "wire_lib \<Rightarrow> published \<Rightarrow> landed_row list" where
  "landed_of wl m = (case decodeConnectorEnvelope wl (pb_body m) of Some (Rows b) \<Rightarrow> LandedRows b | _ \<Rightarrow> [])"

definition compacted :: "landed_row \<Rightarrow> landed_row" where
  "compacted r = r\<lparr>DataJSON := compact False False (DataJSON r)\<rparr>"

definition reread_batch :: "external_batch \<Rightarrow> external_batch" where
  "reread_batch b = b\<lparr>eb_Rows := map (\<lambda>r. r\<lparr>er_Data := compact False False (er_Data r)\<rparr>) (eb_Rows b)\<rparr>"

text \<open>The law of the decoder on one published chunk: it reads back the four fields the encoder wrote,
  with the raw bodies compacted.\<close>

definition decodes :: "wire_lib \<Rightarrow> string \<times> string \<times> string \<Rightarrow> wire_row list \<Rightarrow> bool" where
  "decodes wl src chunk \<longleftrightarrow>
     (case object_fields (wl_json wl) (batch_text wl (plain_batch src chunk)) of
        None \<Rightarrow> False
      | Some obj \<Rightarrow> dom obj = {''project_id'', ''connector_id'', ''table'', ''rows''}) \<and>
     decode_batch wl (batch_text wl (plain_batch src chunk)) = Some (reread_batch (plain_batch src chunk))"

lemma carried_lands:
  assumes "carries wl q src chunk m" "decodes wl src chunk" "fst src \<noteq> ''''" "fst (snd src) \<noteq> ''''"
    "snd (snd src) \<noteq> ''''"
  shows "decodeConnectorEnvelope wl (pb_body m) = Some (Rows (reread_batch (plain_batch src chunk)))"
proof -
  have b: "pb_body m = batch_text wl (plain_batch src chunk)"
    using assms(1) by (auto simp: carries_def marshal_batch_def split: if_splits)
  obtain obj where o: "object_fields (wl_json wl) (pb_body m) = Some obj"
    and d: "dom obj = {''project_id'', ''connector_id'', ''table'', ''rows''}"
    using assms(2) b by (auto simp: decodes_def split: option.splits)
  have "f \<notin> dom obj" if "f \<in> set (''protocol'' # snapshot_only_fields)" for f
    using that unfolding d by (auto simp: snapshot_only_fields_def)
  then have "obj ''protocol'' = None" "\<not> list_ex (\<lambda>f. obj f \<noteq> None) snapshot_only_fields"
    by (auto simp: list_ex_iff domIff)
  moreover have "decodeLegacyConnectorBatch wl (pb_body m) = Some (Rows (reread_batch (plain_batch src chunk)))"
    using assms(2-) b by (simp add: decodeLegacyConnectorBatch_def decodes_def reread_batch_def)
  ultimately show ?thesis using o by (simp add: decodeConnectorEnvelope_def)
qed

definition wit_queue :: event_queue where
  "wit_queue = \<lparr>q_js = True, q_maxPayload = Some 1048576, q_subject = ''events'', q_connectorSubject = ''rows'',
     q_observer = Some True\<rparr>"

definition wit_broker :: broker where
  "wit_broker = \<lparr>k_io = sconst \<lparr>p_admits = True, p_answer = Accepted, p_records = True, p_now = 9\<rparr>,
     k_stream = [], k_observed = []\<rparr>"

definition wit_src :: "string \<times> string \<times> string" where
  "wit_src = (''p'', ''c'', ''t'')"

definition wit_landed :: landed_row where
  "wit_landed = \<lparr>Key = ''k1'', Cursor = ''7'', DataJSON = ''[ 1 ]''\<rparr>"

definition wit_wl :: wire_lib where
  "wit_wl = \<lparr>json_valid = (\<lambda>_. True), receipt_text = (\<lambda>_. ''''),
     decode_batch = (\<lambda>_. Some (reread_batch (plain_batch wit_src [row_of_landed wit_landed]))),
     decode_events = (\<lambda>_. None), events_text = (\<lambda>_. None),
     wl_json = wit_json\<lparr>object_fields := (\<lambda>_. Some [''project_id'' \<mapsto> ''0'', ''connector_id'' \<mapsto> ''0'',
       ''table'' \<mapsto> ''0'', ''rows'' \<mapsto> ''0''])\<rparr>,
     wl_snap = wit_snap\<rparr>"

lemma wit_chunks: "chunkRows [wit_landed] b = [[row_of_landed wit_landed]]"
  by (simp add: chunkRows_def)

lemma wit_decodes: "decodes wit_wl wit_src [row_of_landed wit_landed]"
  by (auto simp: decodes_def wit_wl_def)

lemma wit_budget: "publishBudget wit_queue = 917504"
  by (simp add: publishBudget_def wit_queue_def)

lemma wit_bytes: "wireBytes (row_of_landed wit_landed) = 56"
  by (simp add: wireBytes_def jsonStringBytes_def rawJSONBytes_def wireFramingBytes_def row_of_landed_def
      wit_landed_def rune_width_def rune_size_def rune_cost_def safe_char_def html_char_def Let_def)

lemma wit_fields [simp]:
  "json_valid wit_wl raw" "wl_snap wit_wl = wit_snap" "q_js wit_queue" "q_observer wit_queue = Some True"
  "p_admits (shd (k_io wit_broker))" "p_answer (shd (k_io wit_broker)) = Accepted" "p_records (shd (k_io wit_broker))"
  "k_stream wit_broker = []" "q_maxPayload wit_queue = Some 1048576"
  by (simp_all add: wit_wl_def wit_queue_def wit_broker_def)

lemma wit_published:
  obtains k' where "PublishExternalRows wit_wl wit_queue wit_src [wit_landed] wit_broker = (None, k')"
proof -
  have "fst (PublishExternalRows wit_wl wit_queue wit_src [wit_landed] wit_broker) = None"
    by (simp add: PublishExternalRows_def wit_chunks publish_chunk_def wit_budget wit_bytes marshal_batch_def
        refused_admission_def send_def observe_def Let_def case_prod_unfold)
  then show thesis using that by (cases "PublishExternalRows wit_wl wit_queue wit_src [wit_landed] wit_broker") auto
qed

text \<open>C10: the rows that reach the stream are the rows that were pulled. Whatever the observer and the
  broker answer, the messages \<open>PublishExternalRows\<close> adds to the stream decode, in order, to a prefix
  of the pulled rows, whole chunks of them - each with its key, its cursor and its body compacted -
  under the source they were pulled for; when it reports success the prefix is all of them.\<close>

theorem published_rows_land:
  assumes pub: "PublishExternalRows wl q src rows k = (e, k')"
    and law: "\<And>chunk. chunk \<in> set (chunkRows rows (publishBudget q)) \<Longrightarrow> decodes wl src chunk"
    and ids: "fst src \<noteq> ''''" "fst (snd src) \<noteq> ''''" "snd (snd src) \<noteq> ''''"
  shows "\<exists>ms n. k_stream k' = k_stream k @ ms \<and>
    concat (map (landed_of wl) ms) = take n (map compacted rows) \<and> (e = None \<longrightarrow> n = length rows) \<and>
    list_all (\<lambda>m. pb_subject m = q_connectorSubject q \<and>
      (case decodeConnectorEnvelope wl (pb_body m) of
         Some (Rows b) \<Rightarrow> (eb_ProjectID b, eb_ConnectorID b, eb_Table b) = src \<and> eb_Source b = None
       | _ \<Rightarrow> False)) ms"
proof -
  let ?cs = "chunkRows rows (publishBudget q)"
  obtain n ms where n: "n \<le> length ?cs" "e = None \<longrightarrow> n = length ?cs" and ms: "k_stream k' = k_stream k @ ms"
    and c: "list_all2 (carries wl q src) (take n ?cs) ms"
    using pub by (rule PublishExternalRows_stream)
  have dec: "decodeConnectorEnvelope wl (pb_body m) = Some (Rows (reread_batch (plain_batch src chunk)))"
    if "carries wl q src chunk m" "chunk \<in> set ?cs" for chunk m
    using carried_lands [OF that(1) law [OF that(2)] ids] .
  have sub: "set (take n ?cs) \<subseteq> set ?cs" by (rule set_take_subset)
  let ?landed = "map (\<lambda>r. compacted \<lparr>Key = er_Key r, Cursor = er_Cursor r, DataJSON = er_Data r\<rparr>)"
  have "concat (map (landed_of wl) ms) = concat (map ?landed (take n ?cs))"
    using c sub
  proof (induction rule: list_all2_induct)
    case (Cons chunk cs m ms)
    with dec [of chunk m] show ?case
      by (simp add: landed_of_def LandedRows_def reread_batch_def compacted_def)
  qed simp
  also have "\<dots> = ?landed (concat (take n ?cs))" by (simp add: map_concat)
  also have "concat (take n ?cs) = take (length (concat (take n ?cs))) (concat ?cs)"
    by (metis append_take_drop_id append_eq_conv_conj concat_append)
  also have "?landed (take (length (concat (take n ?cs))) (concat ?cs))
      = take (length (concat (take n ?cs))) (map compacted rows)"
    unfolding chunkRows_concat by (simp add: take_map row_of_landed_def compacted_def)
  finally have "concat (map (landed_of wl) ms) = take (length (concat (take n ?cs))) (map compacted rows)" .
  moreover have "e = None \<longrightarrow> length (concat (take n ?cs)) = length rows"
    using n(2) chunkRows_concat [of rows "publishBudget q"] by (metis length_map take_all order_refl)
  moreover have "list_all (\<lambda>m. pb_subject m = q_connectorSubject q \<and>
      (case decodeConnectorEnvelope wl (pb_body m) of
         Some (Rows b) \<Rightarrow> (eb_ProjectID b, eb_ConnectorID b, eb_Table b) = src \<and> eb_Source b = None
       | _ \<Rightarrow> False)) ms"
    using c sub
  proof (induction rule: list_all2_induct)
    case (Cons chunk cs m ms)
    with dec [of chunk m] show ?case by (simp add: reread_batch_def carries_def)
  qed simp
  ultimately show ?thesis using ms by blast
qed

theorem published_rows_land_witness:
  "concat (map (landed_of wit_wl) (k_stream (snd (PublishExternalRows wit_wl wit_queue wit_src [wit_landed] wit_broker))))
     = [\<lparr>Key = ''k1'', Cursor = ''7'', DataJSON = ''[1]''\<rparr>]"
proof -
  obtain k' where p: "PublishExternalRows wit_wl wit_queue wit_src [wit_landed] wit_broker = (None, k')"
    by (rule wit_published)
  have "decodes wit_wl wit_src chunk" if "chunk \<in> set (chunkRows [wit_landed] (publishBudget wit_queue))" for chunk
    using that wit_decodes by (simp add: wit_chunks)
  from published_rows_land [OF p this]
  obtain ms n where "k_stream k' = k_stream wit_broker @ ms"
    "concat (map (landed_of wit_wl) ms) = take n (map compacted [wit_landed])" "n = length [wit_landed]"
    by (auto simp: wit_src_def)
  moreover have "compact False False ''[ 1 ]'' = ''[1]''"
    by (simp add: html_char_def line_separator_Cons json_blank_def Let_def)
  ultimately show ?thesis using p by (simp add: compacted_def wit_landed_def)
qed



text \<open>Without the last condition it fails: the encoder writes a raw line separator in six bytes, the
  estimate counts its three.\<close>

lemma separator_undercounted:
  "rawJSONBytes [CHR 0x22, CHR 0xE2, CHR 0x80, CHR 0xA8, CHR 0x22] = 5 \<and>
   length (compact False False [CHR 0x22, CHR 0xE2, CHR 0x80, CHR 0xA8, CHR 0x22]) = 8"
  by (simp add: html_char_def line_separator_Cons u202_def Let_def json_blank_def)

lemma SnapshotRows_append:
  "SnapshotRows lib (xs @ ys) = res_bind (SnapshotRows lib xs) (\<lambda>a. res_bind (SnapshotRows lib ys) (\<lambda>b. Inr (a @ b)))"
proof (induction xs)
  case Nil
  then show ?case by (cases "SnapshotRows lib ys") auto
next
  case (Cons x xs)
  then show ?case by (cases "SnapshotRows lib xs"; cases "SnapshotRows lib ys") (auto split: option.split)
qed

definition bare :: "wire_row \<Rightarrow> landed_row" where
  "bare r = \<lparr>Key = er_Key r, Cursor = '''', DataJSON = er_Data r\<rparr>"

lemma build_batches_rows:
  assumes "build_batches wl budget common start todo out = Inr out'"
    "SnapshotRows (wl_snap wl) done_rows = Inr (concat (map n_Rows out))"
    "map n_BatchIndex out = map (\<lambda>i. int64 (start + int i)) [0..<length out]"
    "list_all (\<lambda>env. n_BatchID env = batch_id (n_BatchIndex env) \<and>
       (\<exists>raw. MarshalSnapshotEnvelope (wl_snap wl) (wl_json wl) env = Inr raw \<and> int (length raw) \<le> budget)) out"
  shows "SnapshotRows (wl_snap wl) (done_rows @ map bare (concat todo)) = Inr (concat (map n_Rows out')) \<and>
    map n_BatchIndex out' = map (\<lambda>i. int64 (start + int i)) [0..<length out'] \<and>
    list_all (\<lambda>env. n_BatchID env = batch_id (n_BatchIndex env) \<and>
       (\<exists>raw. MarshalSnapshotEnvelope (wl_snap wl) (wl_json wl) env = Inr raw \<and> int (length raw) \<le> budget)) out'"
  using assms
proof (induction wl budget common start todo out arbitrary: done_rows rule: build_batches.induct)
  case (1 wl budget common start out)
  then show ?case by simp
next
  case (2 wl budget common start chunk rest out)
  let ?idx = "int64 (start + int (length out))"
  obtain env raw where b: "buildSnapshotBatch wl common chunk ?idx = Inr (env, raw)"
    using 2(3) by (auto simp: Let_def split: sum.splits)
  note r = buildSnapshotBatch_rows [OF b, folded bare_def]
  show ?case
  proof (cases "int (length raw) > budget")
    case True
    with 2(3) b have "length chunk \<noteq> 1" and
      e: "build_batches wl budget common start (take (length chunk div 2) chunk # drop (length chunk div 2) chunk # rest) out = Inr out'"
      by (auto simp: Let_def split: if_splits)
    from 2(1) [OF refl b refl True this(1) refl e 2(4-6)]
    show ?thesis by (simp add: append_assoc [symmetric] map_append [symmetric] del: append_assoc map_append)
  next
    case False
    with 2(3) b have e: "build_batches wl budget common start rest (out @ [env]) = Inr out'"
      by (simp add: Let_def)
    have "SnapshotRows (wl_snap wl) (done_rows @ map bare chunk) = Inr (concat (map n_Rows (out @ [env])))"
      using r(5) 2(4) by (simp add: SnapshotRows_append bare_def [abs_def])
    from 2(2) [OF refl b refl False e this] 2(5,6) r False show ?thesis by simp
  qed
qed

text \<open>C27: the batches of a snapshot are exactly its rows, and each fits a message. When
  \<open>BuildSnapshotBatches\<close> succeeds, the rows of its envelopes, put together, are the canonical rows of
  everything that was captured, in order; their indices count up from the one it was given; and the
  text of each, measured whole, is within the publish budget. The function is total: it returns or
  refuses for every input.\<close>

theorem snapshot_batches_fit:
  assumes "BuildSnapshotBatches wl q common rows startIndex = Inr out"
  shows "SnapshotRows (wl_snap wl) (map (\<lambda>r. r\<lparr>Cursor := ''''\<rparr>) rows) = Inr (concat (map n_Rows out)) \<and>
    map n_BatchIndex out = map (\<lambda>i. int64 (startIndex + int i)) [0..<length out] \<and>
    list_all (\<lambda>env. n_BatchID env = batch_id (n_BatchIndex env) \<and>
       (\<exists>raw. MarshalSnapshotEnvelope (wl_snap wl) (wl_json wl) env = Inr raw \<and>
          int (length raw) \<le> publishBudget q)) out"
proof -
  have "build_batches wl (publishBudget q) common startIndex (chunkRows rows (publishBudget q)) [] = Inr out"
    using assms by (auto simp: BuildSnapshotBatches_def split: if_splits)
  moreover have "bare (row_of_landed r) = r\<lparr>Cursor := ''''\<rparr>" for r
    by (simp add: bare_def row_of_landed_def)
  ultimately show ?thesis
    using build_batches_rows [of wl "publishBudget q" common startIndex "chunkRows rows (publishBudget q)" "[]" out "[]"]
    by (simp add: chunkRows_concat comp_def)
qed

definition wit_snapshot :: snapshot_envelope where
  "wit_snapshot = wit_envelope\<lparr>n_BatchID := batch_id 0\<rparr>"

lemma wit_built:
  "buildSnapshotBatch wit_wl wit_envelope [row_of_landed \<lparr>Key = ''k1'', Cursor = ''7'', DataJSON = ''d''\<rparr>] 0
     = Inr (wit_snapshot, ''{}'')"
proof -
  have "trim_space ''k1'' = ''k1''" by (rule trim_space_plain) (simp add: plain_def)
  then have d: "SnapshotPayloadDigest wit_snap [\<lparr>w_Key = ''k1'', w_Cursor = '''', w_Data = ''d''\<rparr>] = Inr wit_hash"
    by (simp add: SnapshotPayloadDigest_def CanonicalSnapshotRows_def wit_snap_def)
  have "Validate wit_snap wit_snapshot = None"
    using d by (simp add: Validate_def wit_snapshot_def wit_envelope_def batch_id_def SnapshotKindBatch_def zero_time_def)
  moreover have "SnapshotRows wit_snap [\<lparr>Key = ''k1'', Cursor = '''', DataJSON = ''d''\<rparr>]
      = Inr [\<lparr>w_Key = ''k1'', w_Cursor = '''', w_Data = ''d''\<rparr>]" by (simp add: wit_snap_def)
  ultimately show ?thesis using d
    by (simp add: buildSnapshotBatch_def row_of_landed_def wit_wl_def Let_def MarshalSnapshotEnvelope_def
        wit_json_def wit_snapshot_def wit_envelope_def)
qed

theorem snapshot_batches_fit_witness:
  "\<exists>out. BuildSnapshotBatches wit_wl wit_queue wit_envelope [\<lparr>Key = ''k1'', Cursor = ''7'', DataJSON = ''d''\<rparr>] 0 = Inr out \<and>
     map n_BatchIndex out = [0] \<and> concat (map n_Rows out) = [\<lparr>w_Key = ''k1'', w_Cursor = '''', w_Data = ''d''\<rparr>]"
proof -
  let ?rows = "[\<lparr>Key = ''k1'', Cursor = ''7'', DataJSON = ''d''\<rparr>] :: landed_row list"
  have "int64 0 = 0" by (simp add: int64_def)
  with wit_built have b: "BuildSnapshotBatches wit_wl wit_queue wit_envelope ?rows 0 = Inr [wit_snapshot]"
    by (simp add: BuildSnapshotBatches_def chunkRows_def wit_budget Let_def)
  from snapshot_batches_fit [OF b] \<open>int64 0 = 0\<close> b show ?thesis by (simp add: wit_snap_def)
qed

end
