(* ===== verification/Settler.thy ===== *)
theory Settler
  imports Wire
begin

text \<open>
  The settlement of a connector message (\<open>externalRowsSettler\<close> in
  \<open>internal/dataplane/ingest/queue.go\<close>): decode, apply to the store with a few attempts, and
  acknowledge, ask for redelivery, or dead-letter. As in the batcher the settler's function
  fields act on a world \<open>'w\<close>; the locale states what it relies on, and proves that a call settles
  its message exactly once, never ahead of the store, and never terminates a message whose body
  is not on the dead-letter queue.
\<close>

section \<open>The settler\<close>

record 'w settler =
  t_insert :: "string \<times> string \<times> string \<Rightarrow> landed_row list \<Rightarrow> applied_mark \<Rightarrow> 'w call"
  t_snapshot :: "(snapshot_envelope \<Rightarrow> applied_mark \<Rightarrow> 'w call) option"
  t_record :: "applied_mark \<Rightarrow> 'w call"
  t_deadLetter :: "(string \<Rightarrow> 'w call) option"
  t_deadLetterWithReceipt :: "(delivery_mark \<Rightarrow> string \<Rightarrow> 'w call) option"
  t_recordHole :: "(delivery_mark \<Rightarrow> source_mark option \<Rightarrow> 'w call) option"
  t_maxDeliver :: int
  t_durable :: string
  t_nakDelay :: duration

definition connectorInsertAttempts :: nat where "connectorInsertAttempts = 3"
definition connectorNakDelay :: duration where "connectorNakDelay = 5 * second"

definition settlement_mark :: "string \<Rightarrow> u64 \<Rightarrow> delivery_mark list \<Rightarrow> source_mark option \<Rightarrow> applied_mark" where
  "settlement_mark durable seq ds source = \<lparr>m_Durable = durable, m_Seq = seq, m_Deliveries = ds, m_Source = source,
     m_SettlementOnly = False, m_suppressSourceMutation = False\<rparr>"

definition recordSettledAt :: "(applied_mark \<Rightarrow> 'w call) \<Rightarrow> string \<Rightarrow> u64 \<Rightarrow> 'w call" where
  "recordSettledAt record_position durable seq w =
     (if durable = '''' then (None, w) else record_position (settlement_mark durable seq [] None) w)"

definition nak_rows :: "'w settler \<Rightarrow> 'w msg \<Rightarrow> 'w \<Rightarrow> 'w" where
  "nak_rows s m w = msg_nak m (if t_nakDelay s \<le> 0 then connectorNakDelay else t_nakDelay s) w"

definition publish_letter :: "'w settler \<Rightarrow> delivery_mark \<Rightarrow> string \<Rightarrow> 'w call" where
  "publish_letter s d body =
     (case t_deadLetterWithReceipt s of
        Some f \<Rightarrow> f d body
      | None \<Rightarrow> (case t_deadLetter s of Some f \<Rightarrow> f body | None \<Rightarrow> (\<lambda>w. (Some Closed, w))))"

definition has_letters :: "'w settler \<Rightarrow> bool" where
  "has_letters s \<longleftrightarrow> t_deadLetter s \<noteq> None \<or> t_deadLetterWithReceipt s \<noteq> None"

text \<open>Leaving over the dead-letter queue: the position is recorded, then the body published, then the
  hole recorded, and only then is the message terminated; any failure asks for redelivery.\<close>

definition leave_by_letter ::
  "'w call \<Rightarrow> 'w call \<Rightarrow> 'w call \<Rightarrow> ('w \<Rightarrow> 'w) \<Rightarrow> 'w msg \<Rightarrow> 'w \<Rightarrow> 'w" where
  "leave_by_letter settled letter hole nak m w =
     (let (e1, w1) = settled w
      in if e1 \<noteq> None then nak w1
         else let (e2, w2) = letter w1
         in if e2 \<noteq> None then nak w2
         else let (e3, w3) = hole w2
         in if e3 \<noteq> None then nak w3 else msg_term m w3)"

definition hole_call :: "'w settler \<Rightarrow> delivery_mark \<Rightarrow> source_mark option \<Rightarrow> 'w call" where
  "hole_call s d source = (case t_recordHole s of None \<Rightarrow> (\<lambda>w. (None, w)) | Some f \<Rightarrow> f d source)"

definition poison_rows :: "'w settler \<Rightarrow> 'w msg \<Rightarrow> 'w \<Rightarrow> 'w" where
  "poison_rows s m w =
     (if \<not> has_letters s then nak_rows s m w
      else leave_by_letter (recordSettledAt (t_record s) (t_durable s) (msg_seq m))
             (publish_letter s (msg_delivery m) (msg_body m)) (hole_call s (msg_delivery m) None)
             (nak_rows s m) m w)"

text \<open>The receipt a payload settles under, and the delivery it is attributed to.\<close>

definition payload_source :: "connector_payload \<Rightarrow> delivery_mark \<Rightarrow> source_mark option" where
  "payload_source p d =
     (case p of
        Snapshot env \<Rightarrow> Some (sourceReceiptFromSnapshotEnvelope env (d_PublishedAt d))
      | Rows b \<Rightarrow> (case eb_Source b of
            None \<Rightarrow> None
          | Some src \<Rightarrow> Some (src\<lparr>s_Promoted := True,
              s_PublishedAt := (case s_PublishedAt src of None \<Rightarrow> d_PublishedAt d | Some t \<Rightarrow> Some t)\<rparr>)))"

definition payload_delivery :: "connector_payload \<Rightarrow> delivery_mark \<Rightarrow> delivery_mark" where
  "payload_delivery p d =
     (case p of
        Snapshot env \<Rightarrow> d\<lparr>d_ProjectID := n_ProjectID env, d_ConnectorID := n_ConnectorID env, d_Table := n_Table env\<rparr>
      | Rows b \<Rightarrow> d\<lparr>d_ProjectID := eb_ProjectID b, d_ConnectorID := eb_ConnectorID b, d_Table := eb_Table b\<rparr>)"

text \<open>One attempt to apply a payload.\<close>

definition apply_payload :: "'w settler \<Rightarrow> connector_payload \<Rightarrow> 'w msg \<Rightarrow> 'w call" where
  "apply_payload s p m =
     (let d = payload_delivery p (msg_delivery m) in
      case p of
        Snapshot env \<Rightarrow>
          (case t_snapshot s of
             None \<Rightarrow> (\<lambda>w. (Some Closed, w))
           | Some f \<Rightarrow> f env (settlement_mark (t_durable s) (msg_seq m) [d] None))
      | Rows b \<Rightarrow> t_insert s (eb_ProjectID b, eb_ConnectorID b, eb_Table b) (LandedRows b)
          (settlement_mark (t_durable s) (msg_seq m) [d] (payload_source p (msg_delivery m))))"

definition settle :: "wire_lib \<Rightarrow> 'w settler \<Rightarrow> 'w msg \<Rightarrow> 'w \<Rightarrow> 'w" where
  "settle wl s m w =
     (case decodeConnectorEnvelope wl (msg_body m) of
        None \<Rightarrow> poison_rows s m w
      | Some p \<Rightarrow>
          let (err, w1) = attempts (apply_payload s p m) connectorInsertAttempts None w
          in (case err of
                None \<Rightarrow> msg_ack m w1
              | Some cause \<Rightarrow>
                  if cause = DataCapacity then nak_rows s m w1
                  else if msg_deliveries m \<ge> word_of_int (t_maxDeliver s) \<and> has_letters s
                  then leave_by_letter (recordSettledAt (t_record s) (t_durable s) (msg_seq m))
                         (publish_letter s (payload_delivery p (msg_delivery m)) (msg_body m))
                         (hole_call s (payload_delivery p (msg_delivery m)) (payload_source p (msg_delivery m)))
                         (nak_rows s m) m w1
                  else nak_rows s m w1))"

section \<open>What the settler relies on\<close>

context lettering
begin

definition keeps :: "'w \<Rightarrow> 'w \<Rightarrow> bool" where
  "keeps w w' \<longleftrightarrow> steady w w' \<and> letters w \<subseteq> letters w'"

definition settled_well :: "'w msg \<Rightarrow> 'w \<Rightarrow> 'w \<Rightarrow> bool" where
  "settled_well m w w' \<longleftrightarrow> settles m w w' \<and> (lettered w \<longrightarrow> lettered w')"

lemma keeps_refl [simp]: "keeps w w"
  by (simp add: keeps_def)

lemma keeps_trans: "keeps w w' \<Longrightarrow> keeps w' w'' \<Longrightarrow> keeps w w''"
  unfolding keeps_def using steady_trans by blast

lemma keeps_lettered: "keeps w w' \<Longrightarrow> lettered w \<Longrightarrow> lettered w'"
  unfolding keeps_def using steady_lettered by blast

lemma nak_well: "handle m \<Longrightarrow> keeps w w' \<Longrightarrow> settled_well m w (msg_nak m t w')"
  unfolding settled_well_def using nak_settles settle_lettered(2) keeps_lettered by (auto simp: keeps_def)

lemma ack_well: "handle m \<Longrightarrow> keeps w w' \<Longrightarrow> covers m w' \<Longrightarrow> settled_well m w (msg_ack m w')"
  unfolding settled_well_def using ack_settles settle_lettered(1) keeps_lettered by (auto simp: keeps_def)

lemma term_well:
  "handle m \<Longrightarrow> keeps w w' \<Longrightarrow> covers m w' \<Longrightarrow> msg_body m \<in> letters w' \<Longrightarrow> settled_well m w (msg_term m w')"
  unfolding settled_well_def using term_settles settle_lettered(3) keeps_lettered by (auto simp: keeps_def)

lemma attempts_keeps:
  assumes "\<And>w e w'. f w = (e, w') \<Longrightarrow> keeps w w'"
  shows "attempts f n err w = (e, w') \<Longrightarrow> keeps w w'"
proof (induction n arbitrary: err w)
  case (Suc n)
  obtain e1 w1 where s: "f w = (e1, w1)" by (cases "f w")
  with Suc assms [OF s] show ?case by (auto split: if_splits intro: keeps_trans)
qed simp

lemma leave_well:
  assumes m: "handle m" and w: "keeps w0 w"
    and settled: "\<And>w e w'. settled w = (e, w') \<Longrightarrow> keeps w w' \<and> (e = None \<longrightarrow> covers m w')"
    and letter: "\<And>w e w'. letter w = (e, w') \<Longrightarrow> keeps w w' \<and> (e = None \<longrightarrow> msg_body m \<in> letters w')"
    and hole: "\<And>w e w'. hole w = (e, w') \<Longrightarrow> keeps w w'"
    and nak: "\<And>w. \<exists>t. nak w = msg_nak m t w"
  shows "settled_well m w0 (leave_by_letter settled letter hole nak m w)"
proof -
  obtain e1 w1 where 1: "settled w = (e1, w1)" by (cases "settled w")
  obtain e2 w2 where 2: "letter w1 = (e2, w2)" by (cases "letter w1")
  obtain e3 w3 where 3: "hole w2 = (e3, w3)" by (cases "hole w2")
  note k1 = keeps_trans [OF w conjunct1 [OF settled [OF 1]]]
  note k2 = keeps_trans [OF k1 conjunct1 [OF letter [OF 2]]]
  note k3 = keeps_trans [OF k2 hole [OF 3]]
  have n: "settled_well m w0 (nak w')" if "keeps w0 w'" for w'
    using nak [of w'] nak_well [OF m that] by auto
  have "keeps w1 w3" using letter [OF 2] hole [OF 3] keeps_trans by blast
  then have "e1 = None \<Longrightarrow> covers m w3" using settled [OF 1] covers_steady by (auto simp: keeps_def)
  moreover have "e2 = None \<Longrightarrow> msg_body m \<in> letters w3" using letter [OF 2] hole [OF 3] by (auto simp: keeps_def)
  ultimately show ?thesis using n [OF k1] n [OF k2] n [OF k3] term_well [OF m k3]
    by (simp add: leave_by_letter_def 1 2 3)
qed

end

text \<open>The settler's contract: every call keeps the broker and the dead-letter queue, a successful
  write or record covers its mark, and a published body is on the queue.\<close>

locale row_settling = lettering "t_durable s" applied log handle letters
  for s :: "'w settler" and applied :: "'w \<Rightarrow> u64" and log :: "'w \<Rightarrow> settlement list"
    and handle :: "'w msg \<Rightarrow> bool" and letters :: "'w \<Rightarrow> string set" +
  assumes insert_keeps: "t_insert s src rows mark w = (e, w') \<Longrightarrow> keeps w w'"
    and insert_covers: "t_insert s src rows mark w = (None, w') \<Longrightarrow> m_Durable mark = t_durable s \<Longrightarrow>
      t_durable s \<noteq> '''' \<Longrightarrow> m_Seq mark \<le> applied w'"
    and snapshot_keeps: "t_snapshot s = Some f \<Longrightarrow> f env mark w = (e, w') \<Longrightarrow> keeps w w'"
    and snapshot_covers: "t_snapshot s = Some f \<Longrightarrow> f env mark w = (None, w') \<Longrightarrow> m_Durable mark = t_durable s \<Longrightarrow>
      t_durable s \<noteq> '''' \<Longrightarrow> m_Seq mark \<le> applied w'"
    and record_keeps: "t_record s mark w = (e, w') \<Longrightarrow> keeps w w'"
    and record_covers: "t_record s mark w = (None, w') \<Longrightarrow> m_Durable mark = t_durable s \<Longrightarrow>
      t_durable s \<noteq> '''' \<Longrightarrow> m_Seq mark \<le> applied w'"
    and letter_keeps: "t_deadLetter s = Some g \<Longrightarrow> g body w = (e, w') \<Longrightarrow>
      keeps w w' \<and> (e = None \<longrightarrow> body \<in> letters w')"
    and receipt_keeps: "t_deadLetterWithReceipt s = Some h \<Longrightarrow> h d body w = (e, w') \<Longrightarrow>
      keeps w w' \<and> (e = None \<longrightarrow> body \<in> letters w')"
    and hole_keeps: "t_recordHole s = Some k \<Longrightarrow> k d source w = (e, w') \<Longrightarrow> keeps w w'"
begin

lemma recorded: "recordSettledAt (t_record s) (t_durable s) (msg_seq m) w = (e, w') \<Longrightarrow>
    keeps w w' \<and> (e = None \<longrightarrow> covers m w')"
  using record_keeps record_covers [of "settlement_mark (t_durable s) (msg_seq m) [] None"]
  by (auto simp: recordSettledAt_def settlement_mark_def covers_def split: if_splits)

lemma published: "publish_letter s d body w = (e, w') \<Longrightarrow> keeps w w' \<and> (e = None \<longrightarrow> body \<in> letters w')"
  using letter_keeps receipt_keeps by (auto simp: publish_letter_def split: option.splits)

lemma holed: "hole_call s d source w = (e, w') \<Longrightarrow> keeps w w'"
  using hole_keeps by (auto simp: hole_call_def split: option.splits)

lemma naked: "\<exists>t. nak_rows s m w = msg_nak m t w"
  by (auto simp: nak_rows_def)

lemmas leaves = leave_well [OF _ _ recorded published holed naked]

lemma apply_keeps: "apply_payload s p m w = (e, w') \<Longrightarrow> keeps w w'"
  using insert_keeps snapshot_keeps
  by (auto simp: apply_payload_def Let_def split: connector_payload.splits option.splits)

lemma apply_covers: "apply_payload s p m w = (None, w') \<Longrightarrow> covers m w'"
  using insert_covers snapshot_covers
  by (fastforce simp: apply_payload_def Let_def settlement_mark_def covers_def
      split: connector_payload.splits option.splits)

lemma poison_well: "handle m \<Longrightarrow> settled_well m w (poison_rows s m w)"
  using leaves [OF _ keeps_refl] nak_well [OF _ keeps_refl] naked [of m w]
  by (auto simp: poison_rows_def)

lemma settle_well:
  assumes m: "handle m"
  shows "settled_well m w (settle wl s m w)"
proof (cases "decodeConnectorEnvelope wl (msg_body m)")
  case None
  with poison_well [OF m] show ?thesis by (simp add: settle_def)
next
  case (Some p)
  obtain e w1 where a: "attempts (apply_payload s p m) connectorInsertAttempts None w = (e, w1)" by fastforce
  have k: "keeps w w1" using attempts_keeps [OF apply_keeps a] .
  have c: "e = None \<Longrightarrow> covers m w1"
    using attempts_covers [of "apply_payload s p m" "covers m", OF apply_covers] a
    by (simp add: connectorInsertAttempts_def)
  have "settled_well m w (nak_rows s m w1)" using nak_well [OF m k] naked [of m w1] by auto
  with leaves [OF m k] ack_well [OF m k] c a Some show ?thesis by (auto simp: settle_def split: option.splits)
qed

end

end
