(* ===== verification/Worker.thy ===== *)
theory Worker
  imports Settler Replay
begin

text \<open>
  The durable worker (\<open>StartJetStreamWorker\<close>, \<open>jsMsgHandle\<close> and \<open>EventWorker.Stop\<close> in
  \<open>internal/dataplane/ingest/queue.go\<close>): what a message says of its delivery, the dead-letter
  headers that carry that identity, the boot that binds the store before anything is consumed,
  and the run of the worker, as steps over the broker, the batcher's queue and the store. The
  contracts of the batcher and of the settler are interpreted here, on the DuckDB store with its
  snapshot tables.
\<close>

section \<open>The identity of a delivery\<close>

record metadata =
  md_Stream :: string
  md_StreamSeq :: u64
  md_ConsumerSeq :: u64
  md_NumDelivered :: u64
  md_Timestamp :: time

type_synonym headers = "(string \<times> string) list"

record js_message =
  jm_subject :: string
  jm_data :: string
  jm_headers :: headers
  jm_metadata :: "metadata option"

text \<open>RFC 3339 with nanoseconds is a parameter; parsing may fail.\<close>

record time_lib =
  format_nano :: "time \<Rightarrow> string"
  parse_nano :: "string \<Rightarrow> time option"

definition OriginSubjectHeader :: string where "OriginSubjectHeader = ''AgentRay-Origin-Subject''"
definition OriginStreamHeader :: string where "OriginStreamHeader = ''AgentRay-Origin-Stream''"
definition OriginStreamSeqHeader :: string where "OriginStreamSeqHeader = ''AgentRay-Origin-Stream-Sequence''"
definition OriginDigestHeader :: string where "OriginDigestHeader = ''AgentRay-Origin-Payload-SHA256''"
definition OriginPublishedAtHeader :: string where "OriginPublishedAtHeader = ''AgentRay-Origin-Published-At''"
definition OriginUnverifiableHeader :: string where "OriginUnverifiableHeader = ''AgentRay-Origin-Unverifiable''"
definition LegacyDLQHeader :: string where "LegacyDLQHeader = ''AgentRay-Legacy-DLQ''"

lemmas header_names = OriginSubjectHeader_def OriginStreamHeader_def OriginStreamSeqHeader_def
  OriginDigestHeader_def OriginPublishedAtHeader_def OriginUnverifiableHeader_def LegacyDLQHeader_def

definition header_get :: "headers \<Rightarrow> string \<Rightarrow> string" where
  "header_get hs k = (case map_of hs k of None \<Rightarrow> '''' | Some v \<Rightarrow> v)"

text \<open>\<open>strconv.ParseUint(s, 10, 64)\<close>.\<close>

definition parse_uint :: "string \<Rightarrow> u64 option" where
  "parse_uint s =
     (if s = '''' then None
      else (case digits_val 0 s of None \<Rightarrow> None | Some n \<Rightarrow> if n < 2 ^ 64 then Some (word_of_nat n) else None))"

definition timePtr :: "time \<Rightarrow> time option" where
  "timePtr t = (if t = zero_time then None else Some t)"

definition streamIncarnation :: "time_lib \<Rightarrow> string \<Rightarrow> time \<Rightarrow> string" where
  "streamIncarnation tf stream created = (if created = zero_time then stream else stream @ ''@'' @ format_nano tf created)"

definition replay_seq :: "js_message \<Rightarrow> u64 option" where
  "replay_seq msg =
     (case parse_uint (header_get (jm_headers msg) OriginStreamSeqHeader) of
        Some seq \<Rightarrow> if seq > 0 then Some seq else None
      | None \<Rightarrow> None)"

definition bare_delivery :: "string \<Rightarrow> string \<Rightarrow> delivery_mark" where
  "bare_delivery subject digest = \<lparr>d_StreamID = '''', d_Subject = subject, d_StreamSeq = 0, d_PayloadSHA256 = digest,
     d_PublishedAt = None, d_ProjectID = '''', d_ConnectorID = '''', d_Table = '''', d_Replayed = False,
     d_Unverifiable = False\<rparr>"

definition delivery :: "snap_lib \<Rightarrow> time_lib \<Rightarrow> string \<Rightarrow> js_message \<Rightarrow> delivery_mark" where
  "delivery sl tf streamID msg =
     (let digest = sha256_hex sl (jm_data msg); get = header_get (jm_headers msg) in
      case replay_seq msg of
        Some seq \<Rightarrow>
          let published = (case parse_nano tf (get OriginPublishedAtHeader) of None \<Rightarrow> zero_time | Some t \<Rightarrow> t);
              original = trim_space (get OriginDigestHeader)
          in (bare_delivery (get OriginSubjectHeader) (if original \<noteq> '''' then original else digest))
               \<lparr>d_StreamID := get OriginStreamHeader, d_StreamSeq := seq, d_PublishedAt := timePtr published,
                d_Replayed := True, d_Unverifiable := (get OriginUnverifiableHeader = ''true'')\<rparr>
      | None \<Rightarrow>
          (case jm_metadata msg of
             None \<Rightarrow> bare_delivery (jm_subject msg) digest
           | Some md \<Rightarrow>
               let legacy = (get LegacyDLQHeader = ''true'')
               in (bare_delivery (jm_subject msg) digest)
                    \<lparr>d_StreamID := (if streamID = '''' then md_Stream md else streamID),
                     d_StreamSeq := md_StreamSeq md, d_PublishedAt := Some (md_Timestamp md),
                     d_Replayed := legacy, d_Unverifiable := legacy\<rparr>))"

definition deliveries :: "js_message \<Rightarrow> u64" where
  "deliveries msg = (case jm_metadata msg of None \<Rightarrow> 0 | Some md \<Rightarrow> md_NumDelivered md)"

definition seq :: "js_message \<Rightarrow> u64" where
  "seq msg = (case jm_metadata msg of None \<Rightarrow> 0 | Some md \<Rightarrow> md_ConsumerSeq md)"

text \<open>The headers a dead-lettered body leaves with.\<close>

definition dlq_headers :: "time_lib \<Rightarrow> string \<Rightarrow> delivery_mark \<Rightarrow> headers" where
  "dlq_headers tf origin d =
     (OriginSubjectHeader, origin) #
     (if d_StreamSeq d = 0 then []
      else [(OriginStreamHeader, d_StreamID d), (OriginStreamSeqHeader, show_nat (unat (d_StreamSeq d))),
            (OriginDigestHeader, d_PayloadSHA256 d)] @
           (case d_PublishedAt d of None \<Rightarrow> [] | Some t \<Rightarrow> [(OriginPublishedAtHeader, format_nano tf t)]) @
           (if d_Unverifiable d then [(OriginUnverifiableHeader, ''true'')] else []))"

section \<open>The world of the durable worker\<close>

text \<open>The store, the broker's record of settlements and the dead-letter stream. Each effectful call
  takes its outcome from a stream of readings: whether the store commits, what the disk probe
  says, the clock, whether a publish to the dead-letter stream is accepted, and what a snapshot
  transaction meets.\<close>

record io =
  io_up :: bool
  io_disk :: "disk_reserve option"
  io_now :: time
  io_dlq :: bool
  io_snap :: snap_io

record letter =
  l_headers :: headers
  l_body :: string

record world =
  w_db :: serving_db
  w_io :: "io stream"
  w_log :: "settlement list"
  w_dlq :: "letter list"

definition next_io :: "world \<Rightarrow> io \<times> world" where
  "next_io w = (shd (w_io w), w\<lparr>w_io := stl (w_io w)\<rparr>)"

definition on_store :: "(io \<Rightarrow> serving_db \<Rightarrow> store_error option \<times> serving_db) \<Rightarrow> world call" where
  "on_store f w = (let (io, w1) = next_io w; (e, db) = f io (w_db w1) in (e, w1\<lparr>w_db := db\<rparr>))"

definition on_db :: "(io \<Rightarrow> ingest_db \<Rightarrow> store_error option \<times> ingest_db) \<Rightarrow> world call" where
  "on_db f = on_store (\<lambda>io db. let (e, i) = f io (v_ingest db) in (e, db\<lparr>v_ingest := i\<rparr>))"

definition dlqPublish :: "time_lib \<Rightarrow> string \<Rightarrow> delivery_mark \<Rightarrow> string \<Rightarrow> world call" where
  "dlqPublish tf origin d body w =
     (let (io, w1) = next_io w
      in if io_dlq io then (None, w1\<lparr>w_dlq := w_dlq w1 @ [\<lparr>l_headers = dlq_headers tf origin d, l_body = body\<rparr>]\<rparr>)
         else (Some Closed, w1))"

text \<open>What a worker is given: the parameters of the model and its configuration.\<close>

record wiring =
  u_lib :: db_lib
  u_plib :: person_lib
  u_wire :: wire_lib
  u_time :: time_lib
  u_subject :: string
  u_connectorSubject :: string
  u_maxDeliver :: int
  u_durable :: string

definition record_position :: "wiring \<Rightarrow> applied_mark \<Rightarrow> world call" where
  "record_position u mark = on_db (\<lambda>io. on_journal (RecordPosition (u_lib u) (io_up io) mark (io_now io)))"

definition record_hole :: "wiring \<Rightarrow> delivery_mark \<Rightarrow> source_mark option \<Rightarrow> world call" where
  "record_hole u d s = on_db (\<lambda>io. on_journal (RecordReadinessHole (u_lib u) (io_up io) d s))"

definition worker_batcher :: "wiring \<Rightarrow> world batcher" where
  "worker_batcher u =
     NewEventBatcher
       \<lparr>b_sink = (\<lambda>es mark. on_db (\<lambda>io. SinkEvents (u_lib u) (u_plib u) (io_disk io) (io_up io) (io_now io) es mark)),
        b_deadLetter = None, b_deadLetterWithReceipt = Some (dlqPublish (u_time u) (u_subject u)),
        b_maxBatch = 0, b_flushEvery = 0, b_insertTO = 0, b_maxRetries = 0, b_maxDeliver = u_maxDeliver u,
        b_nakDelay = 0, b_durable = u_durable u, b_record = Some (record_position u),
        b_recordHole = Some (record_hole u)\<rparr>"

definition worker_settler :: "wiring \<Rightarrow> world settler" where
  "worker_settler u =
     \<lparr>t_insert = (\<lambda>(p, c, t) rows mark. on_db (\<lambda>io. InsertExternalRows (u_lib u) (io_disk io) (io_up io) (io_now io) p c t rows mark)),
      t_snapshot = Some (\<lambda>env mark. on_store (\<lambda>io db.
        let ((e, _), db') = ApplySnapshotEnvelope (u_lib u) (wl_snap (u_wire u)) (io_snap io) env mark db in (e, db'))),
      t_record = record_position u, t_deadLetter = None,
      t_deadLetterWithReceipt = Some (dlqPublish (u_time u) (u_connectorSubject u)),
      t_recordHole = Some (record_hole u), t_maxDeliver = u_maxDeliver u, t_durable = u_durable u,
      t_nakDelay = connectorNakDelay\<rparr>"

definition js_msg :: "u64 \<Rightarrow> u64 \<Rightarrow> string \<Rightarrow> delivery_mark \<Rightarrow> world msg" where
  "js_msg q n body d =
     \<lparr>msg_deliveries = n, msg_body = body, msg_seq = q, msg_delivery = d,
      msg_ack = (\<lambda>w. w\<lparr>w_log := w_log w @ [Acked q body]\<rparr>),
      msg_nak = (\<lambda>_ w. w\<lparr>w_log := w_log w @ [Naked q body]\<rparr>),
      msg_term = (\<lambda>w. w\<lparr>w_log := w_log w @ [Termed q body]\<rparr>)\<rparr>"

definition jsMsgHandle :: "wiring \<Rightarrow> string \<Rightarrow> js_message \<Rightarrow> world msg" where
  "jsMsgHandle u streamID msg =
     js_msg (seq msg) (deliveries msg) (jm_data msg) (delivery (wl_snap (u_wire u)) (u_time u) streamID msg)"

text \<open>The consumer's callback: a connector message is settled at once, an undecodable event batch
  leaves over the dead-letter stream, and the rest goes to the batcher, which may queue it.\<close>

definition undecodable :: "wiring \<Rightarrow> string \<Rightarrow> js_message \<Rightarrow> world \<Rightarrow> world" where
  "undecodable u streamID msg w =
     (let m = jsMsgHandle u streamID msg
      in leave_by_letter (recordSettledAt (record_position u) (u_durable u) (msg_seq m))
           (dlqPublish (u_time u) (u_subject u) (msg_delivery m) (msg_body m))
           (record_hole u (msg_delivery m) None) (msg_nak m (5 * second)) m w)"

definition consume :: "wiring \<Rightarrow> string \<Rightarrow> js_message \<Rightarrow> world \<Rightarrow> world \<times> world queued option" where
  "consume u streamID msg w =
     (if jm_subject msg = u_connectorSubject u
      then (settle (u_wire u) (worker_settler u) (jsMsgHandle u streamID msg) w, None)
      else (case decode_events (u_wire u) (jm_data msg) of
          None \<Rightarrow> (undecodable u streamID msg w, None)
        | Some events \<Rightarrow> AddMsg (u_lib u) (worker_batcher u) events (Some (jsMsgHandle u streamID msg)) w))"


section \<open>Starting\<close>

text \<open>The boot samples the broker before anything is consumed, binds the store, latches what the
  stream lost, and leaves a hole in the readiness journal for a latched loss. Every failure ends
  the boot.\<close>

datatype start_error =
    ConsumerRefused | SampleUnreadable sample_error | Unbound bind_error | LossUnrecorded store_error
  | ConsumeRefused

record boot_io =
  bo_consumer :: bool
  bo_readc :: "nat \<Rightarrow> consumer_info option"
  bo_reads :: "nat \<Rightarrow> stream_info option"
  bo_bind :: bind_io
  bo_has_ingest :: bool
  bo_written :: bool
  bo_stream :: string
  bo_created :: time
  bo_consume :: bool

record boot =
  bt_set :: stream_set
  bt_marker :: marker
  bt_world :: world

definition retention_mark :: "snap_lib \<Rightarrow> string \<Rightarrow> u64 \<Rightarrow> delivery_mark" where
  "retention_mark sl streamID gap =
     (bare_delivery ''__retention_loss__'' (sha256_hex sl (''retention-loss'' @ [CHR 0x00] @ streamID)))
       \<lparr>d_StreamID := streamID, d_StreamSeq := (if gap = 0 then 1 else gap), d_Unverifiable := True\<rparr>"

abbreviation world_positions :: "world \<Rightarrow> positions" where
  "world_positions w \<equiv> db_positions (v_ingest (w_db w))"

definition set_positions :: "positions \<Rightarrow> world \<Rightarrow> world" where
  "set_positions ps w = w\<lparr>w_db := (w_db w)\<lparr>v_ingest := (v_ingest (w_db w))\<lparr>i_journal :=
     (i_journal (v_ingest (w_db w)))\<lparr>j_positions := ps\<rparr>\<rparr>\<rparr>\<rparr>"

definition StartJetStreamWorker :: "wiring \<Rightarrow> boot_io \<Rightarrow> boot \<Rightarrow> (start_error + string) \<times> boot" where
  "StartJetStreamWorker u io bt =
     (if \<not> bo_consumer io then (Inl ConsumerRefused, bt)
      else let ss = (bt_set bt)\<lparr>HasPositions := True\<rparr> in
      (case bootSample (bo_readc io) (bo_reads io) of
         Inl e \<Rightarrow> (Inl (SampleUnreadable e), bt\<lparr>bt_set := ss\<rparr>)
       | Inr (cinfo, sinfo) \<Rightarrow>
           let (berr, ss1, ps) = bindStore (bo_bind io) cinfo (bo_has_ingest io) (ss, world_positions (bt_world bt));
               w1 = set_positions ps (bt_world bt)
           in (case berr of
                 Some e \<Rightarrow> (Inl (Unbound e), bt\<lparr>bt_set := ss1, bt_world := w1\<rparr>)
               | None \<Rightarrow>
                   let (ss2, mk) = latchBootGap (bo_written io) cinfo sinfo (ss1, bt_marker bt);
                       streamID = streamIncarnation (u_time u) (bo_stream io) (bo_created io);
                       (herr, w2) =
                         (if bootGap ss2 > 0 \<or> bootUnverified ss2
                          then record_hole u (retention_mark (wl_snap (u_wire u)) streamID (bootGap ss2)) None w1
                          else (None, w1));
                       bt' = \<lparr>bt_set = ss2, bt_marker = mk, bt_world = w2\<rparr>
                   in (case herr of
                         Some e \<Rightarrow> (Inl (LossUnrecorded e), bt')
                       | None \<Rightarrow> if bo_consume io then (Inr streamID, bt') else (Inl ConsumeRefused, bt')))))"

section \<open>Running\<close>

text \<open>The state of a running worker: the batcher's channel, the state of its loop, the world, and
  the sequences the broker has delivered. Its steps are the consumer's callback, the three things
  the loop selects on, and any other operation of the store in between. A stop ends the
  deliveries first and then drains the channel and the buffer.\<close>

record run =
  r_queue :: "world queued list"
  r_loop :: "world loop"
  r_world :: world
  r_taken :: "u64 list"
  r_stopped :: bool

definition flush_out :: "wiring \<Rightarrow> world queued list option \<Rightarrow> world \<Rightarrow> world" where
  "flush_out u out w = (case out of None \<Rightarrow> w | Some items \<Rightarrow> flush (u_lib u) (worker_batcher u) items w)"

definition on_callback :: "wiring \<Rightarrow> string \<Rightarrow> js_message \<Rightarrow> run \<Rightarrow> run" where
  "on_callback u streamID msg r =
     (let (w, q) = consume u streamID msg (r_world r)
      in r\<lparr>r_world := w, r_queue := r_queue r @ (case q of None \<Rightarrow> [] | Some q \<Rightarrow> [q]),
           r_taken := r_taken r @ [seq msg]\<rparr>)"

definition on_signal :: "wiring \<Rightarrow> world signal \<Rightarrow> run \<Rightarrow> run" where
  "on_signal u s r =
     (let (l, out) = loop_step (worker_batcher u) s (r_loop r)
      in r\<lparr>r_loop := l, r_world := flush_out u out (r_world r)\<rparr>)"

definition Stop :: "wiring \<Rightarrow> run \<Rightarrow> run" where
  "Stop u r = (on_signal u (Done (r_queue r)) r)\<lparr>r_queue := [], r_stopped := True\<rparr>"

definition other_writer :: "wiring \<Rightarrow> snap_op \<Rightarrow> run \<Rightarrow> run" where
  "other_writer u op r = r\<lparr>r_world := (r_world r)\<lparr>w_db :=
     snap_exec (u_lib u) (u_plib u) (wl_snap (u_wire u)) op (w_db (r_world r))\<rparr>\<rparr>"

inductive worker_step :: "wiring \<Rightarrow> string \<Rightarrow> run \<Rightarrow> run \<Rightarrow> bool" for u streamID where
  callback: "\<not> r_stopped r \<Longrightarrow> worker_step u streamID r (on_callback u streamID msg r)"
| receive: "\<not> r_stopped r \<Longrightarrow> r_queue r = q # rest \<Longrightarrow>
    worker_step u streamID r ((on_signal u (Recv q) r)\<lparr>r_queue := rest\<rparr>)"
| tick: "\<not> r_stopped r \<Longrightarrow> worker_step u streamID r (on_signal u Tick r)"
| stop: "\<not> r_stopped r \<Longrightarrow> worker_step u streamID r (Stop u r)"
| other: "worker_step u streamID r (other_writer u op r)"

abbreviation worker_steps :: "wiring \<Rightarrow> string \<Rightarrow> run \<Rightarrow> run \<Rightarrow> bool" where
  "worker_steps u streamID \<equiv> (worker_step u streamID)\<^sup>*\<^sup>*"

definition started :: "world \<Rightarrow> run" where
  "started w = \<lparr>r_queue = [], r_loop = ([], 0), r_world = w, r_taken = [], r_stopped = False\<rparr>"

section \<open>The store's side of the contracts\<close>

lemma SinkEvents_mono:
  "SinkEvents lib plib disk up now es mark db = (e, db') \<Longrightarrow>
     pos_applied (db_positions db) d \<le> pos_applied (db_positions db') d"
  using duck.applied_mono [of db d lib plib "OpSinkEvents disk up now es mark"] by simp

lemma SinkEvents_covers:
  assumes "SinkEvents lib plib disk up now es mark db = (None, db')" "m_Durable mark \<noteq> ''''"
  shows "m_Seq mark \<le> pos_applied (db_positions db') (m_Durable mark)"
proof -
  from assms(1) have "sinkTx lib plib es mark now db = Inr db'"
    by (auto simp: SinkEvents_def split: option.splits elim!: duck_write_cases)
  then have "db_positions db' = advancePositionTx (m_Durable mark) (m_Seq mark) (db_positions db)"
    by (rule sinkTx_result)
  with assms(2) show ?thesis by (simp add: advance_applied)
qed

lemma RecordPosition_mono:
  "on_journal (RecordPosition lib up mark now) db = (e, db') \<Longrightarrow>
     pos_applied (db_positions db) d \<le> pos_applied (db_positions db') d"
  using duck.applied_mono [of db d lib undefined "OpRecordPosition up mark now"] by simp

lemma RecordPosition_covers:
  assumes "on_journal (RecordPosition lib up mark now) db = (None, db')" "m_Durable mark \<noteq> ''''"
  shows "m_Seq mark \<le> pos_applied (db_positions db') (m_Durable mark)"
proof -
  obtain e j where r: "RecordPosition lib up mark now (i_journal db) = (e, j)"
    by (cases "RecordPosition lib up mark now (i_journal db)")
  with assms have "e = None" "i_journal db' = j" by (auto simp: on_journal_def)
  with r assms(2) have "recordAppliedReceiptsTx lib mark now (i_journal db\<lparr>j_positions :=
      advancePositionTx (m_Durable mark) (m_Seq mark) (j_positions (i_journal db))\<rparr>) = Inr (i_journal db')"
    by (auto simp: RecordPosition_def elim!: duck_write_cases)
  from recordApplied_positions [OF this] assms(2) show ?thesis by (simp add: advance_applied)
qed

lemma hole_mono:
  "on_journal (RecordReadinessHole lib up d s) db = (e, db') \<Longrightarrow> db_positions db' = db_positions db"
  using hole_positions [of lib up d s db] by simp

lemma InsertExternalRows_mono:
  "InsertExternalRows lib disk up now p c t rows mark db = (e, db') \<Longrightarrow>
     pos_applied (db_positions db) d \<le> pos_applied (db_positions db') d"
  using duck.applied_mono [of db d lib undefined "OpInsertExternalRows disk up now p c t rows mark"] by simp

lemma InsertExternalRows_covers:
  assumes "InsertExternalRows lib disk up now p c t rows mark db = (None, db')" "m_Durable mark \<noteq> ''''"
  shows "m_Seq mark \<le> pos_applied (db_positions db') (m_Durable mark)"
  using assms(1)
proof (cases rule: InsertExternalRows_cases)
  case empty
  from empty(2) [symmetric] assms(2) show ?thesis by (rule RecordPosition_covers)
next
  case (landed pid cid)
  from landed(5) have "db_positions db' = advancePositionTx (m_Durable mark) (m_Seq mark) (db_positions db)"
    by (elim externalTx_result)
  with assms(2) show ?thesis by (simp add: advance_applied)
qed simp

text \<open>An applied envelope carries the store over its mark, whichever way its transaction ends.\<close>

abbreviation snap_positions :: "serving_db \<Rightarrow> positions" where
  "snap_positions db \<equiv> db_positions (v_ingest db)"

lemma transition_positions:
  assumes "applySnapshotTransitionTx lib slib t env mark applied db = Inr (p, db')"
  shows "snap_positions db' = advancePositionTx (m_Durable mark) (m_Seq mark) (snap_positions db)"
proof -
  obtain p1 state db1 where att: "trySnapshotPromotion lib slib t env db = Inr ((p1, state), db1)"
    using assms by (auto simp: applySnapshotTransitionTx_def Let_def)
  have "snap_positions db1 = snap_positions db"
    using att by (cases rule: trySnapshotPromotion_cases) (simp_all add: replace_serving_def)
  then show ?thesis
    using assms att receipts_frame(1) recordApplied_positions
    by (auto simp: applySnapshotTransitionTx_def Let_def on_ingest_result on_receipts_def RecordSnapshotPromotionTx_def
        split: if_splits option.splits dest!: receipts_frame(1) recordApplied_positions)
qed

lemma settle_cleaned_positions:
  "settleCleanedSnapshotEnvelopeTx lib mark now db = Inr db' \<Longrightarrow>
     snap_positions db' = advancePositionTx (m_Durable mark) (m_Seq mark) (snap_positions db)"
  by (auto simp: settleCleanedSnapshotEnvelopeTx_def on_ingest_result dest!: receipts_frame(1))

lemma stage_positions:
  "stageSnapshotBatch lib env db = Inr (applied, db') \<Longrightarrow> snap_positions db' = snap_positions db"
  "stageSnapshotCompletion lib env db = Inr (applied, db') \<Longrightarrow> snap_positions db' = snap_positions db"
  by (elim stageSnapshotBatch_cases, simp_all) (elim stageSnapshotCompletion_cases, simp_all)

lemma undo_positions [simp]: "snap_positions (undo_if applied lib up env db) = snap_positions db"
  by (auto simp: undo_if_def removeStagedSnapshotBatch_def duck_write_def removeStagedTx_def split: sum.splits if_splits)

lemma batchTx_positions:
  assumes "batchTx lib slib io env mark db = Inr ((c, applied, needs, p), db')"
  shows "snap_positions db' = (if needs then snap_positions db
     else advancePositionTx (m_Durable mark) (m_Seq mark) (snap_positions db))" "c \<Longrightarrow> \<not> needs"
  using assms
  by (auto simp: batchTx_def split: if_splits
      dest!: stage_positions(1) settle_cleaned_positions transition_positions)

lemma completionTx_positions:
  "completionTx lib slib io env mark db = Inr (p, db') \<Longrightarrow>
     snap_positions db' = advancePositionTx (m_Durable mark) (m_Seq mark) (snap_positions db)"
  by (auto simp: completionTx_def split: if_splits
      dest!: stage_positions(2) settle_cleaned_positions transition_positions)

lemma envelope_positions:
  assumes "ApplySnapshotEnvelope lib slib io env mark db = ((e, p), db')"
  shows "snap_positions db' = advancePositionTx (m_Durable mark) (m_Seq mark) (snap_positions db) \<or>
     e \<noteq> None \<and> snap_positions db' = snap_positions db"
proof (cases "Validate slib env = None \<and> o_checkpoint io")
  case False
  with assms show ?thesis by (auto simp: ApplySnapshotEnvelope_def split: if_splits)
next
  case valid: True
  show ?thesis
  proof (cases "n_Kind env = SnapshotKindBatch")
    case False
    with assms valid have "writeTx (o_write io) None (completionTx lib slib io env mark) db = ((e, p), db')"
      by (simp add: ApplySnapshotEnvelope_def)
    then show ?thesis by (cases rule: writeTx_cases) (auto dest: completionTx_positions)
  next
    case True
    with assms valid have b: "applySnapshotBatchEnvelope lib slib io env mark db = ((e, p), db')"
      by (simp add: ApplySnapshotEnvelope_def)
    obtain e1 c applied needs promo db1
      where w: "writeTx (o_write io) (False, False, False, None) (batchTx lib slib io env mark) db
        = ((e1, (c, applied, needs, promo)), db1)" by (metis prod_cases5 surj_pair)
    obtain e2 p2 db2 where w2: "writeTx (o_write2 io) None
        (applySnapshotTransitionTx lib slib (o_clock2 io) env mark applied) db1 = ((e2, p2), db2)"
      by (metis surj_pair)
    from w show ?thesis
    proof (cases rule: writeTx_cases)
      case (failed err)
      with b w show ?thesis by (auto simp: applySnapshotBatchEnvelope_def)
    next
      case committed
      note 1 = batchTx_positions [OF committed(2)]
      show ?thesis
      proof (cases needs)
        case False
        with b w committed(1) 1 show ?thesis by (auto simp: applySnapshotBatchEnvelope_def split: if_splits)
      next
        case True
        from w2 have 2: "e2 = None \<and> snap_positions db2 = advancePositionTx (m_Durable mark) (m_Seq mark) (snap_positions db1) \<or>
            e2 \<noteq> None \<and> db2 = db1"
          by (cases rule: writeTx_cases) (auto dest: transition_positions)
        from True b w w2 committed(1) 1 2 show ?thesis
          by (auto simp: applySnapshotBatchEnvelope_def split: if_splits option.splits)
      qed
    qed
  qed
qed

lemma envelope_mono:
  "ApplySnapshotEnvelope lib slib io env mark db = ((e, p), db') \<Longrightarrow>
     pos_applied (snap_positions db) d \<le> pos_applied (snap_positions db') d"
  by (drule envelope_positions) (auto simp: advance_applied)

lemma envelope_covers:
  "ApplySnapshotEnvelope lib slib io env mark db = ((None, p), db') \<Longrightarrow> m_Durable mark \<noteq> '''' \<Longrightarrow>
     m_Seq mark \<le> pos_applied (snap_positions db') (m_Durable mark)"
  by (drule envelope_positions) (simp add: advance_applied)

lemma snap_exec_mono:
  "pos_applied (snap_positions db) d \<le> pos_applied (snap_positions (snap_exec lib plib slib op db)) d"
proof (cases op)
  case (OpEnvelope io env mark)
  obtain e p db' where "ApplySnapshotEnvelope lib slib io env mark db = ((e, p), db')" by (metis surj_pair)
  with OpEnvelope envelope_mono show ?thesis by simp
next
  case (OpClean up sd limit now)
  have "v_ingest (snd (deleteSnapshotStagingChunk lib up sd limit now db)) = v_ingest db"
    by (auto simp: deleteSnapshotStagingChunk_def writeTx_def clean_chunk_def Let_def split: sum.splits)
  with OpClean show ?thesis by simp
next
  case (OpIngest dop)
  with duck.applied_mono [of "v_ingest db" d lib plib dop] show ?thesis by simp
qed


section \<open>The contracts hold\<close>

abbreviation world_applied :: "string \<Rightarrow> world \<Rightarrow> u64" where
  "world_applied durable w \<equiv> pos_applied (world_positions w) durable"

definition is_js :: "world msg \<Rightarrow> bool" where
  "is_js m \<longleftrightarrow> (\<exists>q n body d. m = js_msg q n body d)"

abbreviation dlq_bodies :: "world \<Rightarrow> string set" where
  "dlq_bodies w \<equiv> l_body ` set (w_dlq w)"

lemma js_msg_fields [simp]:
  "msg_seq (js_msg q n body d) = q" "msg_body (js_msg q n body d) = body"
  "msg_deliveries (js_msg q n body d) = n" "msg_delivery (js_msg q n body d) = d"
  "msg_ack (js_msg q n body d) w = w\<lparr>w_log := w_log w @ [Acked q body]\<rparr>"
  "msg_nak (js_msg q n body d) t w = w\<lparr>w_log := w_log w @ [Naked q body]\<rparr>"
  "msg_term (js_msg q n body d) w = w\<lparr>w_log := w_log w @ [Termed q body]\<rparr>"
  by (simp_all add: js_msg_def)

lemma handle_js [simp]: "is_js (jsMsgHandle u streamID msg)" "msg_seq (jsMsgHandle u streamID msg) = seq msg"
  by (auto simp: is_js_def jsMsgHandle_def)

lemma on_store_result:
  assumes "on_store f w = (e, w')"
  obtains io where "f io (w_db w) = (e, w_db w')" "w_log w' = w_log w" "w_dlq w' = w_dlq w"
proof -
  obtain e1 db where f: "f (shd (w_io w)) (w_db w) = (e1, db)" by fastforce
  with assms show thesis by (intro that [of "shd (w_io w)"]) (auto simp: on_store_def next_io_def)
qed

lemma on_db_result:
  assumes "on_db f w = (e, w')"
  obtains io where "f io (v_ingest (w_db w)) = (e, v_ingest (w_db w'))" "w_log w' = w_log w" "w_dlq w' = w_dlq w"
proof -
  obtain io where r: "(let (e, i) = f io (v_ingest (w_db w)) in (e, w_db w\<lparr>v_ingest := i\<rparr>)) = (e, w_db w')"
    and l: "w_log w' = w_log w" "w_dlq w' = w_dlq w"
    using assms unfolding on_db_def by (rule on_store_result)
  obtain e1 i where f: "f io (v_ingest (w_db w)) = (e1, i)" by fastforce
  with r have "e1 = e" "w_db w\<lparr>v_ingest := i\<rparr> = w_db w'" by auto
  then have "f io (v_ingest (w_db w)) = (e, v_ingest (w_db w'))" using f by (metis serving_db.select_convs(1) serving_db.surjective serving_db.update_convs(1))
  with l show thesis by (intro that)
qed

lemma worker_fields [simp]:
  "b_sink (worker_batcher u) es mark = on_db (\<lambda>io. SinkEvents (u_lib u) (u_plib u) (io_disk io) (io_up io) (io_now io) es mark)"
  "b_deadLetter (worker_batcher u) = None"
  "b_deadLetterWithReceipt (worker_batcher u) = Some (dlqPublish (u_time u) (u_subject u))"
  "b_durable (worker_batcher u) = u_durable u" "b_record (worker_batcher u) = Some (record_position u)"
  "b_recordHole (worker_batcher u) = Some (record_hole u)"
  "b_maxRetries (worker_batcher u) = 3" "b_maxBatch (worker_batcher u) = 500"
  by (simp_all add: worker_batcher_def NewEventBatcher_def positive_or_def)

lemma dlqPublish_result:
  assumes "dlqPublish tf origin d body w = (e, w')"
  shows "w_db w' = w_db w" "w_log w' = w_log w"
    "w_dlq w' = (if e = None then w_dlq w @ [\<lparr>l_headers = dlq_headers tf origin d, l_body = body\<rparr>] else w_dlq w)"
  using assms by (auto simp: dlqPublish_def next_io_def split: if_splits)

lemma record_position_result:
  assumes "record_position u mark w = (e, w')"
  shows "w_log w' = w_log w" "w_dlq w' = w_dlq w" "world_applied d w \<le> world_applied d w'"
    "e = None \<Longrightarrow> m_Durable mark \<noteq> '''' \<Longrightarrow> m_Seq mark \<le> world_applied (m_Durable mark) w'"
  using assms unfolding record_position_def
  by (auto elim!: on_db_result dest: RecordPosition_mono RecordPosition_covers)

lemma record_hole_result:
  assumes "record_hole u d s w = (e, w')"
  shows "w_log w' = w_log w" "w_dlq w' = w_dlq w" "world_positions w' = world_positions w"
  using assms unfolding record_hole_def by (auto elim!: on_db_result dest: hole_mono)

lemma sink_result:
  assumes "b_sink (worker_batcher u) es mark w = (e, w')"
  shows "w_log w' = w_log w" "w_dlq w' = w_dlq w" "world_applied d w \<le> world_applied d w'"
    "e = None \<Longrightarrow> m_Durable mark \<noteq> '''' \<Longrightarrow> m_Seq mark \<le> world_applied (m_Durable mark) w'"
  using assms unfolding worker_fields
  by (auto elim!: on_db_result dest: SinkEvents_mono SinkEvents_covers)

lemma insert_result:
  assumes "t_insert (worker_settler u) src rows mark w = (e, w')"
  shows "w_log w' = w_log w" "w_dlq w' = w_dlq w" "world_applied d w \<le> world_applied d w'"
    "e = None \<Longrightarrow> m_Durable mark \<noteq> '''' \<Longrightarrow> m_Seq mark \<le> world_applied (m_Durable mark) w'"
  using assms
  by (cases src; auto simp: worker_settler_def elim!: on_db_result
      dest: InsertExternalRows_mono InsertExternalRows_covers)+

lemma snapshot_result:
  assumes "t_snapshot (worker_settler u) = Some f" "f env mark w = (e, w')"
  shows "w_log w' = w_log w" "w_dlq w' = w_dlq w" "world_applied d w \<le> world_applied d w'"
    "e = None \<Longrightarrow> m_Durable mark \<noteq> '''' \<Longrightarrow> m_Seq mark \<le> world_applied (m_Durable mark) w'"
  using assms
  by (auto simp: worker_settler_def split: prod.splits elim!: on_store_result
      dest: envelope_mono envelope_covers)

lemma settler_fields [simp]:
  "t_record (worker_settler u) = record_position u" "t_deadLetter (worker_settler u) = None"
  "t_deadLetterWithReceipt (worker_settler u) = Some (dlqPublish (u_time u) (u_connectorSubject u))"
  "t_recordHole (worker_settler u) = Some (record_hole u)" "t_durable (worker_settler u) = u_durable u"
  by (simp_all add: worker_settler_def)

interpretation js: lettering durable "world_applied durable" w_log is_js dlq_bodies for durable
  by unfold_locales (auto simp: is_js_def)

lemma kept_calls [simp]:
  "js.steady dur w w' \<longleftrightarrow> world_applied dur w \<le> world_applied dur w' \<and> w_log w' = w_log w"
  "js.keeps dur w w' \<longleftrightarrow> js.steady dur w w' \<and> dlq_bodies w \<subseteq> dlq_bodies w'"
  by (simp_all only: js.steady_def js.keeps_def)

lemma dlq_kept: "dlqPublish tf origin d body w = (e, w') \<Longrightarrow>
    world_positions w' = world_positions w \<and> w_log w' = w_log w \<and> dlq_bodies w \<subseteq> dlq_bodies w' \<and>
    (e = None \<longrightarrow> body \<in> dlq_bodies w')"
  by (frule dlqPublish_result(1), frule dlqPublish_result(2), drule dlqPublish_result(3)) auto

interpretation worker: dead_lettering "worker_batcher u" "world_applied (u_durable u)" w_log is_js dlq_bodies for u
proof (unfold_locales, goal_cases)
qed (auto simp: is_js_def simp del: worker_fields(1) dest: dlq_kept record_position_result record_hole_result sink_result)

interpretation connector: row_settling "worker_settler u" "world_applied (u_durable u)" w_log is_js dlq_bodies for u
proof (unfold_locales, goal_cases)
qed (auto simp: is_js_def dest: dlq_kept record_position_result record_hole_result insert_result snapshot_result)

section \<open>The run\<close>

text \<open>What a run holds: the messages buffered by the loop and those still in the channel.\<close>

definition held :: "run \<Rightarrow> world queued list" where
  "held r = fst (r_loop r) @ r_queue r"

abbreviation queued_seqs :: "world queued list \<Rightarrow> u64 list" where
  "queued_seqs items \<equiv> map msg_seq (List.map_filter snd items)"

abbreviation settled_seqs :: "world \<Rightarrow> u64 multiset" where
  "settled_seqs w \<equiv> mset (map settlement_seq (w_log w))"

definition js_items :: "world queued list \<Rightarrow> bool" where
  "js_items items \<longleftrightarrow> list_all (\<lambda>it. case snd it of None \<Rightarrow> True | Some h \<Rightarrow> is_js h) items"

lemma js_itemsD: "js_items items \<Longrightarrow> (es, Some m) \<in> set items \<Longrightarrow> is_js m"
  by (auto simp: js_items_def list_all_iff)

definition bag :: "world queued list \<Rightarrow> u64 multiset" where
  "bag items = mset (queued_seqs items)"

lemma bag_simps [simp]:
  "bag [] = {#}" "bag (xs @ ys) = bag xs + bag ys"
  "bag ((es, Some m) # xs) = {#msg_seq m#} + bag xs"
  by (simp_all add: bag_def List.map_filter_def)

lemma bag_Cons: "bag (q # xs) = bag [q] + bag xs"
  by (simp add: bag_def List.map_filter_def split: option.split)

text \<open>A world is sound for a durable when nothing is settled ahead of the store and nothing
  terminated is missing from the dead-letter stream.\<close>

definition sound :: "string \<Rightarrow> world \<Rightarrow> bool" where
  "sound durable w \<longleftrightarrow> js.coherent durable w \<and> js.lettered w"

lemma soundI: "js.settled_well dur m w w' \<Longrightarrow> sound dur w \<Longrightarrow> sound dur w'"
  by (auto simp: sound_def js.settled_well_def js.settles_def)

lemma settled_log: "js.settled_well dur m w w' \<Longrightarrow> settled_seqs w' = settled_seqs w + {#msg_seq m#}"
  by (auto simp: js.settled_well_def js.settles_def)

lemma undecodable_well: "js.settled_well (u_durable u) (jsMsgHandle u streamID msg) w (undecodable u streamID msg w)"
proof -
  let ?m = "jsMsgHandle u streamID msg"
  note rec = connector.recorded [of u ?m, unfolded settler_fields]
  show ?thesis
    unfolding undecodable_def Let_def
  proof (rule js.leave_well [OF handle_js(1) js.keeps_refl])
    show "js.keeps (u_durable u) w w' \<and> (e = None \<longrightarrow> js.covers (u_durable u) ?m w')"
      if "recordSettledAt (record_position u) (u_durable u) (msg_seq ?m) w = (e, w')" for w e w'
      using rec [OF that] .
    show "js.keeps (u_durable u) w w' \<and> (e = None \<longrightarrow> msg_body ?m \<in> dlq_bodies w')"
      if "dlqPublish (u_time u) (u_subject u) (msg_delivery ?m) (msg_body ?m) w = (e, w')" for w e w'
      using dlq_kept [OF that] by simp
    show "js.keeps (u_durable u) w w'" if "record_hole u (msg_delivery ?m) None w = (e, w')" for w e w'
      using record_hole_result [OF that] by simp
  qed blast
qed

lemma consume_cases:
  assumes "consume u streamID msg w = (w', q)"
  obtains (settled) "q = None" "js.settled_well (u_durable u) (jsMsgHandle u streamID msg) w w'"
  | (queued) es where "q = Some (es, Some (jsMsgHandle u streamID msg))" "w' = w"
proof -
  let ?m = "jsMsgHandle u streamID msg"
  consider (rows) "jm_subject msg = u_connectorSubject u"
    | (undec) "jm_subject msg \<noteq> u_connectorSubject u" "decode_events (u_wire u) (jm_data msg) = None"
    | (events) es where "jm_subject msg \<noteq> u_connectorSubject u" "decode_events (u_wire u) (jm_data msg) = Some es"
    by blast
  then show thesis
  proof cases
    case rows
    with assms connector.settle_well [of ?m u w "u_wire u"] settled show thesis
      by (simp add: consume_def)
  next
    case undec
    with assms have "undecodable u streamID msg w = w'" "q = None" by (simp_all add: consume_def)
    with undecodable_well [of u streamID msg w] settled show thesis by simp
  next
    case (events es)
    with assms have a: "AddMsg (u_lib u) (worker_batcher u) es (Some ?m) w = (w', q)" by (simp add: consume_def)
    show thesis
    proof (cases q)
      case (Some it)
      with worker.AddMsg_queues [of "u_lib u" u es "Some ?m" w w' it] a queued show thesis by simp
    next
      case None
      have "js.settles (u_durable u) ?m w w'"
        using worker.AddMsg_settles [of ?m "u_lib u" u es w w'] a None by simp
      moreover have "js.lettered w \<longrightarrow> js.lettered w'"
        using worker.AddMsg_lettered [OF a] by auto
      ultimately show thesis using settled None by (simp add: js.settled_well_def)
    qed
  qed
qed

lemma flush_result:
  assumes "js_items items"
  shows "settled_seqs (flush_out u (Some items) w) = settled_seqs w + bag items"
    "sound (u_durable u) w \<Longrightarrow> sound (u_durable u) (flush_out u (Some items) w)"
proof -
  have h: "\<And>es m. (es, Some m) \<in> set items \<Longrightarrow> is_js m" using assms by (auto simp: js_items_def list_all_iff)
  have "worker.settles_all u items w (flush (u_lib u) (worker_batcher u) items w)"
    using h by (rule worker.flush_settles_all)
  then obtain l where l: "w_log (flush (u_lib u) (worker_batcher u) items w) = w_log w @ l"
    "map settlement_seq l = queued_seqs items" and
    c: "js.coherent (u_durable u) w \<longrightarrow> js.coherent (u_durable u) (flush (u_lib u) (worker_batcher u) items w)"
    by (auto simp: worker.settles_all_def worker.batch_seqs_def)
  show "settled_seqs (flush_out u (Some items) w) = settled_seqs w + bag items"
    unfolding flush_out_def option.case l(1) map_append mset_append l(2) bag_def ..
  show "sound (u_durable u) (flush_out u (Some items) w)" if "sound (u_durable u) w"
    using that c worker.flush_lettered [OF _ h] by (simp add: sound_def flush_out_def)
qed

lemma loop_step_items:
  assumes "loop_step b s (buf, cnt) = ((buf', cnt'), out)"
  shows "(case out of None \<Rightarrow> [] | Some items \<Rightarrow> items) @ buf' = buf @ received [s]"
    "(\<And>rest. s = Done rest \<Longrightarrow> buf' = [] \<and> cnt' = 0)"
  using assms by (auto simp: loop_step_def Let_def received_def split: signal.splits if_splits)

lemma on_signal_result:
  assumes r': "r' = on_signal u s r" and js: "js_items (fst (r_loop r) @ received [s])"
  shows "settled_seqs (r_world r') + bag (fst (r_loop r')) =
      settled_seqs (r_world r) + bag (fst (r_loop r) @ received [s])"
    "js_items (fst (r_loop r'))" "sound (u_durable u) (r_world r) \<Longrightarrow> sound (u_durable u) (r_world r')"
    "r_queue r' = r_queue r" "r_taken r' = r_taken r" "r_stopped r' = r_stopped r"
    "(\<And>rest. s = Done rest \<Longrightarrow> r_loop r' = ([], 0))"
proof -
  obtain buf cnt where l: "r_loop r = (buf, cnt)" by (cases "r_loop r")
  obtain buf' cnt' out where st: "loop_step (worker_batcher u) s (buf, cnt) = ((buf', cnt'), out)"
    by (metis surj_pair)
  note items = loop_step_items [OF st]
  have r: "r_loop r' = (buf', cnt')" "r_world r' = flush_out u out (r_world r)"
    using r' by (simp_all add: on_signal_def l st)
  have split: "js_items (case out of None \<Rightarrow> [] | Some x \<Rightarrow> x)" "js_items buf'"
    using js unfolding l fst_conv items(1) [symmetric] by (simp_all add: js_items_def)
  have q: "bag (buf @ received [s]) =
      bag (case out of None \<Rightarrow> [] | Some x \<Rightarrow> x) + bag buf'"
    unfolding items(1) [symmetric] by simp
  show "settled_seqs (r_world r') + bag (fst (r_loop r')) =
      settled_seqs (r_world r) + bag (fst (r_loop r) @ received [s])"
    unfolding r l fst_conv q using flush_result(1) split(1)
    by (cases out) (simp_all add: flush_out_def)
  show "js_items (fst (r_loop r'))" using split(2) r by simp
  show "sound (u_durable u) (r_world r')" if "sound (u_durable u) (r_world r)"
    unfolding r using that flush_result(2) split(1) by (cases out) (simp_all add: flush_out_def)
  show "r_queue r' = r_queue r" "r_taken r' = r_taken r" "r_stopped r' = r_stopped r"
    using r' by (simp_all add: on_signal_def l st)
  show "r_loop r' = ([], 0)" if "s = Done rest" for rest using items(2) [OF that] r by simp
qed

definition accounted :: "wiring \<Rightarrow> world \<Rightarrow> run \<Rightarrow> bool" where
  "accounted u w0 r \<longleftrightarrow>
     settled_seqs (r_world r) + bag (held r) = settled_seqs w0 + mset (r_taken r) \<and>
     js_items (held r) \<and> (sound (u_durable u) w0 \<longrightarrow> sound (u_durable u) (r_world r)) \<and>
     (r_stopped r \<longrightarrow> held r = [])"

lemma step_accounted:
  assumes "worker_step u streamID r r'" "accounted u w0 r"
  shows "accounted u w0 r'"
  using assms
proof (cases rule: worker_step.cases)
  case (callback msg)
  obtain w q where c: "consume u streamID msg (r_world r) = (w, q)" by fastforce
  from c show ?thesis
  proof (cases rule: consume_cases)
    case settled
    with callback c assms(2) settled_log [OF settled(2)] soundI [OF settled(2)] show ?thesis
      by (simp add: accounted_def on_callback_def held_def)
  next
    case (queued es)
    with callback c assms(2) show ?thesis
      by (auto simp: accounted_def on_callback_def held_def js_items_def)
  qed
next
  case (receive q rest)
  let ?r1 = "on_signal u (Recv q) r"
  have js: "js_items (fst (r_loop r) @ received [Recv q])" and rest: "js_items rest"
    using assms(2) receive by (auto simp: accounted_def held_def js_items_def received_def)
  note s = on_signal_result [where u = u, OF refl js]
  have "settled_seqs (r_world ?r1) + bag (fst (r_loop ?r1) @ rest) =
      settled_seqs (r_world r) + bag (held r)"
    using s(1) by (simp add: held_def receive received_def bag_Cons [of q rest])
  with s assms(2) receive rest show ?thesis
    by (auto simp: accounted_def held_def js_items_def)
next
  case tick
  have js: "js_items (fst (r_loop r) @ received [Tick])"
    using assms(2) by (auto simp: accounted_def held_def js_items_def received_def)
  note s = on_signal_result [where u = u, OF refl js]
  have "settled_seqs (r_world r') + bag (held r') =
      settled_seqs (r_world r) + bag (held r)"
    using s(1,4) by (simp add: held_def tick received_def)
  with s assms(2) tick show ?thesis by (auto simp: accounted_def held_def js_items_def)
next
  case stop
  have js: "js_items (fst (r_loop r) @ received [Done (r_queue r)])"
    using assms(2) by (auto simp: accounted_def held_def received_def)
  note s = on_signal_result [where u = u, OF refl js]
  have "settled_seqs (r_world r') = settled_seqs (r_world r) + bag (held r)"
    using s(1,7) by (simp add: held_def stop Stop_def received_def)
  with s assms(2) stop show ?thesis
    by (auto simp: accounted_def held_def js_items_def Stop_def)
next
  case (other op)
  have "js.steady (u_durable u) (r_world r) (r_world r')"
    unfolding other by (simp add: other_writer_def snap_exec_mono)
  then have "sound (u_durable u) (r_world r) \<longrightarrow> sound (u_durable u) (r_world r')"
    using js.steady_coherent js.steady_lettered by (fastforce simp: sound_def other other_writer_def)
  with assms(2) other show ?thesis by (simp add: accounted_def other_writer_def held_def)
qed

lemma run_accounted:
  assumes "worker_steps u streamID (started w) r"
  shows "accounted u w r"
  using assms
proof (induction rule: rtranclp_induct)
  case base
  show ?case by (simp add: accounted_def started_def held_def js_items_def)
next
  case (step r r')
  from step_accounted [OF step(2,3)] show ?case .
qed

lemma on_journal_result: "on_journal f db = (e, db') \<Longrightarrow> f (i_journal db) = (e, i_journal db')"
  by (cases "f (i_journal db)") (auto simp: on_journal_def)

lemma hole_recorded:
  assumes "RecordReadinessHole lib up d source j = (None, j')"
  obtains row where "hr_id row = delivery_id d" "hr_cleared_at row = None" "hr_unverifiable row = d_Unverifiable d"
    "j' = insert_hole row j"
proof -
  from assms obtain pid cid t where "j' = insert_hole \<lparr>hr_id = delivery_id d, hr_project_id = pid,
      hr_connector_id = cid, hr_table_name = t, hr_unverifiable = d_Unverifiable d, hr_cleared_at = None\<rparr> j"
    by (auto simp: RecordReadinessHole_def duck_write_def Let_def split: if_splits sum.splits prod.splits)
  then show thesis by (intro that) simp_all
qed

lemma insert_hole_found:
  "(\<And>h. h \<in> set (j_holes j) \<Longrightarrow> hr_id h = hr_id row \<Longrightarrow> P h) \<Longrightarrow> P row \<Longrightarrow>
     \<exists>h \<in> set (j_holes (insert_hole row j)). hr_id h = hr_id row \<and> P h"
  by (auto simp: insert_hole_def list_ex_iff)

section \<open>Replaying the dead-letter stream\<close>

text \<open>\<open>replay-dlq\<close> (\<open>cmd/server/replay.go\<close>): a letter goes back to the subject it came from, with
  the identity headers it has; one without a sequence is marked as legacy. It is acknowledged
  only after the broker accepted it, so a letter leaves the stream only once it is back on the
  other one.\<close>

definition identity_headers :: "string list" where
  "identity_headers = [OriginSubjectHeader, OriginStreamHeader, OriginStreamSeqHeader, OriginDigestHeader,
     OriginPublishedAtHeader, OriginUnverifiableHeader]"

definition replay_headers :: "headers \<Rightarrow> headers" where
  "replay_headers hs =
     (let kept = List.map_filter (\<lambda>k. if header_get hs k \<noteq> '''' then Some (k, header_get hs k) else None) identity_headers
      in if header_get kept OriginStreamSeqHeader = '''' then kept @ [(LegacyDLQHeader, ''true'')] else kept)"

definition replay_message :: "string \<Rightarrow> letter \<Rightarrow> js_message" where
  "replay_message subject l =
     (let origin = header_get (l_headers l) OriginSubjectHeader
      in \<lparr>jm_subject = (if origin \<noteq> '''' then origin else subject), jm_data = l_body l,
          jm_headers = replay_headers (l_headers l), jm_metadata = None\<rparr>)"

text \<open>One pass over the fetched letters: for each, whether the publish and the acknowledgement
  succeed. The result is what was published, and what stays on the dead-letter stream.\<close>

fun replay_pass :: "string \<Rightarrow> (letter \<times> bool \<times> bool) list \<Rightarrow> js_message list \<times> letter list" where
  "replay_pass subject [] = ([], [])"
| "replay_pass subject ((l, published, acked) # rest) =
     (let (sent, left) = replay_pass subject rest
      in if \<not> published then (sent, l # left)
         else (replay_message subject l # sent, if acked then left else l # left))"

lemma replay_pass_keeps:
  "replay_pass subject ls = (sent, left) \<Longrightarrow>
     (\<forall>(l, p, a) \<in> set ls. l \<in> set left \<or> replay_message subject l \<in> set sent)"
proof (induction subject ls arbitrary: sent left rule: replay_pass.induct)
  case (2 subject l p a rest)
  obtain sent' left' where r: "replay_pass subject rest = (sent', left')" by fastforce
  with 2(1) have "\<forall>(l, p, a) \<in> set rest. l \<in> set left' \<or> replay_message subject l \<in> set sent'" by blast
  with 2(2) r show ?case by (fastforce split: if_splits)
qed simp

lemma header_get_Nil [simp]: "header_get [] k = ''''"
  by (simp add: header_get_def)

lemma header_get_Cons [simp]: "header_get ((k', v) # hs) k = (if k' = k then v else header_get hs k)"
  by (simp add: header_get_def)

lemma header_get_append: "header_get (xs @ ys) k = (if k \<in> fst ` set xs then header_get xs k else header_get ys k)"
proof (induction xs)
  case (Cons p xs)
  then show ?case by (cases p) auto
qed simp

lemma header_get_kept:
  "header_get (List.map_filter (\<lambda>k. if header_get hs k \<noteq> '''' then Some (k, header_get hs k) else None) ks) k
     = (if k \<in> set ks then header_get hs k else '''')"
  by (induction ks) (auto simp: map_filter_simps split: option.splits)

lemma header_get_replay:
  assumes "k \<noteq> LegacyDLQHeader"
  shows "header_get (replay_headers hs) k = (if k \<in> set identity_headers then header_get hs k else '''')"
proof -
  let ?kept = "List.map_filter (\<lambda>k. if header_get hs k \<noteq> '''' then Some (k, header_get hs k) else None) identity_headers"
  have "header_get (?kept @ [(LegacyDLQHeader, ''true'')]) k = header_get ?kept k"
    using assms by (cases "k \<in> fst ` set ?kept")
      (auto simp: header_get_append header_get_def split: option.splits dest: map_of_SomeD intro: rev_image_eqI)
  then show ?thesis by (simp add: replay_headers_def Let_def header_get_kept)
qed

lemma parse_show_uint: "parse_uint (show_nat (unat (n :: u64))) = Some n"
proof -
  have "unat n < 2 ^ 64" using unsigned_less [of n] by simp
  then show ?thesis by (simp add: parse_uint_def)
qed

section \<open>Properties\<close>

type_synonym js_item = "event list \<times> (u64 \<times> u64 \<times> string \<times> delivery_mark) option"

definition js_queued :: "js_item \<Rightarrow> world queued" where
  "js_queued it = (fst it, map_option (\<lambda>(q, n, body, d). js_msg q n body d) (snd it))"

abbreviation item_seqs :: "js_item list \<Rightarrow> u64 list" where
  "item_seqs its \<equiv> map fst (List.map_filter snd its)"

lemma batch_seqs_js [simp]: "queued_seqs (map js_queued its) = item_seqs its"
  by (induction its) (auto simp: js_queued_def List.map_filter_def split: option.splits)

lemma js_queued_items [simp]: "js_items (map js_queued its)"
  by (auto simp: js_items_def js_queued_def list_all_iff is_js_def split: option.splits)

definition wit_io :: io where
  "wit_io = \<lparr>io_up = True, io_disk = None, io_now = 5, io_dlq = True,
     io_snap = \<lparr>o_checkpoint = True, o_write = True, o_disk = None, o_clock = \<lparr>k_tx = 5, k_receipts = 5, k_promoted = 5\<rparr>,
        o_checkpoint2 = True, o_write2 = True, o_clock2 = \<lparr>k_tx = 5, k_receipts = 5, k_promoted = 5\<rparr>, o_undo = True\<rparr>\<rparr>"

definition wit_full :: io where
  "wit_full = wit_io\<lparr>io_disk := Some \<lparr>reserve = 100, probe = Some 99\<rparr>\<rparr>"

definition wit_serving :: serving_db where
  "wit_serving = \<lparr>v_ingest = wit_db, v_batches = [], v_rows = [], v_completions = [], v_promotions = [], v_cleaned = []\<rparr>"

definition wit_world :: "io stream \<Rightarrow> world" where
  "wit_world ios = \<lparr>w_db = wit_serving, w_io = ios, w_log = [], w_dlq = []\<rparr>"

definition wit_time :: time_lib where
  "wit_time = \<lparr>format_nano = (\<lambda>_. ''7''), parse_nano = (\<lambda>s. if s = ''7'' then Some 7 else None)\<rparr>"

definition wit_wiring :: wiring where
  "wit_wiring = \<lparr>u_lib = wit_lib, u_plib = wit_plib, u_wire = wit_wl, u_time = wit_time, u_subject = ''events'',
     u_connectorSubject = ''rows'', u_maxDeliver = 5, u_durable = ''blue''\<rparr>"

definition wit_item :: js_item where
  "wit_item = ([wit_ingest_event], Some (7, 9, ''body'', wit_delivery))"

definition wit_message :: js_message where
  "wit_message = \<lparr>jm_subject = ''events'', jm_data = ''?'', jm_headers = [], jm_metadata = Some
     \<lparr>md_Stream = ''S'', md_StreamSeq = 4, md_ConsumerSeq = 3, md_NumDelivered = 1, md_Timestamp = 7\<rparr>\<rparr>"

text \<open>A flush settles every message of its batch exactly once, in order, and nothing else:
  the broker's log grows by one acknowledgement, redelivery request or termination per durable
  message. After it, if it was so before, every sequence acknowledged or terminated under a named
  durable is covered by the position recorded in the store, whatever the store, the disk probe
  and the dead-letter stream answered.\<close>

theorem flush_settles_each_once:
  "\<exists>l. w_log (flush (u_lib u) (worker_batcher u) (map js_queued its) w) = w_log w @ l \<and>
     map settlement_seq l = item_seqs its \<and>
     (u_durable u \<noteq> '''' \<longrightarrow> (\<forall>q \<in> floor_seqs (w_log w). q \<le> world_applied (u_durable u) w) \<longrightarrow>
       (\<forall>q \<in> floor_seqs (w_log w @ l).
          q \<le> world_applied (u_durable u) (flush (u_lib u) (worker_batcher u) (map js_queued its) w)))"
proof -
  have "worker.settles_all u (map js_queued its) w (flush (u_lib u) (worker_batcher u) (map js_queued its) w)"
    by (rule worker.flush_settles_all) (rule js_itemsD [OF js_queued_items])
  then show ?thesis
    by (auto simp: worker.settles_all_def worker.batch_seqs_def js.coherent_def simp del: list.map)
qed

theorem flush_settles_each_once_witness:
  "\<exists>l. w_log (flush wit_lib (worker_batcher wit_wiring) (map js_queued [wit_item]) (wit_world (sconst wit_io))) = l \<and>
     map settlement_seq l = [7] \<and>
     floor_seqs l \<subseteq> {q. q \<le> world_applied ''blue''
        (flush wit_lib (worker_batcher wit_wiring) (map js_queued [wit_item]) (wit_world (sconst wit_io)))}"
proof -
  have "w_log (wit_world (sconst wit_io)) = []" "item_seqs [wit_item] = [7]" "u_durable wit_wiring = ''blue''"
    "u_lib wit_wiring = wit_lib"
    by (simp_all add: wit_world_def wit_item_def map_filter_simps wit_wiring_def)
  with flush_settles_each_once [of wit_wiring "[wit_item]" "wit_world (sconst wit_io)"]
  show ?thesis by (auto simp del: list.map)
qed

lemma fold_naks:
  "settleFailure lib (worker_batcher u) (map js_queued its) DataCapacity w
     = w\<lparr>w_log := w_log w @ map (\<lambda>(q, _, body, _). Naked q body) (List.map_filter snd its)\<rparr>"
proof (induction its arbitrary: w)
  case Nil
  then show ?case by (simp add: settleFailure_def map_filter_simps)
next
  case (Cons it its)
  then show ?case
    by (auto simp: settleFailure_def settle_failed_def js_queued_def map_filter_simps split: option.splits)
qed

lemma sink_capacity:
  assumes "w_io w = i1 ## i2 ## i3 ## is" "\<And>i. i \<in> {i1, i2, i3} \<Longrightarrow> Check (io_disk i) = Some DataCapacity"
  shows "sinkWithRetry (worker_batcher u) es mark w = (Some DataCapacity, w\<lparr>w_io := is\<rparr>)"
  using assms
  by (simp add: sinkWithRetry_def numeral_3_eq_3 on_db_def on_store_def next_io_def SinkEvents_def)

text \<open>Capacity pressure is never poison. While the disk reserve refuses every attempt of a
  flush, the flush asks for redelivery of every message of the batch, however often it has been
  delivered: the store and the dead-letter stream are untouched, nothing is acknowledged or
  terminated.\<close>

theorem capacity_pressure_only_naks:
  assumes "w_io w = i1 ## i2 ## i3 ## is" "\<And>i. i \<in> {i1, i2, i3} \<Longrightarrow> Check (io_disk i) = Some DataCapacity"
  shows "flush (u_lib u) (worker_batcher u) (map js_queued its) w
     = w\<lparr>w_io := is, w_log := w_log w @ map (\<lambda>(q, _, body, _). Naked q body) (List.map_filter snd its)\<rparr>"
proof -
  have "sinkWithRetry (worker_batcher u) es mark w = (Some DataCapacity, w\<lparr>w_io := is\<rparr>)"
    for es mark using assms by (rule sink_capacity)
  then show ?thesis by (simp add: flush_def fold_naks del: map_map)
qed

theorem capacity_pressure_only_naks_witness:
  "w_log (flush wit_lib (worker_batcher wit_wiring) (map js_queued [wit_item])
     (wit_world (wit_full ## wit_full ## wit_full ## sconst wit_io))) = [Naked 7 ''body'']"
proof -
  have "Check (io_disk wit_full) = Some DataCapacity" by (simp add: wit_full_def Check_def)
  from capacity_pressure_only_naks [of "wit_world (wit_full ## wit_full ## wit_full ## sconst wit_io)"
      wit_full wit_full wit_full "sconst wit_io" wit_wiring "[wit_item]"] this
  show ?thesis by (simp add: wit_world_def wit_item_def map_filter_simps wit_wiring_def)
qed

text \<open>C4: no delivery is lost, settled twice or settled by nobody. In any run of the worker - messages
  of either subject, decodable or not, receipts and ticks of the loop, other operations of the
  store, in any interleaving and with any outcome of every call - what is settled and what is
  still held together are exactly what the broker delivered. A running worker can always stop, and
  the stop settles everything that was held; a stopped worker holds nothing.\<close>

theorem worker_settles_each_once:
  assumes "worker_steps u streamID (started w) r"
  shows "settled_seqs (r_world r) + mset (queued_seqs (held r)) = settled_seqs w + mset (r_taken r) \<and>
    (r_stopped r \<longrightarrow> held r = []) \<and>
    (\<not> r_stopped r \<longrightarrow> (\<exists>r'. worker_step u streamID r r' \<and> r_stopped r' \<and>
       settled_seqs (r_world r') = settled_seqs w + mset (r_taken r)))"
proof -
  have acc: "accounted u w r" using assms by (rule run_accounted)
  have "\<exists>r'. worker_step u streamID r r' \<and> r_stopped r' \<and> settled_seqs (r_world r') = settled_seqs w + mset (r_taken r)"
    if "\<not> r_stopped r"
  proof -
    have st: "worker_step u streamID r (Stop u r)" using that by (rule worker_step.stop)
    have "r_stopped (Stop u r)" "r_taken (Stop u r) = r_taken r"
      by (simp_all add: Stop_def on_signal_def split: prod.split)
    moreover from calculation step_accounted [OF st acc] have "held (Stop u r) = []"
      by (simp add: accounted_def)
    then have "bag (held (Stop u r)) = {#}" by simp
    ultimately show ?thesis
      using st step_accounted [OF st acc] by (intro exI [of _ "Stop u r"]) (simp add: accounted_def)
  qed
  with acc show ?thesis by (simp add: accounted_def bag_def)
qed

definition wit_run :: run where
  "wit_run = on_callback wit_wiring ''s'' wit_message (started (wit_world (sconst wit_io)))"

lemma wit_wiring_fields [simp]:
  "u_lib wit_wiring = wit_lib" "u_durable wit_wiring = ''blue''" "u_subject wit_wiring = ''events''"
  "u_connectorSubject wit_wiring = ''rows''" "u_wire wit_wiring = wit_wl" "u_time wit_wiring = wit_time"
  by (simp_all add: wit_wiring_def)

lemma wit_run_step: "worker_steps wit_wiring ''s'' (started (wit_world (sconst wit_io))) wit_run"
  unfolding wit_run_def by (rule r_into_rtranclp) (rule worker_step.callback, simp add: started_def)

lemma wit_run_fields: "\<not> r_stopped wit_run" "r_taken wit_run = [3]"
  by (simp_all add: wit_run_def on_callback_def started_def wit_message_def seq_def split: prod.split)

lemma wit_run_log: "w_log (r_world wit_run) = [Termed 3 ''?'']"
proof -
  let ?m = "jsMsgHandle wit_wiring ''s'' wit_message"
  have m: "msg_seq ?m = 3" "msg_body ?m = ''?''"
    by (simp_all add: jsMsgHandle_def wit_message_def seq_def)
  have d: "delivery wit_snap wit_time ''s'' wit_message = (bare_delivery ''events'' wit_hash)
      \<lparr>d_StreamID := ''s'', d_StreamSeq := 4, d_PublishedAt := Some 7\<rparr>"
    by (simp add: delivery_def replay_seq_def wit_message_def header_names parse_uint_def wit_snap_def bare_delivery_def)
  have h: "wit_hash \<noteq> ''''" by (simp add: wit_hash_def)
  have "w_log (undecodable wit_wiring ''s'' wit_message (wit_world (sconst wit_io))) = [Termed 3 ''?'']"
    using h by (simp add: undecodable_def leave_by_letter_def recordSettledAt_def record_position_def on_db_def on_store_def
        next_io_def wit_world_def wit_io_def on_journal_def RecordPosition_def settlement_mark_def duck_write_def
        recordAppliedReceiptsTx_def dlqPublish_def record_hole_def RecordReadinessHole_def jsMsgHandle_def d
        bare_delivery_def opt_uuid_def Let_def case_prod_unfold)
      (simp add: wit_message_def seq_def)
  moreover have "decode_events wit_wl ''?'' = None" by (simp add: wit_wl_def)
  ultimately show ?thesis
    by (simp add: wit_run_def on_callback_def consume_def started_def split: prod.split) (simp add: wit_message_def)
qed

theorem worker_settles_each_once_witness:
  "\<exists>r'. worker_step wit_wiring ''s'' wit_run r' \<and> r_stopped r' \<and> settled_seqs (r_world r') = {#3#}"
  using worker_settles_each_once [OF wit_run_step] wit_run_fields by (simp add: wit_world_def)

lemma wit_world_sound: "sound ''blue'' (wit_world ios)"
  by (simp add: sound_def js.coherent_def js.lettered_def wit_world_def)

text \<open>C5: what the broker was told is done is in the store. In any run, if it was so at the start, every
  sequence acknowledged or terminated under a named durable is at most the position the store
  itself has recorded - the store never falls behind its own ack floor.\<close>

theorem acknowledged_is_stored:
  assumes "worker_steps u streamID (started w) r" and "u_durable u \<noteq> ''''"
    and "\<forall>q \<in> floor_seqs (w_log w). q \<le> world_applied (u_durable u) w"
    and "termed_bodies (w_log w) \<subseteq> dlq_bodies w"
  shows "\<forall>q \<in> floor_seqs (w_log (r_world r)). q \<le> world_applied (u_durable u) (r_world r)"
proof -
  have "sound (u_durable u) w" using assms(3,4) by (simp add: sound_def js.coherent_def js.lettered_def)
  with run_accounted [OF assms(1)] have "js.coherent (u_durable u) (r_world r)"
    by (simp add: accounted_def sound_def)
  with assms(2) show ?thesis by (simp add: js.coherent_def)
qed

theorem acknowledged_is_stored_witness: "3 \<le> world_applied ''blue'' (r_world wit_run)"
proof -
  have "\<forall>q \<in> floor_seqs (w_log (r_world wit_run)). q \<le> world_applied (u_durable wit_wiring) (r_world wit_run)"
    by (rule acknowledged_is_stored [OF wit_run_step]) (simp_all add: wit_world_def)
  then show ?thesis by (simp add: wit_run_log floor_seqs_def)
qed

text \<open>C19: no message is terminated before its body is on the dead-letter stream: in any run, if the body
  of every terminated message was on the stream at the start, it still is.\<close>

theorem terminated_only_after_dead_letter:
  assumes "worker_steps u streamID (started w) r" and "sound (u_durable u) w"
  shows "termed_bodies (w_log (r_world r)) \<subseteq> dlq_bodies (r_world r)"
  using run_accounted [OF assms(1)] assms(2) by (simp add: accounted_def sound_def js.lettered_def)

theorem terminated_only_after_dead_letter_witness: "''?'' \<in> dlq_bodies (r_world wit_run)"
proof -
  have "termed_bodies (w_log (r_world wit_run)) \<subseteq> dlq_bodies (r_world wit_run)"
    by (rule terminated_only_after_dead_letter [OF wit_run_step]) (simp add: wit_world_sound)
  then show ?thesis by (simp add: wit_run_log termed_bodies_def)
qed

text \<open>C20: a dead-lettered delivery keeps its identity. Whatever a message's delivery mark was, once its
  body has gone to the dead-letter stream and \<open>replay-dlq\<close> has sent it back, the worker reads the
  same stream, subject, sequence, digest, publication time and verifiability off it, marked as a
  replay - so its receipt names exactly the hole the dead-lettering left.\<close>

theorem dead_letter_identity_roundtrip:
  assumes "d_StreamSeq d \<noteq> 0" "d_Subject d = origin" "origin \<noteq> ''''"
    and "trim_space (d_PayloadSHA256 d) = d_PayloadSHA256 d" "d_PayloadSHA256 d \<noteq> ''''"
    and "case d_PublishedAt d of None \<Rightarrow> parse_nano tf '''' = None
      | Some t \<Rightarrow> t \<noteq> zero_time \<and> format_nano tf t \<noteq> '''' \<and> parse_nano tf (format_nano tf t) = Some t"
  shows "let msg = replay_message subject \<lparr>l_headers = dlq_headers tf origin d, l_body = body\<rparr>\<lparr>jm_metadata := md\<rparr>;
      d' = delivery sl tf streamID msg
    in jm_subject msg = origin \<and> jm_data msg = body \<and> delivery_id d' = delivery_id d \<and>
      d' = d\<lparr>d_Replayed := True, d_ProjectID := '''', d_ConnectorID := '''', d_Table := ''''\<rparr>"
proof -
  let ?hs = "dlq_headers tf origin d"
  let ?msg = "replay_message subject \<lparr>l_headers = ?hs, l_body = body\<rparr>\<lparr>jm_metadata := md\<rparr>"
  have get: "header_get (jm_headers ?msg) k = header_get ?hs k" if "k \<in> set identity_headers" for k
    using that header_get_replay [of k ?hs]
    by (auto simp: replay_message_def Let_def identity_headers_def header_names)
  have hs: "header_get ?hs OriginSubjectHeader = origin" "header_get ?hs OriginStreamHeader = d_StreamID d"
    "header_get ?hs OriginStreamSeqHeader = show_nat (unat (d_StreamSeq d))"
    "header_get ?hs OriginDigestHeader = d_PayloadSHA256 d"
    "header_get ?hs OriginPublishedAtHeader = (case d_PublishedAt d of None \<Rightarrow> '''' | Some t \<Rightarrow> format_nano tf t)"
    "header_get ?hs OriginUnverifiableHeader = (if d_Unverifiable d then ''true'' else '''')"
    using assms(1) by (simp_all add: dlq_headers_def header_names split: option.split)
  have ids: "{OriginSubjectHeader, OriginStreamHeader, OriginStreamSeqHeader, OriginDigestHeader,
      OriginPublishedAtHeader, OriginUnverifiableHeader} \<subseteq> set identity_headers"
    by (simp add: identity_headers_def)
  have g: "header_get (jm_headers ?msg) OriginSubjectHeader = origin"
    "header_get (jm_headers ?msg) OriginStreamHeader = d_StreamID d"
    "header_get (jm_headers ?msg) OriginStreamSeqHeader = show_nat (unat (d_StreamSeq d))"
    "header_get (jm_headers ?msg) OriginDigestHeader = d_PayloadSHA256 d"
    "header_get (jm_headers ?msg) OriginPublishedAtHeader = (case d_PublishedAt d of None \<Rightarrow> '''' | Some t \<Rightarrow> format_nano tf t)"
    "header_get (jm_headers ?msg) OriginUnverifiableHeader = (if d_Unverifiable d then ''true'' else '''')"
    using ids by (simp_all only: get hs insert_subset)
  have q: "replay_seq ?msg = Some (d_StreamSeq d)"
    using assms(1) by (simp only: replay_seq_def g parse_show_uint) (simp add: word_gt_0)
  have "delivery sl tf streamID ?msg = d\<lparr>d_Replayed := True, d_ProjectID := '''', d_ConnectorID := '''', d_Table := ''''\<rparr>"
  proof -
    have "delivery sl tf streamID ?msg =
        (bare_delivery origin (if trim_space (d_PayloadSHA256 d) \<noteq> '''' then trim_space (d_PayloadSHA256 d)
            else sha256_hex sl (jm_data ?msg)))
          \<lparr>d_StreamID := d_StreamID d, d_StreamSeq := d_StreamSeq d,
           d_PublishedAt := timePtr (case parse_nano tf (case d_PublishedAt d of None \<Rightarrow> '''' | Some t \<Rightarrow> format_nano tf t) of
              None \<Rightarrow> zero_time | Some t \<Rightarrow> t),
           d_Replayed := True, d_Unverifiable := ((if d_Unverifiable d then ''true'' else '''') = ''true'')\<rparr>"
      by (simp only: delivery_def Let_def q g option.case)
    also have "\<dots> = d\<lparr>d_Replayed := True, d_ProjectID := '''', d_ConnectorID := '''', d_Table := ''''\<rparr>"
      using assms(2,4-6) by (cases "d_PublishedAt d") (auto simp: bare_delivery_def timePtr_def)
    finally show ?thesis .
  qed
  moreover have "jm_subject ?msg = origin" "jm_data ?msg = body"
    using assms(3) hs(1) by (simp_all add: replay_message_def Let_def)
  ultimately show ?thesis by (simp add: Let_def delivery_id_def)
qed

definition wit_sent :: delivery_mark where
  "wit_sent = (bare_delivery ''events'' ''ab'')\<lparr>d_StreamID := ''S'', d_StreamSeq := 4, d_PublishedAt := Some 7\<rparr>"

theorem dead_letter_identity_roundtrip_witness:
  "delivery wit_snap wit_time ''other''
     (replay_message ''q'' \<lparr>l_headers = dlq_headers wit_time ''events'' wit_sent, l_body = ''b''\<rparr>\<lparr>jm_metadata := None\<rparr>)
   = wit_sent\<lparr>d_Replayed := True, d_ProjectID := '''', d_ConnectorID := '''', d_Table := ''''\<rparr>"
proof -
  have "trim_space ''ab'' = ''ab''" by (rule trim_space_plain) (simp add: plain_def)
  then have "trim_space (d_PayloadSHA256 wit_sent) = d_PayloadSHA256 wit_sent" by (simp add: wit_sent_def bare_delivery_def)
  from dead_letter_identity_roundtrip [where d = wit_sent and origin = "''events''" and tf = wit_time and subject = "''q''"
      and body = "''b''" and md = None and sl = wit_snap and streamID = "''other''", OF _ _ _ this]
  show ?thesis by (simp add: wit_sent_def bare_delivery_def wit_time_def zero_time_def Let_def)
qed

text \<open>C21: a colour that starts consuming has answered for what it may have missed. When the boot
  succeeds, both broker reads succeeded; unless the store latched a gap its own record reaches the
  durable's ack floor with no refusal on it; and if the stream lost messages, or the record of a
  loss could not be read, an open and unverifiable hole for it is in the readiness journal.\<close>

theorem boot_answers_for_gaps:
  assumes start: "StartJetStreamWorker u io bt = (Inr streamID, bt')"
    and "hole = delivery_id (retention_mark (wl_snap (u_wire u)) streamID (bootGap (bt_set bt')))"
    and "\<And>h. h \<in> set (j_holes (i_journal (v_ingest (w_db (bt_world bt))))) \<Longrightarrow> hr_id h = hole \<Longrightarrow>
      hr_cleared_at h = None \<and> hr_unverifiable h"
  shows "\<exists>cinfo sinfo. bootSample (bo_readc io) (bo_reads io) = Inr (cinfo, sinfo) \<and>
    (storeGap (bt_set bt') = 0 \<longrightarrow>
       AckFloorConsumer cinfo \<le> world_applied (durableName (bt_set bt)) (bt_world bt') \<and>
       pos_refused (world_positions (bt_world bt')) (durableName (bt_set bt)) = 0) \<and>
    (bootGap (bt_set bt') \<noteq> 0 \<or> bootUnverified (bt_set bt') \<longrightarrow>
       (\<exists>h \<in> set (j_holes (i_journal (v_ingest (w_db (bt_world bt'))))).
          hr_id h = hole \<and> hr_cleared_at h = None \<and> hr_unverifiable h))"
proof -
  let ?ss = "(bt_set bt)\<lparr>HasPositions := True\<rparr>"
  obtain cinfo sinfo where b: "bootSample (bo_readc io) (bo_reads io) = Inr (cinfo, sinfo)"
    using start by (auto simp: StartJetStreamWorker_def Let_def split: if_splits sum.splits)
  obtain berr ss1 ps where bind: "bindStore (bo_bind io) cinfo (bo_has_ingest io) (?ss, world_positions (bt_world bt)) = (berr, ss1, ps)"
    by (metis prod_cases3)
  obtain ss2 mk where latch: "latchBootGap (bo_written io) cinfo sinfo (ss1, bt_marker bt) = (ss2, mk)" by fastforce
  let ?w1 = "set_positions ps (bt_world bt)"
  let ?sid = "streamIncarnation (u_time u) (bo_stream io) (bo_created io)"
  let ?gap = "bootGap ss2 > 0 \<or> bootUnverified ss2"
  let ?mark = "retention_mark (wl_snap (u_wire u)) ?sid (bootGap ss2)"
  obtain herr w2 where hole: "(if ?gap then record_hole u ?mark None ?w1 else (None, ?w1)) = (herr, w2)" by fastforce
  have out: "berr = None" "herr = None" "streamID = ?sid" "bt_set bt' = ss2" "bt_world bt' = w2"
    using start b bind latch hole
    by (auto simp: StartJetStreamWorker_def Let_def split: if_splits option.splits)
  have gaps: "storeGap ss2 = storeGap ss1"
    using latch by (auto simp: latchBootGap_def Let_def split: if_splits prod.splits)
  have pos: "world_positions w2 = ps"
    using hole record_hole_result(3) [of u ?mark None ?w1 herr w2]
    by (auto simp: set_positions_def split: if_splits)
  have "storeGap ss2 = 0 \<Longrightarrow> AckFloorConsumer cinfo \<le> pos_applied ps (durableName ?ss) \<and>
      pos_refused ps (durableName ?ss) = 0"
    using bindStore_covered [OF bind [unfolded out]] gaps by simp
  moreover have "durableName ?ss = durableName (bt_set bt)" by (simp add: durableName_def)
  moreover have "\<exists>h \<in> set (j_holes (i_journal (v_ingest (w_db w2)))).
      hr_id h = hole \<and> hr_cleared_at h = None \<and> hr_unverifiable h" if ?gap
  proof -
    have "record_hole u ?mark None ?w1 = (None, w2)" using hole that out(2) by simp
    then obtain up where j: "on_journal (RecordReadinessHole (u_lib u) up ?mark None) (v_ingest (w_db ?w1))
        = (None, v_ingest (w_db w2))"
      unfolding record_hole_def by (rule on_db_result)
    then have "RecordReadinessHole (u_lib u) up ?mark None (i_journal (v_ingest (w_db ?w1)))
        = (None, i_journal (v_ingest (w_db w2)))"
      by (rule on_journal_result)
    then obtain row where row: "hr_id row = delivery_id ?mark" "hr_cleared_at row = None"
      "hr_unverifiable row = d_Unverifiable ?mark" "i_journal (v_ingest (w_db w2)) = insert_hole row (i_journal (v_ingest (w_db ?w1)))"
      by (rule hole_recorded)
    have h: "hole = hr_id row" using assms(2) out(3,4) row(1) by simp
    have u: "d_Unverifiable ?mark" by (simp add: retention_mark_def)
    have "hr_cleared_at x = None \<and> hr_unverifiable x"
      if "x \<in> set (j_holes (i_journal (v_ingest (w_db ?w1))))" "hr_id x = hr_id row" for x
      using assms(3) [of x] that h by (simp add: set_positions_def)
    then show ?thesis
      unfolding row(4) h using row(2,3) u
      by (intro insert_hole_found [where P = "\<lambda>x. hr_cleared_at x = None \<and> hr_unverifiable x"]) auto
  qed
  ultimately show ?thesis using b out pos by (auto simp: word_gt_0)
qed

definition wit_boot_io :: boot_io where
  "wit_boot_io = \<lparr>bo_consumer = True, bo_readc = (\<lambda>_. Some wit_consumer), bo_reads = (\<lambda>_. Some Replay.wit_stream),
     bo_bind = \<lparr>read_ok = True, adopt_ok = True, refuse_ok = True\<rparr>, bo_has_ingest = True, bo_written = True,
     bo_stream = ''S'', bo_created = zero_time, bo_consume = True\<rparr>"

definition wit_boot :: boot where
  "wit_boot = \<lparr>bt_set = wit_set\<lparr>LossMarkerPath := ''m''\<rparr>, bt_marker = LossMarker 2,
     bt_world = wit_world (sconst wit_io)\<rparr>"

lemma wit_booted:
  obtains bt' where "StartJetStreamWorker wit_wiring wit_boot_io wit_boot = (Inr ''S'', bt')" "bootGap (bt_set bt') = 2"
proof -
  let ?ss = "wit_set\<lparr>LossMarkerPath := ''m'', HasPositions := True\<rparr>"
  let ?ps = "world_positions (wit_world (sconst wit_io))"
  have b: "bootSample (bo_readc wit_boot_io) (bo_reads wit_boot_io) = Inr (wit_consumer, Replay.wit_stream)"
    by (simp add: bootSample_def wit_boot_io_def boot_sample_from.simps)
  obtain ss1 ps where bind: "bindStore (bo_bind wit_boot_io) wit_consumer True (?ss, ?ps) = (None, ss1, ps)"
    by (rule bindStore_no_error [of "bo_bind wit_boot_io"]) (simp_all add: wit_boot_io_def)
  have p: "LossMarkerPath ss1 = ''m''"
    using bind by (auto simp: bindStore_def Let_def split: if_splits)
  then have latch: "latchBootGap True wit_consumer Replay.wit_stream (ss1, LossMarker 2) = (ss1\<lparr>bootGap := 2\<rparr>, LossMarker 2)"
    by (simp add: latchBootGap_def readLatch_def)
  let ?mark = "retention_mark wit_snap ''S'' 2"
  have h: "wit_hash \<noteq> ''''" by (simp add: wit_hash_def)
  obtain w2 where hole: "record_hole wit_wiring ?mark None (set_positions ps (wit_world (sconst wit_io))) = (None, w2)"
    using h by (simp add: record_hole_def on_db_def on_store_def next_io_def wit_world_def wit_io_def set_positions_def
        on_journal_def RecordReadinessHole_def duck_write_def retention_mark_def bare_delivery_def wit_snap_def
        opt_uuid_def Let_def case_prod_unfold)
  have "StartJetStreamWorker wit_wiring wit_boot_io wit_boot
      = (Inr ''S'', \<lparr>bt_set = ss1\<lparr>bootGap := 2\<rparr>, bt_marker = LossMarker 2, bt_world = w2\<rparr>)"
    using b bind latch hole
    by (simp add: StartJetStreamWorker_def wit_boot_io_def wit_boot_def streamIncarnation_def)
  then show thesis by (rule that) simp
qed

theorem boot_answers_for_gaps_witness:
  "\<exists>bt' h. StartJetStreamWorker wit_wiring wit_boot_io wit_boot = (Inr ''S'', bt') \<and>
     h \<in> set (j_holes (i_journal (v_ingest (w_db (bt_world bt'))))) \<and> hr_cleared_at h = None \<and> hr_unverifiable h"
proof -
  obtain bt' where s: "StartJetStreamWorker wit_wiring wit_boot_io wit_boot = (Inr ''S'', bt')" and g: "bootGap (bt_set bt') = 2"
    by (rule wit_booted)
  have "h \<in> set (j_holes (i_journal (v_ingest (w_db (bt_world wit_boot))))) \<Longrightarrow>
      hr_id h \<noteq> delivery_id (retention_mark wit_snap ''S'' 2)" for h
    by (auto simp: wit_boot_def wit_world_def wit_serving_def wit_db_def wit_journal_def delivery_id_def
        retention_mark_def bare_delivery_def wit_delivery_def wit_hole_def)
  with boot_answers_for_gaps [OF s refl] g s show ?thesis by fastforce
qed

end
