(* ===== verification/Journal.thy ===== *)
theory Journal
  imports Snapshots
begin

text \<open>
  The control tables in PostgreSQL (\<open>internal/dataplane/store/connector_runs.go\<close>,
  \<open>lifecycle.go\<close>): connectors, their syncs, the durable runs of a sync with the idempotency keys
  bound to them, and the tables of snapshot mode (generations, sequences, outbox, cleanup
  receipts). A table is the list of its rows in insertion order; an operation is one transaction,
  an error leaves the tables as they were. Identifiers are the text of UUID columns. A value over
  the width of its column is an error of the database and is not modelled.
\<close>

section \<open>Tables\<close>

record connector_row =
  dc_id :: string
  dc_project :: string
  dc_name :: string
  dc_kind :: string
  dc_ciphertext :: string
  dc_archived_at :: "time option"
  dc_revision :: int
  dc_source_revision :: int

record sync_row =
  cs_id :: string
  cs_project :: string
  cs_connector :: string
  cs_source_table :: string
  cs_key_column :: string
  cs_cursor_column :: string
  cs_sync_mode :: string
  cs_schedule :: string
  cs_join_key :: string
  cs_join_validated :: string
  cs_deletion_mode :: string
  cs_soft_delete_column :: string
  cs_soft_delete_semantics :: string
  cs_enabled :: bool
  cs_disabled_by_archive :: bool
  cs_revision :: int
  cs_config_revision :: int
  cs_cursor :: string
  cs_cursor_key :: string
  cs_last_run_at :: "time option"
  cs_last_status :: string
  cs_last_error :: string
  cs_last_rows :: int
  cs_last_success_at :: "time option"
  cs_total_rows :: int

datatype run_status = Queued | Running | Succeeded | Failed | Cancelled

record run_row =
  rn_id :: string
  rn_project :: string
  rn_sync :: string
  rn_connector :: string
  rn_status :: run_status
  rn_key :: string
  rn_cancel_requested :: bool
  rn_rows :: int
  rn_cursor :: string
  rn_cursor_key :: string
  rn_error :: string
  rn_owner :: string
  rn_heartbeat_at :: "time option"
  rn_lease_epoch :: int
  rn_queued_at :: time
  rn_started_at :: "time option"
  rn_finished_at :: "time option"

record run_key =
  rk_project :: string
  rk_sync :: string
  rk_key :: string
  rk_run :: string

datatype gen_state = Capturing | Yielded | Sealed | GenFailed | GenCancelled

record generation_row =
  gn_source :: source_key
  gn_sync :: string
  gn_generation :: string
  gn_seq :: int
  gn_binding :: string
  gn_state :: gen_state
  gn_key :: string
  gn_next :: int
  gn_rows :: int
  gn_started_at :: time
  gn_finished_at :: "time option"
  gn_terminal_at :: "time option"
  gn_run :: string
  gn_owner :: string
  gn_lease :: int
  gn_sync_revision :: int
  gn_source_revision :: int

record outbox_row =
  ox_id :: string
  ox_source :: source_key
  ox_generation :: string
  ox_batch_id :: string
  ox_index :: int
  ox_kind :: string
  ox_payload :: string
  ox_sha256 :: string
  ox_lower :: string
  ox_upper :: string
  ox_rows :: int
  ox_published :: bool

record control_db =
  d_connectors :: "connector_row list"
  d_syncs :: "sync_row list"
  d_runs :: "run_row list"
  d_run_keys :: "run_key list"
  d_generations :: "generation_row list"
  d_sequences :: "(source_key \<times> int) list"
  d_outbox :: "outbox_row list"
  d_cleaned :: "((string \<times> string) \<times> time) list"

datatype control_error =
    NoRows | UniqueViolation | CheckViolation | ErrSyncPaused | ErrArchivedSource | ErrRevisionConflict
  | ErrEngineBusy | ErrForbidden | Rejected string | EnvelopeInvalid snapshot_error | StoreUnreachable

text \<open>\<open>UPDATE ... WHERE\<close> and the number of rows it affects.\<close>

definition update_where :: "('a \<Rightarrow> bool) \<Rightarrow> ('a \<Rightarrow> 'a) \<Rightarrow> 'a list \<Rightarrow> 'a list" where
  "update_where P f xs = map (\<lambda>x. if P x then f x else x) xs"

definition affected :: "('a \<Rightarrow> bool) \<Rightarrow> 'a list \<Rightarrow> nat" where
  "affected P xs = length (filter P xs)"

section \<open>Runs\<close>

definition active_run :: "run_row \<Rightarrow> bool" where
  "active_run r \<longleftrightarrow> rn_status r = Queued \<or> rn_status r = Running"

definition resumable :: "generation_row \<Rightarrow> bool" where
  "resumable g \<longleftrightarrow> gn_state g = Capturing \<or> gn_state g = Yielded"

definition run_of :: "control_db \<Rightarrow> string \<Rightarrow> run_row option" where
  "run_of J run = find (\<lambda>r. rn_id r = run) (d_runs J)"

text \<open>The run's own stamp first, then the alias bound to a run that was already active.\<close>

definition stamped_run :: "string \<Rightarrow> string \<Rightarrow> string \<Rightarrow> control_db \<Rightarrow> run_row option" where
  "stamped_run project sync key J =
     find (\<lambda>r. rn_sync r = sync \<and> rn_project r = project \<and> rn_key r = key) (d_runs J)"

definition alias_run :: "string \<Rightarrow> string \<Rightarrow> string \<Rightarrow> control_db \<Rightarrow> run_row option" where
  "alias_run project sync key J =
     (case find (\<lambda>k. rk_sync k = sync \<and> rk_project k = project \<and> rk_key k = key) (d_run_keys J) of
        None \<Rightarrow> None
      | Some k \<Rightarrow> run_of J (rk_run k))"

definition connectorRunByKey :: "string \<Rightarrow> string \<Rightarrow> string \<Rightarrow> control_db \<Rightarrow> run_row option" where
  "connectorRunByKey project sync key J =
     (case stamped_run project sync key J of
        Some r \<Rightarrow> Some r
      | None \<Rightarrow> alias_run project sync key J)"

definition ConnectorRunByIdempotencyKey :: "string \<Rightarrow> string \<Rightarrow> string \<Rightarrow> control_db \<Rightarrow> run_row option" where
  "ConnectorRunByIdempotencyKey project sync key J =
     (if trim_space key = '''' then None else connectorRunByKey project sync key J)"

definition new_run :: "string \<Rightarrow> string \<Rightarrow> string \<Rightarrow> string \<Rightarrow> string \<Rightarrow> time \<Rightarrow> run_row" where
  "new_run uuid project sync conn key now =
     \<lparr>rn_id = uuid, rn_project = project, rn_sync = sync, rn_connector = conn, rn_status = Queued,
      rn_key = key, rn_cancel_requested = False, rn_rows = 0, rn_cursor = '''', rn_cursor_key = '''',
      rn_error = '''', rn_owner = '''', rn_heartbeat_at = None, rn_lease_epoch = 0, rn_queued_at = now,
      rn_started_at = None, rn_finished_at = None\<rparr>"

text \<open>The primary key, one active run of a sync, and one run of a sync per stamped key.\<close>

definition insert_run :: "run_row \<Rightarrow> control_db \<Rightarrow> control_error + control_db" where
  "insert_run r J =
     (if list_ex (\<lambda>x. rn_id x = rn_id r \<or>
           rn_sync x = rn_sync r \<and> (active_run x \<and> active_run r \<or> rn_key r \<noteq> '''' \<and> rn_key x = rn_key r)) (d_runs J)
      then Inl UniqueViolation
      else Inr (J\<lparr>d_runs := d_runs J @ [r]\<rparr>))"

text \<open>\<open>ON CONFLICT DO NOTHING\<close> on the key of the alias.\<close>

definition bind_key :: "string \<Rightarrow> string \<Rightarrow> string \<Rightarrow> string \<Rightarrow> control_db \<Rightarrow> control_db" where
  "bind_key project sync key run J =
     (if list_ex (\<lambda>k. rk_project k = project \<and> rk_sync k = sync \<and> rk_key k = key) (d_run_keys J) then J
      else J\<lparr>d_run_keys := d_run_keys J @
        [\<lparr>rk_project = project, rk_sync = sync, rk_key = key, rk_run = run\<rparr>]\<rparr>)"

text \<open>The decision on a locked sync \<open>s\<close> of connector \<open>d\<close>: replay of a bound key, observation of the
  active run, or a new run. \<open>uuid\<close> is the database's \<open>gen_random_uuid()\<close>.\<close>

definition admit_run ::
  "string \<Rightarrow> string \<Rightarrow> string \<Rightarrow> string \<Rightarrow> time \<Rightarrow> sync_row \<Rightarrow> connector_row \<Rightarrow> control_db \<Rightarrow>
     control_error + (run_row \<times> bool) \<times> control_db" where
  "admit_run project sync key uuid now s d J =
     (case (if key = '''' then None else connectorRunByKey project sync key J) of
        Some r \<Rightarrow> Inr ((r, False), J)
      | None \<Rightarrow>
     (case find (\<lambda>r. rn_sync r = sync \<and> rn_project r = project \<and> active_run r) (d_runs J) of
        Some a \<Rightarrow> Inr ((a, False), if key = '''' then J else bind_key project sync key (rn_id a) J)
      | None \<Rightarrow>
          if dc_archived_at d \<noteq> None then Inl ErrArchivedSource
          else if \<not> cs_enabled s then Inl ErrSyncPaused
          else (let r = new_run uuid project sync (cs_connector s) key now
                in res_bind (insert_run r J) (\<lambda>J'. Inr ((r, True), J')))))"

definition EnqueueConnectorRun ::
  "string \<Rightarrow> string \<Rightarrow> string \<Rightarrow> string \<Rightarrow> time \<Rightarrow> control_db \<Rightarrow>
     control_error + (run_row \<times> bool) \<times> control_db" where
  "EnqueueConnectorRun project sync key uuid now J =
     (case find (\<lambda>s. cs_id s = sync \<and> cs_project s = project) (d_syncs J) of
        None \<Rightarrow> Inl NoRows
      | Some s \<Rightarrow>
     (case find (\<lambda>d. dc_id d = cs_connector s) (d_connectors J) of
        None \<Rightarrow> Inl NoRows
      | Some d \<Rightarrow> admit_run project sync key uuid now s d J))"

text \<open>A cancel that landed while the run was queued wins.\<close>

definition claim_row :: "string \<Rightarrow> time \<Rightarrow> run_row \<Rightarrow> run_row" where
  "claim_row owner now r = r\<lparr>rn_status := Running, rn_started_at := Some now, rn_owner := owner,
     rn_heartbeat_at := Some now, rn_lease_epoch := rn_lease_epoch r + 1\<rparr>"

definition ClaimConnectorRun ::
  "string \<Rightarrow> string \<Rightarrow> time \<Rightarrow> control_db \<Rightarrow> run_row option \<times> control_db" where
  "ClaimConnectorRun run owner now J =
     (let claimable = (\<lambda>r. rn_id r = run \<and> rn_status r = Queued \<and> \<not> rn_cancel_requested r)
      in case find claimable (d_runs J) of
           Some r \<Rightarrow> (Some (claim_row owner now r),
                      J\<lparr>d_runs := update_where claimable (claim_row owner now) (d_runs J)\<rparr>)
         | None \<Rightarrow>
             if list_ex (\<lambda>r. rn_id r = run \<and> rn_status r = Queued \<and> rn_cancel_requested r) (d_runs J)
             then (None, J\<lparr>d_runs := update_where (\<lambda>r. rn_id r = run \<and> rn_status r = Queued)
                     (\<lambda>r. r\<lparr>rn_status := Cancelled, rn_finished_at := Some now\<rparr>) (d_runs J)\<rparr>)
             else (None, J))"

record sync_result =
  sr_Cursor :: string
  sr_CursorKey :: string
  sr_AdvanceCursor :: bool
  sr_Rows :: int
  sr_Err :: string
  sr_Finalized :: bool

definition finish_status :: "bool \<Rightarrow> sync_result \<Rightarrow> run_status \<times> string" where
  "finish_status cancelled res =
     (if cancelled then (Cancelled, sr_Err res)
      else if sr_Err res \<noteq> '''' then (Failed, take 500 (sr_Err res))
      else (Succeeded, sr_Err res))"

definition finish_row :: "run_status \<Rightarrow> string \<Rightarrow> sync_result \<Rightarrow> time \<Rightarrow> run_row \<Rightarrow> run_row" where
  "finish_row status err res now r =
     r\<lparr>rn_status := (if rn_cancel_requested r then Cancelled else status), rn_rows := sr_Rows res,
       rn_cursor := sr_Cursor res, rn_cursor_key := sr_CursorKey res, rn_error := err,
       rn_finished_at := Some now\<rparr>"

definition finish_sync :: "run_status \<Rightarrow> string \<Rightarrow> sync_result \<Rightarrow> time \<Rightarrow> sync_row \<Rightarrow> sync_row" where
  "finish_sync final err res now s =
     s\<lparr>cs_cursor := (if sr_AdvanceCursor res then sr_Cursor res else cs_cursor s),
       cs_cursor_key := (if sr_AdvanceCursor res then sr_CursorKey res else cs_cursor_key s),
       cs_last_run_at := Some now, cs_last_status := (if final = Succeeded then ''ok'' else ''error''),
       cs_last_error := err, cs_last_rows := sr_Rows res,
       cs_last_success_at := (if final = Succeeded then Some now else cs_last_success_at s),
       cs_total_rows := cs_total_rows s + sr_Rows res, cs_revision := cs_revision s + 1\<rparr>"

definition cancel_generation :: "time \<Rightarrow> generation_row \<Rightarrow> generation_row" where
  "cancel_generation now g = g\<lparr>gn_state := GenCancelled, gn_terminal_at := Some now\<rparr>"

definition FinishConnectorRun ::
  "string \<Rightarrow> string \<Rightarrow> string \<Rightarrow> sync_result \<Rightarrow> bool \<Rightarrow> time \<Rightarrow> control_db \<Rightarrow>
     control_error + control_db" where
  "FinishConnectorRun run sync owner res cancelled now J =
     (let (status, err) = finish_status cancelled res;
          mine = (\<lambda>r. rn_id r = run \<and> rn_status r = Running \<and> rn_owner r = owner)
      in if affected mine (d_runs J) = 0
         then Inl (Rejected ''run is not running under this owner'')
         else (let J1 = J\<lparr>d_runs := update_where mine (finish_row status err res now) (d_runs J)\<rparr>
               in case run_of J1 run of
                    None \<Rightarrow> Inl NoRows
                  | Some r \<Rightarrow>
                      (let J2 = (if rn_cancel_requested r
                            then J1\<lparr>d_generations := update_where
                                   (\<lambda>g. gn_run g = run \<and> gn_owner g = owner \<and> resumable g)
                                   (cancel_generation now) (d_generations J1)\<rparr>
                            else J1)
                       in Inr (J2\<lparr>d_syncs := update_where (\<lambda>s. cs_id s = sync)
                                 (finish_sync (rn_status r) err res now) (d_syncs J2)\<rparr>))))"

definition HeartbeatConnectorRun :: "string \<Rightarrow> time \<Rightarrow> control_db \<Rightarrow> (bool \<times> bool) \<times> control_db" where
  "HeartbeatConnectorRun run now J =
     (let live = (\<lambda>r. rn_id r = run \<and> rn_status r = Running)
      in case find live (d_runs J) of
           None \<Rightarrow> ((False, False), J)
         | Some r \<Rightarrow> ((rn_cancel_requested r, True),
             J\<lparr>d_runs := update_where live (\<lambda>r. r\<lparr>rn_heartbeat_at := Some now\<rparr>) (d_runs J)\<rparr>))"

text \<open>The flag of an active run, a queued one ending there and then.\<close>

definition cancel_row :: "time \<Rightarrow> run_row \<Rightarrow> run_row" where
  "cancel_row now r = r\<lparr>rn_cancel_requested := True,
     rn_status := (if rn_status r = Queued then Cancelled else rn_status r),
     rn_finished_at := (if rn_status r = Queued then Some now else rn_finished_at r)\<rparr>"

definition CancelConnectorRun ::
  "string \<Rightarrow> string \<Rightarrow> time \<Rightarrow> control_db \<Rightarrow> control_error + run_row \<times> control_db" where
  "CancelConnectorRun project run now J =
     (let open = (\<lambda>r. rn_id r = run \<and> rn_project r = project \<and> active_run r \<and>
            \<not> list_ex (\<lambda>g. gn_run g = rn_id r \<and> gn_state g = Sealed) (d_generations J))
      in case find open (d_runs J) of
           Some r \<Rightarrow>
             Inr (cancel_row now r,
                  J\<lparr>d_runs := update_where open (cancel_row now) (d_runs J),
                    d_generations := update_where (\<lambda>g. gn_run g = run \<and> resumable g)
                      (cancel_generation now) (d_generations J)\<rparr>)
         | None \<Rightarrow>
             (case find (\<lambda>r. rn_id r = run \<and> rn_project r = project) (d_runs J) of
                None \<Rightarrow> Inl NoRows
              | Some r \<Rightarrow> Inr (r, J)))"

definition ConnectorRunForProject :: "string \<Rightarrow> string \<Rightarrow> control_db \<Rightarrow> run_row option" where
  "ConnectorRunForProject project run J = find (\<lambda>r. rn_id r = run \<and> rn_project r = project) (d_runs J)"

definition stale_run :: "time \<Rightarrow> run_row \<Rightarrow> bool" where
  "stale_run before r \<longleftrightarrow>
     rn_status r = Running \<and> (case rn_heartbeat_at r of None \<Rightarrow> True | Some t \<Rightarrow> t < before) \<or>
     rn_status r = Queued \<and> rn_queued_at r < before"

definition ReconcileConnectorRuns :: "time \<Rightarrow> time \<Rightarrow> control_db \<Rightarrow> nat \<times> control_db" where
  "ReconcileConnectorRuns before now J =
     (affected (stale_run before) (d_runs J),
      J\<lparr>d_runs := update_where (stale_run before)
         (\<lambda>r. r\<lparr>rn_status := Failed, rn_error := ''process restarted before the run finished'',
                rn_finished_at := Some now\<rparr>) (d_runs J)\<rparr>)"

section \<open>Pausing and archiving a source\<close>

definition setConnectorSyncEnabled ::
  "string \<Rightarrow> string \<Rightarrow> bool \<Rightarrow> int \<Rightarrow> control_db \<Rightarrow> control_error + sync_row \<times> control_db" where
  "setConnectorSyncEnabled project sync enabled revision J =
     (let archived = (\<lambda>s. list_ex (\<lambda>d. dc_id d = cs_connector s \<and> dc_archived_at d \<noteq> None) (d_connectors J));
          target = (\<lambda>s. cs_id s = sync \<and> cs_project s = project \<and> cs_revision s = revision \<and>
             (\<not> enabled \<or> \<not> archived s));
          f = (\<lambda>s. s\<lparr>cs_enabled := enabled, cs_disabled_by_archive := False,
             cs_revision := cs_revision s + 1\<rparr>)
      in case find target (d_syncs J) of
           Some s \<Rightarrow> Inr (f s, J\<lparr>d_syncs := update_where target f (d_syncs J)\<rparr>)
         | None \<Rightarrow>
             if \<not> list_ex (\<lambda>s. cs_id s = sync \<and> cs_project s = project) (d_syncs J) then Inl NoRows
             else if enabled \<and> list_ex (\<lambda>s. cs_id s = sync \<and> cs_project s = project \<and> archived s) (d_syncs J)
             then Inl ErrArchivedSource
             else Inl ErrRevisionConflict)"

definition archiveDataConnector ::
  "string \<Rightarrow> string \<Rightarrow> int \<Rightarrow> time \<Rightarrow> control_db \<Rightarrow> control_error + connector_row \<times> control_db" where
  "archiveDataConnector project conn revision now J =
     (let target = (\<lambda>d. dc_project d = project \<and> dc_id d = conn \<and> dc_archived_at d = None \<and> dc_revision d = revision);
          f = (\<lambda>d. d\<lparr>dc_archived_at := Some now, dc_revision := dc_revision d + 1\<rparr>)
      in case find target (d_connectors J) of
           Some d \<Rightarrow>
             Inr (f d, J\<lparr>d_connectors := update_where target f (d_connectors J),
               d_syncs := update_where (\<lambda>s. cs_connector s = conn \<and> cs_project s = project \<and> cs_enabled s)
                 (\<lambda>s. s\<lparr>cs_enabled := False, cs_disabled_by_archive := True, cs_revision := cs_revision s + 1\<rparr>)
                 (d_syncs J),
               d_runs := update_where (\<lambda>r. rn_connector r = conn \<and> rn_project r = project \<and> active_run r)
                 (cancel_row now) (d_runs J)\<rparr>)
         | None \<Rightarrow>
             (case find (\<lambda>d. dc_project d = project \<and> dc_id d = conn) (d_connectors J) of
                None \<Rightarrow> Inl NoRows
              | Some d \<Rightarrow> if dc_archived_at d \<noteq> None then Inr (d, J) else Inl ErrRevisionConflict))"

definition unarchiveDataConnector ::
  "string \<Rightarrow> string \<Rightarrow> int \<Rightarrow> control_db \<Rightarrow> control_error + connector_row \<times> control_db" where
  "unarchiveDataConnector project conn revision J =
     (let target = (\<lambda>d. dc_project d = project \<and> dc_id d = conn \<and> dc_archived_at d \<noteq> None \<and> dc_revision d = revision);
          f = (\<lambda>d. d\<lparr>dc_archived_at := None, dc_revision := dc_revision d + 1\<rparr>)
      in case find target (d_connectors J) of
           Some d \<Rightarrow>
             Inr (f d, J\<lparr>d_connectors := update_where target f (d_connectors J),
               d_syncs := update_where (\<lambda>s. cs_connector s = conn \<and> cs_project s = project \<and> cs_disabled_by_archive s)
                 (\<lambda>s. s\<lparr>cs_enabled := True, cs_disabled_by_archive := False, cs_revision := cs_revision s + 1\<rparr>)
                 (d_syncs J)\<rparr>)
         | None \<Rightarrow>
             (case find (\<lambda>d. dc_project d = project \<and> dc_id d = conn) (d_connectors J) of
                None \<Rightarrow> Inl NoRows
              | Some d \<Rightarrow> if dc_archived_at d = None then Inr (d, J) else Inl ErrRevisionConflict))"


end
