(* ===== verification/Generations.thy ===== *)
theory Generations
  imports Journal
begin

text \<open>
  The generation journal of snapshot mode (\<open>internal/dataplane/store/connector_snapshots.go\<close>): which
  run captures which generation of a source, the outbox of envelopes written before they are
  published, and the seal that commits the completion with the success of the run. Every write of
  a capture is fenced by the lease of its run. \<open>now\<close> is the database's \<open>now()\<close> of the transaction
  and \<open>uuid\<close> the identifier it generates.
\<close>

section \<open>The lease\<close>

text \<open>What the engine knows of a sync when it runs it: whether a source policy governs it, and the
  snapshot digest of its source binding, absent when the binding is.\<close>

record sync_job =
  jb_SyncID :: string
  jb_ProjectID :: string
  jb_ConnectorID :: string
  jb_Kind :: string
  jb_Table :: string
  jb_KeyColumn :: string
  jb_CursorColumn :: string
  jb_Cursor :: string
  jb_CursorKey :: string
  jb_SyncMode :: string
  jb_SyncRevision :: int
  jb_SourceRevision :: int
  jb_Policy :: bool
  jb_BindingDigest :: "string option"

definition job_source :: "sync_job \<Rightarrow> source_key" where
  "job_source job = (jb_ProjectID job, jb_ConnectorID job, jb_Table job)"

definition leaseStale :: time where "leaseStale = 2 * 60 * 1000000000"

definition holds_lease :: "string \<Rightarrow> int \<Rightarrow> time \<Rightarrow> run_row \<Rightarrow> bool" where
  "holds_lease owner epoch now r \<longleftrightarrow>
     rn_status r = Running \<and> rn_owner r = owner \<and> rn_lease_epoch r = epoch \<and> \<not> rn_cancel_requested r \<and>
     (case rn_heartbeat_at r of None \<Rightarrow> False | Some t \<Rightarrow> t > now - leaseStale)"

definition requireSnapshotRunFence ::
  "string \<Rightarrow> string \<Rightarrow> string \<Rightarrow> int \<Rightarrow> time \<Rightarrow> control_db \<Rightarrow> control_error + unit" where
  "requireSnapshotRunFence run sync owner epoch now J =
     (case find (\<lambda>r. rn_id r = run \<and> rn_sync r = sync) (d_runs J) of
        None \<Rightarrow> Inl (Rejected ''snapshot generation lease is stale or cancelled'')
      | Some r \<Rightarrow>
          if holds_lease owner epoch now r then Inr ()
          else Inl (Rejected ''snapshot generation lease is stale or cancelled''))"

definition generation_fence :: "generation_row \<Rightarrow> time \<Rightarrow> control_db \<Rightarrow> control_error + unit" where
  "generation_fence g now J = requireSnapshotRunFence (gn_run g) (gn_sync g) (gn_owner g) (gn_lease g) now J"

section \<open>Claiming a generation\<close>

definition has_pending :: "control_db \<Rightarrow> string \<Rightarrow> bool" where
  "has_pending J g \<longleftrightarrow> list_ex (\<lambda>o1. ox_generation o1 = g \<and> \<not> ox_published o1) (d_outbox J)"

definition claimable :: "control_db \<Rightarrow> source_key \<Rightarrow> generation_row \<Rightarrow> bool" where
  "claimable J k g \<longleftrightarrow> gn_source g = k \<and>
     (resumable g \<or> gn_state g = Sealed \<and> has_pending J (gn_generation g))"

text \<open>\<open>ORDER BY generation_seq DESC LIMIT 1\<close>.\<close>

fun newest :: "generation_row list \<Rightarrow> generation_row option" where
  "newest [] = None"
| "newest (g # gs) =
     (case newest gs of
        None \<Rightarrow> Some g
      | Some h \<Rightarrow> if gn_seq h > gn_seq g then Some h else Some g)"

definition retire_cancelled :: "source_key \<Rightarrow> time \<Rightarrow> control_db \<Rightarrow> control_db" where
  "retire_cancelled k now J =
     J\<lparr>d_generations := update_where
         (\<lambda>g. gn_source g = k \<and> resumable g \<and>
              list_ex (\<lambda>r. rn_id r = gn_run g \<and> rn_cancel_requested r) (d_runs J))
         (cancel_generation now) (d_generations J)\<rparr>"

definition take_over :: "string \<Rightarrow> string \<Rightarrow> int \<Rightarrow> generation_row \<Rightarrow> generation_row" where
  "take_over run owner epoch g =
     g\<lparr>gn_run := run, gn_owner := owner, gn_lease := epoch,
       gn_state := (if gn_state g = Yielded then Capturing else gn_state g)\<rparr>"

definition last_sequence :: "control_db \<Rightarrow> source_key \<Rightarrow> int" where
  "last_sequence J k = (case map_of (d_sequences J) k of None \<Rightarrow> 0 | Some n \<Rightarrow> n)"

definition next_sequence :: "source_key \<Rightarrow> control_db \<Rightarrow> int \<times> control_db" where
  "next_sequence k J =
     (case map_of (d_sequences J) k of
        None \<Rightarrow> (1, J\<lparr>d_sequences := d_sequences J @ [(k, 1)]\<rparr>)
      | Some n \<Rightarrow> (n + 1, J\<lparr>d_sequences := update_where (\<lambda>e. fst e = k) (\<lambda>e. (k, snd e + 1)) (d_sequences J)\<rparr>))"

definition new_generation ::
  "sync_job \<Rightarrow> string \<Rightarrow> string \<Rightarrow> int \<Rightarrow> string \<Rightarrow> string \<Rightarrow> int \<Rightarrow> time \<Rightarrow> generation_row" where
  "new_generation job digest uuid q run owner epoch now =
     \<lparr>gn_source = job_source job, gn_sync = jb_SyncID job, gn_generation = uuid, gn_seq = q,
      gn_binding = digest, gn_state = Capturing, gn_key = '''', gn_next = 0, gn_rows = 0,
      gn_started_at = now, gn_finished_at = None, gn_terminal_at = None, gn_run = run,
      gn_owner = owner, gn_lease = epoch, gn_sync_revision = jb_SyncRevision job,
      gn_source_revision = jb_SourceRevision job\<rparr>"

text \<open>The primary key, the sequence of a source, and one resumable generation of a source.\<close>

definition insert_generation :: "generation_row \<Rightarrow> control_db \<Rightarrow> control_error + control_db" where
  "insert_generation g J =
     (if gn_seq g \<le> 0 then Inl CheckViolation
      else if list_ex (\<lambda>h. gn_source h = gn_source g \<and>
           (gn_generation h = gn_generation g \<or> gn_seq h = gn_seq g \<or> resumable h \<and> resumable g)) (d_generations J)
      then Inl UniqueViolation
      else Inr (J\<lparr>d_generations := d_generations J @ [g]\<rparr>))"

definition job_current :: "sync_job \<Rightarrow> control_db \<Rightarrow> control_error + unit" where
  "job_current job J =
     (case find (\<lambda>s. cs_id s = jb_SyncID job \<and> cs_project s = jb_ProjectID job \<and>
             cs_connector s = jb_ConnectorID job) (d_syncs J) of
        None \<Rightarrow> Inl NoRows
      | Some s \<Rightarrow>
     (case find (\<lambda>d. dc_id d = cs_connector s) (d_connectors J) of
        None \<Rightarrow> Inl NoRows
      | Some d \<Rightarrow>
          if cs_config_revision s \<noteq> jb_SyncRevision job \<or> dc_source_revision d \<noteq> jb_SourceRevision job
          then Inl (Rejected ''snapshot job configuration is stale; enqueue a new run'')
          else Inr ()))"

definition ClaimSnapshotGeneration ::
  "sync_job \<Rightarrow> string \<Rightarrow> string \<Rightarrow> int \<Rightarrow> string \<Rightarrow> time \<Rightarrow> control_db \<Rightarrow>
     control_error + generation_row \<times> control_db" where
  "ClaimSnapshotGeneration job run owner epoch uuid now J =
     (case jb_BindingDigest job of
        None \<Rightarrow> Inl (Rejected ''snapshot source binding is unavailable'')
      | Some digest \<Rightarrow>
      if jb_SyncMode job \<noteq> ''snapshot'' then Inl (Rejected ''snapshot source binding is unavailable'')
      else
        res_bind (job_current job J) (\<lambda>_.
        res_bind (requireSnapshotRunFence run (jb_SyncID job) owner epoch now J) (\<lambda>_.
          let k = job_source job; J1 = retire_cancelled k now J
          in case newest (filter (claimable J1 k) (d_generations J1)) of
               Some g \<Rightarrow>
                 if gn_sync g \<noteq> jb_SyncID job \<or> gn_state g \<noteq> Sealed \<and>
                    (gn_binding g \<noteq> digest \<or> gn_sync_revision g \<noteq> jb_SyncRevision job \<or>
                     gn_source_revision g \<noteq> jb_SourceRevision job)
                 then Inl (Rejected ''live snapshot generation binding changed; cancel it before reconfiguration'')
                 else Inr (take_over run owner epoch g,
                   J1\<lparr>d_generations := update_where (\<lambda>h. gn_generation h = gn_generation g)
                         (take_over run owner epoch) (d_generations J1)\<rparr>)
             | None \<Rightarrow>
                 (let (q, J2) = next_sequence k J1; g = new_generation job digest uuid q run owner epoch now
                  in res_bind (insert_generation g J2) (\<lambda>J3. Inr (g, J3))))))"

section \<open>The outbox\<close>

text \<open>A batch sorts before the completion.\<close>

definition outbox_order :: "outbox_row \<Rightarrow> int \<times> bool" where
  "outbox_order o1 = (ox_index o1, ox_kind o1 = SnapshotKindComplete)"

definition PendingSnapshotOutbox :: "generation_row \<Rightarrow> control_db \<Rightarrow> outbox_row list" where
  "PendingSnapshotOutbox g J =
     sort_key outbox_order (filter (\<lambda>o1. ox_generation o1 = gn_generation g \<and> \<not> ox_published o1) (d_outbox J))"

definition same_slot :: "outbox_row \<Rightarrow> outbox_row \<Rightarrow> bool" where
  "same_slot o1 o2 \<longleftrightarrow> (ox_source o1, ox_generation o1, ox_kind o1) = (ox_source o2, ox_generation o2, ox_kind o2)"

text \<open>\<open>INSERT ... ON CONFLICT\<close> on the batch identity \<open>DO UPDATE\<close> nothing \<open>RETURNING\<close> the row: the
  stored row when there is one, a conflict on the batch index is an error.\<close>

definition insert_outbox :: "outbox_row \<Rightarrow> control_db \<Rightarrow> control_error + outbox_row \<times> control_db" where
  "insert_outbox o1 J =
     (if ox_index o1 < 0 \<or> ox_rows o1 < 0 \<or> ox_kind o1 \<noteq> SnapshotKindBatch \<and> ox_kind o1 \<noteq> SnapshotKindComplete
      then Inl CheckViolation
      else case find (\<lambda>o2. same_slot o2 o1 \<and> ox_batch_id o2 = ox_batch_id o1) (d_outbox J) of
        Some o2 \<Rightarrow> Inr (o2, J)
      | None \<Rightarrow>
          if list_ex (\<lambda>o2. ox_id o2 = ox_id o1 \<or> same_slot o2 o1 \<and> ox_index o2 = ox_index o1) (d_outbox J)
          then Inl UniqueViolation
          else Inr (o1, J\<lparr>d_outbox := d_outbox J @ [o1]\<rparr>))"

definition batch_item :: "string \<Rightarrow> generation_row \<Rightarrow> snapshot_envelope \<Rightarrow> string \<Rightarrow> string \<Rightarrow> string \<Rightarrow> outbox_row" where
  "batch_item uuid g env payload lower upper =
     \<lparr>ox_id = uuid, ox_source = gn_source g, ox_generation = gn_generation g,
      ox_batch_id = (if n_Kind env = SnapshotKindComplete then ''complete'' else n_BatchID env),
      ox_index = n_BatchIndex env, ox_kind = n_Kind env, ox_payload = payload,
      ox_sha256 = n_PayloadSHA256 env, ox_lower = lower, ox_upper = upper,
      ox_rows = int (length (n_Rows env)), ox_published = False\<rparr>"

text \<open>\<open>g\<close> is the generation as the caller read it, not the row of the table.\<close>

definition PrepareSnapshotEnvelope ::
  "snap_lib \<Rightarrow> json_lib \<Rightarrow> generation_row \<Rightarrow> snapshot_envelope \<Rightarrow> string \<Rightarrow> string \<Rightarrow> string \<Rightarrow> time \<Rightarrow>
     control_db \<Rightarrow> control_error + outbox_row \<times> control_db" where
  "PrepareSnapshotEnvelope slib jl g env lower upper uuid now J =
     (case MarshalSnapshotEnvelope slib jl env of
        Inl err \<Rightarrow> Inl (EnvelopeInvalid err)
      | Inr payload \<Rightarrow>
      if n_Generation env \<noteq> gn_generation g \<or> n_GenerationSeq env \<noteq> gn_seq g \<or> n_BindingDigest env \<noteq> gn_binding g
      then Inl (Rejected ''snapshot envelope identity does not match claimed generation'')
      else
        res_bind (generation_fence g now J) (\<lambda>_.
          if gn_state g \<noteq> Capturing then Inl (Rejected ''snapshot generation is not capturing'')
          else res_bind (insert_outbox (batch_item uuid g env payload lower upper) J) (\<lambda>(out, J').
            if ox_payload out \<noteq> payload \<or> ox_lower out \<noteq> lower \<or> ox_upper out \<noteq> upper
            then Inl (Rejected ''snapshot outbox identity conflicts with immutable payload'')
            else Inr (out, J'))))"

definition completion_item :: "string \<Rightarrow> generation_row \<Rightarrow> snapshot_envelope \<Rightarrow> string \<Rightarrow> outbox_row" where
  "completion_item uuid g env payload =
     \<lparr>ox_id = uuid, ox_source = gn_source g, ox_generation = gn_generation g, ox_batch_id = ''complete'',
      ox_index = n_ExpectedBatches env, ox_kind = SnapshotKindComplete, ox_payload = payload,
      ox_sha256 = '''', ox_lower = '''', ox_upper = '''', ox_rows = 0, ox_published = False\<rparr>"

section \<open>The seal and the other ends of a generation\<close>

definition held_by :: "generation_row \<Rightarrow> generation_row \<Rightarrow> bool" where
  "held_by g h \<longleftrightarrow> gn_generation h = gn_generation g \<and> gn_run h = gn_run g \<and> gn_owner h = gn_owner g \<and>
     gn_lease h = gn_lease g"

definition seal_row :: "time option \<Rightarrow> time \<Rightarrow> generation_row \<Rightarrow> generation_row" where
  "seal_row finished now g =
     g\<lparr>gn_state := Sealed, gn_finished_at := finished, gn_terminal_at := Some now\<rparr>"

definition succeed_row :: "int \<Rightarrow> time \<Rightarrow> run_row \<Rightarrow> run_row" where
  "succeed_row rows now r =
     r\<lparr>rn_status := Succeeded, rn_rows := rows, rn_error := '''', rn_finished_at := Some now\<rparr>"

definition seal_sync :: "int \<Rightarrow> time \<Rightarrow> sync_row \<Rightarrow> sync_row" where
  "seal_sync rows now s =
     s\<lparr>cs_last_run_at := Some now, cs_last_status := ''ok'', cs_last_error := '''', cs_last_rows := rows,
       cs_last_success_at := Some now, cs_total_rows := cs_total_rows s + rows,
       cs_revision := cs_revision s + 1\<rparr>"

text \<open>The completion, the seal and the success of the run are one transaction.\<close>

definition SealSnapshotGeneration ::
  "snap_lib \<Rightarrow> json_lib \<Rightarrow> generation_row \<Rightarrow> snapshot_envelope \<Rightarrow> int \<Rightarrow> string \<Rightarrow> time \<Rightarrow>
     control_db \<Rightarrow> control_error + outbox_row \<times> control_db" where
  "SealSnapshotGeneration slib jl g env rows uuid now J =
     (if n_Kind env \<noteq> SnapshotKindComplete then Inl (Rejected ''snapshot seal requires completion envelope'')
      else case MarshalSnapshotEnvelope slib jl env of
        Inl err \<Rightarrow> Inl (EnvelopeInvalid err)
      | Inr payload \<Rightarrow>
        res_bind (generation_fence g now J) (\<lambda>_.
        res_bind (insert_outbox (completion_item uuid g env payload) J) (\<lambda>(out, J1).
          if ox_payload out \<noteq> payload then Inl (Rejected ''snapshot completion conflicts with immutable payload'')
          else
            let open = (\<lambda>h. held_by g h \<and> gn_state h = Capturing);
                live = (\<lambda>r. rn_id r = gn_run g \<and> rn_status r = Running \<and> rn_owner r = gn_owner g \<and>
                   rn_lease_epoch r = gn_lease g \<and> \<not> rn_cancel_requested r)
            in if affected open (d_generations J1) \<noteq> 1
               then Inl (Rejected ''snapshot generation could not be sealed'')
               else if affected live (d_runs J1) \<noteq> 1
               then Inl (Rejected ''snapshot run could not be finalized with its seal'')
               else Inr (out, J1\<lparr>
                 d_generations := update_where open (seal_row (n_CaptureFinishedAt env) now) (d_generations J1),
                 d_runs := update_where live (succeed_row rows now) (d_runs J1),
                 d_syncs := update_where (\<lambda>s. cs_id s = gn_sync g) (seal_sync rows now) (d_syncs J1)\<rparr>))))"

text \<open>A publication is recorded once; the cursor of the generation only moves forward.\<close>

definition advance_generation :: "outbox_row \<Rightarrow> int \<Rightarrow> generation_row \<Rightarrow> generation_row" where
  "advance_generation o1 idx g =
     g\<lparr>gn_key := ox_upper o1, gn_next := max (gn_next g) (idx + 1), gn_rows := gn_rows g + ox_rows o1\<rparr>"

definition MarkSnapshotOutboxPublished ::
  "generation_row \<Rightarrow> outbox_row \<Rightarrow> control_db \<Rightarrow> control_error + control_db" where
  "MarkSnapshotOutboxPublished g item J =
     (case find (\<lambda>o1. ox_id o1 = ox_id item) (d_outbox J) of
        None \<Rightarrow> Inl NoRows
      | Some o1 \<Rightarrow>
          if ox_published o1 then Inr J
          else (let J1 = J\<lparr>d_outbox := update_where (\<lambda>o2. ox_id o2 = ox_id item)
                      (\<lambda>o2. o2\<lparr>ox_published := True\<rparr>) (d_outbox J)\<rparr>
                in if ox_kind o1 = SnapshotKindBatch
                   then Inr (J1\<lparr>d_generations := update_where
                          (\<lambda>h. gn_generation h = gn_generation g \<and> gn_next h \<le> ox_index item + 1)
                          (advance_generation o1 (ox_index item)) (d_generations J1)\<rparr>)
                   else Inr J1))"

definition YieldSnapshotGeneration :: "generation_row \<Rightarrow> time \<Rightarrow> control_db \<Rightarrow> control_error + control_db" where
  "YieldSnapshotGeneration g now J =
     res_bind (generation_fence g now J) (\<lambda>_.
       let open = (\<lambda>h. held_by g h \<and> gn_state h = Capturing)
       in if affected open (d_generations J) \<noteq> 1
          then Inl (Rejected ''snapshot generation could not yield'')
          else Inr (J\<lparr>d_generations := update_where open (\<lambda>h. h\<lparr>gn_state := Yielded\<rparr>) (d_generations J)\<rparr>))"

definition entry_of_item :: "outbox_row \<Rightarrow> manifest_entry" where
  "entry_of_item o1 = \<lparr>t_Index = ox_index o1, t_BatchID = ox_batch_id o1, t_PayloadSHA256 = ox_sha256 o1,
     t_RowCount = ox_rows o1\<rparr>"

definition published_batches :: "string \<Rightarrow> control_db \<Rightarrow> outbox_row list" where
  "published_batches generation J =
     sort_key ox_index (filter (\<lambda>o1. ox_generation o1 = generation \<and> ox_kind o1 = SnapshotKindBatch \<and>
        ox_published o1) (d_outbox J))"

definition SnapshotManifest :: "string \<Rightarrow> control_db \<Rightarrow> manifest_entry list \<times> int" where
  "SnapshotManifest generation J =
     (let items = published_batches generation J in (map entry_of_item items, sum_list (map ox_rows items)))"

definition SnapshotGeneration :: "string \<Rightarrow> control_db \<Rightarrow> control_error + generation_row" where
  "SnapshotGeneration generation J =
     (case find (\<lambda>g. gn_generation g = generation) (d_generations J) of
        None \<Rightarrow> Inl NoRows
      | Some g \<Rightarrow> Inr g)"

definition FailSnapshotGeneration :: "generation_row \<Rightarrow> time \<Rightarrow> control_db \<Rightarrow> control_error + control_db" where
  "FailSnapshotGeneration g now J =
     res_bind (generation_fence g now J) (\<lambda>_.
       let open = (\<lambda>h. held_by g h \<and> resumable h)
       in if affected open (d_generations J) = 0
          then Inl (Rejected ''snapshot generation failure was fenced'')
          else Inr (J\<lparr>d_generations := update_where open
             (\<lambda>h. h\<lparr>gn_state := GenFailed, gn_terminal_at := Some now\<rparr>) (d_generations J)\<rparr>))"

definition CancelSnapshotGeneration :: "string \<Rightarrow> string \<Rightarrow> int \<Rightarrow> time \<Rightarrow> control_db \<Rightarrow> control_db" where
  "CancelSnapshotGeneration run owner epoch now J =
     J\<lparr>d_generations := update_where
         (\<lambda>h. gn_run h = run \<and> gn_owner h = owner \<and> gn_lease h = epoch \<and> resumable h)
         (cancel_generation now) (d_generations J)\<rparr>"


end
