(* ===== verification/Control.thy ===== *)
theory Control
  imports Generations
begin

text \<open>
  The control plane as a whole: every operation on the control tables, in any order and by any
  number of processes, each a transaction. What follows are the laws of the durable
  runs (one active run of a sync, a key bound to one run for good, a run claimed once, terminal
  rows never rewritten) and of the generation journal (sequences only grow, one resumable
  generation of a source, terminal states are final, a seal excludes a cancellation).
\<close>

section \<open>Operations\<close>

datatype control_op =
    OpEnqueue string string string string time
  | OpClaimRun string string time
  | OpFinish string string string sync_result bool time
  | OpHeartbeat string time
  | OpCancel string string time
  | OpReconcile time time
  | OpSetEnabled string string bool int
  | OpArchive string string int time
  | OpUnarchive string string int
  | OpConfigure "sync_row list" "connector_row list"
  | OpClaimGen sync_job string string int string time
  | OpPrepare generation_row snapshot_envelope string string string time
  | OpSeal generation_row snapshot_envelope int string time
  | OpMark generation_row outbox_row
  | OpYield generation_row time
  | OpFail generation_row time
  | OpCancelGen string string int time
  | OpRetire string string time

text \<open>A failed transaction is rolled back.\<close>

definition kept :: "control_db \<Rightarrow> control_error + 'a \<times> control_db \<Rightarrow> control_db" where
  "kept J r = (case r of Inl _ \<Rightarrow> J | Inr (_, J') \<Rightarrow> J')"

definition kept_state :: "control_db \<Rightarrow> control_error + control_db \<Rightarrow> control_db" where
  "kept_state J r = (case r of Inl _ \<Rightarrow> J | Inr J' \<Rightarrow> J')"

text \<open>The cleanup of a generation that has nothing left on a store: its outbox rows go, and the
  store's receipt is written (\<open>DeleteEligibleStagingChunk\<close>).\<close>

definition retire_outbox :: "string \<Rightarrow> string \<Rightarrow> time \<Rightarrow> control_db \<Rightarrow> control_db" where
  "retire_outbox generation store now J =
     J\<lparr>d_outbox := filter (\<lambda>o1. ox_generation o1 \<noteq> generation) (d_outbox J),
       d_cleaned := filter (\<lambda>c. fst c \<noteq> (generation, store)) (d_cleaned J) @ [((generation, store), now)]\<rparr>"

fun control_exec :: "snap_lib \<Rightarrow> json_lib \<Rightarrow> control_op \<Rightarrow> control_db \<Rightarrow> control_db" where
  "control_exec slib jl (OpEnqueue project sync key uuid now) J = kept J (EnqueueConnectorRun project sync key uuid now J)"
| "control_exec slib jl (OpClaimRun run owner now) J = snd (ClaimConnectorRun run owner now J)"
| "control_exec slib jl (OpFinish run sync owner res cancelled now) J =
     kept_state J (FinishConnectorRun run sync owner res cancelled now J)"
| "control_exec slib jl (OpHeartbeat run now) J = snd (HeartbeatConnectorRun run now J)"
| "control_exec slib jl (OpCancel project run now) J = kept J (CancelConnectorRun project run now J)"
| "control_exec slib jl (OpReconcile before now) J = snd (ReconcileConnectorRuns before now J)"
| "control_exec slib jl (OpSetEnabled project sync enabled revision) J =
     kept J (setConnectorSyncEnabled project sync enabled revision J)"
| "control_exec slib jl (OpArchive project conn revision now) J = kept J (archiveDataConnector project conn revision now J)"
| "control_exec slib jl (OpUnarchive project conn revision) J = kept J (unarchiveDataConnector project conn revision J)"
| "control_exec slib jl (OpConfigure ss ds) J = J\<lparr>d_syncs := ss, d_connectors := ds\<rparr>"
| "control_exec slib jl (OpClaimGen job run owner epoch uuid now) J =
     kept J (ClaimSnapshotGeneration job run owner epoch uuid now J)"
| "control_exec slib jl (OpPrepare g env lower upper uuid now) J =
     kept J (PrepareSnapshotEnvelope slib jl g env lower upper uuid now J)"
| "control_exec slib jl (OpSeal g env rows uuid now) J = kept J (SealSnapshotGeneration slib jl g env rows uuid now J)"
| "control_exec slib jl (OpMark g item) J = kept_state J (MarkSnapshotOutboxPublished g item J)"
| "control_exec slib jl (OpYield g now) J = kept_state J (YieldSnapshotGeneration g now J)"
| "control_exec slib jl (OpFail g now) J = kept_state J (FailSnapshotGeneration g now J)"
| "control_exec slib jl (OpCancelGen run owner epoch now) J = CancelSnapshotGeneration run owner epoch now J"
| "control_exec slib jl (OpRetire generation store now) J = retire_outbox generation store now J"

text \<open>A new generation takes an identifier no generation has (\<open>uuid.NewString\<close>), and the engine
  prepares batches only: a completion is written by the seal.\<close>

fun admissible :: "control_op \<Rightarrow> control_db \<Rightarrow> bool" where
  "admissible (OpClaimGen job run owner epoch uuid now) J = (\<not> list_ex (\<lambda>g. gn_generation g = uuid) (d_generations J))"
| "admissible (OpPrepare g env lower upper uuid now) J = (n_Kind env = SnapshotKindBatch)"
| "admissible op J = True"

inductive control_step :: "snap_lib \<Rightarrow> json_lib \<Rightarrow> control_db \<Rightarrow> control_db \<Rightarrow> bool" for slib jl where
  op: "admissible op J \<Longrightarrow> control_step slib jl J (control_exec slib jl op J)"

abbreviation control_steps :: "snap_lib \<Rightarrow> json_lib \<Rightarrow> control_db \<Rightarrow> control_db \<Rightarrow> bool" where
  "control_steps slib jl \<equiv> (control_step slib jl)\<^sup>*\<^sup>*"

definition empty_control :: control_db where
  "empty_control = \<lparr>d_connectors = [], d_syncs = [], d_runs = [], d_run_keys = [], d_generations = [],
     d_sequences = [], d_outbox = [], d_cleaned = []\<rparr>"

section \<open>How the rows of the runs move\<close>

definition run_ident :: "run_row \<Rightarrow> string \<times> string \<times> string \<times> string \<times> string" where
  "run_ident r = (rn_id r, rn_project r, rn_sync r, rn_connector r, rn_key r)"

definition run_moves :: "run_row \<Rightarrow> run_row \<Rightarrow> bool" where
  "run_moves r r' \<longleftrightarrow> run_ident r' = run_ident r \<and>
     (active_run r' \<longrightarrow> active_run r) \<and> (\<not> active_run r \<longrightarrow> r' = r) \<and>
     (rn_cancel_requested r \<longrightarrow> rn_cancel_requested r' \<and> (active_run r \<longrightarrow> rn_status r' \<noteq> Succeeded)) \<and>
     (if rn_status r = Queued \<and> rn_status r' = Running
      then \<not> rn_cancel_requested r \<and> rn_lease_epoch r' = rn_lease_epoch r + 1
      else rn_lease_epoch r' = rn_lease_epoch r \<and> rn_owner r' = rn_owner r \<and>
           (rn_status r = Running \<longrightarrow> rn_status r' \<noteq> Queued))"

definition runs_move :: "control_db \<Rightarrow> control_db \<Rightarrow> bool" where
  "runs_move J J' \<longleftrightarrow> (\<exists>f new. d_runs J' = map f (d_runs J) @ new \<and> (\<forall>r. run_moves r (f r)) \<and>
     (new = [] \<or> (\<exists>r. new = [r] \<and> insert_run r J = Inr (J\<lparr>d_runs := d_runs J @ [r]\<rparr>) \<and>
        rn_status r = Queued \<and> rn_lease_epoch r = 0)))"

lemma run_moves_refl [simp]: "run_moves r r"
  by (auto simp: run_moves_def active_run_def)

lemma update_where_simps [simp]:
  "update_where P f [] = []"
  "update_where P f (x # xs) = (if P x then f x else x) # update_where P f xs"
  "length (update_where P f xs) = length xs"
  by (simp_all add: update_where_def)

lemma update_where_none [simp]: "find P xs = None \<Longrightarrow> update_where P f xs = xs"
  by (induction xs) (auto split: if_splits)

lemma set_update_where: "set (update_where P f xs) = (\<lambda>x. if P x then f x else x) ` set xs"
  by (simp add: update_where_def)

lemma runs_move_same: "d_runs J' = d_runs J \<Longrightarrow> runs_move J J'"
  unfolding runs_move_def by (rule exI [of _ "\<lambda>r. r"]) auto

lemma runs_move_update:
  "d_runs J' = update_where P f (d_runs J) \<Longrightarrow> (\<And>r. P r \<Longrightarrow> run_moves r (f r)) \<Longrightarrow> runs_move J J'"
  unfolding runs_move_def by (rule exI [of _ "\<lambda>r. if P r then f r else r"]) (auto simp: update_where_def)

lemma runs_move_either:
  "d_runs J' = d_runs J \<or> d_runs J' = update_where P f (d_runs J) \<Longrightarrow> (\<And>r. P r \<Longrightarrow> run_moves r (f r)) \<Longrightarrow> runs_move J J'"
  by (auto intro: runs_move_same runs_move_update)

lemma retire_cancelled_tables [simp]:
  "d_runs (retire_cancelled k now J) = d_runs J" "d_outbox (retire_cancelled k now J) = d_outbox J"
  "d_sequences (retire_cancelled k now J) = d_sequences J" "d_run_keys (retire_cancelled k now J) = d_run_keys J"
  "d_syncs (retire_cancelled k now J) = d_syncs J" "d_connectors (retire_cancelled k now J) = d_connectors J"
  by (simp_all add: retire_cancelled_def)

lemma next_sequence_tables [simp]:
  "d_runs (snd (next_sequence k J)) = d_runs J" "d_outbox (snd (next_sequence k J)) = d_outbox J"
  "d_generations (snd (next_sequence k J)) = d_generations J" "d_run_keys (snd (next_sequence k J)) = d_run_keys J"
  by (simp_all add: next_sequence_def split: option.splits)

lemma insert_outbox_tables:
  assumes "insert_outbox o1 J = Inr (out, J')"
  shows "d_runs J' = d_runs J \<and> d_generations J' = d_generations J \<and> d_sequences J' = d_sequences J \<and>
    d_run_keys J' = d_run_keys J \<and> d_syncs J' = d_syncs J \<and> d_connectors J' = d_connectors J"
  using assms by (auto simp: insert_outbox_def split: if_splits option.splits)

lemma insert_generation_result:
  assumes "insert_generation g J = Inr J'"
  shows "J' = J\<lparr>d_generations := d_generations J @ [g]\<rparr>"
  using assms by (simp add: insert_generation_def split: if_splits)

lemma find_SomeD: "find P xs = Some x \<Longrightarrow> x \<in> set xs \<and> P x"
  by (induction xs) (auto split: if_splits)

text \<open>The three answers of an enqueue.\<close>

lemma enqueue_result:
  assumes "EnqueueConnectorRun project sync key uuid now J = Inr ((r, e), J')"
  obtains (known) "key \<noteq> ''''" "connectorRunByKey project sync key J = Some r" "\<not> e" "J' = J"
  | (busy) "r \<in> set (d_runs J)" "active_run r" "rn_sync r = sync" "rn_project r = project" "\<not> e"
      "key = '''' \<or> connectorRunByKey project sync key J = None"
      "J' = (if key = '''' then J else bind_key project sync key (rn_id r) J)"
  | (new) conn where "r = new_run uuid project sync conn key now" "e" "insert_run r J = Inr J'"
      "key = '''' \<or> connectorRunByKey project sync key J = None"
proof -
  let ?known = "if key = '''' then None else connectorRunByKey project sync key J"
  let ?act = "find (\<lambda>r. rn_sync r = sync \<and> rn_project r = project \<and> active_run r) (d_runs J)"
  obtain s d where *: "admit_run project sync key uuid now s d J = Inr ((r, e), J')"
    using assms by (auto simp: EnqueueConnectorRun_def split: option.splits)
  show thesis
  proof (cases ?known)
    case (Some x)
    with * show thesis by (intro known) (auto simp: admit_run_def split: if_splits)
  next
    case None
    then have k: "key = '''' \<or> connectorRunByKey project sync key J = None" by (simp split: if_splits)
    show thesis
    proof (cases ?act)
      case (Some a)
      with * None have "r = a" "\<not> e" "J' = (if key = '''' then J else bind_key project sync key (rn_id a) J)"
        by (simp_all add: admit_run_def)
      with find_SomeD [OF Some] k show thesis by (intro busy) simp_all
    next
      case none: None
      with * None k show thesis
        by (intro new [of "cs_connector s"]) (auto simp: admit_run_def Let_def split: if_splits)
    qed
  qed
qed

text \<open>What a successful claim does to the tables.\<close>

lemma claim_result:
  assumes "ClaimSnapshotGeneration job run owner epoch uuid now J = Inr (g, J')"
  obtains (taken) h where "newest (filter (claimable (retire_cancelled (job_source job) now J) (job_source job))
        (d_generations (retire_cancelled (job_source job) now J))) = Some h" "g = take_over run owner epoch h"
      "J' = (retire_cancelled (job_source job) now J)\<lparr>d_generations := update_where (\<lambda>x. gn_generation x = gn_generation h)
        (take_over run owner epoch) (d_generations (retire_cancelled (job_source job) now J))\<rparr>"
      "gn_sync h = jb_SyncID job"
  | (fresh) digest q J2 where "next_sequence (job_source job) (retire_cancelled (job_source job) now J) = (q, J2)"
      "g = new_generation job digest uuid q run owner epoch now" "jb_BindingDigest job = Some digest"
      "insert_generation g J2 = Inr J'"
      "newest (filter (claimable (retire_cancelled (job_source job) now J) (job_source job))
        (d_generations (retire_cancelled (job_source job) now J))) = None"
  using assms unfolding ClaimSnapshotGeneration_def
  by (auto simp: Let_def split: option.splits if_splits prod.splits)

lemma run_moves_claim: "rn_status r = Queued \<Longrightarrow> \<not> rn_cancel_requested r \<Longrightarrow> run_moves r (claim_row owner now r)"
  by (simp add: run_moves_def claim_row_def run_ident_def active_run_def)

lemma run_moves_finish: "rn_status r = Running \<Longrightarrow> st \<noteq> Queued \<Longrightarrow> st \<noteq> Running \<Longrightarrow> run_moves r (finish_row st err res now r)"
  by (auto simp add: run_moves_def finish_row_def run_ident_def active_run_def)

lemma run_moves_cancel: "active_run r \<Longrightarrow> run_moves r (cancel_row now r)"
  by (auto simp: run_moves_def cancel_row_def run_ident_def active_run_def)

lemma finish_status_terminal: "finish_status c res = (st, err) \<Longrightarrow> st \<noteq> Queued \<and> st \<noteq> Running"
  by (auto simp: finish_status_def split: if_splits)

lemma insert_run_result: "insert_run r J = Inr J' \<Longrightarrow> J' = J\<lparr>d_runs := d_runs J @ [r]\<rparr>"
  by (simp add: insert_run_def split: if_splits)

lemma runs_move_enqueue:
  assumes "EnqueueConnectorRun project sync key uuid now J = Inr ((r, e), J')" shows "runs_move J J'"
  using assms
proof (cases rule: enqueue_result)
  case (new conn)
  with insert_run_result [OF new(3)] show ?thesis unfolding runs_move_def
    by (intro exI [of _ "\<lambda>r. r"] exI [of _ "[r]"]) (auto simp: new_run_def)
qed (auto intro!: runs_move_same simp: bind_key_def)

lemma runs_move_claim: "runs_move J (snd (ClaimConnectorRun run owner now J))"
proof -
  let ?claimable = "\<lambda>r. rn_id r = run \<and> rn_status r = Queued \<and> \<not> rn_cancel_requested r"
  consider "snd (ClaimConnectorRun run owner now J) = J"
    | "d_runs (snd (ClaimConnectorRun run owner now J)) = update_where ?claimable (claim_row owner now) (d_runs J)"
    | "d_runs (snd (ClaimConnectorRun run owner now J)) = update_where (\<lambda>r. rn_id r = run \<and> rn_status r = Queued)
                     (\<lambda>r. r\<lparr>rn_status := Cancelled, rn_finished_at := Some now\<rparr>) (d_runs J)"
    by (cases "find ?claimable (d_runs J)"; cases "list_ex (\<lambda>r. rn_id r = run \<and> rn_status r = Queued \<and> rn_cancel_requested r) (d_runs J)")
       (simp_all add: ClaimConnectorRun_def Let_def)
  then show ?thesis
  proof cases
    case 1
    then show ?thesis by (simp add: runs_move_same)
  next
    case 2
    then show ?thesis by (rule runs_move_update) (simp add: run_moves_claim)
  next
    case 3
    then show ?thesis by (rule runs_move_update) (simp add: run_moves_def run_ident_def active_run_def)
  qed
qed

lemma runs_move_finish:
  assumes "FinishConnectorRun run sync owner res cancelled now J = Inr J'" shows "runs_move J J'"
proof -
  obtain st err where st: "finish_status cancelled res = (st, err)" by fastforce
  then have t: "st \<noteq> Queued" "st \<noteq> Running" using finish_status_terminal by blast+
  have "d_runs J' = update_where (\<lambda>r. rn_id r = run \<and> rn_status r = Running \<and> rn_owner r = owner)
     (finish_row st err res now) (d_runs J)"
    using assms by (auto simp: FinishConnectorRun_def st Let_def split: if_splits option.splits)
  then show ?thesis by (rule runs_move_update) (use t in \<open>simp add: run_moves_finish\<close>)
qed

lemma runs_move_seal:
  assumes "SealSnapshotGeneration slib jl g env rows uuid now J = Inr (out, J')" shows "runs_move J J'"
proof -
  have "d_runs J' = update_where (\<lambda>r. rn_id r = gn_run g \<and> rn_status r = Running \<and> rn_owner r = gn_owner g \<and>
      rn_lease_epoch r = gn_lease g \<and> \<not> rn_cancel_requested r) (succeed_row rows now) (d_runs J)"
    using assms by (auto simp: SealSnapshotGeneration_def Let_def dest: insert_outbox_tables
        split: if_splits sum.splits)
  then show ?thesis
    by (rule runs_move_update) (simp add: run_moves_def run_ident_def active_run_def succeed_row_def)
qed

lemma claim_runs: "ClaimSnapshotGeneration job run owner epoch uuid now J = Inr (g, J') \<Longrightarrow> d_runs J' = d_runs J"
  by (erule claim_result) (auto dest!: insert_generation_result simp: next_sequence_def split: option.splits)

lemma exec_runs_move: "runs_move J (control_exec slib jl op J)"
proof (cases op)
  case (OpEnqueue project sync key uuid now)
  then show ?thesis
    by (cases "EnqueueConnectorRun project sync key uuid now J") (auto simp: kept_def runs_move_same intro: runs_move_enqueue)
next
  case (OpFinish run sync owner res cancelled now)
  then show ?thesis
    by (cases "FinishConnectorRun run sync owner res cancelled now J")
       (auto simp: kept_state_def runs_move_same intro: runs_move_finish)
next
  case (OpCancel project run now)
  then show ?thesis
    by (intro runs_move_either [of _ _ "\<lambda>r. rn_id r = run \<and> rn_project r = project \<and> active_run r \<and>
          \<not> list_ex (\<lambda>g. gn_run g = rn_id r \<and> gn_state g = Sealed) (d_generations J)" "cancel_row now"])
       (auto simp: kept_def CancelConnectorRun_def Let_def run_moves_cancel split: option.splits)
next
  case (OpArchive project conn revision now)
  then show ?thesis
    by (intro runs_move_either [of _ _ "\<lambda>r. rn_connector r = conn \<and> rn_project r = project \<and> active_run r" "cancel_row now"])
       (auto simp: kept_def archiveDataConnector_def Let_def run_moves_cancel split: option.splits)
next
  case (OpReconcile before now)
  have "runs_move J (snd (ReconcileConnectorRuns before now J))"
    by (rule runs_move_update [of _ "stale_run before"])
       (auto simp: ReconcileConnectorRuns_def run_moves_def run_ident_def stale_run_def active_run_def)
  with OpReconcile show ?thesis by simp
next
  case (OpHeartbeat run now)
  then show ?thesis
    by (intro runs_move_either [of _ _ "\<lambda>r. rn_id r = run \<and> rn_status r = Running" "\<lambda>r. r\<lparr>rn_heartbeat_at := Some now\<rparr>"])
       (auto simp: HeartbeatConnectorRun_def Let_def run_moves_def run_ident_def active_run_def split: option.splits)
next
  case (OpSeal g env rows uuid now)
  then show ?thesis
    by (cases "SealSnapshotGeneration slib jl g env rows uuid now J")
       (auto simp: kept_def runs_move_same intro: runs_move_seal)
next
  case (OpClaimGen job run owner epoch uuid now)
  then show ?thesis
    by (cases "ClaimSnapshotGeneration job run owner epoch uuid now J")
       (auto simp: kept_def runs_move_same dest: claim_runs)
next
  case (OpPrepare g env lower upper uuid now)
  then show ?thesis
    by (auto intro!: runs_move_same simp: kept_def PrepareSnapshotEnvelope_def res_bind_def generation_fence_def
        dest!: insert_outbox_tables split: sum.splits if_splits)
qed (auto intro!: runs_move_same simp: kept_def kept_state_def setConnectorSyncEnabled_def unarchiveDataConnector_def
     Let_def MarkSnapshotOutboxPublished_def YieldSnapshotGeneration_def FailSnapshotGeneration_def
     CancelSnapshotGeneration_def retire_outbox_def res_bind_def runs_move_claim split: sum.splits if_splits option.splits)
section \<open>Durable runs\<close>

definition runs_wf :: "control_db \<Rightarrow> bool" where
  "runs_wf J \<longleftrightarrow> distinct (map rn_id (d_runs J)) \<and>
     (\<forall>r \<in> set (d_runs J). \<forall>r' \<in> set (d_runs J).
        active_run r \<longrightarrow> active_run r' \<longrightarrow> rn_sync r = rn_sync r' \<longrightarrow> r = r') \<and>
     (\<forall>r \<in> set (d_runs J). 0 \<le> rn_lease_epoch r \<and> rn_lease_epoch r \<le> 1 \<and>
        (rn_status r = Queued \<longrightarrow> rn_lease_epoch r = 0) \<and> (rn_status r = Running \<longrightarrow> rn_lease_epoch r = 1))"

lemma run_moves_ident: "run_moves r r' \<Longrightarrow> rn_id r' = rn_id r \<and> rn_project r' = rn_project r \<and>
    rn_sync r' = rn_sync r \<and> rn_connector r' = rn_connector r \<and> rn_key r' = rn_key r"
  by (simp add: run_moves_def run_ident_def)

lemma run_moves_epoch:
  assumes "run_moves r r'" "0 \<le> rn_lease_epoch r" "rn_lease_epoch r \<le> 1"
    "rn_status r = Queued \<longrightarrow> rn_lease_epoch r = 0" "rn_status r = Running \<longrightarrow> rn_lease_epoch r = 1"
  shows "0 \<le> rn_lease_epoch r' \<and> rn_lease_epoch r' \<le> 1 \<and>
    (rn_status r' = Queued \<longrightarrow> rn_lease_epoch r' = 0) \<and> (rn_status r' = Running \<longrightarrow> rn_lease_epoch r' = 1)"
  using assms by (auto simp: run_moves_def active_run_def split: if_splits)

lemma runs_wf_move:
  assumes "runs_move J J'" "runs_wf J"
  shows "runs_wf J'"
proof -
  obtain f new where d: "d_runs J' = map f (d_runs J) @ new" and f: "\<And>r. run_moves r (f r)"
    and new: "new = [] \<or> (\<exists>r. new = [r] \<and> insert_run r J = Inr (J\<lparr>d_runs := d_runs J @ [r]\<rparr>) \<and>
        rn_status r = Queued \<and> rn_lease_epoch r = 0)"
    using assms(1) unfolding runs_move_def by blast
  have id: "rn_id (f r) = rn_id r" "rn_sync (f r) = rn_sync r" for r using run_moves_ident [OF f] by simp_all
  have act: "active_run (f r) \<Longrightarrow> active_run r" for r using f [of r] by (simp add: run_moves_def)
  have ep: "r \<in> set (d_runs J) \<Longrightarrow> 0 \<le> rn_lease_epoch (f r) \<and> rn_lease_epoch (f r) \<le> 1 \<and>
      (rn_status (f r) = Queued \<longrightarrow> rn_lease_epoch (f r) = 0) \<and>
      (rn_status (f r) = Running \<longrightarrow> rn_lease_epoch (f r) = 1)" for r
    by (rule run_moves_epoch [OF f]) (use assms(2) in \<open>auto simp: runs_wf_def\<close>)
  have one: "r \<in> set (d_runs J) \<Longrightarrow> r' \<in> set (d_runs J) \<Longrightarrow> active_run (f r) \<Longrightarrow> active_run (f r') \<Longrightarrow>
      rn_sync r = rn_sync r' \<Longrightarrow> f r = f r'" for r r'
    using act assms(2) unfolding runs_wf_def by metis
  from new show ?thesis
  proof
    assume "new = []"
    then show ?thesis using assms(2) one ep by (auto simp: runs_wf_def d id comp_def)
  next
    assume "\<exists>r. new = [r] \<and> insert_run r J = Inr (J\<lparr>d_runs := d_runs J @ [r]\<rparr>) \<and>
        rn_status r = Queued \<and> rn_lease_epoch r = 0"
    then obtain n where n: "new = [n]" "rn_status n = Queued" "rn_lease_epoch n = 0"
      and c: "\<not> list_ex (\<lambda>x. rn_id x = rn_id n \<or> rn_sync x = rn_sync n \<and>
        (active_run x \<and> active_run n \<or> rn_key n \<noteq> '''' \<and> rn_key x = rn_key n)) (d_runs J)"
      by (auto simp: insert_run_def split: if_splits)
    have an: "active_run n" using n by (simp add: active_run_def)
    have fresh: "r \<in> set (d_runs J) \<Longrightarrow> rn_id r \<noteq> rn_id n \<and> (rn_sync r = rn_sync n \<longrightarrow> \<not> active_run (f r))" for r
      using c an act by (auto simp: list_ex_iff)
    then have nid: "rn_id n \<notin> rn_id ` set (d_runs J)" by force
    show ?thesis
      unfolding runs_wf_def
    proof (intro conjI ballI impI)
      show "distinct (map rn_id (d_runs J'))"
        using assms(2) nid by (auto simp: d n runs_wf_def id comp_def)
      fix r r' assume r: "r \<in> set (d_runs J')" "r' \<in> set (d_runs J')" "active_run r" "active_run r'" "rn_sync r = rn_sync r'"
      then show "r = r'"
        using one fresh by (auto simp: d n id)
    next
      fix r assume "r \<in> set (d_runs J')"
      then show "0 \<le> rn_lease_epoch r" "rn_lease_epoch r \<le> 1" "rn_status r = Queued \<Longrightarrow> rn_lease_epoch r = 0"
        "rn_status r = Running \<Longrightarrow> rn_lease_epoch r = 1"
        using ep n by (auto simp: d)
    qed
  qed
qed

lemma step_runs_move: "control_step slib jl J J' \<Longrightarrow> runs_move J J'"
  by (erule control_step.cases) (simp add: exec_runs_move)

lemma runs_wf_step: "control_step slib jl J J' \<Longrightarrow> runs_wf J \<Longrightarrow> runs_wf J'"
  by (rule runs_wf_move [OF step_runs_move])

lemma runs_wf_steps: "control_steps slib jl J J' \<Longrightarrow> runs_wf J \<Longrightarrow> runs_wf J'"
  by (induction rule: rtranclp_induct) (auto intro: runs_wf_step)

lemma runs_wf_empty: "runs_wf empty_control"
  by (simp add: runs_wf_def empty_control_def)

lemma runs_wf_reachable: "control_steps slib jl empty_control J \<Longrightarrow> runs_wf J"
  by (rule runs_wf_steps [OF _ runs_wf_empty])

text \<open>A row's later version.\<close>

lemma runs_move_row:
  assumes "runs_move J J'" "r \<in> set (d_runs J)"
  obtains r' where "r' \<in> set (d_runs J')" "run_moves r r'"
  using assms unfolding runs_move_def by (metis UnCI image_eqI set_append set_map)

lemma run_of_move:
  assumes "runs_move J J'" "run_of J i = Some r"
  obtains r' where "run_of J' i = Some r'" "run_moves r r'"
proof -
  obtain f new where d: "d_runs J' = map f (d_runs J) @ new" and f: "\<And>r. run_moves r (f r)"
    using assms(1) unfolding runs_move_def by blast
  have "find (\<lambda>r. rn_id r = i) (map f xs @ new) = Some (f r)"
    if "find (\<lambda>r. rn_id r = i) xs = Some r" for xs
    using that run_moves_ident [OF f] by (induction xs) (auto split: if_splits)
  then show thesis using assms(2) f by (intro that [of "f r"]) (auto simp: run_of_def d)
qed

lemma terminal_run_move: "run_moves r r' \<Longrightarrow> \<not> active_run r \<Longrightarrow> r' = r"
  by (simp add: run_moves_def)

lemma terminal_run_steps:
  "control_steps slib jl J J' \<Longrightarrow> run_of J i = Some r \<Longrightarrow> \<not> active_run r \<Longrightarrow> run_of J' i = Some r"
proof (induction rule: rtranclp_induct)
  case (step J1 J2)
  then have "run_of J1 i = Some r" by blast
  then obtain r2 where "run_of J2 i = Some r2" "run_moves r r2"
    by (rule run_of_move [OF step_runs_move [OF step(2)]])
  then show ?case using terminal_run_move step.prems(2) by simp
qed blast

text \<open>A claimed run stays with its owner.\<close>

definition claimed_by :: "string \<Rightarrow> run_row \<Rightarrow> bool" where
  "claimed_by owner r \<longleftrightarrow> rn_status r \<noteq> Queued \<and> rn_owner r = owner \<and> rn_lease_epoch r = 1"

lemma claimed_move: "run_moves r r' \<Longrightarrow> claimed_by owner r \<Longrightarrow> claimed_by owner r'"
  by (cases "rn_status r") (auto simp: run_moves_def claimed_by_def active_run_def split: if_splits)

lemma claimed_steps:
  "control_steps slib jl J J' \<Longrightarrow> run_of J i = Some r \<Longrightarrow> claimed_by owner r \<Longrightarrow>
     \<exists>r'. run_of J' i = Some r' \<and> claimed_by owner r'"
proof (induction rule: rtranclp_induct)
  case (step J1 J2)
  then obtain r1 where r1: "claimed_by owner r1" and o1: "run_of J1 i = Some r1" by blast
  from o1 obtain r2 where "run_of J2 i = Some r2" "run_moves r1 r2"
    by (rule run_of_move [OF step_runs_move [OF step(2)]])
  then show ?case using claimed_move r1 by blast
qed blast

text \<open>Only an enqueue adds a run or binds a key.\<close>

fun enqueues :: "control_op \<Rightarrow> bool" where
  "enqueues (OpEnqueue project sync key uuid now) = True"
| "enqueues op = False"

lemma exec_keys:
  assumes "\<not> enqueues op"
  shows "d_run_keys (control_exec slib jl op J) = d_run_keys J \<and>
    length (d_runs (control_exec slib jl op J)) = length (d_runs J)"
proof (cases op)
  case (OpFinish run sync owner res cancelled now)
  then show ?thesis by (auto simp: kept_state_def FinishConnectorRun_def Let_def split: sum.splits prod.splits if_splits option.splits)
next
  case (OpClaimGen job run owner epoch uuid now)
  then show ?thesis
    by (cases "ClaimSnapshotGeneration job run owner epoch uuid now J")
       (auto simp: kept_def next_sequence_def elim!: claim_result dest!: insert_generation_result split: option.splits)
next
  case (OpSeal g env rows uuid now)
  then show ?thesis
    by (auto simp: kept_def SealSnapshotGeneration_def Let_def dest!: insert_outbox_tables split: sum.splits if_splits)
next
  case (OpPrepare g env lower upper uuid now)
  then show ?thesis
    by (auto simp: kept_def PrepareSnapshotEnvelope_def dest!: insert_outbox_tables split: sum.splits if_splits)
qed (use assms in \<open>auto simp: kept_def kept_state_def ClaimConnectorRun_def HeartbeatConnectorRun_def CancelConnectorRun_def
     ReconcileConnectorRuns_def archiveDataConnector_def setConnectorSyncEnabled_def unarchiveDataConnector_def
     Let_def MarkSnapshotOutboxPublished_def YieldSnapshotGeneration_def FailSnapshotGeneration_def
     CancelSnapshotGeneration_def retire_outbox_def split: sum.splits if_splits option.splits\<close>)

lemma exec_runs_map:
  assumes "\<not> enqueues op"
  obtains f where "d_runs (control_exec slib jl op J) = map f (d_runs J)" "\<And>r. run_moves r (f r)"
proof -
  from exec_runs_move [of J slib jl op] obtain f new where
    f: "d_runs (control_exec slib jl op J) = map f (d_runs J) @ new" "\<And>r. run_moves r (f r)"
    unfolding runs_move_def by blast
  with exec_keys [OF assms, of slib jl J] have "new = []" by simp
  with f show thesis by (intro that [of f]) simp_all
qed

lemma find_map_ident:
  assumes "\<And>r. run_moves r (f r)" "\<And>r r'. run_ident r' = run_ident r \<Longrightarrow> Q r' = Q r"
  shows "find Q (map f xs) = map_option f (find Q xs)"
proof -
  have "Q (f r) = Q r" for r using assms(1) [of r] assms(2) unfolding run_moves_def by blast
  then show ?thesis by (induction xs) auto
qed

lemma key_bound_map:
  assumes "d_runs J' = map f (d_runs J)" "\<And>r. run_moves r (f r)" "d_run_keys J' = d_run_keys J"
  shows "connectorRunByKey p s k J' = map_option f (connectorRunByKey p s k J)"
proof -
  have "stamped_run p s k J' = map_option f (stamped_run p s k J)"
    unfolding stamped_run_def assms(1) by (rule find_map_ident) (auto simp: assms(2) run_ident_def)
  moreover have "run_of J' i = map_option f (run_of J i)" for i
    unfolding run_of_def assms(1) by (rule find_map_ident) (auto simp: assms(2) run_ident_def)
  then have "alias_run p s k J' = map_option f (alias_run p s k J)"
    by (simp add: alias_run_def assms(3) split: option.splits)
  ultimately show ?thesis by (simp add: connectorRunByKey_def split: option.splits)
qed

lemma find_append_Some: "find P xs = Some x \<Longrightarrow> find P (xs @ ys) = Some x"
  by (induction xs) (auto split: if_splits)

lemma find_append_None: "find P xs = None \<Longrightarrow> find P (xs @ ys) = find P ys"
  by (induction xs) (auto split: if_splits)

lemma key_bound_enqueue:
  assumes "EnqueueConnectorRun project sync key uuid now J = Inr ((a, e), J')" "connectorRunByKey p s k J = Some r" "k \<noteq> ''''"
  shows "connectorRunByKey p s k J' = Some r"
  using assms(1)
proof (cases rule: enqueue_result)
  case busy
  then show ?thesis using assms(2)
    by (auto simp: bind_key_def connectorRunByKey_def stamped_run_def alias_run_def run_of_def find_append_Some
        split: option.splits)
next
  case (new conn)
  have J': "J' = J\<lparr>d_runs := d_runs J @ [a]\<rparr>" using insert_run_result [OF new(3)] .
  have other: "\<not> (rn_sync a = s \<and> rn_project a = p \<and> rn_key a = k)"
    using new(1,4) assms(2,3) by (auto simp: new_run_def)
  show ?thesis
  proof (cases "stamped_run p s k J")
    case (Some x)
    then show ?thesis using assms(2) by (simp add: J' connectorRunByKey_def stamped_run_def find_append_Some)
  next
    case None
    then have "stamped_run p s k J' = None"
      using other by (auto simp: J' stamped_run_def find_append_None)
    moreover have "alias_run p s k J = Some r" using None assms(2) by (simp add: connectorRunByKey_def)
    ultimately show ?thesis
      by (auto simp: J' connectorRunByKey_def alias_run_def run_of_def find_append_Some split: option.splits)
  qed
qed (use assms(2) in simp)

lemma key_bound_exec:
  assumes "connectorRunByKey p s k J = Some r" "k \<noteq> ''''"
  shows "\<exists>r'. connectorRunByKey p s k (control_exec slib jl op J) = Some r' \<and> rn_id r' = rn_id r"
proof (cases "enqueues op")
  case True
  then obtain project sync key uuid now where op: "op = OpEnqueue project sync key uuid now" by (cases op) simp_all
  show ?thesis
  proof (cases "EnqueueConnectorRun project sync key uuid now J")
    case (Inr x)
    then obtain a e J' where x: "EnqueueConnectorRun project sync key uuid now J = Inr ((a, e), J')" by (cases x) auto
    from key_bound_enqueue [OF this assms] show ?thesis by (simp add: op kept_def x)
  qed (use assms in \<open>simp add: op kept_def\<close>)
next
  case False
  obtain f where f: "d_runs (control_exec slib jl op J) = map f (d_runs J)" "\<And>r. run_moves r (f r)"
    using exec_runs_map [OF False, of slib jl J] by blast
  have "d_run_keys (control_exec slib jl op J) = d_run_keys J" using exec_keys [OF False] by blast
  from key_bound_map [OF f this, of p s k] assms show ?thesis using run_moves_ident [OF f(2)] by simp
qed

lemma key_bound_steps:
  "control_steps slib jl J J' \<Longrightarrow> connectorRunByKey p s k J = Some r \<Longrightarrow> k \<noteq> '''' \<Longrightarrow>
     \<exists>r'. connectorRunByKey p s k J' = Some r' \<and> rn_id r' = rn_id r"
proof (induction rule: rtranclp_induct)
  case (step J1 J2)
  then obtain r1 where r1: "connectorRunByKey p s k J1 = Some r1" "rn_id r1 = rn_id r" by blast
  from step(2) obtain op where "J2 = control_exec slib jl op J1" by (auto elim: control_step.cases)
  with key_bound_exec [OF r1(1) step.prems(2)] r1(2) show ?case by metis
qed blast

text \<open>The foreign key of the bindings.\<close>

definition keys_wf :: "control_db \<Rightarrow> bool" where
  "keys_wf J \<longleftrightarrow> (\<forall>k \<in> set (d_run_keys J). \<exists>r \<in> set (d_runs J). rn_id r = rk_run k)"

lemma keys_wf_enqueue:
  assumes "EnqueueConnectorRun project sync key uuid now J = Inr ((a, e), J')" "keys_wf J"
  shows "keys_wf J'"
  using assms(1)
proof (cases rule: enqueue_result)
  case (new conn)
  with insert_run_result [OF new(3)] assms(2) show ?thesis by (auto simp: keys_wf_def)
qed (use assms(2) in \<open>auto simp: keys_wf_def bind_key_def\<close>)

lemma keys_wf_exec: "keys_wf J \<Longrightarrow> keys_wf (control_exec slib jl op J)"
proof (cases "enqueues op")
  case True
  then obtain project sync key uuid now where op: "op = OpEnqueue project sync key uuid now" by (cases op) simp_all
  assume "keys_wf J"
  then show ?thesis
    by (cases "EnqueueConnectorRun project sync key uuid now J") (auto simp: op kept_def intro: keys_wf_enqueue)
next
  case False
  obtain f where f: "d_runs (control_exec slib jl op J) = map f (d_runs J)" "\<And>r. run_moves r (f r)"
    using exec_runs_map [OF False, of slib jl J] by blast
  have "d_run_keys (control_exec slib jl op J) = d_run_keys J" using exec_keys [OF False] by blast
  moreover assume "keys_wf J"
  ultimately show ?thesis using run_moves_ident [OF f(2)] by (auto simp: keys_wf_def f(1))
qed

lemma keys_wf_reachable: "control_steps slib jl empty_control J \<Longrightarrow> keys_wf J"
  by (induction rule: rtranclp_induct)
     (auto simp: empty_control_def keys_wf_def elim!: control_step.cases dest: keys_wf_exec [unfolded keys_wf_def])

text \<open>A call that answers binds its key to the run it answers with.\<close>

lemma enqueue_binds:
  assumes "EnqueueConnectorRun p s k uuid now J = Inr ((r, e), J')" "k \<noteq> ''''" "keys_wf J"
  shows "\<exists>r'. connectorRunByKey p s k J' = Some r' \<and> rn_id r' = rn_id r"
proof -
  from assms(1) show ?thesis
  proof (cases rule: enqueue_result)
    case busy
    then have J': "J' = bind_key p s k (rn_id r) J" and none: "connectorRunByKey p s k J = None" using assms(2) by simp_all
    have nostamp: "stamped_run p s k J = None" using none by (simp add: connectorRunByKey_def split: option.splits)
    obtain a where a: "run_of J (rn_id r) = Some a" "rn_id a = rn_id r"
      using busy(1) unfolding run_of_def by (metis (mono_tags, lifting) find_None_iff find_Some_iff not_Some_eq)
    have nokey: "find (\<lambda>x. rk_sync x = s \<and> rk_project x = p \<and> rk_key x = k) (d_run_keys J) = None"
    proof (rule ccontr)
      assume "\<not> ?thesis"
      then obtain x where x: "find (\<lambda>x. rk_sync x = s \<and> rk_project x = p \<and> rk_key x = k) (d_run_keys J) = Some x" by blast
      then have "x \<in> set (d_run_keys J)" by (auto simp: find_Some_iff)
      then obtain y where "y \<in> set (d_runs J)" "rn_id y = rk_run x" using assms(3) by (auto simp: keys_wf_def)
      then have "run_of J (rk_run x) \<noteq> None" by (auto simp: run_of_def find_None_iff)
      then show False using none nostamp x by (simp add: connectorRunByKey_def alias_run_def)
    qed
    then have "J' = J\<lparr>d_run_keys := d_run_keys J @ [\<lparr>rk_project = p, rk_sync = s, rk_key = k, rk_run = rn_id r\<rparr>]\<rparr>"
      by (auto simp: J' bind_key_def list_ex_iff find_None_iff)
    then have "connectorRunByKey p s k J' = Some a"
      using nostamp nokey a(1) by (simp add: connectorRunByKey_def stamped_run_def alias_run_def run_of_def find_append_None)
    with a(2) show ?thesis by blast
  next
    case (new conn)
    have none: "connectorRunByKey p s k J = None" using new(4) assms(2) by simp
    then have "stamped_run p s k J = None" by (simp add: connectorRunByKey_def split: option.splits)
    then have "connectorRunByKey p s k J' = Some r"
      using insert_run_result [OF new(3)]
      by (simp add: new(1) connectorRunByKey_def stamped_run_def find_append_None new_run_def)
    then show ?thesis by blast
  qed simp
qed

end
