(* ===== verification/Lineage.thy ===== *)
theory Lineage
  imports Control
begin

section \<open>The generation journal\<close>

definition gen_moves :: "generation_row \<Rightarrow> generation_row \<Rightarrow> bool" where
  "gen_moves g g' \<longleftrightarrow>
     (gn_source g', gn_sync g', gn_generation g', gn_seq g', gn_binding g', gn_started_at g') =
     (gn_source g, gn_sync g, gn_generation g, gn_seq g, gn_binding g, gn_started_at g) \<and>
     (resumable g' \<longrightarrow> resumable g \<and> gn_terminal_at g' = gn_terminal_at g) \<and>
     (resumable g \<longrightarrow> \<not> resumable g' \<longrightarrow> gn_terminal_at g' \<noteq> None) \<and>
     (\<not> resumable g \<longrightarrow> gn_state g' = gn_state g \<and> gn_terminal_at g' = gn_terminal_at g \<and>
        gn_finished_at g' = gn_finished_at g)"

text \<open>Rows move in place; at most one row is new: capturing, of an identifier and a sequence no row of
  its source has, next to no other resumable generation of its source.\<close>

definition born :: "control_db \<Rightarrow> control_db \<Rightarrow> generation_row list \<Rightarrow> generation_row \<Rightarrow> bool" where
  "born J J' others g \<longleftrightarrow> gn_state g = Capturing \<and> gn_terminal_at g = None \<and>
     gn_seq g = last_sequence J (gn_source g) + 1 \<and>
     last_sequence J' (gn_source g) = gn_seq g \<and> (\<forall>k. k \<noteq> gn_source g \<longrightarrow> last_sequence J' k = last_sequence J k) \<and>
     \<not> list_ex (\<lambda>h. gn_generation h = gn_generation g) (d_generations J) \<and>
     \<not> list_ex (\<lambda>h. gn_source h = gn_source g \<and> resumable h) others"

definition gens_move :: "control_db \<Rightarrow> control_db \<Rightarrow> bool" where
  "gens_move J J' \<longleftrightarrow> (\<exists>f. (\<forall>g. gen_moves g (f g)) \<and>
     (d_generations J' = map f (d_generations J) \<and> d_sequences J' = d_sequences J \<or>
      (\<exists>g. d_generations J' = map f (d_generations J) @ [g] \<and> born J J' (map f (d_generations J)) g)))"

lemma gens_moveE:
  assumes "gens_move J J'"
  obtains (kept) f where "\<And>g. gen_moves g (f g)" "d_generations J' = map f (d_generations J)" "d_sequences J' = d_sequences J"
  | (new) f g where "\<And>g. gen_moves g (f g)" "d_generations J' = map f (d_generations J) @ [g]"
      "born J J' (map f (d_generations J)) g"
  using assms unfolding gens_move_def by blast

lemma gen_moves_refl [simp]: "gen_moves g g"
  by (simp add: gen_moves_def)

lemma gen_moves_trans: "gen_moves g h \<Longrightarrow> gen_moves h i \<Longrightarrow> gen_moves g i"
  by (cases "resumable g"; cases "resumable h"; cases "resumable i") (auto simp: gen_moves_def)

lemma gens_move_map:
  "d_generations J' = map f (d_generations J) \<Longrightarrow> (\<And>g. gen_moves g (f g)) \<Longrightarrow> d_sequences J' = d_sequences J \<Longrightarrow>
     gens_move J J'"
  unfolding gens_move_def by blast

lemma gens_move_new:
  "(\<And>g. gen_moves g (f g)) \<Longrightarrow> d_generations J' = map f (d_generations J) @ [g] \<Longrightarrow>
     born J J' (map f (d_generations J)) g \<Longrightarrow> gens_move J J'"
  unfolding gens_move_def by blast

lemma gens_move_same:
  "d_generations J' = d_generations J \<Longrightarrow> d_sequences J' = d_sequences J \<Longrightarrow> gens_move J J'"
  by (rule gens_move_map [of _ "\<lambda>r. r"]) simp_all

lemma gens_move_update:
  "d_generations J' = update_where P f (d_generations J) \<Longrightarrow> d_sequences J' = d_sequences J \<Longrightarrow>
     (\<And>g. P g \<Longrightarrow> gen_moves g (f g)) \<Longrightarrow> gens_move J J'"
  by (rule gens_move_map [of _ "\<lambda>r. if P r then f r else r"]) (simp_all add: update_where_def)

lemma gens_move_either:
  "d_generations J' = d_generations J \<or> d_generations J' = update_where P f (d_generations J) \<Longrightarrow>
     d_sequences J' = d_sequences J \<Longrightarrow> (\<And>g. P g \<Longrightarrow> gen_moves g (f g)) \<Longrightarrow> gens_move J J'"
  by (auto intro: gens_move_same gens_move_update)

lemma gen_moves_cancel: "resumable g \<Longrightarrow> gen_moves g (cancel_generation now g)"
  by (auto simp: gen_moves_def cancel_generation_def resumable_def)

lemma gen_moves_take: "gen_moves g (take_over run owner epoch g)"
  by (auto simp: gen_moves_def take_over_def resumable_def)

lemma gen_moves_advance: "gen_moves g (advance_generation o1 i g)"
  by (auto simp: gen_moves_def advance_generation_def resumable_def)

lemma gen_moves_seal: "gn_state g = Capturing \<Longrightarrow> gen_moves g (seal_row f now g)"
  by (auto simp: gen_moves_def seal_row_def resumable_def)

lemma last_sequence_next:
  assumes "next_sequence k J = (q, J')"
  shows "q = last_sequence J k + 1 \<and> last_sequence J' j = (if j = k then q else last_sequence J j)"
proof (cases "map_of (d_sequences J) k")
  case None
  then show ?thesis using assms by (auto simp: next_sequence_def last_sequence_def map_add_def split: option.splits)
next
  case (Some n)
  have "map_of (update_where (\<lambda>e. fst e = k) (\<lambda>e. (k, snd e + 1)) xs) j =
      (if j = k then map_option (\<lambda>n. n + 1) (map_of xs k) else map_of xs j)" for xs :: "(source_key \<times> int) list"
    by (induction xs) auto
  with Some show ?thesis using assms by (auto simp: next_sequence_def last_sequence_def)
qed

lemma gens_move_claim:
  assumes "ClaimSnapshotGeneration job run owner epoch uuid now J = Inr (g, J')"
    "\<not> list_ex (\<lambda>h. gn_generation h = uuid) (d_generations J)"
  shows "gens_move J J'"
proof -
  let ?k = "job_source job"
  let ?P = "\<lambda>h. gn_source h = ?k \<and> resumable h \<and> list_ex (\<lambda>r. rn_id r = gn_run h \<and> rn_cancel_requested r) (d_runs J)"
  let ?J1 = "retire_cancelled ?k now J"
  let ?r = "\<lambda>h. if ?P h then cancel_generation now h else h"
  have J1: "d_generations ?J1 = map ?r (d_generations J)"
    by (simp add: retire_cancelled_def update_where_def)
  have r: "gen_moves h (?r h)" for h by (auto simp: gen_moves_cancel)
  from assms(1) show ?thesis
  proof (cases rule: claim_result)
    case (taken h)
    let ?t = "\<lambda>x. if gn_generation x = gn_generation h then take_over run owner epoch x else x"
    have "d_generations J' = map (?t \<circ> ?r) (d_generations J)"
      by (simp only: taken(3) control_db.simps update_where_def J1 map_map) (simp add: J1 update_where_def)
    moreover have "gen_moves x ((?t \<circ> ?r) x)" for x
    proof -
      have "gen_moves (?r x) (?t (?r x))" by (simp add: gen_moves_take)
      with r show ?thesis unfolding comp_def by (rule gen_moves_trans)
    qed
    moreover have "d_sequences J' = d_sequences J" by (simp add: taken(3))
    ultimately show ?thesis by (rule gens_move_map)
  next
    case (fresh digest q J2)
    from last_sequence_next [OF fresh(1)]
    have q: "q = last_sequence J ?k + 1" "last_sequence J2 j = (if j = ?k then q else last_sequence J j)" for j
      by (simp_all add: last_sequence_def)
    have J2: "d_generations J2 = map ?r (d_generations J)"
      using next_sequence_tables(3) [of ?k ?J1] by (simp add: fresh(1) J1)
    have J': "J' = J2\<lparr>d_generations := d_generations J2 @ [g]\<rparr>" using insert_generation_result [OF fresh(4)] .
    have g: "gn_source g = ?k" "gn_state g = Capturing" "gn_terminal_at g = None" "gn_seq g = q" "gn_generation g = uuid"
      by (simp_all add: fresh(2) new_generation_def)
    have none: "\<not> list_ex (\<lambda>h. gn_source h = gn_source g \<and> resumable h) (map ?r (d_generations J))"
    proof -
      have "\<not> list_ex (\<lambda>h. gn_source h = gn_source g \<and> (gn_generation h = gn_generation g \<or> gn_seq h = gn_seq g \<or>
          resumable h \<and> resumable g)) (d_generations J2)"
        using fresh(4) by (simp add: insert_generation_def split: if_splits)
      moreover have "resumable g" by (simp add: resumable_def g(2))
      ultimately show ?thesis unfolding J2 list_ex_iff by blast
    qed
    have "d_generations J' = map ?r (d_generations J) @ [g]" by (simp add: J' J2)
    moreover have "born J J' (map ?r (d_generations J)) g"
      using none q assms(2) unfolding born_def by (simp add: g J' last_sequence_def)
    ultimately show ?thesis by (rule gens_move_new [OF r])
  qed
qed

lemma gens_move_seal:
  assumes "SealSnapshotGeneration slib jl g env rows uuid now J = Inr (out, J')" shows "gens_move J J'"
proof -
  have "d_generations J' = update_where (\<lambda>h. held_by g h \<and> gn_state h = Capturing)
      (seal_row (n_CaptureFinishedAt env) now) (d_generations J) \<and> d_sequences J' = d_sequences J"
    using assms by (auto simp: SealSnapshotGeneration_def Let_def dest: insert_outbox_tables
        split: if_splits sum.splits)
  then show ?thesis by (elim conjE) (rule gens_move_update, assumption, simp_all add: gen_moves_seal)
qed

lemma exec_gens_move: "admissible op J \<Longrightarrow> gens_move J (control_exec slib jl op J)"
proof (cases op)
  case (OpEnqueue project sync key uuid now)
  then show ?thesis
    by (auto intro!: gens_move_same simp: kept_def EnqueueConnectorRun_def admit_run_def bind_key_def insert_run_def Let_def
        split: sum.splits option.splits if_splits)
next
  case (OpClaimGen job run owner epoch uuid now)
  moreover assume "admissible op J"
  ultimately show ?thesis
    by (cases "ClaimSnapshotGeneration job run owner epoch uuid now J")
       (auto simp: kept_def gens_move_same intro: gens_move_claim)
next
  case (OpSeal g env rows uuid now)
  then show ?thesis
    by (cases "SealSnapshotGeneration slib jl g env rows uuid now J")
       (auto simp: kept_def gens_move_same intro: gens_move_seal)
next
  case (OpPrepare g env lower upper uuid now)
  then show ?thesis
    by (auto intro!: gens_move_same simp: kept_def PrepareSnapshotEnvelope_def dest!: insert_outbox_tables
        split: sum.splits if_splits)
next
  case (OpFinish run sync owner res cancelled now)
  then show ?thesis
    by (intro gens_move_either [of _ _ "\<lambda>g. gn_run g = run \<and> gn_owner g = owner \<and> resumable g" "cancel_generation now"])
       (auto simp: kept_state_def FinishConnectorRun_def Let_def gen_moves_cancel split: prod.splits if_splits option.splits sum.splits)
next
  case (OpCancel project run now)
  then show ?thesis
    by (intro gens_move_either [of _ _ "\<lambda>g. gn_run g = run \<and> resumable g" "cancel_generation now"])
       (auto simp: kept_def CancelConnectorRun_def Let_def gen_moves_cancel split: option.splits)
next
  case (OpMark g item)
  then show ?thesis
    by (cases "find (\<lambda>o1. ox_id o1 = ox_id item) (d_outbox J)")
       (auto simp: kept_state_def MarkSnapshotOutboxPublished_def Let_def gens_move_same gen_moves_advance
        intro!: gens_move_update [of _ "\<lambda>h. gn_generation h = gn_generation g \<and> gn_next h \<le> ox_index item + 1"])
next
  case (OpYield g now)
  then show ?thesis
    by (intro gens_move_either [of _ _ "\<lambda>h. held_by g h \<and> gn_state h = Capturing" "\<lambda>h. h\<lparr>gn_state := Yielded\<rparr>"])
       (auto simp: kept_state_def YieldSnapshotGeneration_def Let_def gen_moves_def resumable_def split: sum.splits if_splits)
next
  case (OpFail g now)
  then show ?thesis
    by (intro gens_move_either [of _ _ "\<lambda>h. held_by g h \<and> resumable h"
          "\<lambda>h. h\<lparr>gn_state := GenFailed, gn_terminal_at := Some now\<rparr>"])
       (auto simp: kept_state_def FailSnapshotGeneration_def Let_def gen_moves_def resumable_def split: sum.splits if_splits)
next
  case (OpCancelGen run owner epoch now)
  then show ?thesis
    by (intro gens_move_update [of _ "\<lambda>h. gn_run h = run \<and> gn_owner h = owner \<and> gn_lease h = epoch \<and> resumable h"
          "cancel_generation now"]) (auto simp: CancelSnapshotGeneration_def gen_moves_cancel)
qed (auto intro!: gens_move_same simp: kept_def kept_state_def setConnectorSyncEnabled_def unarchiveDataConnector_def
     archiveDataConnector_def ClaimConnectorRun_def HeartbeatConnectorRun_def ReconcileConnectorRuns_def
     Let_def retire_outbox_def split: sum.splits if_splits option.splits)
definition gens_wf :: "control_db \<Rightarrow> bool" where
  "gens_wf J \<longleftrightarrow> distinct (map gn_generation (d_generations J)) \<and>
     (\<forall>g \<in> set (d_generations J). 0 < gn_seq g \<and> gn_seq g \<le> last_sequence J (gn_source g) \<and>
        (resumable g \<longleftrightarrow> gn_terminal_at g = None)) \<and>
     (\<forall>g \<in> set (d_generations J). \<forall>h \<in> set (d_generations J). gn_source g = gn_source h \<longrightarrow>
        gn_seq g = gn_seq h \<or> resumable g \<and> resumable h \<longrightarrow> gn_generation g = gn_generation h) \<and>
     (\<forall>k. 0 \<le> last_sequence J k)"

lemma gens_wf_distinct: "gens_wf J \<Longrightarrow> distinct (map gn_generation (d_generations J))"
  unfolding gens_wf_def by blast

lemma gens_wf_row: "gens_wf J \<Longrightarrow> g \<in> set (d_generations J) \<Longrightarrow>
    0 < gn_seq g \<and> gn_seq g \<le> last_sequence J (gn_source g) \<and> (resumable g \<longleftrightarrow> gn_terminal_at g = None)"
  unfolding gens_wf_def by blast

lemma gens_wf_one: "gens_wf J \<Longrightarrow> g \<in> set (d_generations J) \<Longrightarrow> h \<in> set (d_generations J) \<Longrightarrow>
    gn_source g = gn_source h \<Longrightarrow> gn_seq g = gn_seq h \<or> resumable g \<and> resumable h \<Longrightarrow>
    gn_generation g = gn_generation h"
  unfolding gens_wf_def by blast

lemma gen_moves_ident: "gen_moves g g' \<Longrightarrow> gn_source g' = gn_source g \<and> gn_sync g' = gn_sync g \<and>
    gn_generation g' = gn_generation g \<and> gn_seq g' = gn_seq g \<and> gn_binding g' = gn_binding g \<and>
    gn_started_at g' = gn_started_at g"
  by (simp add: gen_moves_def)

lemma gen_moves_terminal: "gen_moves g g' \<Longrightarrow> \<not> resumable g \<Longrightarrow>
    gn_state g' = gn_state g \<and> gn_terminal_at g' = gn_terminal_at g \<and> gn_finished_at g' = gn_finished_at g \<and> \<not> resumable g'"
  by (auto simp: gen_moves_def)

lemma gen_moves_stamp: "gen_moves g g' \<Longrightarrow> (resumable g \<longleftrightarrow> gn_terminal_at g = None) \<Longrightarrow>
    (resumable g' \<longleftrightarrow> gn_terminal_at g' = None)"
  by (auto simp: gen_moves_def)

lemma last_sequence_same: "d_sequences J' = d_sequences J \<Longrightarrow> last_sequence J' k = last_sequence J k"
  by (simp add: last_sequence_def)

lemma gens_move_sequence:
  assumes "gens_move J J'" shows "last_sequence J k \<le> last_sequence J' k"
  using assms
proof (cases rule: gens_moveE)
  case (new f g)
  then show ?thesis by (cases "k = gn_source g") (simp_all add: born_def del: split_paired_All)
qed (simp add: last_sequence_def)

lemma born_fresh:
  assumes "born J J' (map f (d_generations J)) n" "gens_wf J" "\<And>g. gen_moves g (f g)"
  shows "gn_generation n \<notin> gn_generation ` set (d_generations J)" "resumable n" "0 < gn_seq n"
    "gn_seq n = last_sequence J' (gn_source n)"
    "h \<in> set (d_generations J) \<Longrightarrow> gn_source h = gn_source n \<Longrightarrow> gn_seq h < gn_seq n \<and> \<not> resumable (f h)"
proof -
  have id: "gn_source (f g) = gn_source g" for g using gen_moves_ident [OF assms(3)] by simp
  show "gn_generation n \<notin> gn_generation ` set (d_generations J)"
    using assms(1) by (auto simp: born_def list_ex_iff)
  show "resumable n" using assms(1) by (simp add: born_def resumable_def)
  show "gn_seq n = last_sequence J' (gn_source n)" using assms(1) unfolding born_def by metis
  have "0 \<le> last_sequence J (gn_source n)" using assms(2) unfolding gens_wf_def by blast
  then show "0 < gn_seq n" using assms(1) by (simp add: born_def)
  assume h: "h \<in> set (d_generations J)" "gn_source h = gn_source n"
  then have "gn_seq h \<le> last_sequence J (gn_source n)" using gens_wf_row [OF assms(2) h(1)] by simp
  with h assms(1) show "gn_seq h < gn_seq n \<and> \<not> resumable (f h)" by (auto simp: born_def list_ex_iff id)
qed

lemma gens_wf_move:
  assumes m: "gens_move J J'" and wf: "gens_wf J"
  shows "gens_wf J'"
proof -
  have le: "last_sequence J k \<le> last_sequence J' k" for k by (rule gens_move_sequence [OF m])
  have pos: "0 \<le> last_sequence J' k" for k using wf le [of k] order_trans unfolding gens_wf_def by blast
  have old: "0 < gn_seq g \<and> gn_seq g \<le> last_sequence J' (gn_source g) \<and> (resumable (f g) \<longleftrightarrow> gn_terminal_at (f g) = None)"
    if "g \<in> set (d_generations J)" "\<And>g. gen_moves g (f g)" for f g
  proof -
    have "gn_seq g \<le> last_sequence J (gn_source g)" "0 < gn_seq g" "resumable g \<longleftrightarrow> gn_terminal_at g = None"
      using gens_wf_row [OF wf that(1)] by simp_all
    with le [of "gn_source g"] gen_moves_stamp [OF that(2)] show ?thesis by simp
  qed
  have one: "gn_generation g = gn_generation h"
    if "g \<in> set (d_generations J)" "h \<in> set (d_generations J)" "\<And>g. gen_moves g (f g)" "gn_source g = gn_source h"
      "gn_seq g = gn_seq h \<or> resumable (f g) \<and> resumable (f h)" for f g h
    by (rule gens_wf_one [OF wf that(1,2,4)]) (use that(5) gen_moves_terminal [OF that(3)] in blast)
  from m show ?thesis
  proof (cases rule: gens_moveE)
    case (kept f)
    have id: "gn_source (f g) = gn_source g" "gn_generation (f g) = gn_generation g" "gn_seq (f g) = gn_seq g" for g
      using gen_moves_ident [OF kept(1)] by simp_all
    show ?thesis unfolding gens_wf_def
    proof (intro conjI ballI allI impI)
      show "distinct (map gn_generation (d_generations J'))"
        using gens_wf_distinct [OF wf] by (simp add: kept(2) id comp_def)
      fix g assume "g \<in> set (d_generations J')"
      then show "0 < gn_seq g" "gn_seq g \<le> last_sequence J' (gn_source g)" "resumable g \<longleftrightarrow> gn_terminal_at g = None"
        using old [of _ f] kept(1) by (auto simp: kept(2) id)
    next
      fix g h assume g: "g \<in> set (d_generations J')" "h \<in> set (d_generations J')" "gn_source g = gn_source h"
        "gn_seq g = gn_seq h \<or> resumable g \<and> resumable h"
      then obtain g0 h0 where "g = f g0" "h = f h0" "g0 \<in> set (d_generations J)" "h0 \<in> set (d_generations J)"
        by (auto simp: kept(2))
      with g(3,4) one [of g0 h0 f] kept(1) show "gn_generation g = gn_generation h" by (simp add: id)
    qed (rule pos)
  next
    case (new f n)
    have id: "gn_source (f g) = gn_source g" "gn_generation (f g) = gn_generation g" "gn_seq (f g) = gn_seq g" for g
      using gen_moves_ident [OF new(1)] by simp_all
    note n = born_fresh [OF new(3) wf new(1)]
    have t: "gn_terminal_at n = None" using new(3) by (simp add: born_def)
    have lone: "gn_generation (f h) = gn_generation n"
      if "h \<in> set (d_generations J)" "gn_source h = gn_source n" "gn_seq h = gn_seq n \<or> resumable (f h)" for h
      using n(5) [OF that(1,2)] that(3) by simp
    show ?thesis unfolding gens_wf_def
    proof (intro conjI ballI allI impI)
      show "distinct (map gn_generation (d_generations J'))"
        using gens_wf_distinct [OF wf] n(1) by (simp add: new(2) id comp_def)
      fix g assume "g \<in> set (d_generations J')"
      then show "0 < gn_seq g" "gn_seq g \<le> last_sequence J' (gn_source g)" "resumable g \<longleftrightarrow> gn_terminal_at g = None"
        using old [of _ f] new(1) n(2,3,4) t by (auto simp: new(2) id)
    next
      fix g h assume g: "g \<in> set (d_generations J')" "h \<in> set (d_generations J')" "gn_source g = gn_source h"
        "gn_seq g = gn_seq h \<or> resumable g \<and> resumable h"
      then consider "g = n" "h = n" | h0 where "g = n" "h = f h0" "h0 \<in> set (d_generations J)"
        | g0 where "g = f g0" "h = n" "g0 \<in> set (d_generations J)"
        | g0 h0 where "g = f g0" "h = f h0" "g0 \<in> set (d_generations J)" "h0 \<in> set (d_generations J)"
        by (auto simp: new(2))
      then show "gn_generation g = gn_generation h"
      proof cases
        case 2
        with g(3,4) lone [of h0] show ?thesis by (auto simp: id)
      next
        case 3
        with g(3,4) lone [of g0] show ?thesis by (auto simp: id)
      next
        case 4
        with g(3,4) one [of g0 h0 f] new(1) show ?thesis by (simp add: id)
      qed simp
    qed (rule pos)
  qed
qed

lemma step_gens_move: "control_step slib jl J J' \<Longrightarrow> gens_move J J'"
  by (erule control_step.cases) (simp add: exec_gens_move)

lemma gens_wf_steps: "control_steps slib jl J J' \<Longrightarrow> gens_wf J \<Longrightarrow> gens_wf J'"
  by (induction rule: rtranclp_induct) (auto intro: gens_wf_move step_gens_move)

lemma gens_wf_reachable: "control_steps slib jl empty_control J \<Longrightarrow> gens_wf J"
  by (erule gens_wf_steps) (simp add: gens_wf_def empty_control_def last_sequence_def)

definition gen_of :: "control_db \<Rightarrow> string \<Rightarrow> generation_row option" where
  "gen_of J i = find (\<lambda>g. gn_generation g = i) (d_generations J)"

lemma find_mapped:
  assumes "\<And>g. gen_moves g (f g)" "find (\<lambda>r. gn_generation r = i) xs = Some g"
  shows "find (\<lambda>r. gn_generation r = i) (map f xs @ ys) = Some (f g)"
  using assms(2) gen_moves_ident [OF assms(1)] by (induction xs) (auto split: if_splits)

lemma gen_of_move:
  assumes "gens_move J J'" "gen_of J i = Some g"
  obtains g' where "gen_of J' i = Some g'" "gen_moves g g'"
  using assms(1)
proof (cases rule: gens_moveE)
  case (kept f)
  have "gen_of J' i = Some (f g)"
    using find_mapped [OF kept(1), of i _ g "[]"] assms(2) by (simp add: gen_of_def kept(2))
  with kept(1) that show thesis by blast
next
  case (new f n)
  have "gen_of J' i = Some (f g)"
    using find_mapped [OF new(1), of i _ g "[n]"] assms(2) by (simp add: gen_of_def new(2))
  with new(1) that show thesis by blast
qed

lemma gen_of_steps:
  "control_steps slib jl J J' \<Longrightarrow> gen_of J i = Some g \<Longrightarrow> \<exists>g'. gen_of J' i = Some g' \<and> gen_moves g g'"
proof (induction rule: rtranclp_induct)
  case (step J1 J2)
  then obtain g1 where o1: "gen_of J1 i = Some g1" and g1: "gen_moves g g1" by blast
  from o1 obtain g2 where "gen_of J2 i = Some g2" "gen_moves g1 g2"
    by (rule gen_of_move [OF step_gens_move [OF step(2)]])
  then show ?case using gen_moves_trans [OF g1] by blast
qed simp

lemma gen_of_row:
  assumes "gens_wf J" "g \<in> set (d_generations J)" shows "gen_of J (gn_generation g) = Some g"
proof -
  have "distinct (map gn_generation xs) \<Longrightarrow> g \<in> set xs \<Longrightarrow> find (\<lambda>h. gn_generation h = gn_generation g) xs = Some g" for xs
    by (induction xs) (auto simp: rev_image_eqI)
  from this [OF gens_wf_distinct [OF assms(1)] assms(2)] show ?thesis by (simp add: gen_of_def)
qed

lemma gen_of_Some: "gen_of J i = Some g \<Longrightarrow> g \<in> set (d_generations J) \<and> gn_generation g = i"
  unfolding gen_of_def by (drule find_SomeD) simp

lemma sequence_steps: "control_steps slib jl J J' \<Longrightarrow> last_sequence J k \<le> last_sequence J' k"
proof (induction rule: rtranclp_induct)
  case (step J1 J2)
  show ?case by (rule order_trans [OF step.IH gens_move_sequence [OF step_gens_move [OF step(2)]]])
qed simp
section \<open>A cancelled capture\<close>

definition flagged :: "control_db \<Rightarrow> string \<Rightarrow> bool" where
  "flagged J run \<longleftrightarrow> list_ex (\<lambda>r. rn_id r = run \<and> rn_cancel_requested r) (d_runs J)"

definition doomed :: "string \<Rightarrow> generation_row \<Rightarrow> bool" where
  "doomed run g \<longleftrightarrow> resumable g \<and> gn_run g = run \<or> gn_state g = GenFailed \<or> gn_state g = GenCancelled"

lemma flagged_move: "runs_move J J' \<Longrightarrow> flagged J run \<Longrightarrow> flagged J' run"
  unfolding flagged_def list_ex_iff
  by (metis runs_move_row run_moves_ident run_moves_def)

lemma fence_not_flagged:
  assumes "requireSnapshotRunFence run sync owner epoch now J = Inr ()" "runs_wf J"
  shows "\<not> flagged J run"
proof -
  obtain r where r: "find (\<lambda>r. rn_id r = run \<and> rn_sync r = sync) (d_runs J) = Some r" "holds_lease owner epoch now r"
    using assms(1) by (auto simp: requireSnapshotRunFence_def split: option.splits if_splits)
  then have "r \<in> set (d_runs J)" "rn_id r = run" "\<not> rn_cancel_requested r"
    by (auto dest: find_SomeD simp: holds_lease_def)
  moreover have "distinct (map rn_id (d_runs J))" using assms(2) unfolding runs_wf_def by blast
  ultimately show ?thesis by (auto simp: flagged_def list_ex_iff distinct_map inj_on_def)
qed

lemma gen_fence_not_flagged: "generation_fence g now J = Inr () \<Longrightarrow> runs_wf J \<Longrightarrow> \<not> flagged J (gn_run g)"
  unfolding generation_fence_def by (rule fence_not_flagged)

lemma row_updated: "g \<in> set xs \<Longrightarrow> (if P g then f g else g) \<in> set (update_where P f xs)"
  by (auto simp: set_update_where)

lemma unique_generation: "gens_wf J \<Longrightarrow> g \<in> set (d_generations J) \<Longrightarrow> h \<in> set (d_generations J) \<Longrightarrow>
    gn_generation g = gn_generation h \<Longrightarrow> g = h"
  using gens_wf_distinct [of J] by (auto simp: distinct_map inj_on_def)

lemma retire_generations: "d_generations (retire_cancelled k now J) = update_where
    (\<lambda>g. gn_source g = k \<and> resumable g \<and> list_ex (\<lambda>r. rn_id r = gn_run g \<and> rn_cancel_requested r) (d_runs J))
    (cancel_generation now) (d_generations J)"
  by (simp add: retire_cancelled_def)

lemma newest_member: "newest gs = Some g \<Longrightarrow> g \<in> set gs"
  by (induction gs arbitrary: g) (auto split: option.splits if_splits)

text \<open>A row that stays as it is, or moves by one of these, stays doomed.\<close>

lemma doomed_kept:
  assumes "g \<in> set (d_generations J)" "doomed run g"
    "d_generations J' = d_generations J \<or> d_generations J' = update_where P f (d_generations J)"
    "P g \<Longrightarrow> gn_generation (f g) = gn_generation g \<and>
       (gn_run (f g) = gn_run g \<and> (gn_state (f g) = gn_state g \<or> resumable g \<and> resumable (f g)) \<or>
        gn_state (f g) = GenFailed \<or> gn_state (f g) = GenCancelled)"
  shows "\<exists>g' \<in> set (d_generations J'). gn_generation g' = gn_generation g \<and> doomed run g'"
proof -
  have "P g \<Longrightarrow> doomed run (f g)" using assms(2,4) by (auto simp: doomed_def resumable_def)
  then have d: "doomed run (if P g then f g else g) \<and> gn_generation (if P g then f g else g) = gn_generation g"
    using assms(2,4) by simp
  from assms(3) show ?thesis
    using row_updated [OF assms(1), of P f] d assms(1,2) by metis
qed

lemma doomed_claim:
  assumes "g \<in> set (d_generations J)" "doomed run g" "gens_wf J" "flagged J run"
    "ClaimSnapshotGeneration job run' owner epoch uuid now J = Inr (x, J')"
  shows "\<exists>g' \<in> set (d_generations J'). gn_generation g' = gn_generation g \<and> doomed run g'"
proof -
  let ?k = "job_source job"
  let ?P = "\<lambda>h. gn_source h = ?k \<and> resumable h \<and> list_ex (\<lambda>r. rn_id r = gn_run h \<and> rn_cancel_requested r) (d_runs J)"
  let ?g = "if ?P g then cancel_generation now g else g"
  let ?J1 = "retire_cancelled ?k now J"
  have in1: "?g \<in> set (d_generations ?J1)"
    unfolding retire_generations by (rule row_updated [OF assms(1)])
  have id: "gn_generation ?g = gn_generation g" by (simp add: cancel_generation_def)
  have d: "doomed run ?g" using assms(2) by (simp add: doomed_def cancel_generation_def)
  have out: "gn_source ?g = ?k \<Longrightarrow> \<not> resumable ?g"
    using assms(2,4) by (auto simp: doomed_def cancel_generation_def resumable_def flagged_def)
  from assms(5) show ?thesis
  proof (cases rule: claim_result)
    case (taken h)
    let ?t = "\<lambda>x. if gn_generation x = gn_generation h then take_over run' owner epoch x else x"
    have "h \<in> set (d_generations ?J1)" "claimable ?J1 ?k h" using newest_member [OF taken(1)] by auto
    have "gn_generation ?g \<noteq> gn_generation h"
    proof
      assume same: "gn_generation ?g = gn_generation h"
      have "d_generations ?J1 = map (\<lambda>h. if ?P h then cancel_generation now h else h) (d_generations J)"
        by (simp add: retire_cancelled_def update_where_def)
      with \<open>h \<in> _\<close> obtain h0 where h0: "h0 \<in> set (d_generations J)" "h = (if ?P h0 then cancel_generation now h0 else h0)"
        by auto
      then have "gn_generation h0 = gn_generation h" by (auto simp: cancel_generation_def)
      with same id have "g = h0" using unique_generation [OF assms(3,1) h0(1)] by simp
      with h0 have "?g = h" by simp
      with \<open>claimable ?J1 ?k h\<close> out d show False by (auto simp: claimable_def doomed_def resumable_def)
    qed
    then have "?g \<in> set (d_generations J')"
      using row_updated [OF in1, of "\<lambda>x. gn_generation x = gn_generation h" "take_over run' owner epoch"]
      by (simp add: taken(3))
    with id d show ?thesis by blast
  next
    case (fresh digest q J2)
    have "d_generations J2 = d_generations ?J1" using next_sequence_tables(3) [of ?k ?J1] by (simp add: fresh(1))
    then have "?g \<in> set (d_generations J')" using in1 by (simp add: insert_generation_result [OF fresh(4)])
    with id d show ?thesis by blast
  qed
qed

lemma doomed_seal:
  assumes "g \<in> set (d_generations J)" "doomed run g" "runs_wf J" "flagged J run"
    "SealSnapshotGeneration slib jl x env rows uuid now J = Inr (out, J')"
  shows "\<exists>g' \<in> set (d_generations J'). gn_generation g' = gn_generation g \<and> doomed run g'"
proof -
  have gens: "d_generations J' = update_where (\<lambda>h. held_by x h \<and> gn_state h = Capturing)
      (seal_row (n_CaptureFinishedAt env) now) (d_generations J)"
    and fence: "generation_fence x now J = Inr ()"
    using assms(5) by (auto simp: SealSnapshotGeneration_def Let_def dest: insert_outbox_tables split: if_splits sum.splits)
  have no: "\<not> (held_by x g \<and> gn_state g = Capturing)"
    using assms(2,4) gen_fence_not_flagged [OF fence assms(3)] by (auto simp: doomed_def held_by_def)
  show ?thesis
    by (rule doomed_kept [OF assms(1,2) disjI2 [OF gens]]) (use no in blast)
qed

lemma doomed_exec:
  assumes "g \<in> set (d_generations J)" "doomed run0 g" "runs_wf J" "gens_wf J" "flagged J run0"
  shows "\<exists>g' \<in> set (d_generations (control_exec slib jl op J)). gn_generation g' = gn_generation g \<and> doomed run0 g'"
proof -
  note kept = doomed_kept [OF assms(1,2)]
  have same: "d_generations (control_exec slib jl op J) = d_generations J \<Longrightarrow> ?thesis"
    by (rule kept [where P = "\<lambda>g. False" and f = "\<lambda>g. g"]) simp_all
  show ?thesis
  proof (cases op)
    case (OpClaimGen job run owner epoch uuid now)
    then show ?thesis
      using doomed_claim [OF assms(1,2,4,5)] assms(1,2)
      by (cases "ClaimSnapshotGeneration job run owner epoch uuid now J") (auto simp: kept_def)
  next
    case (OpSeal x env rows uuid now)
    then show ?thesis
      using doomed_seal [OF assms(1,2,3,5)] assms(1,2)
      by (cases "SealSnapshotGeneration slib jl x env rows uuid now J") (auto simp: kept_def)
  next
    case (OpFinish run sync owner res cancelled now)
    show ?thesis
      by (rule kept [where P = "\<lambda>g. gn_run g = run \<and> gn_owner g = owner \<and> resumable g" and f = "cancel_generation now"])
         (auto simp: OpFinish kept_state_def FinishConnectorRun_def Let_def cancel_generation_def
           split: prod.splits if_splits option.splits sum.splits)
  next
    case (OpCancel project run now)
    show ?thesis
      by (rule kept [where P = "\<lambda>g. gn_run g = run \<and> resumable g" and f = "cancel_generation now"])
         (auto simp: OpCancel kept_def CancelConnectorRun_def Let_def cancel_generation_def split: option.splits)
  next
    case (OpCancelGen run owner epoch now)
    show ?thesis
      by (rule kept [where P = "\<lambda>h. gn_run h = run \<and> gn_owner h = owner \<and> gn_lease h = epoch \<and> resumable h"
            and f = "cancel_generation now"])
         (auto simp: OpCancelGen CancelSnapshotGeneration_def cancel_generation_def)
  next
    case (OpFail x now)
    show ?thesis
      by (rule kept [where P = "\<lambda>h. held_by x h \<and> resumable h" and f = "\<lambda>h. h\<lparr>gn_state := GenFailed, gn_terminal_at := Some now\<rparr>"])
         (auto simp: OpFail kept_state_def FailSnapshotGeneration_def Let_def split: sum.splits if_splits)
  next
    case (OpYield x now)
    show ?thesis
      by (rule kept [where P = "\<lambda>h. held_by x h \<and> gn_state h = Capturing" and f = "\<lambda>h. h\<lparr>gn_state := Yielded\<rparr>"])
         (auto simp: OpYield kept_state_def YieldSnapshotGeneration_def Let_def resumable_def split: sum.splits if_splits)
  next
    case (OpMark x item)
    show ?thesis
    proof (cases "find (\<lambda>o1. ox_id o1 = ox_id item) (d_outbox J)")
      case (Some o1)
      show ?thesis
        by (rule kept [where P = "\<lambda>h. gn_generation h = gn_generation x \<and> gn_next h \<le> ox_index item + 1"
              and f = "advance_generation o1 (ox_index item)"])
           (auto simp: OpMark kept_state_def MarkSnapshotOutboxPublished_def Let_def Some advance_generation_def)
    qed (use assms(1,2) in \<open>auto simp: OpMark kept_state_def MarkSnapshotOutboxPublished_def\<close>)
  next
    case (OpPrepare x env lower upper uuid now)
    show ?thesis
      by (rule same)
         (auto simp: OpPrepare kept_def PrepareSnapshotEnvelope_def dest!: insert_outbox_tables split: sum.splits if_splits)
  next
    case (OpEnqueue project sync key uuid now)
    show ?thesis
      by (rule same)
         (auto simp: OpEnqueue kept_def EnqueueConnectorRun_def admit_run_def bind_key_def insert_run_def Let_def
           split: sum.splits option.splits if_splits)
  qed (rule same; auto simp: kept_def kept_state_def setConnectorSyncEnabled_def unarchiveDataConnector_def
         archiveDataConnector_def ClaimConnectorRun_def HeartbeatConnectorRun_def ReconcileConnectorRuns_def
         Let_def retire_outbox_def split: sum.splits if_splits option.splits)+
qed

lemma doomed_steps:
  assumes "control_steps slib jl J J'" "g \<in> set (d_generations J)" "doomed run g" "runs_wf J" "gens_wf J" "flagged J run"
  shows "flagged J' run \<and> (\<exists>g' \<in> set (d_generations J'). gn_generation g' = gn_generation g \<and> doomed run g')"
  using assms
proof (induction rule: rtranclp_induct)
  case (step J1 J2)
  then obtain g1 where g1: "g1 \<in> set (d_generations J1)" "gn_generation g1 = gn_generation g" "doomed run g1"
    and f1: "flagged J1 run" by blast
  from step(2) obtain op where op: "J2 = control_exec slib jl op J1" by (auto elim: control_step.cases)
  from doomed_exec [OF g1(1,3) runs_wf_steps [OF step(1) step.prems(3)] gens_wf_steps [OF step(1) step.prems(4)] f1]
    flagged_move [OF step_runs_move [OF step(2)] f1]
  show ?case unfolding op g1(2) by blast
qed blast

lemma unsuccessful_steps:
  "control_steps slib jl J J' \<Longrightarrow> run_of J i = Some r \<Longrightarrow> rn_cancel_requested r \<Longrightarrow> rn_status r \<noteq> Succeeded \<Longrightarrow>
     \<exists>r'. run_of J' i = Some r' \<and> rn_cancel_requested r' \<and> rn_status r' \<noteq> Succeeded"
proof (induction rule: rtranclp_induct)
  case (step J1 J2)
  then obtain r1 where r1: "rn_cancel_requested r1" "rn_status r1 \<noteq> Succeeded" and o1: "run_of J1 i = Some r1" by blast
  from o1 obtain r2 where r2: "run_of J2 i = Some r2" "run_moves r1 r2"
    by (rule run_of_move [OF step_runs_move [OF step(2)]])
  then have "rn_cancel_requested r2 \<and> rn_status r2 \<noteq> Succeeded"
    using r1 by (cases "active_run r1") (auto simp: run_moves_def)
  with r2(1) show ?case by blast
qed blast

end
