(* ===== verification/Lifecycle.thy ===== *)
theory Lifecycle
  imports Lineage
begin

lemma run_of_unique: "runs_wf J \<Longrightarrow> r \<in> set (d_runs J) \<Longrightarrow> run_of J (rn_id r) = Some r"
proof -
  have "distinct (map rn_id xs) \<Longrightarrow> r \<in> set xs \<Longrightarrow> find (\<lambda>x. rn_id x = rn_id r) xs = Some r" for xs
    by (induction xs) (auto simp: rev_image_eqI)
  then show "runs_wf J \<Longrightarrow> r \<in> set (d_runs J) \<Longrightarrow> run_of J (rn_id r) = Some r"
    unfolding run_of_def runs_wf_def by blast
qed

lemma filter_unique:
  assumes "distinct (map g xs)" "x \<in> set xs" "P x" "\<And>y. y \<in> set xs \<Longrightarrow> P y \<Longrightarrow> y = x"
  shows "filter P xs = [x]"
proof -
  have "set (filter P xs) = {x}" unfolding set_filter
    using assms(2,3) by (blast dest: assms(4))
  moreover have "distinct (filter P xs)" using assms(1) by (simp add: distinct_map)
  ultimately have "length (filter P xs) = 1" using distinct_card [of "filter P xs"] by simp
  then obtain y where "filter P xs = [y]" by (cases "filter P xs") simp_all
  with \<open>set (filter P xs) = {x}\<close> show ?thesis by simp
qed

section \<open>Properties\<close>

definition wit_connector_row :: connector_row where
  "wit_connector_row = \<lparr>dc_id = ''c'', dc_project = ''p'', dc_name = ''n'', dc_kind = ''postgres'',
     dc_ciphertext = ''x'', dc_archived_at = None, dc_revision = 1, dc_source_revision = 1\<rparr>"

definition wit_sync_row :: sync_row where
  "wit_sync_row = \<lparr>cs_id = ''s'', cs_project = ''p'', cs_connector = ''c'', cs_source_table = ''t'',
     cs_key_column = ''id'', cs_cursor_column = '''', cs_sync_mode = ''snapshot'', cs_schedule = '''', cs_join_key = '''',
     cs_join_validated = '''', cs_deletion_mode = ''none'', cs_soft_delete_column = '''', cs_soft_delete_semantics = '''',
     cs_enabled = True,
     cs_disabled_by_archive = False, cs_revision = 1, cs_config_revision = 1, cs_cursor = '''', cs_cursor_key = '''',
     cs_last_run_at = None, cs_last_status = '''', cs_last_error = '''', cs_last_rows = 0, cs_last_success_at = None,
     cs_total_rows = 0\<rparr>"

definition wit_configured :: control_db where
  "wit_configured = empty_control\<lparr>d_syncs := [wit_sync_row], d_connectors := [wit_connector_row]\<rparr>"

definition wit_queued_run :: run_row where "wit_queued_run = new_run ''r1'' ''p'' ''s'' ''c'' ''k'' 5"

definition wit_queued :: control_db where "wit_queued = wit_configured\<lparr>d_runs := [wit_queued_run]\<rparr>"

definition wit_running :: control_db where
  "wit_running = wit_configured\<lparr>d_runs := [claim_row ''o'' 6 wit_queued_run]\<rparr>"

definition wit_sync_job :: sync_job where
  "wit_sync_job = \<lparr>jb_SyncID = ''s'', jb_ProjectID = ''p'', jb_ConnectorID = ''c'', jb_Kind = ''postgres'',
     jb_Table = ''t'', jb_KeyColumn = ''id'', jb_CursorColumn = '''', jb_Cursor = '''', jb_CursorKey = '''',
     jb_SyncMode = ''snapshot'', jb_SyncRevision = 1, jb_SourceRevision = 1, jb_Policy = True, jb_BindingDigest = Some ''d''\<rparr>"

definition wit_generation :: generation_row where
  "wit_generation = new_generation wit_sync_job ''d'' ''g1'' 1 ''r1'' ''o'' 1 7"

definition wit_capturing :: control_db where
  "wit_capturing = wit_running\<lparr>d_generations := [wit_generation], d_sequences := [((''p'', ''c'', ''t''), 1)]\<rparr>"

definition wit_cancelled :: control_db where
  "wit_cancelled = wit_capturing\<lparr>d_runs := [cancel_row 8 (claim_row ''o'' 6 wit_queued_run)],
     d_generations := [cancel_generation 8 wit_generation]\<rparr>"

lemmas wit_control_defs = wit_connector_row_def wit_sync_row_def wit_configured_def wit_queued_run_def wit_queued_def
  wit_running_def wit_sync_job_def wit_generation_def wit_capturing_def wit_cancelled_def empty_control_def
  new_run_def claim_row_def new_generation_def job_source_def cancel_row_def cancel_generation_def

lemma wit_enqueue: "EnqueueConnectorRun ''p'' ''s'' ''k'' ''r1'' 5 wit_configured = Inr ((wit_queued_run, True), wit_queued)"
  by (simp add: EnqueueConnectorRun_def admit_run_def connectorRunByKey_def stamped_run_def alias_run_def
      insert_run_def Let_def wit_control_defs)

lemma wit_claim: "ClaimConnectorRun ''r1'' ''o'' 6 wit_queued = (Some (claim_row ''o'' 6 wit_queued_run), wit_running)"
  by (simp add: ClaimConnectorRun_def Let_def wit_control_defs)

lemma wit_claim_generation:
  "ClaimSnapshotGeneration wit_sync_job ''r1'' ''o'' 1 ''g1'' 7 wit_running = Inr (wit_generation, wit_capturing)"
  by (simp add: ClaimSnapshotGeneration_def job_current_def requireSnapshotRunFence_def holds_lease_def leaseStale_def
      retire_cancelled_def next_sequence_def insert_generation_def Let_def wit_control_defs)

lemma wit_cancel: "CancelConnectorRun ''p'' ''r1'' 8 wit_capturing =
    Inr (cancel_row 8 (claim_row ''o'' 6 wit_queued_run), wit_cancelled)"
  by (simp add: CancelConnectorRun_def active_run_def resumable_def Let_def wit_control_defs)

lemma wit_steps:
  "control_steps slib jl empty_control wit_configured" "control_steps slib jl wit_configured wit_queued"
  "control_steps slib jl wit_queued wit_running" "control_steps slib jl wit_running wit_capturing"
  "control_steps slib jl wit_capturing wit_cancelled"
proof -
  show "control_steps slib jl empty_control wit_configured"
    using control_step.op [of "OpConfigure [wit_sync_row] [wit_connector_row]" empty_control slib jl]
    by (simp add: r_into_rtranclp wit_configured_def)
  show "control_steps slib jl wit_configured wit_queued"
    using control_step.op [of "OpEnqueue ''p'' ''s'' ''k'' ''r1'' 5" wit_configured slib jl]
    by (simp add: r_into_rtranclp wit_enqueue kept_def)
  show "control_steps slib jl wit_queued wit_running"
    using control_step.op [of "OpClaimRun ''r1'' ''o'' 6" wit_queued slib jl]
    by (simp add: r_into_rtranclp wit_claim)
  show "control_steps slib jl wit_running wit_capturing"
    using control_step.op [of "OpClaimGen wit_sync_job ''r1'' ''o'' 1 ''g1'' 7" wit_running slib jl]
    by (simp add: r_into_rtranclp wit_claim_generation kept_def) (simp add: wit_control_defs)
  show "control_steps slib jl wit_capturing wit_cancelled"
    using control_step.op [of "OpCancel ''p'' ''r1'' 8" wit_capturing slib jl]
    by (simp add: r_into_rtranclp wit_cancel kept_def)
qed

lemma wit_reach:
  "control_steps slib jl empty_control wit_queued" "control_steps slib jl empty_control wit_running"
  "control_steps slib jl empty_control wit_capturing"
  using wit_steps [of slib jl] by (blast intro: rtranclp_trans)+



text \<open>C15: a run has one owner. After a worker has claimed a run, no later claim of it succeeds, whoever
  makes it and whatever happened in between; the run stays recorded under that worker, once it has
  ended its row never changes again, and while it is active it is the only active run of its
  sync, so two workers never pull the same sync.\<close>

theorem run_has_one_owner:
  assumes "control_steps slib jl empty_control J" "ClaimConnectorRun run owner now J = (Some r, J1)"
    and "control_steps slib jl J1 J2" "control_steps slib jl J2 J3"
  shows "\<exists>r2. run_of J2 run = Some r2 \<and> rn_owner r2 = owner \<and> rn_lease_epoch r2 = rn_lease_epoch r \<and>
    fst (ClaimConnectorRun run owner' now' J2) = None \<and>
    (\<not> active_run r2 \<longrightarrow> run_of J3 run = Some r2) \<and>
    (active_run r2 \<longrightarrow> filter (\<lambda>x. rn_sync x = rn_sync r2 \<and> active_run x) (d_runs J2) = [r2])"
proof -
  let ?claim = "\<lambda>r. rn_id r = run \<and> rn_status r = Queued \<and> \<not> rn_cancel_requested r"
  have wf: "runs_wf J" by (rule runs_wf_reachable [OF assms(1)])
  obtain r0 where r0: "find ?claim (d_runs J) = Some r0" "r = claim_row owner now r0"
    and J1: "J1 = J\<lparr>d_runs := update_where ?claim (claim_row owner now) (d_runs J)\<rparr>"
    using assms(2) by (auto simp: ClaimConnectorRun_def Let_def split: option.splits if_splits)
  note in0 = find_SomeD [OF r0(1)]
  have step: "control_steps slib jl J J1"
    using control_step.op [of "OpClaimRun run owner now" J slib jl] assms(2) by (simp add: r_into_rtranclp)
  have wf1: "runs_wf J1" by (rule runs_wf_steps [OF step wf])
  have wf2: "runs_wf J2" by (rule runs_wf_steps [OF assms(3) wf1])
  have ep: "rn_lease_epoch r = 1" using wf in0 by (auto simp: r0(2) claim_row_def runs_wf_def)
  have "r \<in> set (d_runs J1)" using in0 by (auto simp: J1 set_update_where r0(2) image_iff)
  then have "run_of J1 run = Some r"
    using wf1 in0 run_of_unique by (fastforce simp: r0(2) claim_row_def)
  moreover have "claimed_by owner r" using ep by (simp add: claimed_by_def r0(2) claim_row_def)
  ultimately obtain r2 where r2: "run_of J2 run = Some r2" "claimed_by owner r2"
    using claimed_steps [OF assms(3)] by blast
  have in2: "r2 \<in> set (d_runs J2)" "rn_id r2 = run" using r2(1) by (auto simp: run_of_def dest: find_SomeD)
  have only: "x \<in> set (d_runs J2) \<Longrightarrow> rn_id x = run \<Longrightarrow> x = r2" for x
    using run_of_unique [OF wf2] r2(1) by fastforce
  have none: "fst (ClaimConnectorRun run owner' now' J2) = None"
  proof -
    have "find ?claim (d_runs J2) = None"
      using only r2(2) by (auto simp: find_None_iff claimed_by_def)
    then show ?thesis by (simp add: ClaimConnectorRun_def Let_def)
  qed
  have "active_run r2 \<Longrightarrow> filter (\<lambda>x. rn_sync x = rn_sync r2 \<and> active_run x) (d_runs J2) = [r2]"
    by (rule filter_unique [of rn_id]) (use wf2 in2 in \<open>auto simp: runs_wf_def\<close>)
  then show ?thesis
    using r2 none ep terminal_run_steps [OF assms(4) r2(1)] by (auto simp: claimed_by_def)
qed
theorem run_has_one_owner_witness:
  "\<exists>r2. run_of wit_capturing ''r1'' = Some r2 \<and> rn_owner r2 = ''o'' \<and>
    rn_lease_epoch r2 = rn_lease_epoch (claim_row ''o'' 6 wit_queued_run) \<and>
    fst (ClaimConnectorRun ''r1'' ''x'' 9 wit_capturing) = None \<and>
    (\<not> active_run r2 \<longrightarrow> run_of wit_cancelled ''r1'' = Some r2) \<and>
    (active_run r2 \<longrightarrow> filter (\<lambda>x. rn_sync x = rn_sync r2 \<and> active_run x) (d_runs wit_capturing) = [r2])"
  by (rule run_has_one_owner [OF wit_reach(1) wit_claim wit_steps(4) wit_steps(5) [of wit_snap wit_json]])

lemma born_above:
  assumes "control_steps slib jl J J'" "gens_wf J" "h \<in> set (d_generations J')" "gen_of J (gn_generation h) = None"
  shows "last_sequence J (gn_source h) < gn_seq h"
  using assms
proof (induction arbitrary: h rule: rtranclp_induct)
  case base
  with gen_of_row show ?case by fastforce
next
  case (step J1 J2)
  have wf1: "gens_wf J1" by (rule gens_wf_steps [OF step(1) step.prems(1)])
  have le: "last_sequence J k \<le> last_sequence J1 k" for k by (rule sequence_steps [OF step(1)])
  have old: "last_sequence J (gn_source (f g)) < gn_seq (f g)"
    if "h = f g" "g \<in> set (d_generations J1)" "\<And>g. gen_moves g (f g)" for f g
    using step.IH [OF step.prems(1) that(2)] step.prems(3) gen_moves_ident [OF that(3)] that(1) by simp
  from step_gens_move [OF step(2)] show ?case
  proof (cases rule: gens_moveE)
    case (kept f)
    then show ?thesis using step.prems(2) old [of f] by auto
  next
    case (new f n)
    then consider g where "h = f g" "g \<in> set (d_generations J1)" | "h = n" using step.prems(2) by auto
    then show ?thesis
    proof cases
      case 2
      with new(3) le [of "gn_source n"] show ?thesis by (simp add: born_def)
    qed (use old [of f] new(1) in simp)
  qed
qed

text \<open>C17: the generation journal only moves forward. Whatever happens after a state of the journal,
  a generation keeps its source, its sync, its sequence, its binding and its capture instant; once it
  is sealed, failed or cancelled it stays so, with the instant it ended; every generation begun later
  for a source has a higher sequence than all that came before; and a source never has two
  resumable generations.\<close>

theorem generation_journal_monotone:
  assumes "control_steps slib jl empty_control J" "control_steps slib jl J J'"
    and "g \<in> set (d_generations J)" "h \<in> set (d_generations J')" "h' \<in> set (d_generations J')"
  shows "(\<exists>g'. gen_of J' (gn_generation g) = Some g' \<and>
      (gn_source g', gn_sync g', gn_seq g', gn_binding g', gn_started_at g') =
      (gn_source g, gn_sync g, gn_seq g, gn_binding g, gn_started_at g) \<and>
      (\<not> resumable g \<longrightarrow> gn_state g' = gn_state g \<and> gn_terminal_at g' = gn_terminal_at g \<and> gn_terminal_at g \<noteq> None)) \<and>
    (gen_of J (gn_generation h) = None \<and> gn_source h = gn_source g \<longrightarrow> gn_seq g < gn_seq h) \<and>
    (gn_source h = gn_source h' \<and> (gn_seq h = gn_seq h' \<or> resumable h \<and> resumable h') \<longrightarrow> h = h')"
proof -
  have wf: "gens_wf J" by (rule gens_wf_reachable [OF assms(1)])
  have wf': "gens_wf J'" by (rule gens_wf_steps [OF assms(2) wf])
  obtain g' where g': "gen_of J' (gn_generation g) = Some g'" "gen_moves g g'"
    using gen_of_steps [OF assms(2) gen_of_row [OF wf assms(3)]] by blast
  have "(gn_source g', gn_sync g', gn_seq g', gn_binding g', gn_started_at g') =
      (gn_source g, gn_sync g, gn_seq g, gn_binding g, gn_started_at g) \<and>
      (\<not> resumable g \<longrightarrow> gn_state g' = gn_state g \<and> gn_terminal_at g' = gn_terminal_at g \<and> gn_terminal_at g \<noteq> None)"
    using gens_wf_row [OF wf assms(3)] gen_moves_ident [OF g'(2)] gen_moves_terminal [OF g'(2)] by blast
  moreover have "gn_seq g < gn_seq h" if "gen_of J (gn_generation h) = None" "gn_source h = gn_source g"
    using born_above [OF assms(2) wf assms(4) that(1)] gens_wf_row [OF wf assms(3)] that(2) by simp
  moreover have "h = h'" if "gn_source h = gn_source h'" "gn_seq h = gn_seq h' \<or> resumable h \<and> resumable h'"
    using gens_wf_one [OF wf' assms(4,5) that] unique_generation [OF wf' assms(4,5)] by blast
  ultimately show ?thesis using g'(1) by blast
qed

theorem generation_journal_monotone_witness:
  "\<exists>g'. gen_of wit_cancelled ''g1'' = Some g' \<and>
      (gn_source g', gn_sync g', gn_seq g', gn_binding g', gn_started_at g') = ((''p'', ''c'', ''t''), ''s'', 1, ''d'', 7)"
proof -
  have m: "wit_generation \<in> set (d_generations wit_capturing)" by (simp add: wit_capturing_def)
  have c: "cancel_generation 8 wit_generation \<in> set (d_generations wit_cancelled)" by (simp add: wit_cancelled_def)
  from generation_journal_monotone [OF wit_reach(3) wit_steps(5) [of wit_snap wit_json] m c c]
  show ?thesis by (clarsimp simp: wit_generation_def new_generation_def job_source_def wit_sync_job_def)
qed

text \<open>C14: a capture whose run has been asked to stop is never sealed and never continued. From any
  state of the journal in which a run carries the cancel flag (set by the operator, or by archiving
  the source), a generation that run was capturing ends cancelled or failed, or stays where it is
  under that same run, in every later state: no operation seals it, and no other run takes it over.
  The run itself never succeeds.\<close>

theorem cancelled_capture_never_seals:
  assumes "control_steps slib jl empty_control J" "run_of J run = Some r" "rn_cancel_requested r"
    and "g \<in> set (d_generations J)" "gn_run g = run" "resumable g" "control_steps slib jl J J'"
  shows "(\<exists>g'. gen_of J' (gn_generation g) = Some g' \<and> gn_state g' \<noteq> Sealed \<and>
      (gn_state g' = GenFailed \<or> gn_state g' = GenCancelled \<or> resumable g' \<and> gn_run g' = run)) \<and>
    (\<exists>r'. run_of J' run = Some r' \<and> (active_run r \<longrightarrow> rn_status r' \<noteq> Succeeded))"
proof -
  have wf: "gens_wf J" "runs_wf J" using gens_wf_reachable runs_wf_reachable assms(1) by blast+
  have fl: "flagged J run"
    using assms(2,3) by (auto simp: run_of_def flagged_def list_ex_iff dest: find_SomeD)
  have "doomed run g" using assms(5,6) by (simp add: doomed_def)
  then obtain g' where g': "g' \<in> set (d_generations J')" "gn_generation g' = gn_generation g" "doomed run g'"
    using doomed_steps [OF assms(7,4) _ wf(2,1) fl] by blast
  have "gen_of J' (gn_generation g) = Some g'"
    using gen_of_row [OF gens_wf_steps [OF assms(7) wf(1)] g'(1)] by (simp add: g'(2))
  moreover have "\<exists>r'. run_of J' run = Some r' \<and> (active_run r \<longrightarrow> rn_status r' \<noteq> Succeeded)"
  proof (cases "rn_status r = Succeeded")
    case True
    then have "\<not> active_run r" by (simp add: active_run_def)
    with terminal_run_steps [OF assms(7,2)] show ?thesis by blast
  qed (use unsuccessful_steps [OF assms(7,2,3)] in blast)
  ultimately show ?thesis using g'(3) by (auto simp: doomed_def resumable_def)
qed

definition wit_archived :: control_db where
  "wit_archived = wit_capturing\<lparr>d_connectors := [wit_connector_row\<lparr>dc_archived_at := Some 8, dc_revision := 2\<rparr>],
     d_syncs := [wit_sync_row\<lparr>cs_enabled := False, cs_disabled_by_archive := True, cs_revision := 2\<rparr>],
     d_runs := [cancel_row 8 (claim_row ''o'' 6 wit_queued_run)]\<rparr>"

lemma wit_archive: "archiveDataConnector ''p'' ''c'' 1 8 wit_capturing =
    Inr (wit_connector_row\<lparr>dc_archived_at := Some 8, dc_revision := 2\<rparr>, wit_archived)"
  by (simp add: archiveDataConnector_def active_run_def Let_def wit_archived_def wit_control_defs)

theorem cancelled_capture_never_seals_witness:
  "\<exists>g'. gen_of wit_archived ''g1'' = Some g' \<and> gn_state g' \<noteq> Sealed"
proof -
  have "control_steps wit_snap wit_json wit_capturing wit_archived"
    using control_step.op [of "OpArchive ''p'' ''c'' 1 8" wit_capturing wit_snap wit_json]
    by (simp add: r_into_rtranclp wit_archive kept_def)
  with wit_reach(3) have r: "control_steps wit_snap wit_json empty_control wit_archived"
    by (blast intro: rtranclp_trans)
  have "run_of wit_archived ''r1'' = Some (cancel_row 8 (claim_row ''o'' 6 wit_queued_run))"
    by (simp add: run_of_def wit_archived_def wit_control_defs)
  moreover have "wit_generation \<in> set (d_generations wit_archived)" "gn_run wit_generation = ''r1''" "resumable wit_generation"
    by (simp_all add: wit_archived_def wit_capturing_def wit_generation_def new_generation_def resumable_def)
  ultimately show ?thesis
    using cancelled_capture_never_seals [OF r _ _ _ _ _ rtranclp.rtrancl_refl]
    by (fastforce simp: cancel_row_def wit_generation_def new_generation_def)
qed



end
