(* ===== verification/Policy.thy ===== *)
theory Policy
  imports Envelope
begin

text \<open>
  The operator's source policy (\<open>internal/dataplane/connector/source_policy.go\<close>): which network
  destinations and which relations a connector may read. Relation names are split and quoted as
  in \<open>connector/postgres.go\<close>. The parsing of IP networks, the file system and the JSON decoder are
  parameters.
\<close>

section \<open>The policy\<close>

record source_destination =
  sd_Host :: string
  sd_Port :: nat
  sd_AllowedIPCIDRs :: "string list"

record source_policy_column =
  pc_Name :: string
  pc_PGType :: string

record source_binding =
  bd_ProjectID :: string
  bd_ConnectorID :: string
  bd_Schema :: string
  bd_Relation :: string
  bd_RelationKind :: string
  bd_Columns :: "source_policy_column list"
  bd_KeyColumn :: string
  bd_KeyStability :: string
  bd_AllowedCursorColumns :: "string list"
  bd_LegacySyncIDs :: "string list"

record source_policy =
  sp_Version :: int
  sp_Destinations :: "source_destination list"
  sp_Bindings :: "source_binding list"

definition SourcePolicyVersion :: int where "SourcePolicyVersion = 1"
definition RelationKindView :: string where "RelationKindView = ''view''"
definition RelationKindLegacyTable :: string where "RelationKindLegacyTable = ''legacy_table''"
definition KeyStabilityImmutableUnique :: string where "KeyStabilityImmutableUnique = ''immutable_unique_non_null''"

datatype policy_error =
    PolicyVersion | PolicyPath | PolicyFile | PolicyJSON | ErrSourcePolicyDenied
  | DestinationIncomplete nat | DestinationNoRanges nat | DestinationCIDR nat | DestinationDuplicate string
  | BindingIdentity nat | BindingKind nat | BindingStability nat | BindingEmpty nat
  | ColumnIncomplete nat | ColumnType nat string | ColumnRepeated nat string
  | KeyNotListed nat | CursorNotListed nat string | BindingDuplicate

text \<open>Parameters: which texts are CIDR networks and which addresses they contain, the addresses no
  destination may name, the file read at start and its decoding (with unknown fields and trailing
  text refused), the JSON text the digest is taken of, its SHA-256, and lower case beyond ASCII.\<close>

record 'ip policy_lib =
  pl_cidr :: "string \<Rightarrow> ('ip \<Rightarrow> bool) option"
  pl_special :: "'ip \<Rightarrow> bool"
  pl_file :: "string \<Rightarrow> string option"
  pl_decode :: "string \<Rightarrow> source_policy option"
  pl_shape_text :: "string list \<Rightarrow> (string \<times> string) list \<Rightarrow> string list \<Rightarrow> string"
  pl_sha256 :: "string \<Rightarrow> string"
  pl_unicode :: "string \<Rightarrow> string"

section \<open>Validation\<close>

definition lower_case :: "'ip policy_lib \<Rightarrow> string \<Rightarrow> string" where
  "lower_case pl = to_lower (pl_unicode pl)"

definition allowedSourcePGType :: "'ip policy_lib \<Rightarrow> string \<Rightarrow> bool" where
  "allowedSourcePGType pl raw =
     (let t = lower_case pl (trim_space raw)
      in list_ex (has_prefix t) [''character varying('', ''character('', ''numeric('', ''decimal('', ''timestamp('', ''time(''] \<or>
         t \<in> set [''smallint'', ''integer'', ''bigint'', ''real'', ''double precision'', ''numeric'', ''decimal'',
           ''boolean'', ''text'', ''character varying'', ''character'', ''uuid'', ''date'',
           ''timestamp without time zone'', ''timestamp with time zone'', ''time without time zone'',
           ''time with time zone'', ''json'', ''jsonb'', ''bytea''])"

definition normal_host :: "'ip policy_lib \<Rightarrow> string \<Rightarrow> string" where
  "normal_host pl host = trim_space (lower_case pl host)"

text \<open>Hosts are normalised in place; \<open>seen\<close> holds the joined hosts and ports.\<close>

fun validate_destinations ::
  "'ip policy_lib \<Rightarrow> nat \<Rightarrow> (string \<times> nat) list \<Rightarrow> source_destination list \<Rightarrow> policy_error + source_destination list" where
  "validate_destinations pl i seen [] = Inr []"
| "validate_destinations pl i seen (d0 # ds) =
     (let d = d0\<lparr>sd_Host := normal_host pl (sd_Host d0)\<rparr>
      in if sd_Host d = '''' \<or> sd_Port d = 0 \<or> has_prefix (sd_Host d) ''/'' then Inl (DestinationIncomplete i)
         else if sd_AllowedIPCIDRs d = [] then Inl (DestinationNoRanges i)
         else if \<not> list_all (\<lambda>raw. pl_cidr pl raw \<noteq> None) (sd_AllowedIPCIDRs d) then Inl (DestinationCIDR i)
         else if (sd_Host d, sd_Port d) \<in> set seen then Inl (DestinationDuplicate (sd_Host d))
         else res_bind (validate_destinations pl (Suc i) ((sd_Host d, sd_Port d) # seen) ds) (\<lambda>rest. Inr (d # rest)))"

fun validate_columns :: "'ip policy_lib \<Rightarrow> nat \<Rightarrow> string list \<Rightarrow> source_policy_column list \<Rightarrow> policy_error option" where
  "validate_columns pl i seen [] = None"
| "validate_columns pl i seen (c # cs) =
     (if trim_space (pc_Name c) = '''' \<or> trim_space (pc_PGType c) = '''' then Some (ColumnIncomplete i)
      else if \<not> allowedSourcePGType pl (pc_PGType c) then Some (ColumnType i (pc_Name c))
      else if pc_Name c \<in> set seen then Some (ColumnRepeated i (pc_Name c))
      else validate_columns pl i (pc_Name c # seen) cs)"

definition relation_id :: "source_binding \<Rightarrow> string" where
  "relation_id b = str_join [CHR 0x00] [bd_ProjectID b, bd_ConnectorID b, bd_Schema b, bd_Relation b]"

definition validate_binding :: "'ip policy_lib \<Rightarrow> nat \<Rightarrow> source_binding \<Rightarrow> policy_error option" where
  "validate_binding pl i b =
     (if trim_space (bd_ProjectID b) = '''' \<or> trim_space (bd_ConnectorID b) = '''' \<or>
         trim_space (bd_Schema b) = '''' \<or> trim_space (bd_Relation b) = '''' then Some (BindingIdentity i)
      else if bd_RelationKind b \<noteq> RelationKindView \<and> bd_RelationKind b \<noteq> RelationKindLegacyTable then Some (BindingKind i)
      else if bd_KeyStability b \<noteq> KeyStabilityImmutableUnique then Some (BindingStability i)
      else if bd_Columns b = [] \<or> trim_space (bd_KeyColumn b) = '''' then Some (BindingEmpty i)
      else (case validate_columns pl i [] (bd_Columns b) of
          Some e \<Rightarrow> Some e
        | None \<Rightarrow>
            if bd_KeyColumn b \<notin> set (map pc_Name (bd_Columns b)) then Some (KeyNotListed i)
            else map_option (CursorNotListed i) (find (\<lambda>c. c \<notin> set (map pc_Name (bd_Columns b))) (bd_AllowedCursorColumns b))))"

fun validate_bindings :: "'ip policy_lib \<Rightarrow> nat \<Rightarrow> string list \<Rightarrow> source_binding list \<Rightarrow> policy_error option" where
  "validate_bindings pl i seen [] = None"
| "validate_bindings pl i seen (b # bs) =
     (case validate_binding pl i b of
        Some e \<Rightarrow> Some e
      | None \<Rightarrow>
          if relation_id b \<in> set seen then Some BindingDuplicate
          else validate_bindings pl (Suc i) (relation_id b # seen) bs)"

definition ValidatePolicy :: "'ip policy_lib \<Rightarrow> source_policy \<Rightarrow> policy_error + source_policy" where
  "ValidatePolicy pl p =
     (if sp_Version p \<noteq> SourcePolicyVersion then Inl PolicyVersion
      else res_bind (validate_destinations pl 0 [] (sp_Destinations p)) (\<lambda>ds.
        case validate_bindings pl 0 [] (sp_Bindings p) of
          Some e \<Rightarrow> Inl e
        | None \<Rightarrow> Inr (p\<lparr>sp_Destinations := ds\<rparr>)))"

definition LoadSourcePolicy :: "'ip policy_lib \<Rightarrow> string \<Rightarrow> policy_error + source_policy" where
  "LoadSourcePolicy pl path =
     (if trim_space path = '''' then Inr \<lparr>sp_Version = SourcePolicyVersion, sp_Destinations = [], sp_Bindings = []\<rparr>
      else if \<not> has_prefix path ''/'' then Inl PolicyPath
      else (case pl_file pl path of
          None \<Rightarrow> Inl PolicyFile
        | Some raw \<Rightarrow>
            (case pl_decode pl raw of
               None \<Rightarrow> Inl PolicyJSON
             | Some p \<Rightarrow> ValidatePolicy pl p)))"

section \<open>Lookups\<close>

definition BindingsForConnector :: "source_policy option \<Rightarrow> string \<Rightarrow> string \<Rightarrow> policy_error + source_binding list" where
  "BindingsForConnector p project conn =
     (case p of
        None \<Rightarrow> Inl ErrSourcePolicyDenied
      | Some p \<Rightarrow>
          (case filter (\<lambda>b. bd_ProjectID b = project \<and> bd_ConnectorID b = conn) (sp_Bindings p) of
             [] \<Rightarrow> Inl ErrSourcePolicyDenied
           | bs \<Rightarrow> Inr bs))"

definition BindingOf :: "source_policy option \<Rightarrow> string \<Rightarrow> string \<Rightarrow> policy_error + source_binding" where
  "BindingOf p project conn =
     res_bind (BindingsForConnector p project conn) (\<lambda>bs.
       case bs of [b] \<Rightarrow> Inr b | _ \<Rightarrow> Inl ErrSourcePolicyDenied)"

definition QualifiedRelation :: "source_binding \<Rightarrow> string" where
  "QualifiedRelation b = bd_Schema b @ ''.'' @ bd_Relation b"

definition MatchesRelation :: "source_binding \<Rightarrow> string \<Rightarrow> bool" where
  "MatchesRelation b nm \<longleftrightarrow> nm = QualifiedRelation b \<or>
     bd_RelationKind b = RelationKindLegacyTable \<and> bd_Schema b = ''public'' \<and> nm = bd_Relation b"

definition DisplayRelation :: "source_binding \<Rightarrow> string" where
  "DisplayRelation b =
     (if bd_RelationKind b = RelationKindLegacyTable \<and> bd_Schema b = ''public'' then bd_Relation b
      else QualifiedRelation b)"

definition BindingForRelation :: "source_policy option \<Rightarrow> string \<Rightarrow> string \<Rightarrow> string \<Rightarrow> policy_error + source_binding" where
  "BindingForRelation p project conn relation =
     res_bind (BindingsForConnector p project conn) (\<lambda>bs.
       case find (\<lambda>b. MatchesRelation b relation) bs of
         Some b \<Rightarrow> Inr b
       | None \<Rightarrow> Inl ErrSourcePolicyDenied)"

definition trim_dot :: "string \<Rightarrow> string" where
  "trim_dot s = (if has_suffix s ''.'' then butlast s else s)"

definition Destination :: "'ip policy_lib \<Rightarrow> source_policy \<Rightarrow> string \<Rightarrow> nat \<Rightarrow> policy_error + source_destination" where
  "Destination pl p host port =
     (let h = trim_dot (lower_case pl (trim_space host))
      in case find (\<lambda>d. trim_dot (lower_case pl (sd_Host d)) = h \<and> sd_Port d = port) (sp_Destinations p) of
           Some d \<Rightarrow> Inr d
         | None \<Rightarrow> Inl ErrSourcePolicyDenied)"

definition destinationAllowsIP :: "'ip policy_lib \<Rightarrow> source_destination \<Rightarrow> 'ip \<Rightarrow> bool" where
  "destinationAllowsIP pl d ip \<longleftrightarrow> \<not> pl_special pl ip \<and>
     list_ex (\<lambda>raw. case pl_cidr pl raw of None \<Rightarrow> False | Some net \<Rightarrow> net ip) (sd_AllowedIPCIDRs d)"

definition AllowsColumn :: "source_binding \<Rightarrow> string \<Rightarrow> bool" where
  "AllowsColumn b nm \<longleftrightarrow> list_ex (\<lambda>c. pc_Name c = nm) (bd_Columns b)"

definition AllowsCursor :: "source_binding \<Rightarrow> string \<Rightarrow> bool" where
  "AllowsCursor b nm \<longleftrightarrow> list_ex (\<lambda>c. c = nm) (bd_AllowedCursorColumns b)"

definition AllowsSync :: "source_binding \<Rightarrow> string \<Rightarrow> bool" where
  "AllowsSync b sync \<longleftrightarrow> bd_RelationKind b = RelationKindView \<or> list_ex (\<lambda>i. i = sync) (bd_LegacySyncIDs b)"

text \<open>Columns are sorted by name, cursors as text: the digest does not depend on their order.\<close>

definition DigestOf :: "'ip policy_lib \<Rightarrow> source_binding \<Rightarrow> string \<Rightarrow> string" where
  "DigestOf pl b mode =
     pl_sha256 pl (pl_shape_text pl
       [bd_ProjectID b, bd_ConnectorID b, bd_Schema b, bd_Relation b, bd_RelationKind b, bd_KeyColumn b, bd_KeyStability b, mode]
       (map (\<lambda>c. (pc_Name c, pc_PGType c)) (sort_key pc_Name (bd_Columns b))) (sort (bd_AllowedCursorColumns b)))"

section \<open>Names of relations\<close>

definition splitQualified :: "string \<Rightarrow> string \<times> string" where
  "splitQualified table =
     (case index_byte table (CHR ''.'') of
        Some i \<Rightarrow> (take i table, drop (Suc i) table)
      | None \<Rightarrow> (''public'', table))"

text \<open>The schema and the relation a quoted name addresses.\<close>

definition quoteQualified :: "string \<Rightarrow> (string \<times> string) option" where
  "quoteQualified table =
     (let (schema, bare) = splitQualified table in if bare = '''' \<or> schema = '''' then None else Some (schema, bare))"

definition validateApprovedRequest :: "source_binding \<Rightarrow> string \<Rightarrow> string \<Rightarrow> string \<Rightarrow> bool \<Rightarrow> bool" where
  "validateApprovedRequest b table key_column cursor_column snapshot \<longleftrightarrow>
     MatchesRelation b table \<and> key_column = bd_KeyColumn b \<and>
     (if snapshot then cursor_column = '''' else AllowsCursor b cursor_column)"

definition bindingForRelation :: "source_binding list \<Rightarrow> string \<Rightarrow> source_binding option" where
  "bindingForRelation bs relation = find (\<lambda>b. MatchesRelation b relation) bs"

section \<open>What a validated policy promises\<close>

lemma index_byte_append: "c \<notin> set a \<Longrightarrow> index_byte (a @ c # b) c = Some (length a)"
  by (induction a) auto

lemma index_byte_found: "index_byte s c = Some i \<Longrightarrow> c \<notin> set (take i s)"
  by (induction s arbitrary: i) (auto split: if_splits)

lemma split_qualified: "CHR ''.'' \<notin> set schema \<Longrightarrow> splitQualified (schema @ ''.'' @ rel) = (schema, rel)"
  by (simp add: splitQualified_def index_byte_append)

lemma split_schema_plain: "CHR ''.'' \<notin> set (fst (splitQualified s))"
proof (cases "index_byte s (CHR ''.'')")
  case (Some i)
  then show ?thesis using index_byte_found [OF Some] by (simp add: splitQualified_def)
qed (simp add: splitQualified_def)

lemma validate_columns_ok:
  "validate_columns pl i seen cs = None \<Longrightarrow>
     distinct (map pc_Name cs) \<and> set seen \<inter> set (map pc_Name cs) = {} \<and> list_all (\<lambda>c. allowedSourcePGType pl (pc_PGType c)) cs"
proof (induction cs arbitrary: seen)
  case (Cons c cs)
  from Cons.prems Cons.IH [of "pc_Name c # seen"] show ?case by (fastforce split: if_splits)
qed simp

lemma validate_bindings_ok:
  "validate_bindings pl i seen bs = None \<Longrightarrow>
     distinct (map relation_id bs) \<and> set seen \<inter> set (map relation_id bs) = {} \<and> list_all (\<lambda>b. \<exists>i. validate_binding pl i b = None) bs"
proof (induction bs arbitrary: i seen)
  case (Cons b bs)
  from Cons.prems Cons.IH [of "Suc i" "relation_id b # seen"] show ?case by (fastforce split: if_splits option.splits)
qed simp

lemma validate_binding_ok:
  assumes "validate_binding pl i b = None"
  shows "bd_Schema b \<noteq> ''''" "bd_Relation b \<noteq> ''''" "distinct (map pc_Name (bd_Columns b))"
    "list_all (\<lambda>c. allowedSourcePGType pl (pc_PGType c)) (bd_Columns b)"
    "AllowsColumn b (bd_KeyColumn b)" "AllowsCursor b c \<Longrightarrow> AllowsColumn b c"
    "bd_RelationKind b = RelationKindView \<or> bd_RelationKind b = RelationKindLegacyTable"
proof -
  note a = assms [unfolded validate_binding_def]
  have "trim_space '''' = ''''" by (rule trim_space_plain) simp
  then show "bd_Schema b \<noteq> ''''" "bd_Relation b \<noteq> ''''" using a by (auto split: if_splits)
  have c: "validate_columns pl i [] (bd_Columns b) = None" "bd_KeyColumn b \<in> set (map pc_Name (bd_Columns b))"
    "find (\<lambda>c. c \<notin> set (map pc_Name (bd_Columns b))) (bd_AllowedCursorColumns b) = None"
    using a by (auto split: if_splits option.splits)
  show "distinct (map pc_Name (bd_Columns b))" "list_all (\<lambda>c. allowedSourcePGType pl (pc_PGType c)) (bd_Columns b)"
    using validate_columns_ok [OF c(1)] by blast+
  show "AllowsColumn b (bd_KeyColumn b)" using c(2) by (auto simp: AllowsColumn_def list_ex_iff)
  show "AllowsColumn b c" if "AllowsCursor b c"
    using c(3) that by (auto simp: AllowsColumn_def AllowsCursor_def list_ex_iff find_None_iff)
  show "bd_RelationKind b = RelationKindView \<or> bd_RelationKind b = RelationKindLegacyTable"
    using a by (auto split: if_splits)
qed

lemma ValidatePolicy_ok:
  assumes "ValidatePolicy pl p0 = Inr p"
  shows "sp_Bindings p = sp_Bindings p0" "distinct (map relation_id (sp_Bindings p))"
    "b \<in> set (sp_Bindings p) \<Longrightarrow> \<exists>i. validate_binding pl i b = None"
proof -
  from assms have v: "validate_bindings pl 0 [] (sp_Bindings p0) = None" and e: "sp_Bindings p = sp_Bindings p0"
    by (auto simp: ValidatePolicy_def split: if_splits option.splits)
  show "sp_Bindings p = sp_Bindings p0" by (rule e)
  show "distinct (map relation_id (sp_Bindings p))" "b \<in> set (sp_Bindings p) \<Longrightarrow> \<exists>i. validate_binding pl i b = None"
    using validate_bindings_ok [OF v] unfolding e list_all_iff by blast+
qed

lemma BindingsForConnector_set:
  "BindingsForConnector (Some p) project conn = Inr bs \<Longrightarrow>
     bs = filter (\<lambda>b. bd_ProjectID b = project \<and> bd_ConnectorID b = conn) (sp_Bindings p)"
  by (auto simp: BindingsForConnector_def split: list.splits)

lemma BindingForRelation_member:
  assumes "BindingForRelation (Some p) project conn relation = Inr b"
  shows "b \<in> set (sp_Bindings p)" "bd_ProjectID b = project" "bd_ConnectorID b = conn" "MatchesRelation b relation"
proof -
  from assms obtain bs where bs: "BindingsForConnector (Some p) project conn = Inr bs"
    "find (\<lambda>b. MatchesRelation b relation) bs = Some b"
    by (auto simp: BindingForRelation_def split: option.splits)
  with find_Some_iff' [OF bs(2)] BindingsForConnector_set [OF bs(1)]
  show "b \<in> set (sp_Bindings p)" "bd_ProjectID b = project" "bd_ConnectorID b = conn" "MatchesRelation b relation"
    by auto
qed

lemma relation_addressed:
  assumes "bd_Schema b \<noteq> ''''" "bd_Relation b \<noteq> ''''"
  shows "quoteQualified (QualifiedRelation b) = Some (bd_Schema b, bd_Relation b) \<longleftrightarrow> CHR ''.'' \<notin> set (bd_Schema b)"
proof (cases "CHR ''.'' \<in> set (bd_Schema b)")
  case True
  then have "fst (splitQualified (QualifiedRelation b)) \<noteq> bd_Schema b" using split_schema_plain by metis
  then show ?thesis using True by (auto simp: quoteQualified_def split: prod.splits if_splits)
qed (use assms in \<open>simp add: quoteQualified_def QualifiedRelation_def split_qualified [simplified]\<close>)

end
