(* ===== verification/Source.thy ===== *)
theory Source
  imports Policy
begin

text \<open>
  Reading a PostgreSQL source (\<open>internal/dataplane/connector/postgres.go\<close>, \<open>connector.go\<close>): opening
  it under the policy, the check of the snapshot key, and one page of a keyset-paginated pull.
  A relation of the source is the list of its rows; a value is its text, and the order of a column
  is the rank of the value a text is cast to, both given by the source. A query is the list it
  selects: the rows that satisfy its condition, sorted, cut at the limit. The cache of the bindings
  a connection has already checked is left out: the model checks them at every page. Dialling, the checks of
  the role and the rendering of errors are left out.
\<close>

section \<open>A source database\<close>

record source_tuple =
  tu_text :: "string \<Rightarrow> string option"
  tu_json :: "string list option \<Rightarrow> string option"

text \<open>\<open>so_kind\<close> and \<open>so_columns\<close> are the catalogue (\<open>pg_class.relkind\<close>, names and types of the live
  columns), \<open>so_rank\<close> the order of a column.\<close>

record source_db =
  so_kind :: "string \<times> string \<Rightarrow> string option"
  so_columns :: "string \<times> string \<Rightarrow> (string \<times> string) list"
  so_rows :: "string \<times> string \<Rightarrow> source_tuple list option"
  so_rank :: "string \<times> string \<Rightarrow> string \<Rightarrow> string \<Rightarrow> int"

datatype source_error =
    PolicyRefused policy_error | UnregisteredKind string | ColumnsRequired | RequestNotApproved | ExportUnavailable
  | ErrSnapshotKeyInvalid string | InvalidTableName | QueryFailed | EmptyKey

record pull_request =
  pq_Table :: string
  pq_KeyColumn :: string
  pq_CursorColumn :: string
  pq_Cursor :: string
  pq_CursorKey :: string
  pq_Limit :: nat
  pq_Snapshot :: bool

record pulled_row =
  sw_Key :: string
  sw_Cursor :: string
  sw_Data :: "string option"

record pull_result =
  pr_Rows :: "pulled_row list"
  pr_NextCursor :: string
  pr_NextCursorKey :: string
  pr_HasMore :: bool

section \<open>Opening a source\<close>

text \<open>What a governed open hands to the dial: the bindings the connection may read. \<open>opens\<close> says
  which other kinds are registered.\<close>

definition OpenWithPolicy ::
  "(string \<Rightarrow> bool) \<Rightarrow> string \<Rightarrow> string \<Rightarrow> string \<Rightarrow> source_policy option \<Rightarrow> string option \<Rightarrow> source_error + source_binding list" where
  "OpenWithPolicy opens kind project conn policy relation =
     (if kind \<noteq> ''postgres'' then (if opens kind then Inr [] else Inl (UnregisteredKind kind))
      else if policy = None then Inl (PolicyRefused ErrSourcePolicyDenied)
      else (case relation of
          Some rel \<Rightarrow> (case BindingForRelation policy project conn rel of
              Inl e \<Rightarrow> Inl (PolicyRefused e)
            | Inr b \<Rightarrow> Inr [b])
        | None \<Rightarrow> (case BindingsForConnector policy project conn of
              Inl e \<Rightarrow> Inl (PolicyRefused e)
            | Inr bs \<Rightarrow> Inr bs)))"

definition discoverApprovedBinding :: "source_db \<Rightarrow> source_binding \<Rightarrow> source_error option" where
  "discoverApprovedBinding so b =
     (let rel = (bd_Schema b, bd_Relation b) in
      case so_kind so rel of
        None \<Rightarrow> Some ExportUnavailable
      | Some kind \<Rightarrow>
          if kind \<noteq> (if bd_RelationKind b = RelationKindLegacyTable then ''r'' else ''v'')
          then Some (ErrSnapshotKeyInvalid ''relation kind changed'')
          else if length (so_columns so rel) \<noteq> length (bd_Columns b) \<or>
            \<not> list_all (\<lambda>c. map_of (so_columns so rel) (pc_Name c) = Some (pc_PGType c)) (bd_Columns b)
          then Some (ErrSnapshotKeyInvalid ''schema changed'')
          else None)"

fun repeats :: "'a list \<Rightarrow> bool" where
  "repeats [] = False"
| "repeats (x # xs) = (x \<in> set xs \<or> repeats xs)"

definition validateApprovedKey :: "source_db \<Rightarrow> source_binding \<Rightarrow> source_error option" where
  "validateApprovedKey so b =
     (case quoteQualified (QualifiedRelation b) of
        None \<Rightarrow> Some InvalidTableName
      | Some rel \<Rightarrow>
     (case so_rows so rel of
        None \<Rightarrow> Some QueryFailed
      | Some rows \<Rightarrow>
          (let keys = map (\<lambda>t. tu_text t (bd_KeyColumn b)) rows
           in if None \<in> set keys \<or> Some '''' \<in> set keys \<or>
                 repeats (map (map_option (so_rank so rel (bd_KeyColumn b))) keys)
              then Some (ErrSnapshotKeyInvalid ''null, empty, or duplicate'') else None)))"

definition ValidateSnapshotKey :: "source_db \<Rightarrow> source_binding list \<Rightarrow> string \<Rightarrow> string \<Rightarrow> source_error option" where
  "ValidateSnapshotKey so bindings table key_column =
     (case bindingForRelation bindings table of
        None \<Rightarrow> Some (ErrSnapshotKeyInvalid ''not approved'')
      | Some b \<Rightarrow>
          if key_column \<noteq> bd_KeyColumn b then Some (ErrSnapshotKeyInvalid ''not approved'')
          else (case discoverApprovedBinding so b of
              Some e \<Rightarrow> Some e
            | None \<Rightarrow> validateApprovedKey so b))"

section \<open>One page\<close>

text \<open>The relation a request addresses and the columns it selects.\<close>

definition queryTable :: "source_db \<Rightarrow> source_binding list \<Rightarrow> pull_request \<Rightarrow> source_error + (string \<times> string) \<times> string list option" where
  "queryTable so bindings q =
     (if bindings = [] then
        (case quoteQualified (pq_Table q) of None \<Rightarrow> Inl InvalidTableName | Some rel \<Rightarrow> Inr (rel, None))
      else (case bindingForRelation bindings (pq_Table q) of
          None \<Rightarrow> Inl (PolicyRefused ErrSourcePolicyDenied)
        | Some b \<Rightarrow>
            if \<not> validateApprovedRequest b (pq_Table q) (pq_KeyColumn q) (pq_CursorColumn q) (pq_Snapshot q)
            then Inl RequestNotApproved
            else (case discoverApprovedBinding so b of
                Some e \<Rightarrow> Inl e
              | None \<Rightarrow>
            (case (if pq_Snapshot q then None else validateApprovedKey so b) of
                Some e \<Rightarrow> Inl e
              | None \<Rightarrow>
            (case quoteQualified (QualifiedRelation b) of
                None \<Rightarrow> Inl InvalidTableName
              | Some rel \<Rightarrow> Inr (rel, Some (map pc_Name (bd_Columns b))))))))"

text \<open>The condition of the query: a comparison with \<open>NULL\<close> does not hold. \<open>ck\<close> and \<open>kk\<close> rank
  cursors and keys.\<close>

definition selected :: "(string \<Rightarrow> int) \<Rightarrow> (string \<Rightarrow> int) \<Rightarrow> pull_request \<Rightarrow> source_tuple \<Rightarrow> bool" where
  "selected ck kk q t =
     (let key_after = (case tu_text t (pq_KeyColumn q) of None \<Rightarrow> False | Some k \<Rightarrow> kk (pq_CursorKey q) < kk k)
      in if pq_Snapshot q then pq_CursorKey q = '''' \<or> key_after
         else if pq_Cursor q \<noteq> '''' then
           (case tu_text t (pq_CursorColumn q) of
              None \<Rightarrow> False
            | Some c \<Rightarrow> ck (pq_Cursor q) < ck c \<or> pq_CursorKey q \<noteq> '''' \<and> ck c = ck (pq_Cursor q) \<and> key_after)
         else pq_CursorKey q = '''' \<or> tu_text t (pq_CursorColumn q) \<noteq> None \<or> key_after)"

text \<open>\<open>ORDER BY cursor ASC NULLS FIRST, key ASC\<close>, or by the key alone; a null key comes last.\<close>

definition sort_position :: "(string \<Rightarrow> int) \<Rightarrow> (string \<Rightarrow> int) \<Rightarrow> pull_request \<Rightarrow> source_tuple \<Rightarrow> (int \<times> int) \<times> int \<times> int" where
  "sort_position ck kk q t =
     ((if pq_Snapshot q then (0, 0)
       else (case tu_text t (pq_CursorColumn q) of None \<Rightarrow> (0, 0) | Some c \<Rightarrow> (1, ck c))),
      (case tu_text t (pq_KeyColumn q) of None \<Rightarrow> (1, 0) | Some k \<Rightarrow> (0, kk k)))"

text \<open>A selected field named both as the key and as the cursor column is the key only: the code's
  \<open>switch\<close> takes its first matching case.\<close>

definition pulled_row_of :: "pull_request \<Rightarrow> string list option \<Rightarrow> source_tuple \<Rightarrow> pulled_row" where
  "pulled_row_of q columns t =
     (let field = (\<lambda>c. if c \<noteq> '''' \<and> (case columns of None \<Rightarrow> True | Some cs \<Rightarrow> c \<in> set cs)
            then (case tu_text t c of None \<Rightarrow> '''' | Some v \<Rightarrow> v) else '''')
      in \<lparr>sw_Key = field (pq_KeyColumn q),
          sw_Cursor = (if pq_CursorColumn q = pq_KeyColumn q then '''' else field (pq_CursorColumn q)),
          sw_Data = tu_json t columns\<rparr>)"

definition page_result :: "nat \<Rightarrow> pulled_row list \<Rightarrow> pull_result" where
  "page_result limit rows =
     \<lparr>pr_Rows = rows, pr_NextCursor = (if rows = [] then '''' else sw_Cursor (last rows)),
      pr_NextCursorKey = (if rows = [] then '''' else sw_Key (last rows)), pr_HasMore = (length rows = limit)\<rparr>"

definition PullRows :: "source_db \<Rightarrow> source_binding list \<Rightarrow> pull_request \<Rightarrow> source_error + pull_result" where
  "PullRows so bindings q =
     (if pq_Table q = '''' \<or> pq_KeyColumn q = '''' \<or> \<not> pq_Snapshot q \<and> pq_CursorColumn q = '''' then Inl ColumnsRequired
      else res_bind (queryTable so bindings q) (\<lambda>(rel, columns).
        let limit = (if pq_Limit q = 0 then 1000 else pq_Limit q);
            ck = so_rank so rel (pq_CursorColumn q); kk = so_rank so rel (pq_KeyColumn q)
        in case so_rows so rel of
             None \<Rightarrow> Inl QueryFailed
           | Some tuples \<Rightarrow>
               (let page = take limit (sort_key (sort_position ck kk q) (filter (selected ck kk q) tuples));
                    rows = map (pulled_row_of q columns) page
                in if list_ex (\<lambda>r. sw_Key r = '''') rows then Inl EmptyKey else Inr (page_result limit rows))))"

section \<open>Keyset pagination\<close>

text \<open>A request at the position of a row, and the pages from a position on, as a caller that follows
  the positions sees them; \<open>n\<close> bounds the number of pages.\<close>

definition at_position :: "pull_request \<Rightarrow> string \<Rightarrow> string \<Rightarrow> pull_request" where
  "at_position q cursor key = q\<lparr>pq_Cursor := cursor, pq_CursorKey := key\<rparr>"

fun pages :: "source_db \<Rightarrow> source_binding list \<Rightarrow> nat \<Rightarrow> pull_request \<Rightarrow> source_error + pulled_row list" where
  "pages so bindings 0 q = Inr []"
| "pages so bindings (Suc n) q =
     res_bind (PullRows so bindings q) (\<lambda>p.
       if \<not> pr_HasMore p then Inr (pr_Rows p)
       else res_bind (pages so bindings n (at_position q (pr_NextCursor p) (pr_NextCursorKey p)))
         (\<lambda>rest. Inr (pr_Rows p @ rest)))"

text \<open>The rows of a relation in the order of a request.\<close>

definition in_order :: "(string \<Rightarrow> int) \<Rightarrow> (string \<Rightarrow> int) \<Rightarrow> pull_request \<Rightarrow> source_tuple list \<Rightarrow> source_tuple list" where
  "in_order ck kk q tuples = sort_key (sort_position ck kk q) tuples"

lemma filter_after:
  fixes f :: "'a \<Rightarrow> 'b::linorder"
  assumes "sorted (map f xs)" "distinct (map f xs)" "0 < i" "i \<le> length xs"
  shows "filter (\<lambda>t. f (xs ! (i - 1)) < f t) xs = drop i xs"
  using assms
proof (induction xs arbitrary: i)
  case (Cons x xs)
  show ?case
  proof (cases "i = 1")
    case True
    have "f x < f t" if "t \<in> set xs" for t
      using Cons.prems(1,2) that by (auto simp: less_le image_iff)
    with True show ?thesis by (simp add: filter_id_conv)
  next
    case False
    then have i: "0 < i - 1" "i - 1 \<le> length xs" using Cons.prems(3,4) by auto
    have n: "(x # xs) ! (i - 1) = xs ! (i - 1 - 1)" "drop i (x # xs) = drop (i - 1) xs"
      using i(1) Cons.prems(3) by (simp_all add: nth_Cons' drop_Cons')
    have "xs ! (i - 1 - 1) \<in> set xs" using i by (intro nth_mem) linarith
    then have "\<not> f (xs ! (i - 1 - 1)) < f x" using Cons.prems(1) by auto
    with n Cons.IH [OF _ _ i] Cons.prems(1,2) show ?thesis by simp
  qed
qed simp

definition keyed :: "source_db \<Rightarrow> string \<times> string \<Rightarrow> pull_request \<Rightarrow> source_tuple list \<Rightarrow> bool" where
  "keyed so rel q tuples \<longleftrightarrow>
     list_all (\<lambda>t. tu_text t (pq_KeyColumn q) \<noteq> None \<and> tu_text t (pq_KeyColumn q) \<noteq> Some '''') tuples \<and>
     distinct (map (\<lambda>t. map_option (so_rank so rel (pq_KeyColumn q)) (tu_text t (pq_KeyColumn q))) tuples)"

text \<open>What makes a position of an incremental pull unambiguous: a cursor column of its own whose
  texts are not empty.\<close>

definition positioned :: "pull_request \<Rightarrow> source_tuple list \<Rightarrow> bool" where
  "positioned q tuples \<longleftrightarrow>
     (if pq_Snapshot q then pq_CursorColumn q = ''''
      else pq_CursorColumn q \<noteq> '''' \<and> pq_CursorColumn q \<noteq> pq_KeyColumn q \<and>
        list_all (\<lambda>t. tu_text t (pq_CursorColumn q) \<noteq> Some '''') tuples)"

definition reads :: "pull_request \<Rightarrow> string list option \<Rightarrow> bool" where
  "reads q columns \<longleftrightarrow> pq_Table q \<noteq> '''' \<and> pq_KeyColumn q \<noteq> '''' \<and> pq_Limit q > 0 \<and>
     (case columns of None \<Rightarrow> True | Some cs \<Rightarrow> pq_KeyColumn q \<in> set cs \<and> (pq_Snapshot q \<or> pq_CursorColumn q \<in> set cs))"

definition position_of :: "pull_request \<Rightarrow> source_tuple \<Rightarrow> string \<times> string" where
  "position_of q t = ((if pq_Snapshot q then '''' else case tu_text t (pq_CursorColumn q) of None \<Rightarrow> '''' | Some c \<Rightarrow> c),
     (case tu_text t (pq_KeyColumn q) of None \<Rightarrow> '''' | Some k \<Rightarrow> k))"

lemma selected_after:
  assumes "keyed so rel q tuples" "positioned q tuples" "s \<in> set tuples" "t \<in> set tuples"
  shows "selected ck (so_rank so rel (pq_KeyColumn q)) (at_position q (fst (position_of q s)) (snd (position_of q s))) t \<longleftrightarrow>
    sort_position ck (so_rank so rel (pq_KeyColumn q)) q s < sort_position ck (so_rank so rel (pq_KeyColumn q)) q t"
proof -
  let ?kk = "so_rank so rel (pq_KeyColumn q)"
  have "tu_text s (pq_KeyColumn q) \<noteq> None" "tu_text s (pq_KeyColumn q) \<noteq> Some ''''" "tu_text t (pq_KeyColumn q) \<noteq> None"
    using assms(1,3,4) by (simp_all add: keyed_def list_all_iff)
  then obtain ks kt where k: "tu_text s (pq_KeyColumn q) = Some ks" "ks \<noteq> ''''" "tu_text t (pq_KeyColumn q) = Some kt"
    by auto
  show ?thesis
  proof (cases "pq_Snapshot q")
    case True
    then show ?thesis using k by (simp add: selected_def at_position_def position_of_def sort_position_def)
  next
    case False
    then have "tu_text s (pq_CursorColumn q) \<noteq> Some ''''"
      using assms(2,3) by (auto simp: positioned_def list_all_iff)
    then consider (none) "tu_text s (pq_CursorColumn q) = None"
      | (some) c where "tu_text s (pq_CursorColumn q) = Some c" "c \<noteq> ''''" by blast
    then show ?thesis
    proof cases
      case none
      with False k show ?thesis
        by (simp add: selected_def at_position_def position_of_def sort_position_def split: option.split)
    next
      case (some c)
      with False k show ?thesis
        by (simp add: selected_def at_position_def position_of_def sort_position_def less_le_not_le
            split: option.split) linarith
    qed
  qed
qed

lemma at_position_same [simp]:
  "queryTable so bindings (at_position q c k) = queryTable so bindings q"
  "sort_position ck kk (at_position q c k) = sort_position ck kk q"
  "pulled_row_of (at_position q c k) = pulled_row_of q"
  "at_position (at_position q c k) c' k' = at_position q c' k'"
  by (simp_all add: at_position_def queryTable_def sort_position_def pulled_row_of_def fun_eq_iff
      cong: if_cong option.case_cong)

lemma pulled_row_position:
  assumes "reads q columns" "positioned q tuples" "t \<in> set tuples"
  shows "(sw_Cursor (pulled_row_of q columns t), sw_Key (pulled_row_of q columns t)) = position_of q t"
  using assms by (auto simp: pulled_row_of_def position_of_def reads_def positioned_def split: option.splits)

lemma pulled_row_key:
  "reads q columns \<Longrightarrow> sw_Key (pulled_row_of q columns t) = (case tu_text t (pq_KeyColumn q) of None \<Rightarrow> '''' | Some k \<Rightarrow> k)"
  by (auto simp: pulled_row_of_def reads_def split: option.splits)

lemma in_order_strict:
  assumes "keyed so rel q tuples"
  shows "sorted (map (sort_position ck (so_rank so rel (pq_KeyColumn q)) q) (in_order ck (so_rank so rel (pq_KeyColumn q)) q tuples))"
    "distinct (map (sort_position ck (so_rank so rel (pq_KeyColumn q)) q) (in_order ck (so_rank so rel (pq_KeyColumn q)) q tuples))"
proof -
  let ?kk = "so_rank so rel (pq_KeyColumn q)" and ?k = "\<lambda>t. tu_text t (pq_KeyColumn q)"
  show "sorted (map (sort_position ck ?kk q) (in_order ck ?kk q tuples))"
    by (simp add: in_order_def)
  have "distinct tuples" and inj: "inj_on (\<lambda>t. map_option ?kk (?k t)) (set tuples)"
    using assms by (simp_all add: keyed_def distinct_map)
  have "inj_on (sort_position ck ?kk q) (set tuples)"
  proof (rule inj_onI)
    fix s t assume st: "s \<in> set tuples" "t \<in> set tuples" "sort_position ck ?kk q s = sort_position ck ?kk q t"
    then have "map_option ?kk (?k s) = map_option ?kk (?k t)"
      by (simp add: sort_position_def split: option.splits)
    with inj st(1,2) show "s = t" by (blast dest: inj_onD)
  qed
  with \<open>distinct tuples\<close> show "distinct (map (sort_position ck ?kk q) (in_order ck ?kk q tuples))"
    by (simp add: in_order_def distinct_map)
qed

definition resume :: "pull_request \<Rightarrow> source_tuple list \<Rightarrow> nat \<Rightarrow> pull_request" where
  "resume q ordered i =
     (if i = 0 then at_position q '''' ''''
      else at_position q (fst (position_of q (ordered ! (i - 1)))) (snd (position_of q (ordered ! (i - 1)))))"

lemma page_at:
  assumes q: "queryTable so bindings q = Inr (rel, columns)" "so_rows so rel = Some tuples" "reads q columns"
    and k: "keyed so rel q tuples" and p: "positioned q tuples"
    and L: "L = in_order (so_rank so rel (pq_CursorColumn q)) (so_rank so rel (pq_KeyColumn q)) q tuples"
    and i: "i \<le> length L"
  shows "PullRows so bindings (resume q L i) =
    Inr (page_result (pq_Limit q) (map (pulled_row_of q columns) (take (pq_Limit q) (drop i L))))"
proof -
  let ?kk = "so_rank so rel (pq_KeyColumn q)" and ?ck = "so_rank so rel (pq_CursorColumn q)"
  obtain c x where r: "resume q L i = at_position q c x" by (cases "i = 0") (auto simp: resume_def)
  have set: "set L = set tuples" by (simp add: L in_order_def)
  have "filter (selected ?ck ?kk (resume q L i)) L = drop i L"
  proof (cases "i = 0")
    case True
    then show ?thesis by (simp add: resume_def selected_def at_position_def)
  next
    case False
    then have "i - 1 < length L" using i by simp
    then have "L ! (i - 1) \<in> set tuples" using set nth_mem by metis
    then have "filter (selected ?ck ?kk (resume q L i)) L =
        filter (\<lambda>t. sort_position ?ck ?kk q (L ! (i - 1)) < sort_position ?ck ?kk q t) L"
      using False selected_after [OF k p] set by (auto simp: resume_def intro: filter_cong)
    also have "\<dots> = drop i L" by (rule filter_after) (use in_order_strict [OF k] False i in \<open>simp_all add: L\<close>)
    finally show ?thesis .
  qed
  then have f: "sort_key (sort_position ?ck ?kk q) (filter (selected ?ck ?kk (resume q L i)) tuples) = drop i L"
    by (simp add: L in_order_def filter_sort)
  have keys: "\<not> list_ex (\<lambda>w. sw_Key w = '''') (map (pulled_row_of q columns) (take (pq_Limit q) (drop i L)))"
  proof -
    have "sw_Key (pulled_row_of q columns t) \<noteq> ''''" if "t \<in> set (take (pq_Limit q) (drop i L))" for t
    proof -
      have "t \<in> set tuples" using that set by (blast dest: in_set_takeD in_set_dropD)
      then show ?thesis using k pulled_row_key [OF q(3), of t] by (auto simp: keyed_def list_all_iff split: option.splits)
    qed
    then show ?thesis by (auto simp: list_ex_iff)
  qed
  have "pq_Snapshot q \<or> pq_CursorColumn q \<noteq> ''''" using p by (auto simp: positioned_def split: if_splits)
  then show ?thesis
    using f keys q(3) unfolding PullRows_def r
    by (simp add: q(1,2) reads_def) (simp add: at_position_def Let_def)
qed

lemma next_position:
  assumes "reads q columns" "positioned q tuples" "set L \<subseteq> set tuples" "i + pq_Limit q \<le> length L"
    and "rows = map (pulled_row_of q columns) (take (pq_Limit q) (drop i L))"
  shows "at_position (resume q L i) (pr_NextCursor (page_result (pq_Limit q) rows)) (pr_NextCursorKey (page_result (pq_Limit q) rows))
    = resume q L (i + pq_Limit q)"
proof -
  let ?n = "pq_Limit q" and ?t = "L ! (i + pq_Limit q - 1)"
  have n: "0 < ?n" using assms(1) by (simp add: reads_def)
  have ne: "take ?n (drop i L) \<noteq> []" using n assms(4) by simp
  have "length (take ?n (drop i L)) = ?n" using assms(4) by simp
  with ne have "last (take ?n (drop i L)) = take ?n (drop i L) ! (?n - 1)" by (metis last_conv_nth)
  then have "last (take ?n (drop i L)) = ?t" using n assms(4) by simp
  then have l: "rows \<noteq> []" "last rows = pulled_row_of q columns ?t"
    using ne by (simp_all add: assms(5) last_map)
  have "?t \<in> set L" using n assms(4) by (intro nth_mem) linarith
  then have "position_of q ?t = (sw_Cursor (last rows), sw_Key (last rows))"
    using pulled_row_position [OF assms(1,2)] assms(3) l(2) by auto
  then have "resume q L (i + ?n) = at_position q (sw_Cursor (last rows)) (sw_Key (last rows))"
    using n by (simp add: resume_def)
  then show ?thesis using l(1) by (simp add: page_result_def resume_def)
qed

lemma pages_from:
  assumes "queryTable so bindings q = Inr (rel, columns)" "so_rows so rel = Some tuples" "reads q columns"
    and "keyed so rel q tuples" "positioned q tuples"
    and L: "L = in_order (so_rank so rel (pq_CursorColumn q)) (so_rank so rel (pq_KeyColumn q)) q tuples"
    and "i \<le> length L"
  shows "pages so bindings n (resume q L i) = Inr (map (pulled_row_of q columns) (take (n * pq_Limit q) (drop i L)))"
  using assms(7)
proof (induction n arbitrary: i)
  case (Suc n)
  let ?n = "pq_Limit q" and ?rows = "map (pulled_row_of q columns) (take (pq_Limit q) (drop i L))"
  note page = page_at [OF assms(1-5) L Suc.prems]
  show ?case
  proof (cases "i + ?n \<le> length L")
    case True
    have "set L \<subseteq> set tuples" by (simp add: L in_order_def)
    note follow = next_position [OF assms(3,5) this True refl]
    have "length ?rows = ?n" using True by simp
    then have "pages so bindings (Suc n) (resume q L i) =
        res_bind (pages so bindings n (resume q L (i + ?n))) (\<lambda>rest. Inr (?rows @ rest))"
      using page follow by (simp add: page_result_def)
    also have "\<dots> = Inr (map (pulled_row_of q columns) (take ?n (drop i L) @ take (n * ?n) (drop (i + ?n) L)))"
      using Suc.IH [OF True] by simp
    also have "take ?n (drop i L) @ take (n * ?n) (drop (i + ?n) L) = take (Suc n * ?n) (drop i L)"
      by (simp add: take_add add.commute)
    finally show ?thesis .
  next
    case False
    then have "length ?rows \<noteq> ?n" "take ?n (drop i L) = drop i L" "take (Suc n * ?n) (drop i L) = drop i L"
      using Suc.prems by (simp_all add: trans_le_add1)
    with page show ?thesis by (simp add: page_result_def)
  qed
qed simp

section \<open>Properties\<close>


definition wit_tuple :: "string \<Rightarrow> string option \<Rightarrow> source_tuple" where
  "wit_tuple k c = \<lparr>tu_text = [''id'' \<mapsto> k](''at'' := c), tu_json = (\<lambda>_. Some ''{}'')\<rparr>"

definition wit_rank :: "string \<Rightarrow> int" where "wit_rank v = (if v = ''a'' then 0 else if v = ''b'' then 1 else 2)"

definition wit_pull_source :: source_db where
  "wit_pull_source = \<lparr>so_kind = (\<lambda>_. None), so_columns = (\<lambda>_. []),
     so_rows = [(''public'', ''t'') \<mapsto> [wit_tuple ''c'' (Some ''a''), wit_tuple ''b'' None, wit_tuple ''a'' (Some ''a'')]],
     so_rank = (\<lambda>_ _. wit_rank)\<rparr>"

definition wit_request :: pull_request where
  "wit_request = \<lparr>pq_Table = ''t'', pq_KeyColumn = ''id'', pq_CursorColumn = ''at'', pq_Cursor = '''', pq_CursorKey = '''',
     pq_Limit = 1, pq_Snapshot = False\<rparr>"

lemma wit_tuple_text [simp]: "tu_text (wit_tuple k c) ''id'' = Some k" "tu_text (wit_tuple k c) ''at'' = c"
    "tu_json (wit_tuple k c) cs = Some ''{}''"
  by (simp_all add: wit_tuple_def)


text \<open>When the cursor column is the key column, a page reports no cursor, and the pull that follows
  its position selects every row again: the second page is the first one.\<close>

lemma key_as_cursor_repeats:
  assumes "\<not> pq_Snapshot q" "pq_CursorColumn q = pq_KeyColumn q"
    and "queryTable so bindings q = Inr (rel, columns)" "so_rows so rel = Some tuples"
    and "list_all (\<lambda>t. tu_text t (pq_KeyColumn q) \<noteq> None) tuples"
    and "PullRows so bindings (at_position q '''' '''') = Inr p"
  shows "PullRows so bindings (at_position q (pr_NextCursor p) (pr_NextCursorKey p)) = Inr p"
proof -
  have "pr_NextCursor p = ''''"
    using assms(6) by (auto simp: PullRows_def page_result_def pulled_row_of_def assms(2) Let_def last_map at_position_def
        split: if_splits option.splits prod.splits)
  moreover have "PullRows so bindings (at_position q '''' k) = PullRows so bindings (at_position q '''' '''')" for k
  proof -
    have "filter (selected ck kk (at_position q '''' k)) tuples = tuples" for ck kk k
      using assms(1,2,5) by (auto simp: selected_def at_position_def filter_id_conv list_all_iff)
    then show ?thesis
      by (simp add: PullRows_def assms(3,4)) (auto simp: at_position_def)
  qed
  ultimately show ?thesis using assms(6) by simp
qed

end
