(* ===== verification/SyncConfig.thy ===== *)
theory SyncConfig
  imports Lifecycle Source
begin

text \<open>
  The configuration of connectors and syncs (\<open>internal/dataplane/store/connectors.go\<close>): what an
  operator may enter, the check against the source policy, the edits with their effect on cursors
  and revisions, and the job a run is given. Who may manage a project is the parameter \<open>access\<close>:
  nothing for a user outside the project, otherwise whether the user may manage its workspace.
  The single quotes of the error texts are left out.
\<close>

section \<open>Input\<close>

record sync_input =
  in_SourceTable :: string
  in_KeyColumn :: string
  in_CursorColumn :: string
  in_SyncMode :: "string option"
  in_ScheduleCron :: string
  in_Enabled :: bool
  in_JoinKey :: string
  in_DeletionMode :: string
  in_SoftDeleteColumn :: string
  in_SoftDeleteSemantics :: string

definition validate_mode :: "sync_input \<Rightarrow> string option" where
  "validate_mode inp =
     (case in_SyncMode inp of
        None \<Rightarrow> None
      | Some m \<Rightarrow>
          (let mode = trim_space m in
           if mode = '''' then None
           else if mode = ''snapshot'' then
             (if trim_space (in_CursorColumn inp) \<noteq> '''' then Some ''snapshot sync_mode requires an empty cursor_column'' else None)
           else if mode = ''incremental'' then
             (if trim_space (in_CursorColumn inp) = '''' then Some ''incremental sync_mode requires cursor_column'' else None)
           else Some ''sync_mode must be incremental or snapshot''))"

definition validate_deletion :: "sync_input \<Rightarrow> string option" where
  "validate_deletion inp =
     (if in_DeletionMode inp = '''' \<or> in_DeletionMode inp = ''none'' then
        (if in_SoftDeleteColumn inp \<noteq> '''' \<or> in_SoftDeleteSemantics inp \<noteq> ''''
         then Some ''soft_delete_column requires deletion_mode soft_column'' else None)
      else if in_DeletionMode inp = ''soft_column'' then
        (if trim_space (in_SoftDeleteColumn inp) = '''' then Some ''soft_delete_column is required when deletion_mode is soft_column''
         else if in_SoftDeleteSemantics inp \<noteq> ''bool_true'' \<and> in_SoftDeleteSemantics inp \<noteq> ''non_null''
         then Some ''soft_delete_semantics must be bool_true or non_null'' else None)
      else Some ''deletion_mode must be none or soft_column'')"

definition validateSyncInput :: "sync_input \<Rightarrow> string option" where
  "validateSyncInput inp =
     (if trim_space (in_SourceTable inp) = '''' then Some ''source table is required''
      else if trim_space (in_KeyColumn inp) = '''' then Some ''key column is required''
      else if in_ScheduleCron inp \<noteq> '''' \<and> length (str_fields (in_ScheduleCron inp)) \<noteq> 5
      then Some ''schedule must be a 5-field cron expression''
      else (case validate_mode inp of
          Some e \<Rightarrow> Some e
        | None \<Rightarrow> validate_deletion inp))"

text \<open>\<open>policy\<close> is the loaded policy, \<open>configured\<close> whether one was configured at all.\<close>

definition validateSourceBinding ::
  "source_policy option \<Rightarrow> bool \<Rightarrow> string \<Rightarrow> string \<Rightarrow> string \<Rightarrow> sync_input \<Rightarrow> string \<Rightarrow> string option" where
  "validateSourceBinding policy configured project conn sync inp mode =
     (if mode = '''' \<and> \<not> configured then None
      else (case BindingForRelation policy project conn (in_SourceTable inp) of
          Inl e \<Rightarrow> Some ''source binding is not operator-approved''
        | Inr b \<Rightarrow>
            if \<not> MatchesRelation b (in_SourceTable inp) \<or> in_KeyColumn inp \<noteq> bd_KeyColumn b
            then Some ''source relation or key is not operator-approved''
            else if bd_RelationKind b = RelationKindLegacyTable \<and> (sync = '''' \<or> \<not> AllowsSync b sync)
            then Some ''legacy table binding is not approved for this existing sync''
            else if mode = ''snapshot'' \<and> trim_space (in_CursorColumn inp) \<noteq> ''''
            then Some ''snapshot sync_mode requires an empty cursor_column''
            else if mode = ''incremental'' \<and> \<not> AllowsCursor b (in_CursorColumn inp)
            then Some ''cursor column is not operator-approved''
            else if list_ex (\<lambda>c. c \<noteq> '''' \<and> \<not> AllowsColumn b c) [in_JoinKey inp, in_SoftDeleteColumn inp]
            then Some ''configured column is not operator-approved''
            else None))"

section \<open>Edits\<close>

definition managed :: "(string \<Rightarrow> string \<Rightarrow> bool option) \<Rightarrow> string \<Rightarrow> string \<Rightarrow> control_error + unit" where
  "managed access user project =
     (case access user project of
        None \<Rightarrow> Inl NoRows
      | Some may \<Rightarrow> if may then Inr () else Inl ErrForbidden)"

definition refused :: "string option \<Rightarrow> control_error + unit" where
  "refused e = (case e of Some m \<Rightarrow> Inl (Rejected m) | None \<Rightarrow> Inr ())"

text \<open>\<open>UNIQUE (connector_id, source_table)\<close>.\<close>

definition takes_table :: "string \<Rightarrow> string \<Rightarrow> string \<Rightarrow> control_db \<Rightarrow> bool" where
  "takes_table sync conn table J =
     list_ex (\<lambda>s. cs_connector s = conn \<and> cs_source_table s = table \<and> cs_id s \<noteq> sync) (d_syncs J)"

definition new_sync :: "string \<Rightarrow> string \<Rightarrow> string \<Rightarrow> string \<Rightarrow> sync_input \<Rightarrow> sync_row" where
  "new_sync uuid project conn mode inp =
     \<lparr>cs_id = uuid, cs_project = project, cs_connector = conn, cs_source_table = in_SourceTable inp,
      cs_key_column = in_KeyColumn inp, cs_cursor_column = in_CursorColumn inp, cs_sync_mode = mode,
      cs_schedule = in_ScheduleCron inp, cs_join_key = in_JoinKey inp, cs_join_validated = '''',
      cs_deletion_mode = in_DeletionMode inp, cs_soft_delete_column = in_SoftDeleteColumn inp,
      cs_soft_delete_semantics = in_SoftDeleteSemantics inp, cs_enabled = in_Enabled inp,
      cs_disabled_by_archive = False, cs_revision = 1, cs_config_revision = 1, cs_cursor = '''', cs_cursor_key = '''',
      cs_last_run_at = None, cs_last_status = '''', cs_last_error = '''', cs_last_rows = 0, cs_last_success_at = None,
      cs_total_rows = 0\<rparr>"

definition CreateConnectorSync ::
  "source_policy option \<Rightarrow> bool \<Rightarrow> (string \<Rightarrow> string \<Rightarrow> bool option) \<Rightarrow> string \<Rightarrow> string \<Rightarrow> string \<Rightarrow> sync_input \<Rightarrow>
     string \<Rightarrow> control_db \<Rightarrow> control_error + sync_row \<times> control_db" where
  "CreateConnectorSync policy configured access user project conn inp uuid J =
     res_bind (managed access user project) (\<lambda>_.
     res_bind (refused (validateSyncInput inp)) (\<lambda>_.
     case find (\<lambda>d. dc_project d = project \<and> dc_id d = conn) (d_connectors J) of
       None \<Rightarrow> Inl (Rejected ''connector not found'')
     | Some d \<Rightarrow>
         if dc_archived_at d \<noteq> None then Inl ErrArchivedSource
         else let mode = (case in_SyncMode inp of None \<Rightarrow> '''' | Some m \<Rightarrow> trim_space m)
              in res_bind (refused (validateSourceBinding policy configured project conn '''' inp mode)) (\<lambda>_.
                   if list_ex (\<lambda>s. cs_id s = uuid) (d_syncs J) \<or> takes_table uuid conn (in_SourceTable inp) J then Inl UniqueViolation
                   else let s = new_sync uuid project conn mode inp in Inr (s, J\<lparr>d_syncs := d_syncs J @ [s]\<rparr>))))"

definition live_generation :: "string \<Rightarrow> control_db \<Rightarrow> bool" where
  "live_generation sync J =
     list_ex (\<lambda>g. gn_sync g = sync \<and> (resumable g \<or> gn_state g = Sealed \<and> has_pending J (gn_generation g))) (d_generations J)"

definition capture_changed :: "sync_input \<Rightarrow> string \<Rightarrow> sync_row \<Rightarrow> bool" where
  "capture_changed inp mode s \<longleftrightarrow> cs_source_table s \<noteq> in_SourceTable inp \<or> cs_key_column s \<noteq> in_KeyColumn inp \<or>
     cs_cursor_column s \<noteq> in_CursorColumn inp \<or> cs_sync_mode s \<noteq> mode"

text \<open>A new table or cursor column resets the cursor, a new key column the key half of it.\<close>

definition edit_sync :: "sync_input \<Rightarrow> string \<Rightarrow> bool \<Rightarrow> sync_row \<Rightarrow> sync_row" where
  "edit_sync inp mode changed s =
     (let same = (cs_source_table s = in_SourceTable inp \<and> cs_cursor_column s = in_CursorColumn inp)
      in s\<lparr>cs_source_table := in_SourceTable inp, cs_key_column := in_KeyColumn inp, cs_cursor_column := in_CursorColumn inp,
           cs_sync_mode := mode, cs_schedule := in_ScheduleCron inp, cs_join_key := in_JoinKey inp,
           cs_join_validated := (if cs_join_key s \<noteq> in_JoinKey inp then '''' else cs_join_validated s),
           cs_deletion_mode := in_DeletionMode inp, cs_soft_delete_column := in_SoftDeleteColumn inp,
           cs_soft_delete_semantics := in_SoftDeleteSemantics inp, cs_enabled := in_Enabled inp,
           cs_revision := cs_revision s + 1, cs_config_revision := cs_config_revision s + (if changed then 1 else 0),
           cs_cursor := (if same then cs_cursor s else ''''),
           cs_cursor_key := (if same \<and> cs_key_column s = in_KeyColumn inp then cs_cursor_key s else '''')\<rparr>)"

definition UpdateConnectorSync ::
  "source_policy option \<Rightarrow> bool \<Rightarrow> (string \<Rightarrow> string \<Rightarrow> bool option) \<Rightarrow> string \<Rightarrow> string \<Rightarrow> string \<Rightarrow> sync_input \<Rightarrow>
     control_db \<Rightarrow> control_error + sync_row \<times> control_db" where
  "UpdateConnectorSync policy configured access user project sync inp J =
     res_bind (managed access user project) (\<lambda>_.
     res_bind (refused (validateSyncInput inp)) (\<lambda>_.
     case find (\<lambda>s. cs_project s = project \<and> cs_id s = sync) (d_syncs J) of
       None \<Rightarrow> Inl (Rejected ''sync not found'')
     | Some s \<Rightarrow>
     (case find (\<lambda>d. dc_id d = cs_connector s) (d_connectors J) of
       None \<Rightarrow> Inl (Rejected ''sync not found'')
     | Some d \<Rightarrow>
         if dc_archived_at d \<noteq> None then Inl ErrArchivedSource
         else let mode = (case in_SyncMode inp of None \<Rightarrow> cs_sync_mode s | Some m \<Rightarrow> trim_space m);
                  changed = capture_changed inp mode s
              in if changed \<and> live_generation sync J
                 then Inl (Rejected ''a snapshot generation is active; cancel it before changing source identity, key, cursor, or mode'')
                 else res_bind (refused (validateSourceBinding policy configured project (cs_connector s) sync inp mode)) (\<lambda>_.
                   if takes_table sync (cs_connector s) (in_SourceTable inp) J then Inl UniqueViolation
                   else Inr (edit_sync inp mode changed s,
                     J\<lparr>d_syncs := update_where (\<lambda>s. cs_project s = project \<and> cs_id s = sync) (edit_sync inp mode changed) (d_syncs J)\<rparr>)))))"

text \<open>Deleting a sync deletes its runs and their keys; the history of a snapshot protects it.\<close>

definition DeleteConnectorSync ::
  "(string \<Rightarrow> string \<Rightarrow> bool option) \<Rightarrow> string \<Rightarrow> string \<Rightarrow> string \<Rightarrow> control_db \<Rightarrow> control_error + control_db" where
  "DeleteConnectorSync access user project sync J =
     res_bind (managed access user project) (\<lambda>_.
     if \<not> list_ex (\<lambda>s. cs_project s = project \<and> cs_id s = sync) (d_syncs J) then Inl NoRows
     else if list_ex (\<lambda>g. gn_sync g = sync) (d_generations J)
     then Inl (Rejected ''snapshot generation history protects this sync from deletion'')
     else let gone = map rn_id (filter (\<lambda>r. rn_sync r = sync) (d_runs J))
          in Inr (J\<lparr>d_syncs := filter (\<lambda>s. \<not> (cs_project s = project \<and> cs_id s = sync)) (d_syncs J),
                d_runs := filter (\<lambda>r. rn_sync r \<noteq> sync) (d_runs J),
                d_run_keys := filter (\<lambda>k. rk_run k \<notin> set gone) (d_run_keys J)\<rparr>))"

section \<open>What the engine reads\<close>

definition ListEnabledConnectorSyncs :: "control_db \<Rightarrow> (string \<times> string \<times> string) list" where
  "ListEnabledConnectorSyncs J =
     map (\<lambda>s. (cs_id s, cs_project s, cs_schedule s))
       (filter (\<lambda>s. cs_enabled s \<and> cs_schedule s \<noteq> '''' \<and>
          list_ex (\<lambda>d. dc_id d = cs_connector s \<and> dc_archived_at d = None) (d_connectors J)) (d_syncs J))"

definition job_of :: "'ip policy_lib \<Rightarrow> source_policy option \<Rightarrow> source_binding option \<Rightarrow> sync_row \<Rightarrow> connector_row \<Rightarrow> sync_job" where
  "job_of pl policy binding s d =
     \<lparr>jb_SyncID = cs_id s, jb_ProjectID = cs_project s, jb_ConnectorID = cs_connector s, jb_Kind = dc_kind d,
      jb_Table = cs_source_table s, jb_KeyColumn = cs_key_column s, jb_CursorColumn = cs_cursor_column s,
      jb_Cursor = cs_cursor s, jb_CursorKey = cs_cursor_key s, jb_SyncMode = cs_sync_mode s,
      jb_SyncRevision = cs_config_revision s, jb_SourceRevision = dc_source_revision d, jb_Policy = (policy \<noteq> None),
      jb_BindingDigest = map_option (\<lambda>b. DigestOf pl b ''snapshot'') binding\<rparr>"

text \<open>\<open>dsn\<close> says whether the connection string of a connector can be decrypted.\<close>

definition ConnectorSyncJob ::
  "'ip policy_lib \<Rightarrow> source_policy option \<Rightarrow> (connector_row \<Rightarrow> bool) \<Rightarrow> string \<Rightarrow> control_db \<Rightarrow> control_error + sync_job" where
  "ConnectorSyncJob pl policy dsn sync J =
     (case find (\<lambda>s. cs_id s = sync) (d_syncs J) of
        None \<Rightarrow> Inl NoRows
      | Some s \<Rightarrow>
     (case find (\<lambda>d. dc_id d = cs_connector s \<and> dc_archived_at d = None) (d_connectors J) of
        None \<Rightarrow> Inl NoRows
      | Some d \<Rightarrow>
          if \<not> dsn d then Inl (Rejected ''connection string is unavailable'')
          else let binding = (case BindingForRelation policy (cs_project s) (cs_connector s) (cs_source_table s) of
                     Inl _ \<Rightarrow> None | Inr b \<Rightarrow> Some b)
               in if dc_kind d = ''postgres'' then
                    (case binding of
                       None \<Rightarrow> Inl (Rejected ''source binding is not operator-approved'')
                     | Some b \<Rightarrow>
                         if \<not> MatchesRelation b (cs_source_table s) \<or> bd_KeyColumn b \<noteq> cs_key_column s
                         then Inl (Rejected ''source binding is not operator-approved'')
                         else if bd_RelationKind b = RelationKindLegacyTable \<and> \<not> AllowsSync b (cs_id s)
                         then Inl (Rejected ''legacy table binding is not approved for this existing sync'')
                         else Inr (job_of pl policy binding s d))
                  else Inr (job_of pl policy binding s d)))"

section \<open>Properties\<close>

lemma ConnectorSyncJob_row:
  assumes "ConnectorSyncJob pl policy dsn sync J = Inr job"
  obtains s d where "find (\<lambda>s. cs_id s = sync) (d_syncs J) = Some s"
    "find (\<lambda>d. dc_id d = cs_connector s \<and> dc_archived_at d = None) (d_connectors J) = Some d"
    "job = job_of pl policy (case BindingForRelation policy (cs_project s) (cs_connector s) (cs_source_table s) of
       Inl _ \<Rightarrow> None | Inr b \<Rightarrow> Some b) s d"
    "dc_kind d = ''postgres'' \<Longrightarrow> \<exists>b. BindingForRelation policy (cs_project s) (cs_connector s) (cs_source_table s) = Inr b \<and>
       MatchesRelation b (cs_source_table s) \<and> bd_KeyColumn b = cs_key_column s \<and>
       (bd_RelationKind b = RelationKindLegacyTable \<longrightarrow> AllowsSync b (cs_id s))"
  using assms
  by (auto simp: ConnectorSyncJob_def Let_def split: option.splits sum.splits if_splits)

lemma LoadSourcePolicy_valid:
  assumes "LoadSourcePolicy pl path = Inr p" "b \<in> set (sp_Bindings p)"
  shows "\<exists>i. validate_binding pl i b = None"
proof -
  consider "sp_Bindings p = []" | p0 where "ValidatePolicy pl p0 = Inr p"
    using assms(1) by (auto simp: LoadSourcePolicy_def split: if_splits option.splits)
  then show ?thesis using assms(2) ValidatePolicy_ok(3) by cases auto
qed


definition wit_column :: source_policy_column where "wit_column = \<lparr>pc_Name = ''id'', pc_PGType = ''text''\<rparr>"

definition wit_binding :: source_binding where
  "wit_binding = \<lparr>bd_ProjectID = ''p'', bd_ConnectorID = ''c'', bd_Schema = ''x'', bd_Relation = ''t'',
     bd_RelationKind = RelationKindView, bd_Columns = [wit_column], bd_KeyColumn = ''id'',
     bd_KeyStability = KeyStabilityImmutableUnique, bd_AllowedCursorColumns = [], bd_LegacySyncIDs = []\<rparr>"

definition wit_policy :: source_policy where
  "wit_policy = \<lparr>sp_Version = 1, sp_Destinations = [], sp_Bindings = [wit_binding]\<rparr>"

definition wit_policy_lib :: "nat policy_lib" where
  "wit_policy_lib = \<lparr>pl_cidr = (\<lambda>_. None), pl_special = (\<lambda>_. False), pl_file = (\<lambda>_. Some ''policy''),
     pl_decode = (\<lambda>_. Some wit_policy), pl_shape_text = (\<lambda>_ _ _. ''shape''), pl_sha256 = (\<lambda>_. ''sum''), pl_unicode = id\<rparr>"

definition wit_view_sync :: sync_row where "wit_view_sync = wit_sync_row\<lparr>cs_source_table := ''x.t''\<rparr>"

definition wit_view_control :: control_db where
  "wit_view_control = empty_control\<lparr>d_syncs := [wit_view_sync], d_connectors := [wit_connector_row]\<rparr>"

definition wit_view_source :: source_db where
  "wit_view_source = \<lparr>so_kind = (\<lambda>_. Some ''v''), so_columns = (\<lambda>_. [(''id'', ''text'')]), so_rows = (\<lambda>_. Some []),
     so_rank = (\<lambda>_ _ _. 0)\<rparr>"

definition wit_view_request :: pull_request where
  "wit_view_request = \<lparr>pq_Table = ''x.t'', pq_KeyColumn = ''id'', pq_CursorColumn = '''', pq_Cursor = '''', pq_CursorKey = '''',
     pq_Limit = 1000, pq_Snapshot = True\<rparr>"

lemma wit_policy_loads: "LoadSourcePolicy wit_policy_lib ''/p'' = Inr wit_policy"
proof -
  have t: "trim_space ''/p'' = ''/p''" "trim_space ''p'' = ''p''" "trim_space ''c'' = ''c''" "trim_space ''x'' = ''x''"
    "trim_space ''t'' = ''t''" "trim_space ''id'' = ''id''" "trim_space ''text'' = ''text''"
    by (rule trim_space_plain, simp add: plain_def)+
  have "allowedSourcePGType wit_policy_lib ''text''"
    by (simp add: allowedSourcePGType_def t lower_case_def to_lower_def is_ascii_def ascii_lower_def Let_def)
  with t show ?thesis
    by (simp add: LoadSourcePolicy_def ValidatePolicy_def wit_policy_lib_def wit_policy_def wit_binding_def
        validate_binding_def wit_column_def SourcePolicyVersion_def has_prefix_def)
qed

lemma wit_view_bound: "BindingForRelation (Some wit_policy) ''p'' ''c'' ''x.t'' = Inr wit_binding"
  by (simp add: BindingForRelation_def BindingsForConnector_def wit_policy_def wit_binding_def MatchesRelation_def
      QualifiedRelation_def)


lemma find_update_where:
  "(\<And>x. P (f x) = P x) \<Longrightarrow> find P (update_where Q f xs) = map_option (\<lambda>x. if Q x then f x else x) (find P xs)"
  by (induction xs) simp_all

lemma edit_sync_same: "cs_id (edit_sync inp mode c s) = cs_id s" "cs_project (edit_sync inp mode c s) = cs_project s"
    "cs_connector (edit_sync inp mode c s) = cs_connector s"
  by (simp_all add: edit_sync_def Let_def)

text \<open>C12: between an edit of a sync and a claim of its generation one always sees the other. When
  an edit succeeds while a generation of the sync is live, it leaves the captured table, key, cursor
  column and mode as they were, and a job loaded before it is still current. When an edit changes
  any of them, no job loaded before it can claim a generation any more.\<close>

theorem edit_and_claim_exclude:
  assumes "UpdateConnectorSync policy configured access user project sync inp J = Inr (s', J')"
    and "distinct (map cs_id (d_syncs J))" "job_current job J = Inr ()" "jb_SyncID job = sync"
    and "s \<in> set (d_syncs J)" "cs_id s = sync"
  shows "(live_generation sync J \<longrightarrow> job_current job J' = Inr () \<and>
      (cs_source_table s', cs_key_column s', cs_cursor_column s', cs_sync_mode s') =
      (cs_source_table s, cs_key_column s, cs_cursor_column s, cs_sync_mode s)) \<and>
    ((cs_source_table s', cs_key_column s', cs_cursor_column s', cs_sync_mode s') \<noteq>
      (cs_source_table s, cs_key_column s, cs_cursor_column s, cs_sync_mode s) \<longrightarrow>
      (\<exists>e. ClaimSnapshotGeneration job run owner epoch uuid now J' = Inl e))"
proof -
  have only: "x = s" if "x \<in> set (d_syncs J)" "cs_id x = sync" for x
    using assms(2,5,6) that by (metis inj_onD distinct_map)
  from assms(1) obtain s0 mode where
    s0: "find (\<lambda>s. cs_project s = project \<and> cs_id s = sync) (d_syncs J) = Some s0"
    and live: "\<not> (capture_changed inp mode s0 \<and> live_generation sync J)"
    and s': "s' = edit_sync inp mode (capture_changed inp mode s0) s0"
    and J': "J' = J\<lparr>d_syncs := update_where (\<lambda>s. cs_project s = project \<and> cs_id s = sync)
      (edit_sync inp mode (capture_changed inp mode s0)) (d_syncs J)\<rparr>"
    by (auto simp: UpdateConnectorSync_def Let_def split: option.splits if_splits)
  have s: "s0 = s" using only find_SomeD [OF s0] by simp
  have proj: "cs_project s = project" using find_SomeD [OF s0] s by simp
  let ?P = "\<lambda>s. cs_id s = jb_SyncID job \<and> cs_project s = jb_ProjectID job \<and> cs_connector s = jb_ConnectorID job"
  from assms(3) obtain s1 d where s1: "find ?P (d_syncs J) = Some s1" and d: "find (\<lambda>d. dc_id d = cs_connector s1) (d_connectors J) = Some d"
    and rev: "cs_config_revision s1 = jb_SyncRevision job" "dc_source_revision d = jb_SourceRevision job"
    by (auto simp: job_current_def split: option.splits if_splits)
  have "s1 = s" using only find_SomeD [OF s1] assms(4) by simp
  then have s1': "find ?P (d_syncs J) = Some s" using s1 by simp
  have "find ?P (d_syncs J') = Some s'"
    unfolding J' by (simp add: find_update_where [where P = ?P] edit_sync_same s1') (simp add: s' s proj assms(6))
  then have cur: "job_current job J' =
      (if cs_config_revision s' \<noteq> jb_SyncRevision job then Inl (Rejected ''snapshot job configuration is stale; enqueue a new run'') else Inr ())"
    using d rev(2) \<open>s1 = s\<close> by (simp add: job_current_def J' s' s edit_sync_def Let_def)
  have changed: "capture_changed inp mode s \<longleftrightarrow> (cs_source_table s', cs_key_column s', cs_cursor_column s', cs_sync_mode s') \<noteq>
      (cs_source_table s, cs_key_column s, cs_cursor_column s, cs_sync_mode s)"
    and bump: "cs_config_revision s' = jb_SyncRevision job + (if capture_changed inp mode s then 1 else 0)"
    using rev(1) \<open>s1 = s\<close> by (auto simp: capture_changed_def s' s edit_sync_def Let_def)
  have "\<exists>e. ClaimSnapshotGeneration job run owner epoch uuid now J' = Inl e" if "capture_changed inp mode s"
    using cur bump that by (auto simp: ClaimSnapshotGeneration_def split: option.split)
  then show ?thesis using live cur bump changed s by auto
qed

definition wit_edit :: sync_input where
  "wit_edit = \<lparr>in_SourceTable = ''t'', in_KeyColumn = ''id'', in_CursorColumn = '''', in_SyncMode = None,
     in_ScheduleCron = '''', in_Enabled = False, in_JoinKey = '''', in_DeletionMode = ''none'', in_SoftDeleteColumn = '''',
     in_SoftDeleteSemantics = ''''\<rparr>"

definition wit_legacy :: source_policy where
  "wit_legacy = wit_policy\<lparr>sp_Bindings := [wit_binding\<lparr>bd_Schema := ''public'', bd_RelationKind := RelationKindLegacyTable,
     bd_LegacySyncIDs := [''s'']\<rparr>]\<rparr>"

lemma wit_edit_ok: "\<exists>s' J'. UpdateConnectorSync (Some wit_legacy) True (\<lambda>_ _. Some True) ''u'' ''p'' ''s'' wit_edit wit_capturing = Inr (s', J')"
proof -
  have "trim_space ''t'' = ''t''" "trim_space ''id'' = ''id''" "trim_space '''' = ''''"
    by (rule trim_space_plain, simp add: plain_def)+
  then have "validateSyncInput wit_edit = None"
    by (simp add: validateSyncInput_def validate_mode_def validate_deletion_def wit_edit_def)
  moreover have "BindingForRelation (Some wit_legacy) ''p'' ''c'' ''t'' = Inr (hd (sp_Bindings wit_legacy))"
    by (simp add: BindingForRelation_def BindingsForConnector_def wit_legacy_def wit_policy_def wit_binding_def MatchesRelation_def
        QualifiedRelation_def)
  then have "validateSourceBinding (Some wit_legacy) True ''p'' ''c'' ''s'' wit_edit ''snapshot'' = None"
    using \<open>trim_space '''' = ''''\<close>
    by (simp add: validateSourceBinding_def wit_edit_def) (simp add: wit_legacy_def wit_binding_def MatchesRelation_def AllowsSync_def)
  moreover have "d_syncs wit_capturing = [wit_sync_row]" "d_connectors wit_capturing = [wit_connector_row]"
    by (simp_all add: wit_capturing_def wit_running_def wit_configured_def)
  moreover have "\<not> capture_changed wit_edit ''snapshot'' wit_sync_row"
    by (simp add: capture_changed_def wit_edit_def wit_sync_row_def)
  ultimately show ?thesis
    by (simp add: UpdateConnectorSync_def managed_def refused_def takes_table_def Let_def)
      (simp add: wit_sync_row_def wit_connector_row_def wit_edit_def)
qed

theorem edit_and_claim_exclude_witness:
  "\<exists>s' J'. UpdateConnectorSync (Some wit_legacy) True (\<lambda>_ _. Some True) ''u'' ''p'' ''s'' wit_edit wit_capturing = Inr (s', J') \<and>
     job_current wit_sync_job J' = Inr ()"
proof -
  obtain s' J' where u: "UpdateConnectorSync (Some wit_legacy) True (\<lambda>_ _. Some True) ''u'' ''p'' ''s'' wit_edit wit_capturing = Inr (s', J')"
    using wit_edit_ok by blast
  have s: "d_syncs wit_capturing = [wit_sync_row]" and d: "d_connectors wit_capturing = [wit_connector_row]"
    by (simp_all add: wit_capturing_def wit_running_def wit_configured_def)
  have "job_current wit_sync_job wit_capturing = Inr ()"
    by (simp add: job_current_def s d) (simp add: wit_sync_job_def wit_sync_row_def wit_connector_row_def)
  moreover have "live_generation ''s'' wit_capturing"
    by (simp add: live_generation_def wit_capturing_def wit_generation_def new_generation_def wit_sync_job_def resumable_def)
  ultimately show ?thesis
    using edit_and_claim_exclude [OF u, of wit_sync_job wit_sync_row] u
    by (simp add: s) (simp add: wit_sync_job_def wit_sync_row_def)
qed

text \<open>The cursor an edit has reset comes back when a run of the old configuration finishes: the
  result is written to the sync whatever it has become.\<close>

lemma finish_restores_reset_cursor:
  assumes "UpdateConnectorSync policy configured access user project sync inp J = Inr (s', J')"
    and "s \<in> set (d_syncs J)" "cs_id s = sync" "distinct (map cs_id (d_syncs J))" "cs_source_table s \<noteq> in_SourceTable inp"
    and "FinishConnectorRun run sync owner res cancelled now J' = Inr J''" "sr_AdvanceCursor res"
  shows "cs_cursor s' = '''' \<and>
    (\<exists>t \<in> set (d_syncs J''). cs_id t = sync \<and> cs_source_table t = in_SourceTable inp \<and> cs_cursor t = sr_Cursor res)"
proof -
  from assms(1) obtain s0 mode c where
    s0: "find (\<lambda>s. cs_project s = project \<and> cs_id s = sync) (d_syncs J) = Some s0" and s': "s' = edit_sync inp mode c s0"
    and J': "J' = J\<lparr>d_syncs := update_where (\<lambda>s. cs_project s = project \<and> cs_id s = sync) (edit_sync inp mode c) (d_syncs J)\<rparr>"
    by (auto simp: UpdateConnectorSync_def Let_def split: option.splits if_splits)
  note m = find_SomeD [OF s0]
  have "s0 = s" using assms(2-4) m by (metis inj_onD distinct_map)
  then have reset: "cs_cursor s' = ''''" using assms(5) by (simp add: s' edit_sync_def Let_def)
  have in': "s' \<in> set (d_syncs J')" using m by (force simp: J' set_update_where s')
  from assms(6) obtain st err K where J'': "d_syncs J'' = update_where (\<lambda>s. cs_id s = sync) (finish_sync st err res now) (d_syncs J')"
    by (auto simp: FinishConnectorRun_def Let_def split: prod.splits option.splits if_splits)
  have "finish_sync st err res now s' \<in> set (d_syncs J'')"
    using in' m by (force simp: J'' set_update_where s' edit_sync_same)
  moreover have "cs_id (finish_sync st err res now s') = sync" "cs_source_table (finish_sync st err res now s') = in_SourceTable inp"
    "cs_cursor (finish_sync st err res now s') = sr_Cursor res"
    using m assms(7) by (simp_all add: finish_sync_def s' edit_sync_def Let_def)
  ultimately show ?thesis using reset by blast
qed

end
