(* ===== verification/Interleaving.thy ===== *)
theory Interleaving
  imports Prelude
begin

text \<open>
  Programs that talk to shared state one call at a time, and what any number of them do together.
  A program is a tree: it returns, or makes a call and continues with the reply. Between two calls
  of one worker the others, and the operations of the surroundings, may move the state; what the
  surroundings may do depends on who is at work. The locale \<open>interleaving\<close> is the rely/guarantee argument over such programs: every call keeps the
  invariant and does to the state only what the other workers can rely on.
\<close>

section \<open>Programs\<close>

datatype ('q, 'r, 'a) prog = Return 'a | Ask 'q "'r \<Rightarrow> ('q, 'r, 'a) prog"

primrec and_then :: "('q, 'r, 'a) prog \<Rightarrow> ('a \<Rightarrow> ('q, 'r, 'b) prog) \<Rightarrow> ('q, 'r, 'b) prog" where
  "and_then (Return a) f = f a"
| "and_then (Ask q k) f = Ask q (\<lambda>r. and_then (k r) f)"

text \<open>The calls of one program answered in order by a list of outcomes, nobody else acting.\<close>

fun alone :: "('o \<Rightarrow> 'q \<Rightarrow> 's \<Rightarrow> 'r \<times> 's) \<Rightarrow> 'o list \<Rightarrow> ('q, 'r, 'a) prog \<Rightarrow> 's \<Rightarrow> ('q, 'r, 'a) prog \<times> 's" where
  "alone pf (oc # ocs) (Ask q k) s = (let (r, s') = pf oc q s in alone pf ocs (k r) s')"
| "alone pf ocs p s = (p, s)"

text \<open>A program of worker \<open>w\<close> is safe in a state when each of its calls, made after any moves the
  worker relies on, keeps the invariant and moves the state only as the other workers rely on.
  \<open>al\<close> restricts the outcomes of a call, \<open>pf\<close> performs it.\<close>

primrec safe ::
  "('o \<Rightarrow> 'q \<Rightarrow> 's \<Rightarrow> bool) \<Rightarrow> ('o \<Rightarrow> 'q \<Rightarrow> 's \<Rightarrow> 'r \<times> 's) \<Rightarrow> ('s \<Rightarrow> bool) \<Rightarrow> ('w \<Rightarrow> 's \<Rightarrow> 's \<Rightarrow> bool) \<Rightarrow> 'w \<Rightarrow>
     ('q, 'r, 'a) prog \<Rightarrow> 's \<Rightarrow> bool" where
  "safe al pf good rely w (Return a) = (\<lambda>s. True)"
| "safe al pf good rely w (Ask q k) = (\<lambda>s. \<forall>s1 oc r s2. rely w s s1 \<longrightarrow> good s1 \<longrightarrow> al oc q s1 \<longrightarrow> pf oc q s1 = (r, s2) \<longrightarrow>
     good s2 \<and> (\<forall>w'. w' \<noteq> w \<longrightarrow> rely w' s1 s2) \<and> safe al pf good rely w (k r) s2)"

inductive pool_step ::
  "('o \<Rightarrow> 'q \<Rightarrow> 's \<Rightarrow> bool) \<Rightarrow> ('o \<Rightarrow> 'q \<Rightarrow> 's \<Rightarrow> 'r \<times> 's) \<Rightarrow> ('w set \<Rightarrow> 's \<Rightarrow> 's \<Rightarrow> bool) \<Rightarrow>
     ('s \<Rightarrow> 'w \<Rightarrow> ('q, 'r, 'a) prog \<Rightarrow> 's \<Rightarrow> bool) \<Rightarrow>
     's \<times> ('w \<times> ('q, 'r, 'a) prog) list \<Rightarrow> 's \<times> ('w \<times> ('q, 'r, 'a) prog) list \<Rightarrow> bool"
  for al pf around begins where
  call: "i < length ps \<Longrightarrow> ps ! i = (w, Ask q k) \<Longrightarrow> al oc q s \<Longrightarrow> pf oc q s = (r, s') \<Longrightarrow>
     pool_step al pf around begins (s, ps) (s', ps[i := (w, k r)])"
| around: "around (fst ` set ps) s s' \<Longrightarrow> pool_step al pf around begins (s, ps) (s', ps)"
| start: "begins s w p s' \<Longrightarrow> pool_step al pf around begins (s, ps) (s', (w, p) # ps)"
| crash: "pool_step al pf around begins (s, ps) (s, filter P ps)"

locale interleaving =
  fixes al :: "'o \<Rightarrow> 'q \<Rightarrow> 's \<Rightarrow> bool"
    and pf :: "'o \<Rightarrow> 'q \<Rightarrow> 's \<Rightarrow> 'r \<times> 's"
    and good :: "'s \<Rightarrow> bool"
    and rely :: "'w \<Rightarrow> 's \<Rightarrow> 's \<Rightarrow> bool"
    and named :: "'w \<Rightarrow> 's \<Rightarrow> bool"
    and around :: "'w set \<Rightarrow> 's \<Rightarrow> 's \<Rightarrow> bool"
    and begins :: "'s \<Rightarrow> 'w \<Rightarrow> ('q, 'r, 'a) prog \<Rightarrow> 's \<Rightarrow> bool"
  assumes rely_refl: "rely w s s"
    and rely_trans: "rely w s s' \<Longrightarrow> rely w s' s'' \<Longrightarrow> rely w s s''"
    and rely_named: "rely w s s' \<Longrightarrow> named w s \<Longrightarrow> named w s'"
    and call_named: "pf oc q s = (r, s') \<Longrightarrow> named w s \<Longrightarrow> named w s'"
    and around_ok: "around ws s s' \<Longrightarrow> good s \<Longrightarrow> good s' \<and> (w \<in> ws \<longrightarrow> rely w s s')"
    and begins_ok: "begins s w p s' \<Longrightarrow> good s \<Longrightarrow>
      good s' \<and> \<not> named w s \<and> named w s' \<and> (\<forall>w'. w' \<noteq> w \<longrightarrow> rely w' s s') \<and> safe al pf good rely w p s'"
begin

lemma safe_later: "safe al pf good rely w p s \<Longrightarrow> rely w s s' \<Longrightarrow> safe al pf good rely w p s'"
  by (cases p) (auto dest: rely_trans)

definition steady :: "'s \<times> ('w \<times> ('q, 'r, 'a) prog) list \<Rightarrow> bool" where
  "steady c \<longleftrightarrow> good (fst c) \<and> distinct (map fst (snd c)) \<and>
     (\<forall>(w, p) \<in> set (snd c). named w (fst c) \<and> safe al pf good rely w p (fst c))"

lemma steadyI:
  "good s \<Longrightarrow> distinct (map fst ps) \<Longrightarrow> (\<And>w p. (w, p) \<in> set ps \<Longrightarrow> named w s \<and> safe al pf good rely w p s) \<Longrightarrow> steady (s, ps)"
  by (auto simp: steady_def)

lemma steadyD:
  "steady (s, ps) \<Longrightarrow> good s" "steady (s, ps) \<Longrightarrow> distinct (map fst ps)"
  "steady (s, ps) \<Longrightarrow> (w, p) \<in> set ps \<Longrightarrow> named w s \<and> safe al pf good rely w p s"
  by (auto simp: steady_def)

lemma steady_call:
  assumes "steady (s, ps)" "i < length ps" "ps ! i = (w, Ask q k)" "al oc q s" "pf oc q s = (r, s')"
  shows "steady (s', ps[i := (w, k r)])"
proof -
  have mem: "(w, Ask q k) \<in> set ps" using assms(2,3) nth_mem by metis
  have safe: "safe al pf good rely w (Ask q k) s" using steadyD(3) [OF assms(1) mem] by blast
  then have s: "good s'" "\<And>w'. w' \<noteq> w \<Longrightarrow> rely w' s s'" "safe al pf good rely w (k r) s'"
    using assms(4,5) rely_refl steadyD(1) [OF assms(1)] by auto
  have names: "map fst (ps[i := (w, k r)]) = map fst ps"
    using assms(2,3) by (simp add: map_update list_update_same_conv)
  show ?thesis
  proof (rule steadyI)
    show "good s'" by (rule s(1))
    show "distinct (map fst (ps[i := (w, k r)]))" using names steadyD(2) [OF assms(1)] by simp
    fix v p assume v: "(v, p) \<in> set (ps[i := (w, k r)])"
    then obtain j where j: "j < length ps" "ps[i := (w, k r)] ! j = (v, p)"
      by (metis in_set_conv_nth length_list_update)
    show "named v s' \<and> safe al pf good rely v p s'"
    proof (cases "j = i")
      case True
      then have "v = w" "p = k r" using j assms(2) by auto
      then show ?thesis using s(3) steadyD(3) [OF assms(1) mem] call_named [OF assms(5)] by blast
    next
      case False
      then have "ps ! j = (v, p)" using j by simp
      then have p: "(v, p) \<in> set ps" using j(1) nth_mem by metis
      have "v \<noteq> w"
        using steadyD(2) [OF assms(1)] False j(1) assms(2,3) \<open>ps ! j = (v, p)\<close>
        by (metis fst_conv length_map nth_eq_iff_index_eq nth_map)
      then show ?thesis using steadyD(3) [OF assms(1) p] s(2) safe_later rely_named by blast
    qed
  qed
qed

lemma steady_step: "pool_step al pf around begins c c' \<Longrightarrow> steady c \<Longrightarrow> steady c'"
proof (induction rule: pool_step.induct)
  case (call i ps w q k oc s r s')
  then show ?case using steady_call by blast
next
  case (around ps s s')
  then have "good s'" and r: "w \<in> fst ` set ps \<Longrightarrow> rely w s s'" for w using around_ok steadyD(1) by blast+
  moreover have "named w s' \<and> safe al pf good rely w p s'" if "(w, p) \<in> set ps" for w p
  proof -
    have "rely w s s'" using that by (intro r) force
    with steadyD(3) [OF around(2) that] show ?thesis using rely_named safe_later by blast
  qed
  ultimately show ?case using steadyD(2) [OF around(2)] by (intro steadyI) auto
next
  case (start s w p s' ps)
  then have b: "good s'" "\<not> named w s" "named w s'" "\<And>w'. w' \<noteq> w \<Longrightarrow> rely w' s s'" "safe al pf good rely w p s'"
    using begins_ok steadyD(1) by blast+
  have old: "named v s' \<and> safe al pf good rely v q s'" if "(v, q) \<in> set ps" for v q
  proof -
    have v: "named v s" "safe al pf good rely v q s" using steadyD(3) [OF start(2) that] by auto
    then have "rely v s s'" using b(2,4) by metis
    with v show ?thesis using rely_named safe_later by blast
  qed
  have "w \<notin> fst ` set ps" using steadyD(3) [OF start(2)] b(2) by auto
  with b old steadyD(2) [OF start(2)] show ?case by (intro steadyI) auto
next
  case (crash s ps P)
  then show ?case by (auto simp: steady_def distinct_map_filter)
qed

lemma steady_steps: "(pool_step al pf around begins)\<^sup>*\<^sup>* c c' \<Longrightarrow> steady c \<Longrightarrow> steady c'"
  by (induction rule: rtranclp_induct) (auto intro: steady_step)

lemma good_steps: "(pool_step al pf around begins)\<^sup>*\<^sup>* (s, []) (s', ps) \<Longrightarrow> good s \<Longrightarrow> good s'"
  using steady_steps [of "(s, [])" "(s', ps)"] by (simp add: steady_def)

end

end
