(* ===== verification/Engine.thy ===== *)
theory Engine
  imports SyncConfig Interleaving Wire
begin

text \<open>
  The connector engine (\<open>internal/dataplane/connector/engine.go\<close>): one run of a sync, from its claim
  to its recorded end, as a program of calls to the control tables, the source and the stream. A
  program continues with the reply of each call; how a call changes the world is \<open>perform\<close>. The
  heartbeat and the cancellation of the run's context act between the calls: the first is an
  operation of the control tables, the second makes calls fail. The legacy path without a run
  (\<open>pullAndLand\<close>) is left out.
\<close>

section \<open>Calls\<close>

datatype engine_call =
    CallClaimRun string string
  | CallRun string string
  | CallCancelRun string string
  | CallJob string
  | CallStopped
  | CallNow
  | CallClaim sync_job string string int
  | CallPending generation_row
  | CallPublish snapshot_envelope
  | CallMark generation_row outbox_row
  | CallRead string
  | CallOpen sync_job
  | CallCheckKey "source_binding list" string string
  | CallPull "source_binding list" pull_request
  | CallPrepare generation_row snapshot_envelope string string
  | CallYield generation_row
  | CallFail generation_row
  | CallManifest string
  | CallSeal generation_row snapshot_envelope int
  | CallCancelGeneration string string int
  | CallFinish string string string sync_result bool
  | CallBatch "string \<times> string \<times> string" incremental_receipt "landed_row list"
  | CallComplete "string \<times> string \<times> string" incremental_receipt

text \<open>\<open>Fault\<close> carries the text of an error; \<open>KeyInvalid\<close> is the error \<open>ErrSnapshotKeyInvalid\<close>.\<close>

datatype engine_reply =
    Fault string | KeyInvalid string | Ack
  | GotClaim "run_row option" | GotRun run_row | GotJob sync_job | GotBool bool | GotTime time
  | GotGeneration generation_row | GotItems "outbox_row list" | GotItem outbox_row
  | GotBindings "source_binding list" | GotPage pull_result | GotManifest "manifest_entry list" int | GotCount nat

type_synonym 'a engine_prog = "(engine_call, engine_reply, 'a) prog"

record 'ip engine_lib =
  en_wire :: wire_lib
  en_queue :: event_queue
  en_policy_lib :: "'ip policy_lib"
  en_policy :: "source_policy option"
  en_dsn :: "connector_row \<Rightarrow> bool"

text \<open>What the outside adds to one call: whether the call reaches the database and whether its
  answer comes back, the text of an error, the clock, an identifier, whether the run's context has
  been cancelled, whether the source can be dialled and what it holds.\<close>

record call_outcome =
  oc_reaches :: bool
  oc_heard :: bool
  oc_text :: string
  oc_now :: time
  oc_uuid :: string
  oc_stopped :: bool
  oc_dials :: bool
  oc_source :: source_db

type_synonym engine_world = "control_db \<times> broker"

section \<open>How a call acts\<close>

definition fault_of :: "call_outcome \<Rightarrow> control_error \<Rightarrow> engine_reply" where
  "fault_of oc e = Fault (case e of Rejected m \<Rightarrow> m | _ \<Rightarrow> oc_text oc)"

text \<open>A transaction that does not reach the database changes nothing; one whose answer is lost has
  been made.\<close>

definition transacted :: "call_outcome \<Rightarrow> ('a \<Rightarrow> engine_reply) \<Rightarrow> control_error + 'a \<times> control_db \<Rightarrow> engine_world \<Rightarrow> engine_reply \<times> engine_world" where
  "transacted oc f res w =
     (if \<not> oc_reaches oc then (Fault (oc_text oc), w)
      else (case res of
          Inl e \<Rightarrow> (fault_of oc e, w)
        | Inr (a, J) \<Rightarrow> (if oc_heard oc then f a else Fault (oc_text oc), (J, snd w))))"

definition answered :: "call_outcome \<Rightarrow> ('a \<Rightarrow> engine_reply) \<Rightarrow> control_error + 'a \<Rightarrow> engine_world \<Rightarrow> engine_reply \<times> engine_world" where
  "answered oc f res w = transacted oc f (res_bind res (\<lambda>a. Inr (a, fst w))) w"

definition done_with :: "control_error + control_db \<Rightarrow> control_error + unit \<times> control_db" where
  "done_with res = res_bind res (\<lambda>J. Inr ((), J))"

definition published_reply :: "call_outcome \<Rightarrow> control_db \<Rightarrow> publish_error option \<times> broker \<Rightarrow> engine_reply \<times> engine_world" where
  "published_reply oc J p = (if fst p = None then Ack else Fault (oc_text oc), (J, snd p))"

definition pull_reply :: "call_outcome \<Rightarrow> source_error + pull_result \<Rightarrow> engine_reply" where
  "pull_reply oc res = (if \<not> oc_reaches oc then Fault (oc_text oc)
     else case res of Inl (ErrSnapshotKeyInvalid m) \<Rightarrow> KeyInvalid m | Inl _ \<Rightarrow> Fault (oc_text oc) | Inr p \<Rightarrow> GotPage p)"

definition key_reply :: "call_outcome \<Rightarrow> source_error option \<Rightarrow> engine_reply" where
  "key_reply oc res = (if \<not> oc_reaches oc then Fault (oc_text oc)
     else case res of None \<Rightarrow> Ack | Some (ErrSnapshotKeyInvalid m) \<Rightarrow> KeyInvalid m | Some _ \<Rightarrow> Fault (oc_text oc))"

definition open_reply :: "call_outcome \<Rightarrow> source_error + source_binding list \<Rightarrow> engine_reply" where
  "open_reply oc res = (if \<not> oc_dials oc then Fault (oc_text oc)
     else case res of Inl _ \<Rightarrow> Fault (oc_text oc) | Inr bs \<Rightarrow> GotBindings bs)"

fun perform :: "'ip engine_lib \<Rightarrow> call_outcome \<Rightarrow> engine_call \<Rightarrow> engine_world \<Rightarrow> engine_reply \<times> engine_world" where
  "perform lib oc (CallClaimRun run owner) w = transacted oc GotClaim (Inr (ClaimConnectorRun run owner (oc_now oc) (fst w))) w"
| "perform lib oc (CallRun project run) w =
     answered oc GotRun (case ConnectorRunForProject project run (fst w) of None \<Rightarrow> Inl NoRows | Some r \<Rightarrow> Inr r) w"
| "perform lib oc (CallCancelRun project run) w = transacted oc GotRun (CancelConnectorRun project run (oc_now oc) (fst w)) w"
| "perform lib oc (CallJob sync) w = answered oc GotJob (ConnectorSyncJob (en_policy_lib lib) (en_policy lib) (en_dsn lib) sync (fst w)) w"
| "perform lib oc CallStopped w = (GotBool (oc_stopped oc), w)"
| "perform lib oc CallNow w = (GotTime (oc_now oc), w)"
| "perform lib oc (CallClaim job run owner epoch) w =
     transacted oc GotGeneration (ClaimSnapshotGeneration job run owner epoch (oc_uuid oc) (oc_now oc) (fst w)) w"
| "perform lib oc (CallPending g) w = answered oc GotItems (Inr (PendingSnapshotOutbox g (fst w))) w"
| "perform lib oc (CallPublish env) w = published_reply oc (fst w) (PublishSnapshotEnvelope (en_wire lib) (en_queue lib) env (snd w))"
| "perform lib oc (CallMark g item) w = transacted oc (\<lambda>_. Ack) (done_with (MarkSnapshotOutboxPublished g item (fst w))) w"
| "perform lib oc (CallRead i) w = answered oc GotGeneration (SnapshotGeneration i (fst w)) w"
| "perform lib oc (CallOpen job) w =
     (open_reply oc (OpenWithPolicy (\<lambda>_. False) (jb_Kind job) (jb_ProjectID job) (jb_ConnectorID job) (en_policy lib) (Some (jb_Table job))), w)"
| "perform lib oc (CallCheckKey bs table key) w = (key_reply oc (ValidateSnapshotKey (oc_source oc) bs table key), w)"
| "perform lib oc (CallPull bs q) w = (pull_reply oc (PullRows (oc_source oc) bs q), w)"
| "perform lib oc (CallPrepare g env lo hi) w =
     transacted oc GotItem (PrepareSnapshotEnvelope (wl_snap (en_wire lib)) (wl_json (en_wire lib)) g env lo hi (oc_uuid oc) (oc_now oc) (fst w)) w"
| "perform lib oc (CallYield g) w = transacted oc (\<lambda>_. Ack) (done_with (YieldSnapshotGeneration g (oc_now oc) (fst w))) w"
| "perform lib oc (CallFail g) w = transacted oc (\<lambda>_. Ack) (done_with (FailSnapshotGeneration g (oc_now oc) (fst w))) w"
| "perform lib oc (CallManifest i) w = answered oc (\<lambda>(es, n). GotManifest es n) (Inr (SnapshotManifest i (fst w))) w"
| "perform lib oc (CallSeal g env rows) w =
     transacted oc GotItem (SealSnapshotGeneration (wl_snap (en_wire lib)) (wl_json (en_wire lib)) g env rows (oc_uuid oc) (oc_now oc) (fst w)) w"
| "perform lib oc (CallCancelGeneration run owner epoch) w =
     transacted oc (\<lambda>_. Ack) (Inr ((), CancelSnapshotGeneration run owner epoch (oc_now oc) (fst w))) w"
| "perform lib oc (CallFinish run sync owner res cancelled) w =
     transacted oc (\<lambda>_. Ack) (done_with (FinishConnectorRun run sync owner res cancelled (oc_now oc) (fst w))) w"
| "perform lib oc (CallBatch src receipt rows) w =
     (let ((n, e), k) = PublishIncrementalBatch (en_wire lib) (en_queue lib) src receipt rows (snd w)
      in (if e = None then GotCount n else Fault (oc_text oc), (fst w, k)))"
| "perform lib oc (CallComplete src receipt) w =
     published_reply oc (fst w) (PublishIncrementalComplete (en_wire lib) (en_queue lib) src receipt (snd w))"

section \<open>Snapshot capture\<close>

definition maxBatchesPerRun :: nat where "maxBatchesPerRun = 200"
definition pullBatchSize :: nat where "pullBatchSize = 1000"

definition error_text :: "engine_reply \<Rightarrow> string" where
  "error_text r = (case r of Fault m \<Rightarrow> m | KeyInvalid m \<Rightarrow> m | _ \<Rightarrow> ''unexpected reply'')"

definition failed :: "int \<Rightarrow> string \<Rightarrow> sync_result" where
  "failed rows text = \<lparr>sr_Cursor = '''', sr_CursorKey = '''', sr_AdvanceCursor = False, sr_Rows = rows, sr_Err = text,
     sr_Finalized = False\<rparr>"

definition captured :: "int \<Rightarrow> sync_result" where "captured rows = failed rows ''''"

text \<open>The pending envelopes of a generation, published and marked in order; then the generation is
  read again. A drain that fails says whether the reread is what failed, which leaves the caller
  with an empty generation.\<close>

fun drain_items :: "'ip engine_lib \<Rightarrow> generation_row \<Rightarrow> outbox_row list \<Rightarrow> (string option \<Rightarrow> 'a engine_prog) \<Rightarrow> 'a engine_prog" where
  "drain_items lib g [] k = k None"
| "drain_items lib g (item # items) k =
     (case ParseSnapshotEnvelope (wl_snap (en_wire lib)) (wl_json (en_wire lib)) (ox_payload item) of
        Inl _ \<Rightarrow> k (Some ''read snapshot outbox'')
      | Inr env \<Rightarrow>
          Ask (CallPublish env) (\<lambda>r.
            if r \<noteq> Ack then k (Some (error_text r))
            else Ask (CallMark g item) (\<lambda>r.
              if r \<noteq> Ack then k (Some (error_text r)) else drain_items lib g items k)))"

definition drain :: "'ip engine_lib \<Rightarrow> generation_row \<Rightarrow> ((string \<times> bool) + generation_row \<Rightarrow> 'a engine_prog) \<Rightarrow> 'a engine_prog" where
  "drain lib g k =
     Ask (CallPending g) (\<lambda>r.
       case r of
         GotItems items \<Rightarrow>
           drain_items lib g items (\<lambda>e.
             case e of
               Some m \<Rightarrow> k (Inl (m, False))
             | None \<Rightarrow> Ask (CallRead (gn_generation g)) (\<lambda>r.
                 case r of GotGeneration g' \<Rightarrow> k (Inr g') | _ \<Rightarrow> k (Inl (error_text r, True))))
       | _ \<Rightarrow> k (Inl (error_text r, False)))"

definition common_envelope :: "sync_job \<Rightarrow> string \<Rightarrow> generation_row \<Rightarrow> snapshot_envelope" where
  "common_envelope job run g =
     \<lparr>n_Protocol = SnapshotProtocolV1, n_ProjectID = jb_ProjectID job, n_ConnectorID = jb_ConnectorID job,
      n_Table = jb_Table job, n_SyncID = jb_SyncID job, n_Generation = gn_generation g, n_GenerationSeq = gn_seq g,
      n_BindingDigest = gn_binding g, n_CaptureStartedAt = gn_started_at g, n_Kind = '''', n_RunID = run,
      n_BatchID = '''', n_BatchIndex = 0, n_PayloadSHA256 = '''', n_CaptureFinishedAt = None, n_Rows = [],
      n_ExpectedBatches = 0, n_ExpectedRows = 0, n_BatchManifestSHA256 = ''''\<rparr>"

definition snapshot_request :: "sync_job \<Rightarrow> string \<Rightarrow> pull_request" where
  "snapshot_request job key = \<lparr>pq_Table = jb_Table job, pq_KeyColumn = jb_KeyColumn job, pq_CursorColumn = '''', pq_Cursor = '''',
     pq_CursorKey = key, pq_Limit = pullBatchSize, pq_Snapshot = True\<rparr>"

fun encode_rows :: "(pulled_row \<Rightarrow> string) \<Rightarrow> pulled_row list \<Rightarrow> landed_row list option" where
  "encode_rows cur [] = Some []"
| "encode_rows cur (r # rs) =
     (case sw_Data r of
        None \<Rightarrow> None
      | Some d \<Rightarrow> map_option (Cons \<lparr>Key = sw_Key r, Cursor = cur r, DataJSON = d\<rparr>) (encode_rows cur rs))"

text \<open>The envelopes of one page: each is prepared in the outbox, published, marked, and the
  generation read again. A reread that fails leaves an empty generation, whose row count is 0.\<close>

fun publish_page ::
  "int \<Rightarrow> generation_row \<Rightarrow> string \<Rightarrow> snapshot_envelope list \<Rightarrow> (generation_row \<Rightarrow> sync_result engine_prog) \<Rightarrow> sync_result engine_prog" where
  "publish_page start g lo [] k = k g"
| "publish_page start g lo (env # envs) k =
     (let hi = w_Key (last (n_Rows env)); fail = (\<lambda>r. Return (failed (gn_rows g - start) (error_text r)))
      in Ask (CallPrepare g env lo hi) (\<lambda>r.
           case r of
             GotItem item \<Rightarrow>
               Ask (CallPublish env) (\<lambda>r. if r \<noteq> Ack then fail r else
               Ask (CallMark g item) (\<lambda>r. if r \<noteq> Ack then fail r else
               Ask (CallRead (gn_generation g)) (\<lambda>r.
                 case r of
                   GotGeneration g' \<Rightarrow> publish_page start g' hi envs k
                 | _ \<Rightarrow> Return (failed (0 - start) (error_text r)))))
           | _ \<Rightarrow> fail r))"

definition give_up :: "int \<Rightarrow> generation_row \<Rightarrow> string \<Rightarrow> sync_result engine_prog" where
  "give_up start g text = Ask (CallFail g) (\<lambda>_. Return (failed (gn_rows g - start) text))"

fun pull_pages ::
  "'ip engine_lib \<Rightarrow> sync_job \<Rightarrow> string \<Rightarrow> source_binding list \<Rightarrow> int \<Rightarrow> nat \<Rightarrow> generation_row \<Rightarrow> bool \<Rightarrow>
     (generation_row \<Rightarrow> bool \<Rightarrow> sync_result engine_prog) \<Rightarrow> sync_result engine_prog" where
  "pull_pages lib job run bs start 0 g hm k = k g hm"
| "pull_pages lib job run bs start (Suc n) g hm k =
     Ask (CallPull bs (snapshot_request job (gn_key g))) (\<lambda>r.
       case r of
         GotPage p \<Rightarrow>
           if pr_Rows p = [] then
             (if pr_HasMore p then give_up start g ''snapshot source reported more rows without keyset progress'' else k g False)
           else (case encode_rows (\<lambda>_. '''') (pr_Rows p) of
               None \<Rightarrow> Return (failed (gn_rows g - start) ''encode snapshot source row'')
             | Some landed \<Rightarrow>
                 (case BuildSnapshotBatches (en_wire lib) (en_queue lib) (common_envelope job run g) landed (gn_next g) of
                    Inl _ \<Rightarrow> Return (failed (gn_rows g - start) ''snapshot batches'')
                  | Inr envs \<Rightarrow>
                      publish_page start g (gn_key g) envs (\<lambda>g'.
                        if pr_NextCursorKey p = '''' \<or> pr_NextCursorKey p = gn_key g \<and> pr_HasMore p
                        then give_up start g' ''snapshot source made no keyset progress''
                        else if \<not> pr_HasMore p then k g' False
                        else pull_pages lib job run bs start n g' True k)))
       | _ \<Rightarrow> Return (failed (gn_rows g - start) (error_text r)))"

definition check_key :: "source_binding list \<Rightarrow> sync_job \<Rightarrow> int \<Rightarrow> generation_row \<Rightarrow> sync_result engine_prog \<Rightarrow> sync_result engine_prog" where
  "check_key bs job start g p =
     Ask (CallCheckKey bs (jb_Table job) (jb_KeyColumn job)) (\<lambda>r.
       case r of
         Ack \<Rightarrow> p
       | KeyInvalid m \<Rightarrow> give_up start g m
       | _ \<Rightarrow> Return (failed (gn_rows g - start) (error_text r)))"

definition completion_envelope :: "sync_job \<Rightarrow> string \<Rightarrow> generation_row \<Rightarrow> time \<Rightarrow> manifest_entry list \<Rightarrow> int \<Rightarrow> string \<Rightarrow> snapshot_envelope" where
  "completion_envelope job run g now entries rows manifest =
     (common_envelope job run g)\<lparr>n_CaptureFinishedAt := Some now, n_Kind := SnapshotKindComplete,
       n_ExpectedBatches := int (length entries), n_ExpectedRows := rows, n_BatchManifestSHA256 := manifest\<rparr>"

text \<open>The completion commits with the success of the run; what fails after that is the drain's.\<close>

definition seal_capture :: "'ip engine_lib \<Rightarrow> sync_job \<Rightarrow> string \<Rightarrow> int \<Rightarrow> generation_row \<Rightarrow> sync_result engine_prog" where
  "seal_capture lib job run start g =
     (let rows = gn_rows g - start in
      Ask (CallManifest (gn_generation g)) (\<lambda>r.
        case r of
          GotManifest entries rowcount \<Rightarrow>
            (case SnapshotManifestDigest (wl_snap (en_wire lib)) entries of
               Inl _ \<Rightarrow> Return (failed rows ''snapshot manifest'')
             | Inr manifest \<Rightarrow>
                 Ask CallNow (\<lambda>r.
                   case r of
                     GotTime now \<Rightarrow>
                       Ask (CallSeal g (completion_envelope job run g now entries rowcount manifest) rows) (\<lambda>r.
                         case r of
                           GotItem _ \<Rightarrow>
                             drain lib (g\<lparr>gn_state := Sealed\<rparr>) (\<lambda>d.
                               case d of
                                 Inl (m, lost) \<Rightarrow>
                                   Return ((failed ((if lost then 0 else gn_rows g) - start)
                                     (''publish sealed snapshot completion: '' @ m))\<lparr>sr_Finalized := True\<rparr>)
                               | Inr g' \<Rightarrow> Return ((captured (gn_rows g' - start))\<lparr>sr_Finalized := True\<rparr>))
                         | _ \<Rightarrow> Return (failed rows (error_text r)))
                   | _ \<Rightarrow> Return (failed rows (error_text r))))
        | _ \<Rightarrow> Return (failed rows (error_text r))))"

definition capture_pages ::
  "'ip engine_lib \<Rightarrow> sync_job \<Rightarrow> string \<Rightarrow> source_binding list \<Rightarrow> generation_row \<Rightarrow> sync_result engine_prog" where
  "capture_pages lib job run bs g =
     (let start = gn_rows g in
      check_key bs job start g
        (pull_pages lib job run bs start maxBatchesPerRun g False (\<lambda>g hm.
           if hm then
             Ask (CallYield g) (\<lambda>r. Return (if r = Ack then captured (gn_rows g - start) else failed (gn_rows g - start) (error_text r)))
           else check_key bs job start g (seal_capture lib job run start g))))"

definition pullAndLandSnapshot :: "'ip engine_lib \<Rightarrow> string \<Rightarrow> sync_job \<Rightarrow> run_row \<Rightarrow> sync_result engine_prog" where
  "pullAndLandSnapshot lib owner job run =
     Ask (CallClaim job (rn_id run) owner (rn_lease_epoch run)) (\<lambda>r.
       case r of
         GotGeneration g \<Rightarrow>
           drain lib g (\<lambda>d.
             case d of
               Inl (m, _) \<Rightarrow> Return (failed 0 (''publish snapshot outbox: '' @ m))
             | Inr g \<Rightarrow>
                 if gn_state g = Sealed then Return (captured 0)
                 else if \<not> jb_Policy job then Return (failed 0 ''snapshot source policy is unavailable'')
                 else Ask (CallOpen job) (\<lambda>r.
                   case r of
                     GotBindings bs \<Rightarrow> capture_pages lib job (rn_id run) bs g
                   | _ \<Rightarrow> Return (failed 0 (error_text r))))
       | _ \<Rightarrow> Return (failed 0 (error_text r)))"

section \<open>Incremental pull\<close>

definition job_request :: "sync_job \<Rightarrow> string \<Rightarrow> string \<Rightarrow> pull_request" where
  "job_request job cursor key =
     \<lparr>pq_Table = jb_Table job, pq_KeyColumn = jb_KeyColumn job,
      pq_CursorColumn = (if jb_CursorColumn job = '''' then jb_KeyColumn job else jb_CursorColumn job),
      pq_Cursor = cursor, pq_CursorKey = key, pq_Limit = pullBatchSize, pq_Snapshot = False\<rparr>"

definition receipt_of :: "sync_job \<Rightarrow> string \<Rightarrow> time \<Rightarrow> int \<Rightarrow> incremental_receipt" where
  "receipt_of job run started batches =
     \<lparr>ir_SyncID = jb_SyncID job, ir_RunID = run, ir_BatchIndex = word_of_int batches, ir_ExpectedBatches = 0,
      ir_ExpectedRows = 0, ir_CaptureStartedAt = started, ir_CaptureFinishedAt = None\<rparr>"

text \<open>The progress of a pull: the position, the rows and the messages so far, whether more remain.\<close>

record pull_progress =
  pp_Cursor :: string
  pp_CursorKey :: string
  pp_Total :: int
  pp_Batches :: int
  pp_HasMore :: bool

definition pull_outcome :: "sync_job \<Rightarrow> pull_progress \<Rightarrow> string \<Rightarrow> sync_result" where
  "pull_outcome job st text =
     (let advance = (jb_CursorColumn job \<noteq> '''' \<and> (pp_Cursor st \<noteq> jb_Cursor job \<or> pp_CursorKey st \<noteq> jb_CursorKey job))
      in \<lparr>sr_Cursor = (if advance then pp_Cursor st else ''''), sr_CursorKey = (if advance then pp_CursorKey st else ''''),
          sr_AdvanceCursor = advance, sr_Rows = pp_Total st, sr_Err = text, sr_Finalized = False\<rparr>)"

fun pull_batches ::
  "sync_job \<Rightarrow> string \<Rightarrow> time \<Rightarrow> source_binding list \<Rightarrow> nat \<Rightarrow> pull_progress \<Rightarrow> (pull_progress \<Rightarrow> sync_result engine_prog) \<Rightarrow> sync_result engine_prog" where
  "pull_batches job run started bs 0 st k = k st"
| "pull_batches job run started bs (Suc n) st k =
     Ask (CallPull bs (job_request job (pp_Cursor st) (pp_CursorKey st))) (\<lambda>r.
       case r of
         GotPage p \<Rightarrow>
           if pr_Rows p = [] then k (st\<lparr>pp_HasMore := False\<rparr>)
           else (case encode_rows sw_Cursor (pr_Rows p) of
               None \<Rightarrow> Return (pull_outcome job st ''encode source row'')
             | Some landed \<Rightarrow>
                 Ask (CallBatch (job_source job) (receipt_of job run started (pp_Batches st)) landed) (\<lambda>r.
                   case r of
                     GotCount c \<Rightarrow>
                       let st' = st\<lparr>pp_Total := pp_Total st + int (length (pr_Rows p)), pp_Batches := pp_Batches st + int c,
                             pp_HasMore := pr_HasMore p\<rparr>
                       in if pr_NextCursor p = pp_Cursor st \<and> pr_NextCursorKey p = pp_CursorKey st then k st'
                          else let st'' = st'\<lparr>pp_Cursor := pr_NextCursor p, pp_CursorKey := pr_NextCursorKey p\<rparr>
                               in if \<not> pr_HasMore p then k st'' else pull_batches job run started bs n st'' k
                   | _ \<Rightarrow> Return (pull_outcome job st (''queue rows: '' @ error_text r))))
       | _ \<Rightarrow> Return (pull_outcome job st (error_text r)))"

definition complete_pull :: "sync_job \<Rightarrow> string \<Rightarrow> time \<Rightarrow> pull_progress \<Rightarrow> sync_result engine_prog" where
  "complete_pull job run started st =
     (if pp_HasMore st \<and> jb_CursorColumn job = '''' then Return (pull_outcome job st ''table exceeds the snapshot limit'')
      else Ask CallNow (\<lambda>r.
        case r of
          GotTime now \<Rightarrow>
            Ask (CallComplete (job_source job) ((receipt_of job run started 0)\<lparr>ir_ExpectedBatches := word_of_int (pp_Batches st),
                ir_ExpectedRows := word_of_int (pp_Total st), ir_CaptureFinishedAt := Some now\<rparr>)) (\<lambda>r.
              Return (pull_outcome job st (if r = Ack then '''' else ''queue completion: '' @ error_text r)))
        | _ \<Rightarrow> Return (pull_outcome job st (error_text r))))"

definition pullAndLandRun :: "sync_job \<Rightarrow> run_row \<Rightarrow> sync_result engine_prog" where
  "pullAndLandRun job run =
     (let st = \<lparr>pp_Cursor = jb_Cursor job, pp_CursorKey = jb_CursorKey job, pp_Total = 0, pp_Batches = 0, pp_HasMore = False\<rparr>
      in Ask CallNow (\<lambda>r.
           case r of
             GotTime now \<Rightarrow>
               Ask (CallOpen job) (\<lambda>r.
                 case r of
                   GotBindings bs \<Rightarrow>
                     (let started = (case rn_started_at run of None \<Rightarrow> now | Some t \<Rightarrow> t)
                      in pull_batches job (rn_id run) started bs maxBatchesPerRun st (complete_pull job (rn_id run) started))
                 | _ \<Rightarrow> Return (pull_outcome job st (error_text r)))
           | _ \<Rightarrow> Return (pull_outcome job st (error_text r))))"

section \<open>A run\<close>

definition finish_run :: "string \<Rightarrow> string \<Rightarrow> run_row \<Rightarrow> bool \<Rightarrow> sync_result \<Rightarrow> unit engine_prog" where
  "finish_run owner project run snapshot res =
     Ask CallStopped (\<lambda>c.
       let cancelled = (c = GotBool True);
           fin = Ask (CallFinish (rn_id run) (rn_sync run) owner res cancelled) (\<lambda>_. Return ())
       in if sr_Finalized res then Return ()
          else if cancelled \<and> snapshot then
            Ask (CallRun project (rn_id run)) (\<lambda>r.
              case r of
                GotRun current \<Rightarrow>
                  if rn_cancel_requested current
                  then Ask (CallCancelGeneration (rn_id run) owner (rn_lease_epoch run)) (\<lambda>_. fin) else fin
              | _ \<Rightarrow> fin)
          else fin)"

definition execute_claimed :: "'ip engine_lib \<Rightarrow> string \<Rightarrow> string \<Rightarrow> run_row \<Rightarrow> unit engine_prog" where
  "execute_claimed lib owner project run =
     Ask (CallJob (rn_sync run)) (\<lambda>r.
       case r of
         GotJob job \<Rightarrow>
           if jb_SyncMode job = ''snapshot''
           then and_then (pullAndLandSnapshot lib owner job run) (finish_run owner project run True)
           else and_then (pullAndLandRun job run) (finish_run owner project run False)
       | _ \<Rightarrow> finish_run owner project run False (failed 0 (error_text r)))"

definition cancelQueuedRun :: "string \<Rightarrow> string \<Rightarrow> unit engine_prog" where
  "cancelQueuedRun project run =
     Ask (CallRun project run) (\<lambda>r.
       case r of
         GotRun row \<Rightarrow> if rn_status row \<noteq> Queued then Return () else Ask (CallCancelRun project run) (\<lambda>_. Return ())
       | _ \<Rightarrow> Return ())"

definition executeRun :: "'ip engine_lib \<Rightarrow> string \<Rightarrow> string \<Rightarrow> string \<Rightarrow> unit engine_prog" where
  "executeRun lib owner project run =
     Ask (CallClaimRun run owner) (\<lambda>r.
       case r of
         GotClaim (Some claimed) \<Rightarrow> execute_claimed lib owner project claimed
       | GotClaim None \<Rightarrow> Return ()
       | _ \<Rightarrow> Ask CallStopped (\<lambda>c. if c = GotBool True then cancelQueuedRun project run else Return ()))"

end
