(* ===== verification/Outbox.thy ===== *)
theory Outbox
  imports Engine
begin

text \<open>
  The journal of a snapshot generation as the outbox holds it (\<open>store/connector_snapshots.go\<close>): its
  batches in the order they were written, the chain of their key ranges, the progress its row
  records, and what the completion says of them.
\<close>

section \<open>Names of batches\<close>

lemma digits_val_zeros: "digits_val 0 (replicate n (CHR ''0'') @ s) = digits_val 0 s"
proof (induction n)
  case (Suc n)
  have "digit_val (CHR ''0'') = Some 0" by (simp add: digit_val_def)
  with Suc show ?case by simp
qed simp

lemma pad6_value: "0 \<le> i \<Longrightarrow> digits_val 0 (pad6 i) = Some (nat i)"
  by (simp add: pad6_def Let_def digits_val_zeros)

lemma batch_id_inj: "0 \<le> i \<Longrightarrow> 0 \<le> j \<Longrightarrow> batch_id i = batch_id j \<Longrightarrow> i = j"
  using pad6_value [of i] pad6_value [of j] by (simp add: batch_id_def)

lemma int64_bounds: "- (2 ^ 63) \<le> int64 i" "int64 i < 2 ^ 63"
  using sint_greater_eq [of "word_of_int i :: 64 word"] sint_less [of "word_of_int i :: 64 word"] by (simp_all add: int64_def)

lemma int64_small: "0 \<le> i \<Longrightarrow> i < 2 ^ 63 \<Longrightarrow> int64 i = i"
  by (simp add: int64_def sint_uint uint_word_of_int take_bit_int_eq_self_iff signed_take_bit_int_eq_self)

text \<open>The index after a full journal wraps to a negative one.\<close>

lemma int64_next: "0 \<le> i \<Longrightarrow> i \<le> 2 ^ 63 \<Longrightarrow> 0 \<le> int64 i \<Longrightarrow> int64 i = i \<and> i < 2 ^ 63"
proof (cases "i = 2 ^ 63")
  case True
  have "int64 (2 ^ 63) = - (2 ^ 63)" by (simp add: int64_def)
  with True show "0 \<le> int64 i \<Longrightarrow> int64 i = i \<and> i < 2 ^ 63" by simp
next
  case False
  moreover assume "0 \<le> i" "i \<le> 2 ^ 63"
  ultimately have "i < 2 ^ 63" "0 \<le> i" by auto
  then show ?thesis using int64_small by simp
qed

section \<open>The journal of one generation\<close>

text \<open>The batches of a generation and its completions, in the order they were written.\<close>

definition batches :: "control_db \<Rightarrow> string \<Rightarrow> outbox_row list" where
  "batches J generation = filter (\<lambda>o1. ox_generation o1 = generation \<and> ox_kind o1 = SnapshotKindBatch) (d_outbox J)"

definition completions :: "control_db \<Rightarrow> string \<Rightarrow> outbox_row list" where
  "completions J generation = filter (\<lambda>o1. ox_generation o1 = generation \<and> ox_kind o1 \<noteq> SnapshotKindBatch) (d_outbox J)"

text \<open>The key a page resumes from, and the chain of key ranges.\<close>

definition last_upper :: "outbox_row list \<Rightarrow> string" where
  "last_upper os = (if os = [] then '''' else ox_upper (last os))"

fun links :: "string \<Rightarrow> outbox_row list \<Rightarrow> bool" where
  "links lo [] = True"
| "links lo (o1 # os) = (ox_lower o1 = lo \<and> links (ox_upper o1) os)"

definition in_progress :: "outbox_row list \<Rightarrow> bool" where
  "in_progress bs \<longleftrightarrow> (\<exists>d p. bs = d @ p \<and> list_all ox_published d \<and> list_all (\<lambda>o1. \<not> ox_published o1) p \<and> length p \<le> 1)"

definition chained :: "outbox_row list \<Rightarrow> bool" where
  "chained bs \<longleftrightarrow> map ox_index bs = map int [0..<length bs] \<and> links '''' bs \<and> int (length bs) \<le> 2 ^ 63 \<and> in_progress bs"

text \<open>What the generation's row says of its published batches.\<close>

definition progress :: "generation_row \<Rightarrow> outbox_row list \<Rightarrow> bool" where
  "progress g bs \<longleftrightarrow> gn_next g = int (length (filter ox_published bs)) \<and>
     gn_rows g = sum_list (map ox_rows (filter ox_published bs)) \<and> gn_key g = last_upper (filter ox_published bs)"

text \<open>The outbox row of an envelope of a generation.\<close>

definition item_of :: "snap_lib \<Rightarrow> json_lib \<Rightarrow> generation_row \<Rightarrow> snapshot_envelope \<Rightarrow> outbox_row \<Rightarrow> bool" where
  "item_of slib jl g env o1 \<longleftrightarrow> MarshalSnapshotEnvelope slib jl env = Inr (ox_payload o1) \<and> n_Kind env = SnapshotKindBatch \<and>
     (n_Generation env, n_GenerationSeq env, n_BindingDigest env) = (gn_generation g, gn_seq g, gn_binding g) \<and>
     n_BatchIndex env = ox_index o1 \<and> n_BatchID env = batch_id (n_BatchIndex env) \<and> ox_batch_id o1 = n_BatchID env \<and>
     ox_sha256 o1 = n_PayloadSHA256 env \<and> ox_rows o1 = int (length (n_Rows env)) \<and>
     ox_upper o1 = w_Key (last (n_Rows env)) \<and> ox_source o1 = gn_source g"

definition completes :: "snap_lib \<Rightarrow> json_lib \<Rightarrow> generation_row \<Rightarrow> outbox_row list \<Rightarrow> outbox_row \<Rightarrow> bool" where
  "completes slib jl g bs c \<longleftrightarrow> (\<exists>env. MarshalSnapshotEnvelope slib jl env = Inr (ox_payload c) \<and> n_Kind env = SnapshotKindComplete \<and>
     (n_Generation env, n_GenerationSeq env, n_BindingDigest env) = (gn_generation g, gn_seq g, gn_binding g) \<and>
     n_ExpectedBatches env = int (length bs) \<and> n_ExpectedRows env = sum_list (map ox_rows bs) \<and>
     SnapshotManifestDigest slib (map entry_of_item bs) = Inr (n_BatchManifestSHA256 env))"

definition content :: "snapshot_envelope list \<Rightarrow> snapshot_row list" where
  "content envs = concat (map n_Rows envs)"

lemma links_append: "links lo (xs @ [y]) \<longleftrightarrow> links lo xs \<and> ox_lower y = (if xs = [] then lo else ox_upper (last xs))"
  by (induction xs arbitrary: lo) auto

lemma chained_Nil [simp]: "chained []" "progress g [] \<longleftrightarrow> gn_next g = 0 \<and> gn_rows g = 0 \<and> gn_key g = ''''"
  by (auto simp: chained_def in_progress_def progress_def last_upper_def)

lemma chained_append:
  assumes "chained bs" "list_all ox_published bs" "ox_index o1 = int (length bs)" "int (length bs) < 2 ^ 63"
    and "ox_lower o1 = last_upper bs" "\<not> ox_published o1"
  shows "chained (bs @ [o1])"
proof -
  have "in_progress (bs @ [o1])" unfolding in_progress_def
    using assms(2,6) by (intro exI [of _ bs] exI [of _ "[o1]"]) simp
  then show ?thesis using assms by (auto simp: chained_def links_append last_upper_def)
qed

lemma progress_append: "progress g bs \<Longrightarrow> \<not> ox_published o1 \<Longrightarrow> progress g (bs @ [o1])"
  by (simp add: progress_def)

text \<open>Only the last batch can be unpublished.\<close>

lemma chained_pending:
  assumes "chained bs" "o1 \<in> set bs" "\<not> ox_published o1"
  obtains d where "bs = d @ [o1]" "list_all ox_published d" "ox_index o1 = int (length d)"
proof -
  obtain d p where b: "bs = d @ p" "list_all ox_published d" "list_all (\<lambda>o1. \<not> ox_published o1) p" "length p \<le> 1"
    using assms(1) unfolding chained_def in_progress_def by blast
  with assms(2,3) have "p = [o1]" by (cases p) (auto simp: list_all_iff)
  moreover have "map ox_index bs = map int [0..<length bs]" using assms(1) unfolding chained_def by blast
  ultimately show thesis using b by (intro that [of d]) simp_all
qed

lemma chained_mark:
  assumes "chained (d @ [o1])" "list_all ox_published d"
  shows "chained (d @ [o1\<lparr>ox_published := True\<rparr>])"
proof -
  have "in_progress (d @ [o1\<lparr>ox_published := True\<rparr>])" unfolding in_progress_def
    using assms(2) by (intro exI [of _ "d @ [o1\<lparr>ox_published := True\<rparr>]"] exI [of _ "[]"]) simp
  then show ?thesis using assms(1) by (simp add: chained_def links_append)
qed

lemma progress_mark:
  assumes "progress g (d @ [o1])" "list_all ox_published d" "\<not> ox_published o1"
  shows "gn_next g = int (length d)"
    "progress (advance_generation o1 (int (length d)) g) (d @ [o1\<lparr>ox_published := True\<rparr>])"
proof -
  have "filter ox_published d = d" using assms(2) by (simp add: list_all_iff filter_id_conv)
  then show "gn_next g = int (length d)"
    "progress (advance_generation o1 (int (length d)) g) (d @ [o1\<lparr>ox_published := True\<rparr>])"
    using assms(1,3) by (simp_all add: progress_def advance_generation_def last_upper_def)
qed

lemma all_published: "list_all ox_published bs \<Longrightarrow> filter ox_published bs = bs"
  by (simp add: list_all_iff filter_id_conv)

lemma item_of_row:
  "gn_generation h = gn_generation g \<Longrightarrow> gn_seq h = gn_seq g \<Longrightarrow> gn_binding h = gn_binding g \<Longrightarrow> gn_source h = gn_source g \<Longrightarrow>
     item_of slib jl h = item_of slib jl g"
  "item_of slib jl g env (o1\<lparr>ox_published := b\<rparr>) = item_of slib jl g env o1"
  by (simp_all add: item_of_def fun_eq_iff)

lemma items_sizes:
  assumes "list_all2 (item_of slib jl g) envs bs"
  shows "length envs = length bs" "int (length (content envs)) = sum_list (map ox_rows bs)"
    "(if content envs = [] then '''' else w_Key (last (content envs))) = last_upper bs"
proof -
  show "length envs = length bs" by (rule list_all2_lengthD [OF assms])
  show "int (length (content envs)) = sum_list (map ox_rows bs)"
    using assms by (induction rule: list_all2_induct) (auto simp: content_def item_of_def)
  show "(if content envs = [] then '''' else w_Key (last (content envs))) = last_upper bs"
    using assms
  proof (induction bs arbitrary: envs rule: rev_induct)
    case (snoc b bs)
    then obtain es e where e: "envs = es @ [e]" "item_of slib jl g e b"
      by (auto simp: list_all2_append2 list_all2_Cons2)
    then have "Validate slib e = None" "n_Kind e = SnapshotKindBatch"
      by (auto simp: item_of_def MarshalSnapshotEnvelope_def split: option.splits)
    then have "n_Rows e \<noteq> []" by (rule validate_batch(2))
    with e show ?case by (simp add: content_def last_upper_def item_of_def)
  qed (simp add: content_def last_upper_def)
qed

end
