(* ===== verification/Holding.thy ===== *)
theory Holding
  imports Outbox
begin

text \<open>
  The invariant of the control tables and the stream during snapshot capture, and what a worker may
  rely on while its run is running: its generations stay with it and their outbox changes only by
  publications. Operations that neither write the outbox nor seal keep both; so does a claim.
\<close>

section \<open>What the tables and the stream promise\<close>

text \<open>A payload is on the stream as it is, or as the text of the envelope it decodes to.\<close>

definition carried :: "wire_lib \<Rightarrow> string \<Rightarrow> broker \<Rightarrow> bool" where
  "carried wl payload k \<longleftrightarrow> list_ex (\<lambda>p. pb_body p = payload \<or>
     (case ParseSnapshotEnvelope (wl_snap wl) (wl_json wl) payload of
        Inl _ \<Rightarrow> False
      | Inr env \<Rightarrow> MarshalSnapshotEnvelope (wl_snap wl) (wl_json wl) env = Inr (pb_body p))) (k_stream k)"

text \<open>\<open>cov\<close> and \<open>whole\<close> say which rows are a beginning of a source and which are all of it.\<close>

definition gen_ok ::
  "(source_key \<Rightarrow> snapshot_row list \<Rightarrow> bool) \<Rightarrow> (source_key \<Rightarrow> snapshot_row list \<Rightarrow> bool) \<Rightarrow> wire_lib \<Rightarrow>
     control_db \<Rightarrow> generation_row \<Rightarrow> bool" where
  "gen_ok cov whole wl J g \<longleftrightarrow>
     (let bs = batches J (gn_generation g); cs = completions J (gn_generation g)
      in chained bs \<and> progress g bs \<and>
         (\<exists>envs. list_all2 (item_of (wl_snap wl) (wl_json wl) g) envs bs \<and> cov (gn_source g) (content envs) \<and>
            (gn_state g = Sealed \<longrightarrow> whole (gn_source g) (content envs))) \<and>
         (if gn_state g = Sealed
          then list_all ox_published bs \<and> (\<exists>c. cs = [c] \<and> completes (wl_snap wl) (wl_json wl) g bs c)
          else cs = []))"

definition rows_home :: "control_db \<Rightarrow> bool" where
  "rows_home J \<longleftrightarrow> distinct (map ox_id (d_outbox J)) \<and>
     (\<forall>o1 \<in> set (d_outbox J). ox_generation o1 \<in> gn_generation ` set (d_generations J))"

definition gens_run :: "control_db \<Rightarrow> bool" where
  "gens_run J \<longleftrightarrow> (\<forall>g \<in> set (d_generations J). \<exists>r \<in> set (d_runs J). rn_id r = gn_run g \<and> rn_sync r = gn_sync g)"

definition good ::
  "(source_key \<Rightarrow> snapshot_row list \<Rightarrow> bool) \<Rightarrow> (source_key \<Rightarrow> snapshot_row list \<Rightarrow> bool) \<Rightarrow> wire_lib \<Rightarrow> engine_world \<Rightarrow> bool" where
  "good cov whole wl s \<longleftrightarrow> runs_wf (fst s) \<and> gens_wf (fst s) \<and> rows_home (fst s) \<and> gens_run (fst s) \<and>
     (\<forall>g \<in> set (d_generations (fst s)). gen_ok cov whole wl (fst s) g) \<and>
     (\<forall>o1 \<in> set (d_outbox (fst s)). ox_published o1 \<longrightarrow> carried wl (ox_payload o1) (snd s))"

section \<open>What a worker relies on\<close>

definition running :: "string \<Rightarrow> control_db \<Rightarrow> bool" where
  "running w J \<longleftrightarrow> (\<exists>r \<in> set (d_runs J). rn_id r = w \<and> rn_status r = Running)"

definition named :: "string \<Rightarrow> engine_world \<Rightarrow> bool" where
  "named w s \<longleftrightarrow> (\<exists>r \<in> set (d_runs (fst s)). rn_id r = w \<and> 1 \<le> rn_lease_epoch r)"

definition flag_le :: "outbox_row \<Rightarrow> outbox_row \<Rightarrow> bool" where
  "flag_le o1 o2 \<longleftrightarrow> o2 = o1 \<or> o2 = o1\<lparr>ox_published := True\<rparr>"

definition rows_of :: "control_db \<Rightarrow> string \<Rightarrow> outbox_row list" where
  "rows_of J generation = filter (\<lambda>o1. ox_generation o1 = generation) (d_outbox J)"

definition held :: "string \<Rightarrow> control_db \<Rightarrow> control_db \<Rightarrow> bool" where
  "held w J J' \<longleftrightarrow> (\<forall>g \<in> set (d_generations J). gn_run g = w \<longrightarrow>
     (\<exists>g' \<in> set (d_generations J'). gn_generation g' = gn_generation g \<and>
        (gn_run g', gn_owner g', gn_lease g') = (gn_run g, gn_owner g, gn_lease g) \<and>
        (gn_state g' = Sealed \<longrightarrow> gn_state g = Sealed) \<and>
        list_all2 flag_le (rows_of J (gn_generation g)) (rows_of J' (gn_generation g))))"

definition outbox_grows :: "control_db \<Rightarrow> control_db \<Rightarrow> bool" where
  "outbox_grows J J' \<longleftrightarrow> (\<exists>xs new. d_outbox J' = xs @ new \<and> list_all2 flag_le (d_outbox J) xs)"

definition gens_grow :: "control_db \<Rightarrow> control_db \<Rightarrow> bool" where
  "gens_grow J J' \<longleftrightarrow> (\<forall>g \<in> set (d_generations J). \<exists>g' \<in> set (d_generations J'). gen_moves g g')"

text \<open>Nothing is forgotten; and while the run of \<open>w\<close> is running it stays so, and the generations it
  holds stay with it, are not sealed, and their outbox changes only by publications.\<close>

definition rely :: "string \<Rightarrow> engine_world \<Rightarrow> engine_world \<Rightarrow> bool" where
  "rely w s s' \<longleftrightarrow> (\<exists>new. k_stream (snd s') = k_stream (snd s) @ new) \<and> gens_grow (fst s) (fst s') \<and>
     outbox_grows (fst s) (fst s') \<and> (named w s \<longrightarrow> named w s') \<and>
     (running w (fst s) \<longrightarrow> running w (fst s') \<and> held w (fst s) (fst s'))"

lemma flag_le_refl [simp]: "flag_le o1 o1"
  by (simp add: flag_le_def)

lemma flag_le_trans: "flag_le a b \<Longrightarrow> flag_le b c \<Longrightarrow> flag_le a c"
  by (auto simp: flag_le_def)

lemma flag_le_fields: "flag_le a b \<Longrightarrow> ox_id b = ox_id a \<and> ox_generation b = ox_generation a \<and> ox_kind b = ox_kind a \<and>
    ox_payload b = ox_payload a \<and> ox_index b = ox_index a \<and> (ox_published a \<longrightarrow> b = a)"
  by (auto simp: flag_le_def)

lemma flags_refl [simp]: "list_all2 flag_le os os"
  by (simp add: list_all2_refl)

lemma flags_trans: "list_all2 flag_le as bs \<Longrightarrow> list_all2 flag_le bs cs \<Longrightarrow> list_all2 flag_le as cs"
  using flag_le_trans by (rule list_all2_trans)

lemma outbox_grows_refl [simp]: "d_outbox J' = d_outbox J \<Longrightarrow> outbox_grows J J'"
  unfolding outbox_grows_def by (intro exI [of _ "d_outbox J"] exI [of _ "[]"]) simp

lemma outbox_grows_trans: "outbox_grows J J' \<Longrightarrow> outbox_grows J' J'' \<Longrightarrow> outbox_grows J J''"
proof -
  assume "outbox_grows J J'" "outbox_grows J' J''"
  then obtain xs new ys new' where a: "d_outbox J' = xs @ new" "list_all2 flag_le (d_outbox J) xs"
    "d_outbox J'' = ys @ new'" "list_all2 flag_le (xs @ new) ys" unfolding outbox_grows_def by auto
  then obtain us vs where u: "ys = us @ vs" "list_all2 flag_le xs us" by (auto simp: list_all2_append1)
  have "d_outbox J'' = us @ (vs @ new')" by (simp add: a(3) u(1))
  moreover have "list_all2 flag_le (d_outbox J) us" by (rule flags_trans [OF a(2) u(2)])
  ultimately show ?thesis unfolding outbox_grows_def by blast
qed

lemma gens_grow_trans: "gens_grow J J' \<Longrightarrow> gens_grow J' J'' \<Longrightarrow> gens_grow J J''"
  unfolding gens_grow_def using gen_moves_trans by meson

lemma gens_grow_refl [simp]: "d_generations J' = d_generations J \<Longrightarrow> gens_grow J J'"
  unfolding gens_grow_def using gen_moves_refl by metis

lemma held_refl [simp]: "held w J J"
  unfolding held_def by auto

lemma held_trans: "held w J J' \<Longrightarrow> held w J' J'' \<Longrightarrow> held w J J''"
  unfolding held_def
proof (intro ballI impI)
  fix g assume h: "\<forall>g\<in>set (d_generations J). gn_run g = w \<longrightarrow> (\<exists>g'\<in>set (d_generations J').
      gn_generation g' = gn_generation g \<and> (gn_run g', gn_owner g', gn_lease g') = (gn_run g, gn_owner g, gn_lease g) \<and>
      (gn_state g' = Sealed \<longrightarrow> gn_state g = Sealed) \<and> list_all2 flag_le (rows_of J (gn_generation g)) (rows_of J' (gn_generation g)))"
    "\<forall>g\<in>set (d_generations J'). gn_run g = w \<longrightarrow> (\<exists>g'\<in>set (d_generations J'').
      gn_generation g' = gn_generation g \<and> (gn_run g', gn_owner g', gn_lease g') = (gn_run g, gn_owner g, gn_lease g) \<and>
      (gn_state g' = Sealed \<longrightarrow> gn_state g = Sealed) \<and> list_all2 flag_le (rows_of J' (gn_generation g)) (rows_of J'' (gn_generation g)))"
    and g: "g \<in> set (d_generations J)" "gn_run g = w"
  from h(1) g obtain g1 where g1: "g1 \<in> set (d_generations J')" "gn_generation g1 = gn_generation g"
    "gn_run g1 = gn_run g" "gn_owner g1 = gn_owner g" "gn_lease g1 = gn_lease g" "gn_state g1 = Sealed \<longrightarrow> gn_state g = Sealed"
    "list_all2 flag_le (rows_of J (gn_generation g)) (rows_of J' (gn_generation g))" by auto
  with h(2) g(2) obtain g2 where g2: "g2 \<in> set (d_generations J'')" "gn_generation g2 = gn_generation g1"
    "gn_run g2 = gn_run g1" "gn_owner g2 = gn_owner g1" "gn_lease g2 = gn_lease g1" "gn_state g2 = Sealed \<longrightarrow> gn_state g1 = Sealed"
    "list_all2 flag_le (rows_of J' (gn_generation g1)) (rows_of J'' (gn_generation g1))" by auto
  have "list_all2 flag_le (rows_of J (gn_generation g)) (rows_of J'' (gn_generation g))"
    using flags_trans [OF g1(7)] g2(7) g1(2) by simp
  with g1 g2 show "\<exists>g'\<in>set (d_generations J''). gn_generation g' = gn_generation g \<and>
      (gn_run g', gn_owner g', gn_lease g') = (gn_run g, gn_owner g, gn_lease g) \<and>
      (gn_state g' = Sealed \<longrightarrow> gn_state g = Sealed) \<and> list_all2 flag_le (rows_of J (gn_generation g)) (rows_of J'' (gn_generation g))"
    by (intro bexI [of _ g2]) auto
qed

lemma rely_refl [simp]: "rely w s s"
  unfolding rely_def by simp

lemma rely_trans: "rely w s s' \<Longrightarrow> rely w s' s'' \<Longrightarrow> rely w s s''"
  unfolding rely_def
proof (elim conjE exE, intro conjI)
  fix new new' assume "k_stream (snd s') = k_stream (snd s) @ new" "k_stream (snd s'') = k_stream (snd s') @ new'"
  then show "\<exists>new. k_stream (snd s'') = k_stream (snd s) @ new" by simp
qed (blast intro: gens_grow_trans outbox_grows_trans held_trans)+

lemma rely_named: "rely w s s' \<Longrightarrow> named w s \<Longrightarrow> named w s'"
  by (simp add: rely_def)

lemma named_move: "runs_move (fst s) (fst s') \<Longrightarrow> named w s \<Longrightarrow> named w s'"
proof -
  assume m: "runs_move (fst s) (fst s')" and "named w s"
  then obtain r where r: "r \<in> set (d_runs (fst s))" "rn_id r = w" "1 \<le> rn_lease_epoch r" by (auto simp: named_def)
  obtain r' where r': "r' \<in> set (d_runs (fst s'))" "run_moves r r'" by (rule runs_move_row [OF m r(1)])
  then have "rn_id r' = w" "1 \<le> rn_lease_epoch r'" using r by (auto simp: run_moves_def run_ident_def split: if_splits)
  with r'(1) show ?thesis by (auto simp: named_def)
qed
section \<open>Operations that leave the journal alone\<close>

definition calm :: "generation_row \<Rightarrow> generation_row \<Rightarrow> bool" where
  "calm g g' \<longleftrightarrow> gen_moves g g' \<and> (gn_next g', gn_rows g', gn_key g') = (gn_next g, gn_rows g, gn_key g) \<and>
     (gn_state g' = Sealed \<longrightarrow> gn_state g = Sealed)"

definition keeps_holder :: "generation_row \<Rightarrow> generation_row \<Rightarrow> bool" where
  "keeps_holder g g' \<longleftrightarrow> (gn_run g', gn_owner g', gn_lease g') = (gn_run g, gn_owner g, gn_lease g)"

lemma calm_refl [simp]: "calm g g" "keeps_holder g g"
  by (simp_all add: calm_def keeps_holder_def)

lemma calm_state: "calm g g' \<Longrightarrow> gn_state g' = Sealed \<longleftrightarrow> gn_state g = Sealed"
proof -
  assume c: "calm g g'"
  then have "\<not> resumable g \<Longrightarrow> gn_state g' = gn_state g" using gen_moves_terminal unfolding calm_def by blast
  moreover have "gn_state g = Sealed \<Longrightarrow> \<not> resumable g" by (simp add: resumable_def)
  ultimately show ?thesis using c unfolding calm_def by metis
qed

lemma gen_ok_calm:
  assumes "gen_ok cov whole wl J g" "calm g g'" "d_outbox J' = d_outbox J"
  shows "gen_ok cov whole wl J' g'"
proof -
  have c: "gn_source g' = gn_source g" "gn_generation g' = gn_generation g" "gn_seq g' = gn_seq g" "gn_binding g' = gn_binding g"
    "gn_next g' = gn_next g" "gn_rows g' = gn_rows g" "gn_key g' = gn_key g"
    using assms(2) by (simp_all add: calm_def gen_moves_def)
  have o: "batches J' = batches J" "completions J' = completions J"
    by (simp_all add: fun_eq_iff batches_def completions_def assms(3))
  have p: "progress g' bs = progress g bs" "completes (wl_snap wl) (wl_json wl) g' bs c1 = completes (wl_snap wl) (wl_json wl) g bs c1" for bs c1
    by (simp_all add: progress_def completes_def c)
  show ?thesis using assms(1) unfolding gen_ok_def Let_def o p c(1,2) calm_state [OF assms(2)] item_of_row(1) [OF c(2,3,4,1)] .
qed

lemma gen_ok_same:
  "batches J' (gn_generation g) = batches J (gn_generation g) \<Longrightarrow>
     completions J' (gn_generation g) = completions J (gn_generation g) \<Longrightarrow> gen_ok cov whole wl J' g = gen_ok cov whole wl J g"
  by (simp add: gen_ok_def)

definition quiet_step :: "control_db \<Rightarrow> control_db \<Rightarrow> bool" where
  "quiet_step J J' \<longleftrightarrow> d_outbox J' = d_outbox J \<and> runs_move J J' \<and> gens_move J J' \<and>
     (\<exists>f. d_generations J' = map f (d_generations J) \<and> (\<forall>g. calm g (f g) \<and> keeps_holder g (f g)))"

lemma carried_more: "carried wl p k \<Longrightarrow> k_stream k' = k_stream k @ new \<Longrightarrow> carried wl p k'"
  by (auto simp: carried_def)

lemma gens_run_move:
  assumes "runs_move J J'" "gens_run J"
    and "\<And>g'. g' \<in> set (d_generations J') \<Longrightarrow> \<exists>g \<in> set (d_generations J). gn_run g' = gn_run g \<and> gn_sync g' = gn_sync g"
  shows "gens_run J'"
  unfolding gens_run_def
proof
  fix g' assume "g' \<in> set (d_generations J')"
  then obtain g where g: "g \<in> set (d_generations J)" "gn_run g' = gn_run g" "gn_sync g' = gn_sync g" using assms(3) by blast
  then obtain r where r: "r \<in> set (d_runs J)" "rn_id r = gn_run g" "rn_sync r = gn_sync g" using assms(2) unfolding gens_run_def by blast
  obtain r' where "r' \<in> set (d_runs J')" "run_moves r r'" by (rule runs_move_row [OF assms(1) r(1)])
  with r g show "\<exists>r\<in>set (d_runs J'). rn_id r = gn_run g' \<and> rn_sync r = gn_sync g'"
    using run_moves_ident by metis
qed

lemma moved_good:
  assumes "good cov whole wl (J, k)" "d_generations J' = map f (d_generations J) @ new" "\<And>g. calm g (f g)"
    and "d_outbox J' = d_outbox J" "runs_move J J'" "gens_move J J'" "gens_run J'"
    and "\<And>n. n \<in> set new \<Longrightarrow> gen_ok cov whole wl J' n" "k_stream k' = k_stream k @ ms"
  shows "good cov whole wl (J', k')"
proof -
  have id: "gn_generation (f g) = gn_generation g" for g
    using assms(3) [of g] by (simp add: calm_def gen_moves_def)
  have "gn_generation ` set (d_generations J) = gn_generation ` f ` set (d_generations J)" by (simp add: image_image id)
  also have "\<dots> \<subseteq> gn_generation ` set (d_generations J')" by (auto simp: assms(2))
  finally have "gn_generation ` set (d_generations J) \<subseteq> gn_generation ` set (d_generations J')" .
  then have "rows_home J'" using assms(1) by (auto simp: good_def rows_home_def assms(4))
  moreover have "gen_ok cov whole wl J' g'" if "g' \<in> set (d_generations J')" for g'
    using that assms(1,8) gen_ok_calm [OF _ assms(3,4)] by (auto simp: good_def assms(2))
  ultimately show ?thesis
    using assms(1,7) runs_wf_move [OF assms(5)] gens_wf_move [OF assms(6)] carried_more [OF _ assms(9)]
    by (auto simp: good_def assms(4))
qed

lemma moved_rely:
  assumes "d_generations J' = map f (d_generations J) @ new" "\<And>g. calm g (f g)"
    and "\<And>g. running w J \<Longrightarrow> g \<in> set (d_generations J) \<Longrightarrow> gn_run g = w \<Longrightarrow> keeps_holder g (f g)"
    and "d_outbox J' = d_outbox J" "runs_move J J'" "k_stream k' = k_stream k @ ms" "running w J \<Longrightarrow> running w J'"
  shows "rely w (J, k) (J', k')"
proof -
  have "gens_grow J J'" unfolding gens_grow_def using assms(1,2) by (auto simp: calm_def)
  moreover have "held w J J'" if "running w J" unfolding held_def
  proof (intro ballI impI)
    fix g assume "g \<in> set (d_generations J)" "gn_run g = w"
    then show "\<exists>g'\<in>set (d_generations J'). gn_generation g' = gn_generation g \<and>
        (gn_run g', gn_owner g', gn_lease g') = (gn_run g, gn_owner g, gn_lease g) \<and>
        (gn_state g' = Sealed \<longrightarrow> gn_state g = Sealed) \<and> list_all2 flag_le (rows_of J (gn_generation g)) (rows_of J' (gn_generation g))"
      using assms(2) [of g] assms(3) [OF that, of g] unfolding assms(1)
      by (intro bexI [of _ "f g"]) (auto simp: calm_def gen_moves_def keeps_holder_def rows_of_def assms(4))
  qed
  ultimately show ?thesis
    using assms(6,7) named_move [of "(J, k)" "(J', k')"] assms(4,5) by (simp add: rely_def)
qed

lemma quiet_good:
  assumes "quiet_step J J'" "good cov whole wl (J, k)" "k_stream k' = k_stream k @ new"
  shows "good cov whole wl (J', k')"
proof -
  obtain f where f: "d_generations J' = map f (d_generations J) @ []" "\<And>g. calm g (f g)" "\<And>g. keeps_holder g (f g)"
    and q: "d_outbox J' = d_outbox J" "runs_move J J'" "gens_move J J'" using assms(1) unfolding quiet_step_def by auto
  have "gens_run J'"
    using assms(2) f(2,3) unfolding good_def
    by (intro gens_run_move [OF q(2)]) (auto simp: f(1) calm_def gen_moves_def keeps_holder_def)
  then show ?thesis by (intro moved_good [OF assms(2) f(1,2) q _ _ assms(3)]) auto
qed

lemma quiet_rely:
  assumes "quiet_step J J'" "k_stream k' = k_stream k @ new" "running w J \<Longrightarrow> running w J'"
  shows "rely w (J, k) (J', k')"
proof -
  obtain f where f: "d_generations J' = map f (d_generations J) @ []" "\<And>g. calm g (f g)" "\<And>g. keeps_holder g (f g)"
    and q: "d_outbox J' = d_outbox J" "runs_move J J'" using assms(1) unfolding quiet_step_def by auto
  show ?thesis by (rule moved_rely [OF f(1,2,3) q assms(2,3)])
qed

text \<open>The operations of the control plane a capture does not make itself, and its own yields, failures
  and cancellations.\<close>

fun quiet_op :: "control_op \<Rightarrow> bool" where
  "quiet_op (OpClaimGen job run owner epoch uuid now) = False"
| "quiet_op (OpPrepare g env lower upper uuid now) = False"
| "quiet_op (OpSeal g env rows uuid now) = False"
| "quiet_op (OpMark g item) = False"
| "quiet_op (OpRetire generation store now) = False"
| "quiet_op op = True"

lemma calm_update:
  "d_generations J' = d_generations J \<or> d_generations J' = update_where P h (d_generations J) \<Longrightarrow>
     (\<And>g. P g \<Longrightarrow> calm g (h g) \<and> keeps_holder g (h g)) \<Longrightarrow>
     \<exists>f. d_generations J' = map f (d_generations J) \<and> (\<forall>g. calm g (f g) \<and> keeps_holder g (f g))"
proof (elim disjE)
  assume "d_generations J' = d_generations J"
  then show ?thesis by (intro exI [of _ "\<lambda>g. g"]) simp
next
  assume "d_generations J' = update_where P h (d_generations J)" "\<And>g. P g \<Longrightarrow> calm g (h g) \<and> keeps_holder g (h g)"
  then show ?thesis by (intro exI [of _ "\<lambda>g. if P g then h g else g"]) (simp add: update_where_def)
qed

lemma calm_ends:
  "resumable g \<Longrightarrow> calm g (cancel_generation now g) \<and> keeps_holder g (cancel_generation now g)"
  "resumable g \<Longrightarrow> calm g (g\<lparr>gn_state := GenFailed, gn_terminal_at := Some now\<rparr>) \<and>
     keeps_holder g (g\<lparr>gn_state := GenFailed, gn_terminal_at := Some now\<rparr>)"
  "gn_state g = Capturing \<Longrightarrow> calm g (g\<lparr>gn_state := Yielded\<rparr>) \<and> keeps_holder g (g\<lparr>gn_state := Yielded\<rparr>)"
  by (auto simp: calm_def keeps_holder_def gen_moves_def cancel_generation_def resumable_def)

lemma quiet_gens:
  assumes "quiet_op op"
  shows "\<exists>f. d_generations (control_exec slib jl op J) = map f (d_generations J) \<and> (\<forall>g. calm g (f g) \<and> keeps_holder g (f g))"
proof (cases op)
  case (OpFinish run sync owner res cancelled now)
  then show ?thesis
    by (intro calm_update [of _ _ "\<lambda>g. gn_run g = run \<and> gn_owner g = owner \<and> resumable g" "cancel_generation now"])
       (auto simp: kept_state_def FinishConnectorRun_def Let_def calm_ends(1) split: prod.splits if_splits option.splits sum.splits)
next
  case (OpCancel project run now)
  then show ?thesis
    by (intro calm_update [of _ _ "\<lambda>g. gn_run g = run \<and> resumable g" "cancel_generation now"])
       (auto simp: kept_def CancelConnectorRun_def Let_def calm_ends(1) split: option.splits)
next
  case (OpYield g now)
  then show ?thesis
    by (intro calm_update [of _ _ "\<lambda>h. held_by g h \<and> gn_state h = Capturing" "\<lambda>h. h\<lparr>gn_state := Yielded\<rparr>"])
       (auto simp: kept_state_def YieldSnapshotGeneration_def Let_def calm_ends(3) split: sum.splits if_splits)
next
  case (OpFail g now)
  then show ?thesis
    by (intro calm_update [of _ _ "\<lambda>h. held_by g h \<and> resumable h"
          "\<lambda>h. h\<lparr>gn_state := GenFailed, gn_terminal_at := Some now\<rparr>"])
       (auto simp: kept_state_def FailSnapshotGeneration_def Let_def calm_ends(2) split: sum.splits if_splits)
next
  case (OpCancelGen run owner epoch now)
  then show ?thesis
    by (intro calm_update [of _ _ "\<lambda>h. gn_run h = run \<and> gn_owner h = owner \<and> gn_lease h = epoch \<and> resumable h"
          "cancel_generation now"]) (auto simp: CancelSnapshotGeneration_def calm_ends(1))
next
  case (OpEnqueue project sync key uuid now)
  then show ?thesis
    by (intro exI [of _ "\<lambda>g. g"])
       (auto simp: kept_def EnqueueConnectorRun_def admit_run_def bind_key_def insert_run_def Let_def
        split: sum.splits option.splits if_splits)
qed (use assms in \<open>auto intro!: exI [of _ "\<lambda>g. g"] simp: kept_def kept_state_def setConnectorSyncEnabled_def unarchiveDataConnector_def
     archiveDataConnector_def ClaimConnectorRun_def HeartbeatConnectorRun_def ReconcileConnectorRuns_def
     Let_def split: sum.splits if_splits option.splits\<close>)

lemma quiet_outbox:
  assumes "quiet_op op"
  shows "d_outbox (control_exec slib jl op J) = d_outbox J"
  using assms
  by (cases op) (auto simp: kept_def kept_state_def FinishConnectorRun_def CancelConnectorRun_def YieldSnapshotGeneration_def
     FailSnapshotGeneration_def CancelSnapshotGeneration_def EnqueueConnectorRun_def admit_run_def bind_key_def insert_run_def
     setConnectorSyncEnabled_def unarchiveDataConnector_def archiveDataConnector_def ClaimConnectorRun_def
     HeartbeatConnectorRun_def ReconcileConnectorRuns_def Let_def split: prod.splits sum.splits if_splits option.splits)

lemma quiet_exec: "quiet_op op \<Longrightarrow> quiet_step J (control_exec slib jl op J)"
proof -
  assume q: "quiet_op op"
  then have "admissible op J" by (cases op) simp_all
  then show ?thesis unfolding quiet_step_def
    using quiet_gens [OF q] quiet_outbox [OF q] exec_runs_move exec_gens_move by blast
qed

section \<open>Which operations leave a run running\<close>

definition ends_run :: "string \<Rightarrow> control_op \<Rightarrow> control_db \<Rightarrow> bool" where
  "ends_run w op J \<longleftrightarrow> (case op of
      OpFinish run sync owner res cancelled now \<Rightarrow> run = w
    | OpReconcile before now \<Rightarrow> list_ex (\<lambda>r. rn_id r = w \<and> rn_status r = Running \<and> stale_run before r) (d_runs J)
    | OpSeal g env rows uuid now \<Rightarrow> gn_run g = w
    | _ \<Rightarrow> False)"

lemma running_update:
  assumes "d_runs J' = d_runs J \<or> d_runs J' = update_where P f (d_runs J)"
    "\<And>r. P r \<Longrightarrow> rn_id r = w \<Longrightarrow> r \<in> set (d_runs J) \<Longrightarrow> rn_status r = Running \<Longrightarrow> rn_id (f r) = w \<and> rn_status (f r) = Running"
    "running w J"
  shows "running w J'"
proof -
  from assms(3) obtain r where r: "r \<in> set (d_runs J)" "rn_id r = w" "rn_status r = Running" unfolding running_def by blast
  from assms(1) show ?thesis
  proof
    assume "d_runs J' = d_runs J"
    with r show ?thesis unfolding running_def by auto
  next
    assume u: "d_runs J' = update_where P f (d_runs J)"
    have "(if P r then f r else r) \<in> set (d_runs J')" unfolding u by (rule row_updated [OF r(1)])
    moreover have "rn_id (if P r then f r else r) = w \<and> rn_status (if P r then f r else r) = Running"
      using assms(2) [OF _ r(2,1,3)] r by auto
    ultimately show ?thesis unfolding running_def by blast
  qed
qed

lemma running_exec:
  assumes "running w J" "\<not> ends_run w op J"
  shows "running w (control_exec slib jl op J)"
proof (cases op)
  case (OpEnqueue project sync key uuid now)
  have "set (d_runs J) \<subseteq> set (d_runs (control_exec slib jl op J))"
    unfolding OpEnqueue by (auto simp: kept_def EnqueueConnectorRun_def admit_run_def bind_key_def insert_run_def Let_def
        split: sum.splits option.splits if_splits)
  then show ?thesis using assms(1) unfolding running_def by blast
next
  case (OpFinish run sync owner res cancelled now)
  then have "run \<noteq> w" using assms(2) by (simp add: ends_run_def)
  obtain st err where st: "finish_status cancelled res = (st, err)" by fastforce
  have "d_runs (control_exec slib jl op J) = d_runs J \<or> d_runs (control_exec slib jl op J) =
      update_where (\<lambda>r. rn_id r = run \<and> rn_status r = Running \<and> rn_owner r = owner) (finish_row st err res now) (d_runs J)"
    unfolding OpFinish by (auto simp: kept_state_def FinishConnectorRun_def st Let_def split: if_splits option.splits sum.splits)
  then show ?thesis by (rule running_update [OF _ _ assms(1)]) (use \<open>run \<noteq> w\<close> in simp)
next
  case (OpReconcile before now)
  have u: "d_runs (control_exec slib jl op J) = d_runs J \<or> d_runs (control_exec slib jl op J) = update_where (stale_run before)
      (\<lambda>r. r\<lparr>rn_status := Failed, rn_error := ''process restarted before the run finished'', rn_finished_at := Some now\<rparr>) (d_runs J)"
    unfolding OpReconcile by (simp add: ReconcileConnectorRuns_def)
  have "\<not> stale_run before r" if "r \<in> set (d_runs J)" "rn_id r = w" "rn_status r = Running" for r
    using assms(2) that unfolding OpReconcile by (auto simp: ends_run_def list_ex_iff)
  then show ?thesis by (intro running_update [OF u _ assms(1)]) blast
next
  case (OpCancel project run now)
  have "d_runs (control_exec slib jl op J) = d_runs J \<or> d_runs (control_exec slib jl op J) =
      update_where (\<lambda>r. rn_id r = run \<and> rn_project r = project \<and> active_run r \<and>
          \<not> list_ex (\<lambda>g. gn_run g = rn_id r \<and> gn_state g = Sealed) (d_generations J)) (cancel_row now) (d_runs J)"
    unfolding OpCancel by (auto simp: kept_def CancelConnectorRun_def Let_def split: option.splits)
  then show ?thesis by (rule running_update [OF _ _ assms(1)]) (simp add: cancel_row_def)
next
  case (OpArchive project conn revision now)
  have "d_runs (control_exec slib jl op J) = d_runs J \<or> d_runs (control_exec slib jl op J) =
      update_where (\<lambda>r. rn_connector r = conn \<and> rn_project r = project \<and> active_run r) (cancel_row now) (d_runs J)"
    unfolding OpArchive by (auto simp: kept_def archiveDataConnector_def Let_def split: option.splits)
  then show ?thesis by (rule running_update [OF _ _ assms(1)]) (simp add: cancel_row_def)
next
  case (OpHeartbeat run now)
  have "d_runs (control_exec slib jl op J) = d_runs J \<or> d_runs (control_exec slib jl op J) =
      update_where (\<lambda>r. rn_id r = run \<and> rn_status r = Running) (\<lambda>r. r\<lparr>rn_heartbeat_at := Some now\<rparr>) (d_runs J)"
    unfolding OpHeartbeat by (auto simp: HeartbeatConnectorRun_def Let_def split: option.splits)
  then show ?thesis by (rule running_update [OF _ _ assms(1)]) simp
next
  case (OpSeal g env rows uuid now)
  then have "gn_run g \<noteq> w" using assms(2) by (simp add: ends_run_def)
  have "d_runs (control_exec slib jl op J) = d_runs J \<or> d_runs (control_exec slib jl op J) =
      update_where (\<lambda>r. rn_id r = gn_run g \<and> rn_status r = Running \<and> rn_owner r = gn_owner g \<and>
        rn_lease_epoch r = gn_lease g \<and> \<not> rn_cancel_requested r) (succeed_row rows now) (d_runs J)"
    unfolding OpSeal by (auto simp: kept_def SealSnapshotGeneration_def Let_def dest: insert_outbox_tables
      split: if_splits sum.splits)
  then show ?thesis by (rule running_update [OF _ _ assms(1)]) (use \<open>gn_run g \<noteq> w\<close> in simp)
next
  case (OpClaimRun run owner now)
  then show ?thesis using assms(1) unfolding running_def
    by (auto simp: ClaimConnectorRun_def Let_def set_update_where split: option.splits)
next
  case (OpClaimGen job run owner epoch uuid now)
  then have "d_runs (control_exec slib jl op J) = d_runs J"
    by (cases "ClaimSnapshotGeneration job run owner epoch uuid now J") (auto simp: kept_def dest: claim_runs)
  with assms(1) show ?thesis by (simp add: running_def)
next
  case (OpPrepare g env lower upper uuid now)
  then have "d_runs (control_exec slib jl op J) = d_runs J"
    by (auto simp: kept_def PrepareSnapshotEnvelope_def dest!: insert_outbox_tables split: sum.splits if_splits)
  with assms(1) show ?thesis by (simp add: running_def)
qed (use assms(1) in \<open>auto simp: running_def kept_def kept_state_def setConnectorSyncEnabled_def unarchiveDataConnector_def
     Let_def MarkSnapshotOutboxPublished_def YieldSnapshotGeneration_def FailSnapshotGeneration_def
     CancelSnapshotGeneration_def retire_outbox_def split: sum.splits if_splits option.splits\<close>)
section \<open>Claiming a generation\<close>

lemma fence_row:
  assumes "requireSnapshotRunFence run sync owner epoch now J = Inr ()"
  obtains r where "r \<in> set (d_runs J)" "rn_id r = run" "rn_sync r = sync" "holds_lease owner epoch now r" "active_run r"
    "rn_status r = Running"
  using assms by (auto simp: requireSnapshotRunFence_def holds_lease_def active_run_def dest!: find_SomeD
      split: option.splits if_splits)

lemma rows_homeD: "rows_home J \<Longrightarrow> o1 \<in> set (d_outbox J) \<Longrightarrow> \<exists>g \<in> set (d_generations J). gn_generation g = ox_generation o1"
  unfolding rows_home_def by (metis imageE)

lemma fence_running: "requireSnapshotRunFence run sync owner epoch now J = Inr () \<Longrightarrow> running run J"
  by (erule fence_row) (auto simp: running_def)

lemma run_unique:
  assumes "runs_wf J" "r \<in> set (d_runs J)" "r' \<in> set (d_runs J)" "rn_id r = rn_id r'" shows "r = r'"
proof -
  have "distinct (map rn_id (d_runs J))" using assms(1) unfolding runs_wf_def by blast
  with assms(2-) show ?thesis by (metis distinct_map inj_onD)
qed

lemma claim_fence:
  assumes "ClaimSnapshotGeneration job run owner epoch uuid now J = Inr (g, J')"
  shows "requireSnapshotRunFence run (jb_SyncID job) owner epoch now J = Inr ()"
  using assms by (auto simp: ClaimSnapshotGeneration_def split: option.splits if_splits)

text \<open>A generation that a running run holds can be claimed by that run only.\<close>

lemma holder_claims:
  assumes "runs_wf J" "gens_run J" "g \<in> set (d_generations J)" "running (gn_run g) J"
    and "requireSnapshotRunFence w (gn_sync g) owner epoch now J = Inr ()"
  shows "gn_run g = w"
proof -
  obtain r where r: "r \<in> set (d_runs J)" "rn_id r = w" "rn_sync r = gn_sync g" "active_run r" by (rule fence_row [OF assms(5)])
  obtain r1 where r1: "r1 \<in> set (d_runs J)" "rn_id r1 = gn_run g" "rn_sync r1 = gn_sync g"
    using assms(2,3) unfolding gens_run_def by blast
  obtain r2 where r2: "r2 \<in> set (d_runs J)" "rn_id r2 = gn_run g" "rn_status r2 = Running" using assms(4) unfolding running_def by blast
  have "r1 = r2" using run_unique [OF assms(1)] r1 r2 by metis
  then have "active_run r1" using r2 by (simp add: active_run_def)
  with r r1 assms(1) have "r = r1" unfolding runs_wf_def by metis
  with r r1 show ?thesis by simp
qed

lemma calm_trans: "calm a b \<Longrightarrow> calm b c \<Longrightarrow> calm a c"
  using gen_moves_trans [of a b c] by (auto simp: calm_def)

lemma calm_take: "calm g (take_over run owner epoch g)"
  using gen_moves_take [of g run owner epoch] by (simp add: calm_def take_over_def)

lemma claim_step:
  assumes "good cov whole wl (J, k)" "ClaimSnapshotGeneration job w owner epoch uuid now J = Inr (g, J')"
    and "\<not> list_ex (\<lambda>h. gn_generation h = uuid) (d_generations J)" "cov (job_source job) []"
  shows "good cov whole wl (J', k) \<and> (v \<noteq> w \<longrightarrow> rely v (J, k) (J', k)) \<and> g \<in> set (d_generations J') \<and>
    (gn_run g, gn_owner g, gn_lease g) = (w, owner, epoch) \<and> gn_source g = job_source job \<and> running w J'"
proof -
  let ?k = "job_source job" let ?J1 = "retire_cancelled ?k now J"
  let ?P = "\<lambda>h. gn_source h = ?k \<and> resumable h \<and> list_ex (\<lambda>r. rn_id r = gn_run h \<and> rn_cancel_requested r) (d_runs J)"
  let ?r = "\<lambda>h. if ?P h then cancel_generation now h else h"
  have wf: "runs_wf J" "gens_wf J" "rows_home J" "gens_run J" using assms(1) unfolding good_def fst_conv by blast+
  have J1: "d_generations ?J1 = map ?r (d_generations J)" by (simp add: retire_cancelled_def update_where_def)
  have r: "calm h (?r h)" "keeps_holder h (?r h)" for h using calm_ends(1) [of h now] by auto
  have fence: "requireSnapshotRunFence w (jb_SyncID job) owner epoch now J = Inr ()" by (rule claim_fence [OF assms(2)])
  have runs: "d_runs J' = d_runs J" by (rule claim_runs [OF assms(2)])
  then have rm: "runs_move J J'" by (rule runs_move_same)
  have gm: "gens_move J J'" by (rule gens_move_claim [OF assms(2,3)])
  have run: "running v J \<Longrightarrow> running v J'" for v by (simp add: running_def runs)
  from assms(2) show ?thesis
  proof (cases rule: claim_result)
    case (taken h)
    let ?t = "\<lambda>x. if gn_generation x = gn_generation h then take_over w owner epoch x else x"
    let ?f = "?t \<circ> ?r"
    have gens: "d_generations J' = map ?f (d_generations J) @ []"
      by (simp only: taken(3) control_db.simps update_where_def J1 map_map) (simp add: J1 update_where_def)
    have f: "calm x (?f x)" for x using calm_trans [OF r(1) calm_take] r(1) [of x] by (simp add: comp_def)
    have out: "d_outbox J' = d_outbox J" by (simp add: taken(3))
    have h: "h \<in> set (d_generations ?J1)" "gn_source h = ?k"
      using newest_member [OF taken(1)] by (auto simp: claimable_def)
    then obtain h0 where h0: "h0 \<in> set (d_generations J)" "h = ?r h0" by (auto simp: J1)
    have id0: "gn_generation h0 = gn_generation h" "gn_sync h0 = gn_sync h" "gn_run h0 = gn_run h" "gn_source h0 = gn_source h"
      using r [of h0] h0(2) by (simp_all add: calm_def gen_moves_def keeps_holder_def)
    have alone: "gn_generation x \<noteq> gn_generation h" if "running v J" "x \<in> set (d_generations J)" "gn_run x = v" "v \<noteq> w" for v x
    proof
      assume "gn_generation x = gn_generation h"
      then have "x = h0" using unique_generation [OF wf(2) that(2) h0(1)] id0(1) by simp
      then show False using holder_claims [OF wf(1,4) that(2)] that fence taken(4) id0(2) by simp
    qed
    have gr: "gens_run J'" unfolding gens_run_def
    proof
      fix x assume "x \<in> set (d_generations J')"
      then obtain y where y: "y \<in> set (d_generations J)" "x = ?f y" by (auto simp: gens)
      show "\<exists>r\<in>set (d_runs J'). rn_id r = gn_run x \<and> rn_sync r = gn_sync x"
      proof (cases "gn_generation (?r y) = gn_generation h")
        case True
        then have "y = h0" using unique_generation [OF wf(2) y(1) h0(1)] id0(1) r(1) [of y] by (simp add: calm_def gen_moves_def)
        then have "gn_run x = w" "gn_sync x = jb_SyncID job"
          using y(2) taken(4) h0(2) by (simp_all add: take_over_def del: split_paired_All)
        moreover obtain q where "q \<in> set (d_runs J)" "rn_id q = w" "rn_sync q = jb_SyncID job" by (rule fence_row [OF fence])
        ultimately show ?thesis by (auto simp: runs)
      next
        case False
        then have "gn_run x = gn_run y" "gn_sync x = gn_sync y"
          using y(2) r [of y] by (simp_all add: calm_def gen_moves_def keeps_holder_def)
        then show ?thesis using wf(4) y(1) unfolding gens_run_def runs by auto
      qed
    qed
    have "good cov whole wl (J', k)" by (rule moved_good [OF assms(1) gens f out rm gm gr, where ms = "[]"]) simp_all
    moreover have "rely v (J, k) (J', k)" if "v \<noteq> w"
    proof (rule moved_rely [OF gens f _ out rm, where ms = "[]"])
      fix x assume "running v J" "x \<in> set (d_generations J)" "gn_run x = v"
      then have "gn_generation (?r x) \<noteq> gn_generation h" using alone that r(1) [of x] by (simp add: calm_def gen_moves_def)
      then show "keeps_holder x (?f x)" using r(2) [of x] by simp
    qed (simp_all add: run)
    moreover have "g \<in> set (d_generations J')" using h0 taken(2) by (force simp: gens)
    moreover have "(gn_run g, gn_owner g, gn_lease g) = (w, owner, epoch)" "gn_source g = ?k"
      using h(2) by (simp_all add: taken(2) take_over_def)
    ultimately show ?thesis using run [OF fence_running [OF fence]] by blast
  next
    case (fresh digest q J2)
    have J': "J' = J2\<lparr>d_generations := d_generations J2 @ [g]\<rparr>" using insert_generation_result [OF fresh(4)] .
    have gens: "d_generations J' = map ?r (d_generations J) @ [g]"
      using next_sequence_tables(3) [of ?k ?J1] by (simp add: J' fresh(1) J1)
    have out: "d_outbox J' = d_outbox J" using next_sequence_tables(2) [of ?k ?J1] by (simp add: J' fresh(1))
    have g: "gn_generation g = uuid" "gn_source g = ?k" "gn_state g = Capturing" "gn_run g = w" "gn_owner g = owner"
      "gn_lease g = epoch" "gn_sync g = jb_SyncID job" "gn_next g = 0" "gn_rows g = 0" "gn_key g = ''''"
      by (simp_all add: fresh(2) new_generation_def)
    have "ox_generation o1 \<noteq> uuid" if "o1 \<in> set (d_outbox J)" for o1
      using rows_homeD [OF wf(3) that] assms(3) unfolding list_ex_iff by metis
    then have none: "filter (\<lambda>o1. ox_generation o1 = uuid \<and> P o1) (d_outbox J) = []" for P
      unfolding filter_empty_conv by blast
    have ok: "gen_ok cov whole wl J' g"
      using assms(4) by (simp add: gen_ok_def batches_def completions_def out g none content_def)
    have gr: "gens_run J'" unfolding gens_run_def
    proof
      fix x assume "x \<in> set (d_generations J')"
      then consider "x = g" | y where "y \<in> set (d_generations J)" "x = ?r y" by (auto simp: gens)
      then show "\<exists>r\<in>set (d_runs J'). rn_id r = gn_run x \<and> rn_sync r = gn_sync x"
      proof cases
        case 1
        obtain q where "q \<in> set (d_runs J)" "rn_id q = w" "rn_sync q = jb_SyncID job" by (rule fence_row [OF fence])
        with 1 show ?thesis by (auto simp: runs g)
      next
        case (2 y)
        then have "gn_run x = gn_run y" "gn_sync x = gn_sync y"
          using r [of y] by (simp_all add: calm_def gen_moves_def keeps_holder_def)
        then show ?thesis using wf(4) 2(1) unfolding gens_run_def runs by auto
      qed
    qed
    have "good cov whole wl (J', k)" by (rule moved_good [OF assms(1) gens r(1) out rm gm gr, where ms = "[]"]) (simp_all add: ok)
    moreover have "rely v (J, k) (J', k)"
      by (rule moved_rely [OF gens r(1) r(2) out rm, where ms = "[]"]) (simp_all add: run)
    ultimately show ?thesis using g gens run [OF fence_running [OF fence]] by auto
  qed
qed

end
