(* ===== verification/Sealing.thy ===== *)
theory Sealing
  imports Holding
begin

text \<open>
  The three operations that write the outbox, under the invariant of capture: a published batch is
  marked, a batch is prepared, a generation is sealed. Each keeps the invariant and moves the state
  only as the other workers rely on.
\<close>

section \<open>Recording a publication\<close>

definition known :: "outbox_row \<Rightarrow> control_db \<Rightarrow> bool" where
  "known item J \<longleftrightarrow> (\<exists>o1 \<in> set (d_outbox J). flag_le item o1)"

abbreviation flagged_row :: "string \<Rightarrow> outbox_row list \<Rightarrow> outbox_row list" where
  "flagged_row i \<equiv> update_where (\<lambda>o1. ox_id o1 = i) (\<lambda>o1. o1\<lparr>ox_published := True\<rparr>)"

lemma flagged_filter:
  assumes "\<And>o1. P (o1\<lparr>ox_published := True\<rparr>) = P o1"
  shows "filter P (flagged_row i os) = flagged_row i (filter P os)"
  by (induction os) (auto simp: assms)

lemma flagged_absent: "i \<notin> ox_id ` set os \<Longrightarrow> flagged_row i os = os"
  by (induction os) auto

lemma flagged_append: "flagged_row i (xs @ ys) = flagged_row i xs @ flagged_row i ys"
  by (simp add: update_where_def)

lemma flagged_flags: "list_all2 flag_le os (flagged_row i os)"
  by (induction os) (auto simp: flag_le_def)

lemma row_unique: "rows_home J \<Longrightarrow> a \<in> set (d_outbox J) \<Longrightarrow> b \<in> set (d_outbox J) \<Longrightarrow> ox_id a = ox_id b \<Longrightarrow> a = b"
  unfolding rows_home_def by (metis distinct_map inj_onD)

text \<open>How a batch that is marked moves the row of its generation.\<close>

lemma marked_batch:
  assumes "chained bs" "progress h bs" "o1 \<in> set bs" "\<not> ox_published o1" "distinct (map ox_id bs)"
  shows "chained (flagged_row (ox_id o1) bs)" "progress (advance_generation o1 (ox_index o1) h) (flagged_row (ox_id o1) bs)"
    "gn_next h \<le> ox_index o1 + 1" "\<not> list_all ox_published bs"
proof -
  obtain d where d: "bs = d @ [o1]" "list_all ox_published d" "ox_index o1 = int (length d)"
    by (rule chained_pending [OF assms(1,3,4)])
  have "ox_id o1 \<notin> ox_id ` set d" using assms(5) by (simp add: d(1))
  then have f: "flagged_row (ox_id o1) bs = d @ [o1\<lparr>ox_published := True\<rparr>]"
    by (simp add: d(1) flagged_append flagged_absent)
  show "chained (flagged_row (ox_id o1) bs)" unfolding f by (rule chained_mark [OF assms(1) [unfolded d(1)] d(2)])
  note p = progress_mark [OF assms(2) [unfolded d(1)] d(2) assms(4)]
  show "progress (advance_generation o1 (ox_index o1) h) (flagged_row (ox_id o1) bs)" unfolding f d(3) by (rule p(2))
  show "gn_next h \<le> ox_index o1 + 1" using p(1) by (simp add: d(3))
  show "\<not> list_all ox_published bs" using assms(4) by (simp add: d(1))
qed

lemma flagged_items:
  "list_all2 (item_of slib jl g) envs bs \<Longrightarrow> list_all2 (item_of slib jl g) envs (flagged_row i bs)"
  by (induction rule: list_all2_induct) (auto simp: item_of_row(2))

lemma gens_updated: "x \<in> set (update_where P f xs) \<Longrightarrow> \<exists>y \<in> set xs. x = (if P y then f y else y)"
  by (auto simp: set_update_where)

lemma flagged_rows:
  assumes "d_outbox J' = flagged_row i (d_outbox J)"
  shows "batches J' G = flagged_row i (batches J G)" "completions J' G = flagged_row i (completions J G)"
    "rows_of J' G = flagged_row i (rows_of J G)"
  by (simp_all add: batches_def completions_def rows_of_def assms flagged_filter)

lemma flagged_completes: "completes slib jl g bs c \<Longrightarrow> completes slib jl g bs (c\<lparr>ox_published := b\<rparr>)"
  by (simp add: completes_def)

text \<open>The outbox row is found, and its generation's row moves as the batch says.\<close>

lemma mark_result:
  assumes "MarkSnapshotOutboxPublished g item J = Inr J'" "rows_home J" "known item J"
  obtains (again) o1 where "o1 \<in> set (d_outbox J)" "flag_le item o1" "ox_published o1" "J' = J"
  | (batch) o1 where "o1 \<in> set (d_outbox J)" "flag_le item o1" "\<not> ox_published o1" "ox_kind o1 = SnapshotKindBatch"
      "J' = J\<lparr>d_outbox := flagged_row (ox_id o1) (d_outbox J),
         d_generations := update_where (\<lambda>h. gn_generation h = gn_generation g \<and> gn_next h \<le> ox_index o1 + 1)
           (advance_generation o1 (ox_index o1)) (d_generations J)\<rparr>"
  | (completion) o1 where "o1 \<in> set (d_outbox J)" "flag_le item o1" "\<not> ox_published o1" "ox_kind o1 \<noteq> SnapshotKindBatch"
      "J' = J\<lparr>d_outbox := flagged_row (ox_id o1) (d_outbox J)\<rparr>"
proof -
  obtain o1 where o1: "o1 \<in> set (d_outbox J)" "flag_le item o1" using assms(3) unfolding known_def by blast
  have id: "ox_id item = ox_id o1" "ox_index item = ox_index o1" using flag_le_fields [OF o1(2)] by simp_all
  have "find (\<lambda>o2. ox_id o2 = ox_id o1) (d_outbox J) = Some o1"
  proof (cases "find (\<lambda>o2. ox_id o2 = ox_id o1) (d_outbox J)")
    case None
    then have "ox_id o1 \<noteq> ox_id o1" using o1(1) unfolding find_None_iff by blast
    then show ?thesis by simp
  next
    case (Some o2)
    then show ?thesis using find_SomeD [OF Some] row_unique [OF assms(2) _ o1(1)] by blast
  qed
  with assms(1) again [OF o1] batch [OF o1] completion [OF o1] show thesis
    by (auto simp: MarkSnapshotOutboxPublished_def id Let_def split: if_splits)
qed

lemma marked_good:
  assumes "good cov whole wl (J, k)" "o1 \<in> set (d_outbox J)" "\<not> ox_published o1" "carried wl (ox_payload o1) k"
    and "d_outbox J' = flagged_row (ox_id o1) (d_outbox J)" "d_runs J' = d_runs J" "gens_move J J'"
    and "d_generations J' = map f (d_generations J)" "\<And>h. gen_moves h (f h) \<and> keeps_holder h (f h) \<and> gn_state (f h) = gn_state h"
    and "\<And>h. h \<in> set (d_generations J) \<Longrightarrow> gn_generation h \<noteq> ox_generation o1 \<Longrightarrow> f h = h"
    and "\<And>h. h \<in> set (d_generations J) \<Longrightarrow> gn_generation h = ox_generation o1 \<Longrightarrow> gen_ok cov whole wl J' (f h)"
  shows "good cov whole wl (J', k) \<and> rely v (J, k) (J', k) \<and> (\<forall>o2 \<in> set (d_outbox J'). ox_id o2 = ox_id o1 \<longrightarrow> ox_published o2)"
proof -
  have wf: "runs_wf J" "gens_wf J" "rows_home J" "gens_run J" using assms(1) unfolding good_def fst_conv by blast+
  have rm: "runs_move J J'" by (rule runs_move_same [OF assms(6)])
  have id: "gn_generation (f h) = gn_generation h" "gn_sync (f h) = gn_sync h" "gn_run (f h) = gn_run h" for h
    using assms(9) [of h] by (simp_all add: gen_moves_def keeps_holder_def)
  have home: "rows_home J'"
  proof -
    have "map ox_id (flagged_row i os) = map ox_id os" for i os by (induction os) auto
    moreover have "gn_generation ` set (d_generations J') = gn_generation ` set (d_generations J)"
      by (simp add: assms(8) image_image id)
    moreover have "ox_generation o2 \<in> gn_generation ` set (d_generations J)" if "o2 \<in> set (d_outbox J')" for o2
    proof -
      obtain o3 where "o3 \<in> set (d_outbox J)" "o2 = (if ox_id o3 = ox_id o1 then o3\<lparr>ox_published := True\<rparr> else o3)"
        using gens_updated [OF \<open>o2 \<in> set (d_outbox J')\<close> [unfolded assms(5)]] by blast
      then have "ox_generation o2 = ox_generation o3" "o3 \<in> set (d_outbox J)" by (auto split: if_splits)
      with rows_homeD [OF wf(3)] show ?thesis by (metis imageI)
    qed
    ultimately show ?thesis using wf(3) by (simp add: rows_home_def assms(5))
  qed
  have gr: "gens_run J'" by (rule gens_run_move [OF rm wf(4)]) (auto simp: assms(8) id)
  have other: "batches J' G = batches J G \<and> completions J' G = completions J G" if "G \<noteq> ox_generation o1" for G
  proof -
    have no: "ox_id o1 \<notin> ox_id ` set (filter (\<lambda>o2. ox_generation o2 = G \<and> P o2) (d_outbox J))" for P
      using row_unique [OF wf(3) _ assms(2)] that by auto
    show ?thesis unfolding flagged_rows [OF assms(5)]
      using flagged_absent [OF no] unfolding batches_def completions_def by simp
  qed
  have ok: "gen_ok cov whole wl J' g'" if "g' \<in> set (d_generations J')" for g'
  proof -
    obtain h where h: "h \<in> set (d_generations J)" "g' = f h" using \<open>g' \<in> _\<close> by (auto simp: assms(8))
    show ?thesis
    proof (cases "gn_generation h = ox_generation o1")
      case True
      then show ?thesis using assms(11) [OF h(1)] h(2) by simp
    next
      case False
      then have "gen_ok cov whole wl J' h = gen_ok cov whole wl J h" using other by (intro gen_ok_same) simp_all
      with assms(1) h(1) assms(10) [OF h(1) False] h(2) show ?thesis by (simp add: good_def)
    qed
  qed
  have "carried wl (ox_payload o2) k" if o2: "o2 \<in> set (d_outbox J')" "ox_published o2" for o2
  proof -
    obtain o3 where o3: "o3 \<in> set (d_outbox J)" "o2 = (if ox_id o3 = ox_id o1 then o3\<lparr>ox_published := True\<rparr> else o3)"
      using gens_updated [OF o2(1) [unfolded assms(5)]] by blast
    then show ?thesis using row_unique [OF wf(3) o3(1) assms(2)] assms(1,4) o2(2)
      by (cases "ox_id o3 = ox_id o1") (auto simp: good_def)
  qed
  then have g: "good cov whole wl (J', k)"
    using ok runs_wf_move [OF rm wf(1)] gens_wf_move [OF assms(7) wf(2)] home gr by (simp add: good_def)
  have grow: "outbox_grows J J'" unfolding outbox_grows_def
    by (intro exI [of _ "d_outbox J'"] exI [of _ "[]"]) (simp add: assms(5) flagged_flags)
  have "gens_grow J J'" unfolding gens_grow_def using assms(9) by (auto simp: assms(8))
  moreover have "held v J J'" unfolding held_def
  proof (intro ballI impI)
    fix h assume h: "h \<in> set (d_generations J)"
    from h show "\<exists>g'\<in>set (d_generations J'). gn_generation g' = gn_generation h \<and>
        (gn_run g', gn_owner g', gn_lease g') = (gn_run h, gn_owner h, gn_lease h) \<and>
        (gn_state g' = Sealed \<longrightarrow> gn_state h = Sealed) \<and> list_all2 flag_le (rows_of J (gn_generation h)) (rows_of J' (gn_generation h))"
      using assms(9) [of h] by (intro bexI [of _ "f h"])
        (auto simp: assms(8) gen_moves_def keeps_holder_def flagged_rows [OF assms(5)] flagged_flags)
  qed
  ultimately have "rely v (J, k) (J', k)"
    using grow named_move [of "(J, k)" "(J', k)"] rm assms(6) by (simp add: rely_def running_def)
  moreover have "\<forall>o2 \<in> set (d_outbox J'). ox_id o2 = ox_id o1 \<longrightarrow> ox_published o2"
    by (auto simp: assms(5) set_update_where)
  ultimately show ?thesis using g by blast
qed
lemma gen_okD:
  assumes "gen_ok cov whole wl J g"
  shows "chained (batches J (gn_generation g))" "progress g (batches J (gn_generation g))"
    "\<exists>envs. list_all2 (item_of (wl_snap wl) (wl_json wl) g) envs (batches J (gn_generation g)) \<and> cov (gn_source g) (content envs) \<and>
       (gn_state g = Sealed \<longrightarrow> whole (gn_source g) (content envs))"
    "gn_state g = Sealed \<Longrightarrow> list_all ox_published (batches J (gn_generation g)) \<and>
       (\<exists>c. completions J (gn_generation g) = [c] \<and> completes (wl_snap wl) (wl_json wl) g (batches J (gn_generation g)) c)"
    "gn_state g \<noteq> Sealed \<Longrightarrow> completions J (gn_generation g) = []"
  using assms unfolding gen_ok_def Let_def by auto

lemma gen_okI:
  assumes "chained (batches J (gn_generation g))" "progress g (batches J (gn_generation g))"
    "list_all2 (item_of (wl_snap wl) (wl_json wl) g) envs (batches J (gn_generation g))" "cov (gn_source g) (content envs)"
    "gn_state g = Sealed \<Longrightarrow> whole (gn_source g) (content envs) \<and> list_all ox_published (batches J (gn_generation g)) \<and>
       (\<exists>c. completions J (gn_generation g) = [c] \<and> completes (wl_snap wl) (wl_json wl) g (batches J (gn_generation g)) c)"
    "gn_state g \<noteq> Sealed \<Longrightarrow> completions J (gn_generation g) = []"
  shows "gen_ok cov whole wl J g"
  unfolding gen_ok_def Let_def using assms by auto

lemma good_row: "good cov whole wl (J, k) \<Longrightarrow> g \<in> set (d_generations J) \<Longrightarrow> gen_ok cov whole wl J g"
  by (simp add: good_def)

lemma batch_ids_distinct: "rows_home J \<Longrightarrow> distinct (map ox_id (batches J G))"
  by (simp add: rows_home_def batches_def distinct_map_filter)

lemma no_such_id:
  assumes "rows_home J" "o1 \<in> set (d_outbox J)" "\<not> P o1" shows "ox_id o1 \<notin> ox_id ` set (filter P (d_outbox J))"
  using row_unique [OF assms(1) _ assms(2)] assms(3) by auto

lemma mark_batch_step:
  assumes "good cov whole wl (J, k)" "o1 \<in> set (d_outbox J)" "\<not> ox_published o1" "carried wl (ox_payload o1) k"
    and "ox_kind o1 = SnapshotKindBatch" "gn_generation g = ox_generation o1"
    and "J' = J\<lparr>d_outbox := flagged_row (ox_id o1) (d_outbox J),
         d_generations := update_where (\<lambda>h. gn_generation h = gn_generation g \<and> gn_next h \<le> ox_index o1 + 1)
           (advance_generation o1 (ox_index o1)) (d_generations J)\<rparr>"
  shows "good cov whole wl (J', k) \<and> rely v (J, k) (J', k) \<and> (\<forall>o2 \<in> set (d_outbox J'). ox_id o2 = ox_id o1 \<longrightarrow> ox_published o2)"
proof -
  let ?f = "\<lambda>h. if gn_generation h = gn_generation g \<and> gn_next h \<le> ox_index o1 + 1 then advance_generation o1 (ox_index o1) h else h"
  have wf: "rows_home J" using assms(1) unfolding good_def fst_conv by blast
  have out: "d_outbox J' = flagged_row (ox_id o1) (d_outbox J)" by (simp add: assms(7))
  have gens: "d_generations J' = map ?f (d_generations J)" by (simp add: assms(7) update_where_def)
  have gm: "gens_move J J'"
    by (rule gens_move_update [of _ "\<lambda>h. gn_generation h = gn_generation g \<and> gn_next h \<le> ox_index o1 + 1" "advance_generation o1 (ox_index o1)"])
       (simp_all add: assms(7) gen_moves_advance)
  have ok: "gen_ok cov whole wl J' (?f h)" if h: "h \<in> set (d_generations J)" "gn_generation h = ox_generation o1" for h
  proof -
    note d = gen_okD [OF good_row [OF assms(1) h(1)]]
    have mem: "o1 \<in> set (batches J (gn_generation h))" using assms(2,5) h(2) by (simp add: batches_def)
    note m = marked_batch [OF d(1,2) mem assms(3) batch_ids_distinct [OF wf]]
    have unsealed: "gn_state h \<noteq> Sealed" using d(4) m(4) by blast
    have f: "?f h = advance_generation o1 (ox_index o1) h" using m(3) h(2) assms(6) by simp
    have c: "completions J' (gn_generation h) = []"
      using d(5) [OF unsealed] by (simp add: flagged_rows(2) [OF out])
    obtain envs where e: "list_all2 (item_of (wl_snap wl) (wl_json wl) h) envs (batches J (gn_generation h))"
      "cov (gn_source h) (content envs)" using d(3) by blast
    have a: "gn_generation (advance_generation o1 (ox_index o1) h) = gn_generation h"
      "gn_source (advance_generation o1 (ox_index o1) h) = gn_source h"
      "gn_state (advance_generation o1 (ox_index o1) h) = gn_state h"
      by (simp_all add: advance_generation_def)
    have i: "item_of (wl_snap wl) (wl_json wl) (advance_generation o1 (ox_index o1) h) = item_of (wl_snap wl) (wl_json wl) h"
      by (rule item_of_row(1)) (simp_all add: advance_generation_def)
    show ?thesis unfolding f
      by (rule gen_okI [where envs = envs])
         (use m(1,2) flagged_items [OF e(1)] e(2) c unsealed in \<open>simp_all add: a i flagged_rows(1) [OF out]\<close>)
  qed
  show ?thesis
  proof (rule marked_good [OF assms(1-4) out _ gm gens])
    show "d_runs J' = d_runs J" by (simp add: assms(7))
    show "gen_moves h (?f h) \<and> keeps_holder h (?f h) \<and> gn_state (?f h) = gn_state h" for h
    proof (cases "gn_generation h = gn_generation g \<and> gn_next h \<le> ox_index o1 + 1")
      case True
      have "keeps_holder h (advance_generation o1 (ox_index o1) h) \<and> gn_state (advance_generation o1 (ox_index o1) h) = gn_state h"
        by (simp add: keeps_holder_def advance_generation_def)
      then show ?thesis unfolding if_P [OF True] using gen_moves_advance by blast
    next
      case False
      show ?thesis unfolding if_not_P [OF False] by simp
    qed
    show "?f h = h" if "gn_generation h \<noteq> ox_generation o1" for h using that by (simp add: assms(6))
  qed (rule ok)
qed

lemma mark_completion_step:
  assumes "good cov whole wl (J, k)" "o1 \<in> set (d_outbox J)" "\<not> ox_published o1" "carried wl (ox_payload o1) k"
    and "ox_kind o1 \<noteq> SnapshotKindBatch" "J' = J\<lparr>d_outbox := flagged_row (ox_id o1) (d_outbox J)\<rparr>"
  shows "good cov whole wl (J', k) \<and> rely v (J, k) (J', k) \<and> (\<forall>o2 \<in> set (d_outbox J'). ox_id o2 = ox_id o1 \<longrightarrow> ox_published o2)"
proof -
  have wf: "rows_home J" using assms(1) unfolding good_def fst_conv by blast
  have out: "d_outbox J' = flagged_row (ox_id o1) (d_outbox J)" by (simp add: assms(6))
  have gens: "d_generations J' = map (\<lambda>h. h) (d_generations J)" by (simp add: assms(6))
  have gm: "gens_move J J'" by (rule gens_move_same) (simp_all add: assms(6))
  have b: "batches J' G = batches J G" for G
    unfolding flagged_rows(1) [OF out] unfolding batches_def
    by (rule flagged_absent, rule no_such_id [OF wf assms(2)]) (simp add: assms(5))
  have ok: "gen_ok cov whole wl J' h" if h: "h \<in> set (d_generations J)" "gn_generation h = ox_generation o1" for h
  proof -
    note d = gen_okD [OF good_row [OF assms(1) h(1)]]
    have "o1 \<in> set (completions J (gn_generation h))" using assms(2,5) h(2) by (simp add: completions_def)
    then have s: "gn_state h = Sealed" using d(5) by fastforce
    then obtain c where c: "completions J (gn_generation h) = [c]" "completes (wl_snap wl) (wl_json wl) h (batches J (gn_generation h)) c"
      using d(4) by blast
    then have "\<exists>c'. completions J' (gn_generation h) = [c'] \<and> completes (wl_snap wl) (wl_json wl) h (batches J (gn_generation h)) c'"
      by (auto simp: flagged_rows(2) [OF out] flagged_completes)
    moreover obtain envs where "list_all2 (item_of (wl_snap wl) (wl_json wl) h) envs (batches J (gn_generation h))"
      "cov (gn_source h) (content envs)" "whole (gn_source h) (content envs)" using d(3) s by blast
    ultimately show ?thesis using d(1,2,4) s by (intro gen_okI [where envs = envs]) (simp_all add: b)
  qed
  have "d_runs J' = d_runs J" by (simp add: assms(6))
  then show ?thesis by (rule marked_good [OF assms(1-4) out _ gm gens]) (simp_all add: ok)
qed

lemma mark_step:
  assumes "good cov whole wl (J, k)" "MarkSnapshotOutboxPublished g item J = Inr J'" "known item J"
    and "ox_generation item = gn_generation g" "carried wl (ox_payload item) k"
  shows "good cov whole wl (J', k) \<and> rely v (J, k) (J', k) \<and> (\<forall>o2 \<in> set (d_outbox J'). ox_id o2 = ox_id item \<longrightarrow> ox_published o2)"
proof -
  have wf: "rows_home J" using assms(1) unfolding good_def fst_conv by blast
  from assms(2) wf assms(3) show ?thesis
  proof (cases rule: mark_result)
    case (again o1)
    have "ox_published o2" if "o2 \<in> set (d_outbox J)" "ox_id o2 = ox_id item" for o2
      using row_unique [OF wf that(1) again(1)] that(2) flag_le_fields [OF again(2)] again(3) by simp
    then show ?thesis using assms(1) by (simp add: again(4))
  next
    case (batch o1)
    note f = flag_le_fields [OF batch(2)]
    show ?thesis using mark_batch_step [OF assms(1) batch(1,3) _ batch(4) _ batch(5)] assms(4,5) f by simp
  next
    case (completion o1)
    note f = flag_le_fields [OF completion(2)]
    show ?thesis using mark_completion_step [OF assms(1) completion(1,3) _ completion(4,5)] assms(5) f by simp
  qed
qed
section \<open>Writing to the outbox\<close>

lemma same_generation:
  assumes "gens_wf J" "g \<in> set (d_generations J)" "h \<in> set (d_generations J)" "gn_generation g = gn_generation h"
  shows "g = h"
  using unique_generation [OF assms] .

text \<open>One row more in the outbox of generation \<open>G\<close>.\<close>

lemma appended_rows:
  assumes "d_outbox J' = d_outbox J @ [o1]"
  shows "batches J' G = batches J G @ (if ox_generation o1 = G \<and> ox_kind o1 = SnapshotKindBatch then [o1] else [])"
    "completions J' G = completions J G @ (if ox_generation o1 = G \<and> ox_kind o1 \<noteq> SnapshotKindBatch then [o1] else [])"
    "rows_of J' G = rows_of J G @ (if ox_generation o1 = G then [o1] else [])"
  by (simp_all add: batches_def completions_def rows_of_def assms)

lemma appended_good:
  assumes "good cov whole wl (J, k)" "d_outbox J' = d_outbox J @ [o1]" "ox_id o1 \<notin> ox_id ` set (d_outbox J)" "\<not> ox_published o1"
    and "h \<in> set (d_generations J)" "gn_generation h = ox_generation o1" "runs_move J J'" "gens_move J J'"
    and "d_generations J' = map f (d_generations J)" "\<And>g. calm g (f g) \<or> gn_generation g = ox_generation o1"
    and "\<And>g. gen_moves g (f g) \<and> keeps_holder g (f g)" "gen_ok cov whole wl J' (f h)"
  shows "good cov whole wl (J', k)"
proof -
  have wf: "runs_wf J" "gens_wf J" "rows_home J" "gens_run J" using assms(1) unfolding good_def fst_conv by blast+
  have id: "gn_generation (f g) = gn_generation g" "gn_sync (f g) = gn_sync g" "gn_run (f g) = gn_run g" for g
    using assms(11) [of g] by (simp_all add: gen_moves_def keeps_holder_def)
  have ids: "gn_generation ` set (d_generations J') = gn_generation ` set (d_generations J)"
    by (simp add: assms(9) image_image id)
  have "ox_generation o1 \<in> gn_generation ` set (d_generations J)" using assms(5) by (metis assms(6) imageI)
  then have home: "rows_home J'" using wf(3) assms(3) by (simp add: rows_home_def assms(2) ids)
  have gr: "gens_run J'" by (rule gens_run_move [OF assms(7) wf(4)]) (auto simp: assms(9) id)
  have ok: "gen_ok cov whole wl J' g'" if g': "g' \<in> set (d_generations J')" for g'
  proof -
    obtain g where g: "g \<in> set (d_generations J)" "g' = f g" using g' by (auto simp: assms(9))
    show ?thesis
    proof (cases "gn_generation g = ox_generation o1")
      case True
      then have "g = h" using same_generation [OF wf(2) g(1) assms(5)] assms(6) by simp
      with g(2) assms(12) show ?thesis by simp
    next
      case False
      then have "gen_ok cov whole wl (J'\<lparr>d_outbox := d_outbox J\<rparr>) (f g)"
        using assms(10) [of g] good_row [OF assms(1) g(1)] gen_ok_calm [of cov whole wl J g "f g" "J'\<lparr>d_outbox := d_outbox J\<rparr>"] by simp
      moreover have "batches J' (gn_generation (f g)) = batches (J'\<lparr>d_outbox := d_outbox J\<rparr>) (gn_generation (f g))"
        "completions J' (gn_generation (f g)) = completions (J'\<lparr>d_outbox := d_outbox J\<rparr>) (gn_generation (f g))"
        using False by (auto simp: batches_def completions_def assms(2) id)
      ultimately show ?thesis using gen_ok_same g(2) by blast
    qed
  qed
  have "carried wl (ox_payload o2) k" if "o2 \<in> set (d_outbox J')" "ox_published o2" for o2
    using that assms(1,4) by (auto simp: good_def assms(2))
  then show ?thesis using ok runs_wf_move [OF assms(7) wf(1)] gens_wf_move [OF assms(8) wf(2)] home gr by (simp add: good_def)
qed

lemma appended_rely:
  assumes "gens_wf J" "d_outbox J' = d_outbox J @ [o1]" "h \<in> set (d_generations J)" "gn_generation h = ox_generation o1"
    and "gn_run h \<noteq> v" "runs_move J J'" "running v J \<Longrightarrow> running v J'"
    and "d_generations J' = map f (d_generations J)" "\<And>g. gen_moves g (f g) \<and> keeps_holder g (f g)"
    and "\<And>g. g \<noteq> h \<Longrightarrow> g \<in> set (d_generations J) \<Longrightarrow> f g = g"
  shows "rely v (J, k) (J', k)"
proof -
  have grow: "outbox_grows J J'" unfolding outbox_grows_def assms(2)
    by (intro exI [of _ "d_outbox J"] exI [of _ "[o1]"]) simp
  have "gens_grow J J'" unfolding gens_grow_def using assms(9) by (auto simp: assms(8))
  moreover have "held v J J'" unfolding held_def
  proof (intro ballI impI)
    fix g assume g: "g \<in> set (d_generations J)" "gn_run g = v"
    then have "g \<noteq> h" using assms(5) by blast
    then have n: "gn_generation g \<noteq> ox_generation o1" "f g = g"
      using same_generation [OF assms(1) g(1) assms(3)] assms(4,10) g(1) by auto
    then show "\<exists>g'\<in>set (d_generations J'). gn_generation g' = gn_generation g \<and>
        (gn_run g', gn_owner g', gn_lease g') = (gn_run g, gn_owner g, gn_lease g) \<and>
        (gn_state g' = Sealed \<longrightarrow> gn_state g = Sealed) \<and> list_all2 flag_le (rows_of J (gn_generation g)) (rows_of J' (gn_generation g))"
      using g(1) by (intro bexI [of _ g]) (auto simp: assms(8) appended_rows [OF assms(2)] image_iff intro: bexI [of _ g])
  qed
  ultimately show ?thesis using grow named_move [of "(J, k)" "(J', k)"] assms(6,7) by (simp add: rely_def)
qed

lemma outbox_insert_result:
  assumes "insert_outbox o1 J = Inr (out, J')" "\<And>o2. o2 \<in> set (d_outbox J) \<Longrightarrow> same_slot o2 o1 \<Longrightarrow> ox_batch_id o2 \<noteq> ox_batch_id o1"
  shows "out = o1" "J' = J\<lparr>d_outbox := d_outbox J @ [o1]\<rparr>" "ox_id o1 \<notin> ox_id ` set (d_outbox J)"
proof -
  have "find (\<lambda>o2. same_slot o2 o1 \<and> ox_batch_id o2 = ox_batch_id o1) (d_outbox J) = None"
    using assms(2) unfolding find_None_iff by blast
  with assms(1) have "out = o1 \<and> J' = J\<lparr>d_outbox := d_outbox J @ [o1]\<rparr> \<and> \<not> list_ex (\<lambda>o2. ox_id o2 = ox_id o1) (d_outbox J)"
    by (auto simp: insert_outbox_def list_ex_iff split: if_splits)
  then show "out = o1" "J' = J\<lparr>d_outbox := d_outbox J @ [o1]\<rparr>" "ox_id o1 \<notin> ox_id ` set (d_outbox J)"
    by (auto simp: list_ex_iff)
qed

definition same_identity :: "generation_row \<Rightarrow> generation_row \<Rightarrow> bool" where
  "same_identity g h \<longleftrightarrow> (gn_source h, gn_sync h, gn_generation h, gn_seq h, gn_binding h) =
     (gn_source g, gn_sync g, gn_generation g, gn_seq g, gn_binding g)"

lemma prepare_result:
  assumes "PrepareSnapshotEnvelope slib jl g env lo hi uuid now J = Inr (out, J')"
  obtains payload where "MarshalSnapshotEnvelope slib jl env = Inr payload"
    "(n_Generation env, n_GenerationSeq env, n_BindingDigest env) = (gn_generation g, gn_seq g, gn_binding g)"
    "generation_fence g now J = Inr ()" "insert_outbox (batch_item uuid g env payload lo hi) J = Inr (out, J')"
    "gn_state g = Capturing"
  using assms by (auto simp: PrepareSnapshotEnvelope_def split: sum.splits if_splits)

lemma prepare_step:
  assumes "good cov whole wl (J, k)"
    and "PrepareSnapshotEnvelope (wl_snap wl) (wl_json wl) g env lo hi uuid now J = Inr (out, J')" "n_Kind env = SnapshotKindBatch"
    and "h \<in> set (d_generations J)" "same_identity g h" "gn_state h \<noteq> Sealed" "gn_run h = w"
    and "list_all ox_published (batches J (gn_generation g))" "lo = last_upper (batches J (gn_generation g))"
    and "hi = w_Key (last (n_Rows env))" "n_BatchID env = batch_id (n_BatchIndex env)"
    and "n_BatchIndex env = int64 (int (length (batches J (gn_generation g))))"
    and "list_all2 (item_of (wl_snap wl) (wl_json wl) h) envs (batches J (gn_generation g))"
    and "cov (gn_source h) (content envs @ n_Rows env)"
  shows "good cov whole wl (J', k) \<and> (v \<noteq> w \<longrightarrow> rely v (J, k) (J', k)) \<and> J' = J\<lparr>d_outbox := d_outbox J @ [out]\<rparr> \<and>
    item_of (wl_snap wl) (wl_json wl) h env out \<and> ox_generation out = gn_generation g \<and> ox_kind out = SnapshotKindBatch \<and>
    \<not> ox_published out"
proof -
  let ?bs = "batches J (gn_generation g)"
  obtain payload where p: "MarshalSnapshotEnvelope (wl_snap wl) (wl_json wl) env = Inr payload"
    "(n_Generation env, n_GenerationSeq env, n_BindingDigest env) = (gn_generation g, gn_seq g, gn_binding g)"
    "insert_outbox (batch_item uuid g env payload lo hi) J = Inr (out, J')" by (rule prepare_result [OF assms(2)])
  let ?o = "batch_item uuid g env payload lo hi"
  have h: "gn_generation h = gn_generation g" "gn_source h = gn_source g" "gn_seq h = gn_seq g" "gn_binding h = gn_binding g"
    using assms(5) by (simp_all add: same_identity_def)
  note d = gen_okD [OF good_row [OF assms(1,4)], unfolded h(1)]
  have wf: "gens_wf J" "rows_home J" using assms(1) unfolding good_def fst_conv by blast+
  have "Validate (wl_snap wl) env = None" using p(1) by (auto simp: MarshalSnapshotEnvelope_def split: option.splits)
  then have "0 \<le> n_BatchIndex env" by (rule validate_batch(3) [OF _ assms(3)])
  then have idx: "n_BatchIndex env = int (length ?bs)" "int (length ?bs) < 2 ^ 63"
    using int64_next [of "int (length ?bs)"] d(1) assms(12) by (auto simp: chained_def)
  have o: "ox_generation ?o = gn_generation g" "ox_kind ?o = SnapshotKindBatch" "\<not> ox_published ?o" "ox_index ?o = int (length ?bs)"
    "ox_lower ?o = lo" "ox_batch_id ?o = batch_id (int (length ?bs))"
    by (simp_all add: batch_item_def assms(3,11) idx(1) SnapshotKindBatch_def SnapshotKindComplete_def)
  have item: "item_of (wl_snap wl) (wl_json wl) h env ?o"
    using p(1,2) assms(3,10,11) h by (simp add: item_of_def batch_item_def SnapshotKindBatch_def SnapshotKindComplete_def)
  have fresh: "ox_batch_id o2 \<noteq> ox_batch_id ?o" if o2: "o2 \<in> set (d_outbox J)" "same_slot o2 ?o" for o2
  proof -
    have "o2 \<in> set ?bs" using o2 o(1,2) by (simp add: batches_def same_slot_def)
    then obtain i where i: "i < length ?bs" "o2 = ?bs ! i" by (auto simp: in_set_conv_nth)
    have "item_of (wl_snap wl) (wl_json wl) h (envs ! i) (?bs ! i)"
      using list_all2_nthD2 [OF assms(13) i(1)] .
    moreover have "ox_index (?bs ! i) = int i"
    proof -
      have "map ox_index ?bs ! i = map int [0..<length ?bs] ! i" using d(1) unfolding chained_def by simp
      with i(1) show ?thesis by simp
    qed
    ultimately have "ox_batch_id o2 = batch_id (int i)" by (simp add: item_of_def i(2))
    then show ?thesis unfolding o(6) using batch_id_inj [of "int i" "int (length ?bs)"] i(1) by auto
  qed
  note ins = outbox_insert_result [OF p(3) fresh]
  have out: "d_outbox J' = d_outbox J @ [?o]" by (simp add: ins(2))
  have gens: "d_generations J' = map (\<lambda>g. g) (d_generations J)" by (simp add: ins(2))
  have rm: "runs_move J J'" by (rule runs_move_same) (simp add: ins(2))
  have gm: "gens_move J J'" by (rule gens_move_same) (simp_all add: ins(2))
  have bs: "batches J' (gn_generation h) = ?bs @ [?o]" "completions J' (gn_generation h) = completions J (gn_generation h)"
    using o(1,2) h(1) by (simp_all add: appended_rows [OF out])
  have ok: "gen_ok cov whole wl J' h"
  proof (rule gen_okI [where envs = "envs @ [env]"])
    show "chained (batches J' (gn_generation h))" unfolding bs
      by (rule chained_append [OF d(1) assms(8) o(4) idx(2)]) (use o(3,5) assms(9) in simp_all)
    show "progress h (batches J' (gn_generation h))" unfolding bs by (rule progress_append [OF d(2) o(3)])
    show "list_all2 (item_of (wl_snap wl) (wl_json wl) h) (envs @ [env]) (batches J' (gn_generation h))"
      unfolding bs using assms(13) item by (simp add: list_all2_appendI)
    show "cov (gn_source h) (content (envs @ [env]))" using assms(14) by (simp add: content_def)
  qed (use assms(6) d(5) bs(2) h(1) in simp_all)
  have "good cov whole wl (J', k)"
    by (rule appended_good [OF assms(1) out ins(3) o(3) assms(4) _ rm gm gens _ _ ok]) (simp_all add: o(1) h(1))
  moreover have "rely v (J, k) (J', k)" if "v \<noteq> w"
    by (rule appended_rely [OF wf(1) out assms(4) _ _ rm _ gens]) (use that assms(7) in \<open>simp_all add: o(1) h(1) running_def ins(2)\<close>)
  ultimately show ?thesis using ins(1,2) item o by simp
qed
section \<open>Sealing\<close>

lemma seal_result:
  assumes "SealSnapshotGeneration slib jl g env rows uuid now J = Inr (out, J')"
  obtains payload J1 where "n_Kind env = SnapshotKindComplete" "MarshalSnapshotEnvelope slib jl env = Inr payload"
    "insert_outbox (completion_item uuid g env payload) J = Inr (out, J1)" "generation_fence g now J = Inr ()"
    "affected (\<lambda>h. held_by g h \<and> gn_state h = Capturing) (d_generations J1) = 1"
    "J' = J1\<lparr>d_generations := update_where (\<lambda>h. held_by g h \<and> gn_state h = Capturing) (seal_row (n_CaptureFinishedAt env) now) (d_generations J1),
       d_runs := update_where (\<lambda>r. rn_id r = gn_run g \<and> rn_status r = Running \<and> rn_owner r = gn_owner g \<and>
                   rn_lease_epoch r = gn_lease g \<and> \<not> rn_cancel_requested r) (succeed_row rows now) (d_runs J1),
       d_syncs := update_where (\<lambda>s. cs_id s = gn_sync g) (seal_sync rows now) (d_syncs J1)\<rparr>"
  using assms by (auto simp: SealSnapshotGeneration_def Let_def split: sum.splits if_splits)

lemma affected_pos: "affected P xs \<noteq> 0 \<Longrightarrow> \<exists>x \<in> set xs. P x"
  unfolding affected_def by (metis filter_False list.size(3))

lemma seal_step:
  assumes "good cov whole wl (J, k)"
    and "SealSnapshotGeneration (wl_snap wl) (wl_json wl) g env rows uuid now J = Inr (out, J')"
    and "h \<in> set (d_generations J)" "same_identity g h" "gn_state h \<noteq> Sealed" "gn_run h = w" "gn_run g = w"
    and "list_all ox_published (batches J (gn_generation g))"
    and "(n_Generation env, n_GenerationSeq env, n_BindingDigest env) = (gn_generation g, gn_seq g, gn_binding g)"
    and "n_ExpectedBatches env = int (length (batches J (gn_generation g)))"
    and "n_ExpectedRows env = sum_list (map ox_rows (batches J (gn_generation g)))"
    and "SnapshotManifestDigest (wl_snap wl) (map entry_of_item (batches J (gn_generation g))) = Inr (n_BatchManifestSHA256 env)"
    and "list_all2 (item_of (wl_snap wl) (wl_json wl) h) envs (batches J (gn_generation g))"
    and "cov (gn_source h) (content envs)" "whole (gn_source h) (content envs)"
  shows "good cov whole wl (J', k) \<and> (v \<noteq> w \<longrightarrow> rely v (J, k) (J', k)) \<and> out \<in> set (d_outbox J') \<and>
    ox_generation out = gn_generation g \<and> \<not> running w J'"
proof -
  let ?bs = "batches J (gn_generation g)"
  obtain payload J1 where p: "n_Kind env = SnapshotKindComplete" "MarshalSnapshotEnvelope (wl_snap wl) (wl_json wl) env = Inr payload"
    "insert_outbox (completion_item uuid g env payload) J = Inr (out, J1)" "generation_fence g now J = Inr ()"
    "affected (\<lambda>h. held_by g h \<and> gn_state h = Capturing) (d_generations J1) = 1"
    and J': "J' = J1\<lparr>d_generations := update_where (\<lambda>h. held_by g h \<and> gn_state h = Capturing) (seal_row (n_CaptureFinishedAt env) now) (d_generations J1),
       d_runs := update_where (\<lambda>r. rn_id r = gn_run g \<and> rn_status r = Running \<and> rn_owner r = gn_owner g \<and>
                   rn_lease_epoch r = gn_lease g \<and> \<not> rn_cancel_requested r) (succeed_row rows now) (d_runs J1),
       d_syncs := update_where (\<lambda>s. cs_id s = gn_sync g) (seal_sync rows now) (d_syncs J1)\<rparr>"
    by (rule seal_result [OF assms(2)])
  let ?o = "completion_item uuid g env payload"
  let ?P = "\<lambda>h. held_by g h \<and> gn_state h = Capturing" let ?s = "seal_row (n_CaptureFinishedAt env) now"
  have h: "gn_generation h = gn_generation g" "gn_source h = gn_source g" "gn_seq h = gn_seq g" "gn_binding h = gn_binding g"
    using assms(4) by (simp_all add: same_identity_def)
  note d = gen_okD [OF good_row [OF assms(1,3)], unfolded h(1)]
  have wf: "runs_wf J" "gens_wf J" "rows_home J" using assms(1) unfolding good_def fst_conv by blast+
  have o: "ox_generation ?o = gn_generation g" "ox_kind ?o \<noteq> SnapshotKindBatch" "\<not> ox_published ?o"
    by (simp_all add: completion_item_def SnapshotKindBatch_def SnapshotKindComplete_def)
  have fresh: "ox_batch_id o2 \<noteq> ox_batch_id ?o" if "o2 \<in> set (d_outbox J)" "same_slot o2 ?o" for o2
  proof -
    have "o2 \<in> set (completions J (gn_generation g))" using that o(1,2) by (simp add: completions_def same_slot_def)
    then show ?thesis using d(5) [OF assms(5)] by simp
  qed
  note ins = outbox_insert_result [OF p(3) fresh]
  have out: "d_outbox J' = d_outbox J @ [?o]" by (simp add: J' ins(2))
  have gens: "d_generations J' = map (\<lambda>h. if ?P h then ?s h else h) (d_generations J)" by (simp add: J' ins(2) update_where_def)
  have rm: "runs_move J J'" by (rule runs_move_seal [OF assms(2)])
  have gm: "gens_move J J'" by (rule gens_move_seal [OF assms(2)])
  have lone: "x = h" if "x \<in> set (d_generations J)" "?P x" for x
    using same_generation [OF wf(2) that(1) assms(3)] that(2) h(1) by (simp add: held_by_def)
  obtain x where "x \<in> set (d_generations J)" "?P x" using affected_pos [of ?P "d_generations J1"] p(5) by (auto simp: ins(2))
  with lone have Ph: "?P h" by blast
  have sealed: "gn_generation (?s h) = gn_generation g" "gn_state (?s h) = Sealed" "gn_source (?s h) = gn_source h"
    using h(1) by (simp_all add: seal_row_def)
  have item: "item_of (wl_snap wl) (wl_json wl) (?s h) = item_of (wl_snap wl) (wl_json wl) h"
    by (rule item_of_row(1)) (simp_all add: seal_row_def)
  have bs: "batches J' (gn_generation g) = ?bs" "completions J' (gn_generation g) = [?o]"
    using o(1,2) d(5) [OF assms(5)] by (simp_all add: appended_rows [OF out])
  have comp: "completes (wl_snap wl) (wl_json wl) (?s h) ?bs ?o" unfolding completes_def
    using p(1,2) assms(9-12) h by (intro exI [of _ env]) (simp add: completion_item_def seal_row_def)
  have ok: "gen_ok cov whole wl J' (?s h)"
  proof (rule gen_okI [where envs = envs], unfold sealed bs item)
    show "progress (?s h) ?bs" using d(2) by (simp add: progress_def seal_row_def)
  qed (use d(1) assms(8,13-15) comp in simp_all)
  have moves: "gen_moves y (if ?P y then ?s y else y) \<and> keeps_holder y (if ?P y then ?s y else y)" for y
  proof (cases "?P y")
    case True
    then have "gen_moves y (?s y)" by (intro gen_moves_seal) simp
    then show ?thesis unfolding if_P [OF True] by (simp add: keeps_holder_def seal_row_def)
  next
    case False
    show ?thesis unfolding if_not_P [OF False] by simp
  qed
  have "good cov whole wl (J', k)"
  proof (rule appended_good [OF assms(1) out ins(3) o(3) assms(3) _ rm gm gens _ moves])
    show "gen_ok cov whole wl J' (if ?P h then ?s h else h)" unfolding if_P [OF Ph] by (rule ok)
    show "calm y (if ?P y then ?s y else y) \<or> gn_generation y = ox_generation ?o" for y
      using o(1) by (cases "?P y") (simp_all add: held_by_def)
    show "gn_generation h = ox_generation ?o" unfolding o(1) by (rule h(1))
  qed
  moreover have "rely v (J, k) (J', k)" if "v \<noteq> w"
  proof (rule appended_rely [OF wf(2) out assms(3) _ _ rm _ gens moves])
    show "running v J \<Longrightarrow> running v J'"
      using that assms(7) running_exec [of v J "OpSeal g env rows uuid now" "wl_snap wl" "wl_json wl"]
      by (simp add: ends_run_def kept_def assms(2))
    show "(if ?P y then ?s y else y) = y" if "y \<noteq> h" "y \<in> set (d_generations J)" for y
      using lone [OF that(2)] that(1) by auto
    show "gn_generation h = ox_generation ?o" unfolding o(1) by (rule h(1))
    show "gn_run h \<noteq> v" using that assms(6) by simp
  qed
  moreover have "\<not> running w J'"
  proof
    assume "running w J'"
    obtain r where r: "r \<in> set (d_runs J)" "rn_id r = w" "holds_lease (gn_owner g) (gn_lease g) now r"
      using p(4) assms(7) by (auto simp: generation_fence_def elim: fence_row)
    have runs: "d_runs J' = update_where (\<lambda>r. rn_id r = gn_run g \<and> rn_status r = Running \<and> rn_owner r = gn_owner g \<and>
        rn_lease_epoch r = gn_lease g \<and> \<not> rn_cancel_requested r) (succeed_row rows now) (d_runs J)" by (simp add: J' ins(2))
    obtain r' where r': "r' \<in> set (d_runs J')" "rn_id r' = w" "rn_status r' = Running" using \<open>running w J'\<close> unfolding running_def by blast
    then obtain r0 where r0: "r0 \<in> set (d_runs J)" "r' = (if rn_id r0 = gn_run g \<and> rn_status r0 = Running \<and> rn_owner r0 = gn_owner g \<and>
        rn_lease_epoch r0 = gn_lease g \<and> \<not> rn_cancel_requested r0 then succeed_row rows now r0 else r0)"
      using gens_updated [OF r'(1) [unfolded runs]] by blast
    have "rn_id r0 = w" using r0(2) r'(2) by (auto simp: succeed_row_def split: if_splits)
    then have "r0 = r" using run_unique [OF wf(1) r0(1) r(1)] r(2) by simp
    then show False using r0(2) r(2,3) r'(3) assms(7) by (simp add: holds_lease_def succeed_row_def)
  qed
  ultimately show ?thesis using ins(1) out o(1) by simp
qed

end
