(* ===== verification/Calls.thy ===== *)
theory Calls
  imports Sealing
begin

text \<open>
  The engine's calls under the invariant of capture: which calls read, which are operations of the
  control plane, what a worker knows of the generation it holds and why that outlives the moves of
  others, and the rules by which a program of calls is shown safe.
\<close>

section \<open>Calls\<close>

lemma send_more: "send p k = (e, k') \<Longrightarrow> \<exists>new. k_stream k' = k_stream k @ new \<and> (e = None \<longrightarrow> p \<in> set new)"
  by (auto simp: send_def split: publish_answer.splits)

lemma published_envelope:
  assumes "PublishSnapshotEnvelope wl q env k = (e, k')"
  shows "\<exists>new. k_stream k' = k_stream k @ new \<and>
    (e = None \<longrightarrow> (\<exists>p \<in> set new. MarshalSnapshotEnvelope (wl_snap wl) (wl_json wl) env = Inr (pb_body p)))"
proof (cases "MarshalSnapshotEnvelope (wl_snap wl) (wl_json wl) env")
  case (Inl err)
  with assms show ?thesis by (auto simp: PublishSnapshotEnvelope_def split: if_splits)
next
  case (Inr body)
  let ?p = "\<lparr>pb_subject = q_connectorSubject q, pb_body = body, pb_id = Some (snapshot_msg_id env)\<rparr>"
  show ?thesis
  proof (cases "q_js q \<and> \<not> refused_admission q k")
    case False
    with assms Inr show ?thesis by (auto simp: PublishSnapshotEnvelope_def split: if_splits)
  next
    case True
    obtain e1 k1 where s: "send ?p k = (e1, k1)" by fastforce
    then obtain new where new: "k_stream k1 = k_stream k @ new" "e1 = None \<longrightarrow> ?p \<in> set new" using send_more by blast
    have "k_stream k' = k_stream k1 \<and> (e = None \<longrightarrow> e1 = None)"
      using assms Inr True s by (auto simp: PublishSnapshotEnvelope_def Let_def observe_def split: if_splits prod.splits)
    with new Inr show ?thesis by force
  qed
qed

lemma published_external: "publishExternalEnvelope wl q batch k = (e, k') \<Longrightarrow> \<exists>new. k_stream k' = k_stream k @ new"
proof -
  assume a: "publishExternalEnvelope wl q batch k = (e, k')"
  show ?thesis
  proof (cases "marshal_batch wl batch")
    case None
    with a show ?thesis by (simp add: publishExternalEnvelope_def)
  next
    case (Some body)
    let ?p = "\<lparr>pb_subject = q_connectorSubject q, pb_body = body, pb_id = (if q_js q then Some (bodyMsgID body) else None)\<rparr>"
    obtain e1 k1 where s: "send ?p k = (e1, k1)" by fastforce
    then obtain new where "k_stream k1 = k_stream k @ new" using send_more by blast
    moreover have "k_stream k' = k_stream k1 \<or> k_stream k' = k_stream k"
      using a Some s by (auto simp: publishExternalEnvelope_def Let_def observe_def split: if_splits prod.splits option.splits)
    ultimately show ?thesis by auto
  qed
qed

lemma published_incremental:
  "publish_incremental wl q src r i css k = (ne, k') \<Longrightarrow> \<exists>new. k_stream k' = k_stream k @ new"
proof (induction css arbitrary: i k)
  case (Cons chunk rest)
  then show ?case
    by (auto simp: Let_def split: option.splits prod.splits if_splits dest!: published_external) (metis append.assoc)
qed auto

fun reads_only :: "engine_call \<Rightarrow> bool" where
  "reads_only (CallRun project run) = True"
| "reads_only (CallJob sync) = True"
| "reads_only CallStopped = True"
| "reads_only CallNow = True"
| "reads_only (CallPending g) = True"
| "reads_only (CallRead i) = True"
| "reads_only (CallOpen job) = True"
| "reads_only (CallCheckKey bs t c) = True"
| "reads_only (CallPull bs q) = True"
| "reads_only (CallManifest i) = True"
| "reads_only q = False"

lemma answered_same: "answered oc f res s = (r, s') \<Longrightarrow> s' = s"
  by (auto simp: answered_def transacted_def split: if_splits sum.splits)

lemma read_call: "reads_only q \<Longrightarrow> perform lib oc q s = (r, s') \<Longrightarrow> s' = s"
  by (cases q) (auto dest: answered_same)

lemma answered_reply: "answered oc f res s = (r, s') \<Longrightarrow> (\<exists>m. r = Fault m) \<or> (\<exists>a. res = Inr a \<and> r = f a)"
  by (auto simp: answered_def transacted_def fault_of_def split: if_splits sum.splits)

lemma transacted_result:
  assumes "transacted oc f res (J, k) = (r, s')"
  obtains (same) m where "r = Fault m" "s' = (J, k)"
  | (made) a J' where "res = Inr (a, J')" "s' = (J', k)" "r = f a \<or> (\<exists>m. r = Fault m)"
  using assms by (auto simp: transacted_def fault_of_def split: if_splits sum.splits prod.splits)

text \<open>Every call that changes the tables is an operation of the control plane.\<close>

fun op_of_call :: "call_outcome \<Rightarrow> engine_call \<Rightarrow> control_op option" where
  "op_of_call oc (CallClaimRun run owner) = Some (OpClaimRun run owner (oc_now oc))"
| "op_of_call oc (CallCancelRun project run) = Some (OpCancel project run (oc_now oc))"
| "op_of_call oc (CallClaim job run owner epoch) = Some (OpClaimGen job run owner epoch (oc_uuid oc) (oc_now oc))"
| "op_of_call oc (CallMark g item) = Some (OpMark g item)"
| "op_of_call oc (CallPrepare g env lo hi) = Some (OpPrepare g env lo hi (oc_uuid oc) (oc_now oc))"
| "op_of_call oc (CallYield g) = Some (OpYield g (oc_now oc))"
| "op_of_call oc (CallFail g) = Some (OpFail g (oc_now oc))"
| "op_of_call oc (CallSeal g env rows) = Some (OpSeal g env rows (oc_uuid oc) (oc_now oc))"
| "op_of_call oc (CallCancelGeneration run owner epoch) = Some (OpCancelGen run owner epoch (oc_now oc))"
| "op_of_call oc (CallFinish run sync owner res cancelled) = Some (OpFinish run sync owner res cancelled (oc_now oc))"
| "op_of_call oc q = None"

lemma transacted_kept: "transacted oc f res (J, k) = (r, s') \<Longrightarrow> s' = (J, k) \<or> s' = (kept J res, k)"
  by (auto simp: transacted_def kept_def split: if_splits sum.splits prod.splits)

lemma kept_done: "kept J (done_with res) = kept_state J res"
  by (cases res) (simp_all add: kept_def kept_state_def done_with_def)

lemma control_call:
  assumes "op_of_call oc q = Some op" "perform lib oc q (J, k) = (r, s')"
  shows "s' = (J, k) \<or> s' = (control_exec (wl_snap (en_wire lib)) (wl_json (en_wire lib)) op J, k)"
proof (cases q)
  case (CallClaimRun run owner)
  with assms show ?thesis
    by (cases "ClaimConnectorRun run owner (oc_now oc) J") (auto simp: kept_def dest!: transacted_kept)
next
  case (CallCancelGeneration run owner epoch)
  with assms show ?thesis by (auto simp: kept_def dest!: transacted_kept)
qed (use assms in \<open>auto simp: kept_done dest: transacted_kept\<close>)

lemma other_call:
  assumes "op_of_call oc q = None" "perform lib oc q (J, k) = (r, s')"
  shows "fst s' = J \<and> (\<exists>new. k_stream (snd s') = k_stream k @ new)"
proof (cases "reads_only q")
  case True
  then show ?thesis using read_call [OF True assms(2)] by simp
next
  case False
  then show ?thesis
  proof (cases q)
    case (CallPublish env)
    obtain e k' where p: "PublishSnapshotEnvelope (en_wire lib) (en_queue lib) env k = (e, k')" by fastforce
    with assms(2) CallPublish show ?thesis using published_envelope [OF p] by (auto simp: published_reply_def)
  next
    case (CallBatch src receipt rows)
    obtain n e k' where p: "PublishIncrementalBatch (en_wire lib) (en_queue lib) src receipt rows k = ((n, e), k')" by (metis prod.exhaust)
    with assms(2) CallBatch show ?thesis using published_incremental [OF p [unfolded PublishIncrementalBatch_def]] by auto
  next
    case (CallComplete src receipt)
    obtain e k' where p: "PublishIncrementalComplete (en_wire lib) (en_queue lib) src receipt k = (e, k')" by fastforce
    with assms(2) CallComplete show ?thesis
      using published_external [OF p [unfolded PublishIncrementalComplete_def]] by (auto simp: published_reply_def)
  qed (use assms(1) in simp_all)
qed

lemma call_runs: "perform lib oc q s = (r, s') \<Longrightarrow> runs_move (fst s) (fst s')"
proof (cases "op_of_call oc q")
  case None
  assume "perform lib oc q s = (r, s')"
  then show ?thesis using other_call [OF None, of lib "fst s" "snd s"] by (simp add: runs_move_same)
next
  case (Some op)
  assume "perform lib oc q s = (r, s')"
  then show ?thesis using control_call [OF Some, of lib "fst s" "snd s"] exec_runs_move runs_move_same by auto
qed
section \<open>The pool\<close>

text \<open>A claimed generation takes a fresh identifier, and the source is one of \<open>S\<close>.\<close>

definition allowed :: "(source_db \<Rightarrow> bool) \<Rightarrow> call_outcome \<Rightarrow> engine_call \<Rightarrow> engine_world \<Rightarrow> bool" where
  "allowed S oc q s \<longleftrightarrow> S (oc_source oc) \<and>
     (case q of
        CallClaim job run owner epoch \<Rightarrow> \<not> list_ex (\<lambda>g. gn_generation g = oc_uuid oc) (d_generations (fst s))
      | _ \<Rightarrow> True)"

text \<open>Around the workers: every other operation of the control plane, and messages of other publishers.
  The run of a worker is neither finished by others nor found stale while the worker lives: that is
  what the heartbeat is for.\<close>

definition surroundings :: "'ip engine_lib \<Rightarrow> string set \<Rightarrow> engine_world \<Rightarrow> engine_world \<Rightarrow> bool" where
  "surroundings lib ws s s' \<longleftrightarrow>
     (\<exists>op. quiet_op op \<and> (\<forall>w \<in> ws. \<not> ends_run w op (fst s)) \<and>
        s' = (control_exec (wl_snap (en_wire lib)) (wl_json (en_wire lib)) op (fst s), snd s)) \<or>
     fst s' = fst s \<and> (\<exists>new. k_stream (snd s') = k_stream (snd s) @ new)"

text \<open>A worker starts when its engine claims a queued run.\<close>

definition takes_run :: "'ip engine_lib \<Rightarrow> engine_world \<Rightarrow> string \<Rightarrow> unit engine_prog \<Rightarrow> engine_world \<Rightarrow> bool" where
  "takes_run lib s w p s' \<longleftrightarrow>
     (\<exists>project owner now r. ClaimConnectorRun w owner now (fst s) = (Some r, fst s') \<and> snd s' = snd s \<and>
        p = execute_claimed lib owner project r)"

abbreviation engine_safe ::
  "(source_db \<Rightarrow> bool) \<Rightarrow> (source_key \<Rightarrow> snapshot_row list \<Rightarrow> bool) \<Rightarrow> (source_key \<Rightarrow> snapshot_row list \<Rightarrow> bool) \<Rightarrow>
     'ip engine_lib \<Rightarrow> string \<Rightarrow> 'a engine_prog \<Rightarrow> engine_world \<Rightarrow> bool" where
  "engine_safe S cov whole lib \<equiv> safe (allowed S) (perform lib) (good cov whole (en_wire lib)) rely"

section \<open>What a worker knows of the generation it holds\<close>

definition batch_rows :: "outbox_row list \<Rightarrow> outbox_row list" where
  "batch_rows os = filter (\<lambda>o1. ox_kind o1 = SnapshotKindBatch) os"

definition at_rows :: "string \<Rightarrow> generation_row \<Rightarrow> (outbox_row list \<Rightarrow> bool) \<Rightarrow> engine_world \<Rightarrow> bool" where
  "at_rows w g Q s \<longleftrightarrow> running w (fst s) \<and> gn_run g = w \<and> Q (rows_of (fst s) (gn_generation g)) \<and>
     (\<exists>h \<in> set (d_generations (fst s)). same_identity g h \<and> gn_run h = w \<and> (gn_state h = Sealed \<longrightarrow> gn_state g = Sealed))"

definition pending_in :: "string set \<Rightarrow> outbox_row list \<Rightarrow> bool" where
  "pending_in ids os \<longleftrightarrow> (\<forall>o1 \<in> set os. \<not> ox_published o1 \<longrightarrow> ox_id o1 \<in> ids)"

definition clean :: "wire_lib \<Rightarrow> generation_row \<Rightarrow> snapshot_envelope list \<Rightarrow> outbox_row list \<Rightarrow> bool" where
  "clean wl g envs os \<longleftrightarrow> list_all ox_published os \<and> list_all2 (item_of (wl_snap wl) (wl_json wl) g) envs (batch_rows os)"

definition synced ::
  "(source_key \<Rightarrow> snapshot_row list \<Rightarrow> bool) \<Rightarrow> wire_lib \<Rightarrow> string \<Rightarrow> generation_row \<Rightarrow> snapshot_envelope list \<Rightarrow> engine_world \<Rightarrow> bool" where
  "synced cov wl w g envs s \<longleftrightarrow> gn_state g \<noteq> Sealed \<and> at_rows w g (clean wl g envs) s \<and> gn_next g = int (length envs) \<and>
     gn_rows g = int (length (content envs)) \<and> gn_key g = (if content envs = [] then '''' else w_Key (last (content envs))) \<and>
     cov (gn_source g) (content envs)"

definition prepared :: "wire_lib \<Rightarrow> generation_row \<Rightarrow> snapshot_envelope list \<Rightarrow> outbox_row \<Rightarrow> outbox_row list \<Rightarrow> bool" where
  "prepared wl g envs item os \<longleftrightarrow> pending_in {ox_id item} os \<and> list_all2 (item_of (wl_snap wl) (wl_json wl) g) envs (batch_rows os)"

lemma batches_rows: "batches J G = batch_rows (rows_of J G)"
  by (simp add: batches_def batch_rows_def rows_of_def conj_commute)

lemma flags_published: "list_all2 flag_le os os' \<Longrightarrow> list_all ox_published os \<Longrightarrow> os' = os"
  by (induction rule: list_all2_induct) (auto simp: flag_le_def)

lemma flags_pending: "list_all2 flag_le os os' \<Longrightarrow> pending_in ids os \<Longrightarrow> pending_in ids os'"
  by (induction rule: list_all2_induct) (auto simp: flag_le_def pending_in_def)

lemma flags_items:
  "list_all2 flag_le os os' \<Longrightarrow> list_all2 (item_of slib jl g) envs (batch_rows os) \<Longrightarrow> list_all2 (item_of slib jl g) envs (batch_rows os')"
proof (induction arbitrary: envs rule: list_all2_induct)
  case (Cons o1 os o2 os')
  have i: "item_of slib jl g e o2 = item_of slib jl g e o1" "ox_kind o2 = ox_kind o1" for e
    using Cons(1) by (auto simp: flag_le_def item_of_row(2))
  show ?case
  proof (cases "ox_kind o1 = SnapshotKindBatch")
    case True
    then obtain e es where "envs = e # es" "item_of slib jl g e o1" "list_all2 (item_of slib jl g) es (batch_rows os)"
      using Cons.prems by (auto simp: batch_rows_def list_all2_Cons2)
    then show ?thesis using Cons.IH True i by (simp add: batch_rows_def)
  next
    case False
    then show ?thesis using Cons.IH Cons.prems i by (simp add: batch_rows_def)
  qed
qed (simp add: batch_rows_def)

lemma flags_prepared: "list_all2 flag_le os os' \<Longrightarrow> prepared wl g envs item os \<Longrightarrow> prepared wl g envs item os'"
  using flags_pending flags_items unfolding prepared_def by blast

lemma flags_clean: "list_all2 flag_le os os' \<Longrightarrow> clean wl g envs os \<Longrightarrow> clean wl g envs os'"
  using flags_published unfolding clean_def by blast

lemma same_identity_trans: "same_identity f g \<Longrightarrow> same_identity g h \<Longrightarrow> same_identity f h"
  by (simp add: same_identity_def)

lemma held_row:
  assumes "rely w s s'" "good cov whole wl s'" "running w (fst s)" "h \<in> set (d_generations (fst s))" "gn_run h = w"
  obtains h' where "h' \<in> set (d_generations (fst s'))" "same_identity h h'" "gn_run h' = w" "gn_state h' = Sealed \<longrightarrow> gn_state h = Sealed"
    "list_all2 flag_le (rows_of (fst s) (gn_generation h)) (rows_of (fst s') (gn_generation h))"
proof -
  have wf: "gens_wf (fst s')" using assms(2) by (simp add: good_def)
  have "held w (fst s) (fst s')" "gens_grow (fst s) (fst s')" using assms(1,3) unfolding rely_def by blast+
  then obtain h1 h2 where h: "h1 \<in> set (d_generations (fst s'))" "gn_generation h1 = gn_generation h" "gn_run h1 = gn_run h"
    "gn_state h1 = Sealed \<longrightarrow> gn_state h = Sealed" "list_all2 flag_le (rows_of (fst s) (gn_generation h)) (rows_of (fst s') (gn_generation h))"
    "h2 \<in> set (d_generations (fst s'))" "gen_moves h h2"
    using assms(4,5) unfolding held_def gens_grow_def by blast
  have "h1 = h2" using same_generation [OF wf h(1,6)] h(2,7) by (simp add: gen_moves_def)
  then have "same_identity h h1" using h(7) by (simp add: gen_moves_def same_identity_def)
  then show thesis using that h(1,3,4,5) assms(5) by blast
qed

lemma at_rows_stable:
  assumes "rely w s s'" "good cov whole wl s'" "at_rows w g Q s" "\<And>os os'. list_all2 flag_le os os' \<Longrightarrow> Q os \<Longrightarrow> Q os'"
  shows "at_rows w g Q s'"
proof -
  obtain h where h: "h \<in> set (d_generations (fst s))" "same_identity g h" "gn_run h = w" "gn_state h = Sealed \<longrightarrow> gn_state g = Sealed"
    and a: "running w (fst s)" "gn_run g = w" "Q (rows_of (fst s) (gn_generation g))" using assms(3) unfolding at_rows_def by blast
  obtain h' where h': "h' \<in> set (d_generations (fst s'))" "same_identity h h'" "gn_run h' = w" "gn_state h' = Sealed \<longrightarrow> gn_state h = Sealed"
    "list_all2 flag_le (rows_of (fst s) (gn_generation h)) (rows_of (fst s') (gn_generation h))"
    by (rule held_row [OF assms(1,2) a(1) h(1,3)])
  have "gn_generation h = gn_generation g" using h(2) by (simp add: same_identity_def)
  then have "Q (rows_of (fst s') (gn_generation g))" using assms(4) [OF h'(5)] a(3) by simp
  moreover have "running w (fst s')" using assms(1) a(1) by (simp add: rely_def)
  ultimately show ?thesis
    using a(2) h' h(4) same_identity_trans [OF h(2) h'(2)] unfolding at_rows_def by blast
qed

lemma synced_stable: "rely w s s' \<Longrightarrow> good cov whole wl s' \<Longrightarrow> synced cov wl w g envs s \<Longrightarrow> synced cov wl w g envs s'"
  unfolding synced_def using at_rows_stable [of w s s' cov whole wl g "clean wl g envs"] flags_clean by blast

lemma at_rows_weaken: "at_rows w g Q s \<Longrightarrow> (\<And>os. Q os \<Longrightarrow> R os) \<Longrightarrow> at_rows w g R s"
  by (auto simp: at_rows_def)

lemma at_rows_row:
  assumes "at_rows w g Q s" "good cov whole wl s"
  obtains h where "h \<in> set (d_generations (fst s))" "same_identity g h" "gn_run h = w" "gn_state h = Sealed \<longrightarrow> gn_state g = Sealed"
    "gen_ok cov whole wl (fst s) h"
  using assms good_row [of cov whole wl "fst s" "snd s"] unfolding at_rows_def by auto

lemma not_sealed_rows:
  assumes "gen_ok cov whole wl J h" "gn_state h \<noteq> Sealed"
  shows "batch_rows (rows_of J (gn_generation h)) = rows_of J (gn_generation h)"
proof -
  have "\<not> (o1 \<in> set (d_outbox J) \<and> ox_generation o1 = gn_generation h \<and> ox_kind o1 \<noteq> SnapshotKindBatch)" for o1
    using gen_okD(5) [OF assms] unfolding completions_def filter_empty_conv by blast
  then show ?thesis unfolding batch_rows_def rows_of_def by (intro filter_id_conv [THEN iffD2]) auto
qed

text \<open>The row of a generation without pending batches says how far the capture is.\<close>

lemma read_row:
  assumes "at_rows w g (list_all ox_published) s" "good cov whole wl s" "SnapshotGeneration (gn_generation g) (fst s) = Inr g'"
  shows "same_identity g g'" "gn_run g' = w" "gn_state g' = Sealed \<longrightarrow> gn_state g = Sealed"
    "gn_state g' \<noteq> Sealed \<Longrightarrow> list_all2 (item_of (wl_snap wl) (wl_json wl) g) envs (batches (fst s) (gn_generation g)) \<Longrightarrow>
       cov (gn_source g) (content envs) \<Longrightarrow> synced cov wl w g' envs s"
    "gn_state g' \<noteq> Sealed \<Longrightarrow> \<exists>envs. synced cov wl w g' envs s"
proof -
  obtain h where h: "h \<in> set (d_generations (fst s))" "same_identity g h" "gn_run h = w" "gn_state h = Sealed \<longrightarrow> gn_state g = Sealed"
    "gen_ok cov whole wl (fst s) h" by (rule at_rows_row [OF assms(1,2)])
  have wf: "gens_wf (fst s)" using assms(2) by (simp add: good_def)
  have "g' \<in> set (d_generations (fst s)) \<and> gn_generation g' = gn_generation g"
    using assms(3) by (auto simp: SnapshotGeneration_def dest: find_SomeD split: option.splits)
  then have g': "g' = h" using same_generation [OF wf _ h(1)] h(2) by (simp add: same_identity_def)
  show "same_identity g g'" "gn_run g' = w" "gn_state g' = Sealed \<longrightarrow> gn_state g = Sealed" using h g' by auto
  have id: "gn_generation h = gn_generation g" "gn_source h = gn_source g" "gn_seq h = gn_seq g" "gn_binding h = gn_binding g"
    using h(2) by (simp_all add: same_identity_def)
  have item: "item_of (wl_snap wl) (wl_json wl) h = item_of (wl_snap wl) (wl_json wl) g" by (rule item_of_row(1) [OF id(1,3,4,2)])
  have pub: "list_all ox_published (rows_of (fst s) (gn_generation g))" using assms(1) by (simp add: at_rows_def)
  note d = gen_okD [OF h(5), unfolded id]
  have s: "synced cov wl w g' envs s" if "gn_state g' \<noteq> Sealed"
    "list_all2 (item_of (wl_snap wl) (wl_json wl) g) envs (batches (fst s) (gn_generation g))" "cov (gn_source g) (content envs)" for envs
  proof -
    have b: "filter ox_published (batches (fst s) (gn_generation g)) = batches (fst s) (gn_generation g)"
      using pub by (intro filter_id_conv [THEN iffD2]) (simp add: batches_rows batch_rows_def list_all_iff)
    have "clean wl h envs (rows_of (fst s) (gn_generation h))"
      using pub that(2) by (simp add: clean_def id item batches_rows)
    then have "at_rows w h (clean wl h envs) s"
      using assms(1) h(1,3) unfolding at_rows_def by (auto simp: same_identity_def)
    moreover have "progress h (batches (fst s) (gn_generation g))" using d(2) .
    ultimately show ?thesis
      using that items_sizes [OF that(2)] by (simp add: synced_def g' progress_def b id)
  qed
  then show "gn_state g' \<noteq> Sealed \<Longrightarrow> list_all2 (item_of (wl_snap wl) (wl_json wl) g) envs (batches (fst s) (gn_generation g)) \<Longrightarrow>
       cov (gn_source g) (content envs) \<Longrightarrow> synced cov wl w g' envs s" by blast
  show "gn_state g' \<noteq> Sealed \<Longrightarrow> \<exists>envs. synced cov wl w g' envs s" using s d(3) unfolding item by blast
qed
section \<open>Calls of a safe program\<close>

declare safe.simps(2) [simp del]

text \<open>What a worker knows between its calls must survive the moves it relies on.\<close>

definition lasting ::
  "(source_key \<Rightarrow> snapshot_row list \<Rightarrow> bool) \<Rightarrow> (source_key \<Rightarrow> snapshot_row list \<Rightarrow> bool) \<Rightarrow> wire_lib \<Rightarrow> string \<Rightarrow>
     (engine_world \<Rightarrow> bool) \<Rightarrow> bool" where
  "lasting cov whole wl w P \<longleftrightarrow> (\<forall>s s'. rely w s s' \<longrightarrow> good cov whole wl s' \<longrightarrow> P s \<longrightarrow> P s')"

definition free_call :: "string \<Rightarrow> engine_call \<Rightarrow> bool" where
  "free_call w q \<longleftrightarrow> (\<forall>oc. op_of_call oc q = None \<or>
     (\<exists>op. op_of_call oc q = Some op \<and> quiet_op op \<and> (\<forall>v J. v \<noteq> w \<longrightarrow> \<not> ends_run v op J)))"

lemma quiet_same: "quiet_step J J"
  unfolding quiet_step_def by (auto simp: runs_move_same gens_move_def intro!: exI [of _ "\<lambda>g. g"] gen_moves_refl)

lemma lasting_at_rows: "(\<And>os os'. list_all2 flag_le os os' \<Longrightarrow> Q os \<Longrightarrow> Q os') \<Longrightarrow> lasting cov whole wl w (at_rows w g Q)"
  unfolding lasting_def
proof (intro allI impI)
  fix s s' assume q: "\<And>os os'. list_all2 flag_le os os' \<Longrightarrow> Q os \<Longrightarrow> Q os'"
    and s: "rely w s s'" "good cov whole wl s'" "at_rows w g Q s"
  show "at_rows w g Q s'" by (rule at_rows_stable [OF s q])
qed

lemma lasting_synced: "lasting cov whole wl w (synced cov wl w g envs)"
  unfolding lasting_def using synced_stable by blast

lemma lasting_known: "lasting cov whole wl w (\<lambda>s. known item (fst s))"
  unfolding lasting_def
proof (intro allI impI)
  fix s s' assume r: "rely w s s'" and "known item (fst s)"
  then obtain o1 where o1: "o1 \<in> set (d_outbox (fst s))" "flag_le item o1" unfolding known_def by blast
  obtain xs new where x: "d_outbox (fst s') = xs @ new" "list_all2 flag_le (d_outbox (fst s)) xs"
    using r unfolding rely_def outbox_grows_def by blast
  obtain i where i: "i < length (d_outbox (fst s))" "d_outbox (fst s) ! i = o1" using o1(1) by (metis in_set_conv_nth)
  have "flag_le o1 (xs ! i)" using list_all2_nthD [OF x(2) i(1)] i(2) by simp
  moreover have "xs ! i \<in> set xs" using i(1) list_all2_lengthD [OF x(2)] by simp
  ultimately show "known item (fst s')" using flag_le_trans [OF o1(2)] x(1) unfolding known_def by auto
qed

lemma lasting_carried: "lasting cov whole wl w (\<lambda>s. carried wl p (snd s))"
  unfolding lasting_def rely_def using carried_more by blast

lemma lasting_conj: "lasting cov whole wl w P \<Longrightarrow> lasting cov whole wl w Q \<Longrightarrow> lasting cov whole wl w (\<lambda>s. P s \<and> Q s)"
  unfolding lasting_def by blast

lemma lasting_const: "lasting cov whole wl w (\<lambda>s. b)"
  by (simp add: lasting_def)

lemma lasting_imp: "lasting cov whole wl w P \<Longrightarrow> lasting cov whole wl w (\<lambda>s. b \<longrightarrow> P s)"
  unfolding lasting_def by blast

lemma lasting_all: "(\<And>x. x \<in> X \<Longrightarrow> lasting cov whole wl w (P x)) \<Longrightarrow> lasting cov whole wl w (\<lambda>s. \<forall>x \<in> X. P x s)"
  unfolding lasting_def by blast

lemma safe_ask:
  assumes "P s" "lasting cov whole (en_wire lib) w P"
    and "\<And>s1 oc r s2. P s1 \<Longrightarrow> good cov whole (en_wire lib) s1 \<Longrightarrow> allowed S oc q s1 \<Longrightarrow> perform lib oc q s1 = (r, s2) \<Longrightarrow>
      good cov whole (en_wire lib) s2 \<and> (\<forall>v. v \<noteq> w \<longrightarrow> rely v s1 s2) \<and> engine_safe S cov whole lib w (k r) s2"
  shows "engine_safe S cov whole lib w (Ask q k) s"
  using assms unfolding safe.simps(2) lasting_def by blast

lemma still_call:
  assumes "op_of_call oc q = None" "perform lib oc q s = (r, s')" "good cov whole wl s"
  shows "good cov whole wl s' \<and> rely v s s'"
proof -
  obtain J k where s: "s = (J, k)" by (cases s)
  obtain J' k' where s': "s' = (J', k')" by (cases s')
  from other_call [OF assms(1)] assms(2) obtain new where n: "J' = J" "k_stream k' = k_stream k @ new"
    unfolding s s' by fastforce
  show ?thesis using quiet_good [OF quiet_same _ n(2)] quiet_rely [OF quiet_same n(2)] assms(3) unfolding s s' n(1) by blast
qed

text \<open>A call that reads, publishes, or makes a quiet operation on the worker's own run needs nothing.\<close>

lemma free_call_step:
  assumes "free_call w q" "perform lib oc q s = (r, s')" "good cov whole wl s"
  shows "good cov whole wl s' \<and> (\<forall>v. v \<noteq> w \<longrightarrow> rely v s s')"
proof (cases "op_of_call oc q")
  case None
  then show ?thesis using still_call [OF None assms(2,3)] by blast
next
  case (Some op)
  obtain J k where s: "s = (J, k)" by (cases s)
  have op: "quiet_op op" "\<And>v J. v \<noteq> w \<Longrightarrow> \<not> ends_run v op J"
    using spec [OF assms(1) [unfolded free_call_def], of oc] Some by simp_all
  from control_call [OF Some] assms(2) consider (same) "s' = (J, k)"
    | (made) "s' = (control_exec (wl_snap (en_wire lib)) (wl_json (en_wire lib)) op J, k)" unfolding s by blast
  then show ?thesis
  proof cases
    case same
    then show ?thesis using assms(3) s by simp
  next
    case made
    have n: "k_stream k = k_stream k @ []" by simp
    note q = quiet_exec [OF op(1), of J "wl_snap (en_wire lib)" "wl_json (en_wire lib)"]
    show ?thesis unfolding made s using quiet_good [OF q _ n] quiet_rely [OF q n] running_exec op(2) assms(3) s by blast
  qed
qed

lemma safe_free:
  assumes "free_call w q" "\<And>r s. engine_safe S cov whole lib w (k r) s"
  shows "engine_safe S cov whole lib w (Ask q k) s"
proof (rule safe_ask [OF _ lasting_const [of _ _ _ _ True]])
  fix s1 oc r s2 assume "good cov whole (en_wire lib) s1" "perform lib oc q s1 = (r, s2)"
  then show "good cov whole (en_wire lib) s2 \<and> (\<forall>v. v \<noteq> w \<longrightarrow> rely v s1 s2) \<and> engine_safe S cov whole lib w (k r) s2"
    using free_call_step [OF assms(1)] assms(2) by blast
qed simp

lemma safe_read:
  assumes "reads_only q" "P s" "lasting cov whole (en_wire lib) w P"
    and "\<And>s1 oc r. P s1 \<Longrightarrow> good cov whole (en_wire lib) s1 \<Longrightarrow> allowed S oc q s1 \<Longrightarrow> perform lib oc q s1 = (r, s1) \<Longrightarrow>
      engine_safe S cov whole lib w (k r) s1"
  shows "engine_safe S cov whole lib w (Ask q k) s"
proof (rule safe_ask [OF assms(2,3)])
  fix s1 oc r s2 assume p: "P s1" "good cov whole (en_wire lib) s1" "allowed S oc q s1" "perform lib oc q s1 = (r, s2)"
  have "s2 = s1" by (rule read_call [OF assms(1) p(4)])
  then show "good cov whole (en_wire lib) s2 \<and> (\<forall>v. v \<noteq> w \<longrightarrow> rely v s1 s2) \<and> engine_safe S cov whole lib w (k r) s2"
    using p assms(4) by simp
qed

lemma safe_publish:
  assumes "P s" "lasting cov whole (en_wire lib) w P"
    and "\<And>s2 r. P s2 \<Longrightarrow> (r = Ack \<Longrightarrow> \<exists>p \<in> set (k_stream (snd s2)). MarshalSnapshotEnvelope (wl_snap (en_wire lib)) (wl_json (en_wire lib)) env = Inr (pb_body p)) \<Longrightarrow>
      engine_safe S cov whole lib w (k r) s2"
  shows "engine_safe S cov whole lib w (Ask (CallPublish env) k) s"
proof (rule safe_ask [OF assms(1,2)])
  fix s1 oc r s2 assume p: "P s1" "good cov whole (en_wire lib) s1" "perform lib oc (CallPublish env) s1 = (r, s2)"
  have st: "good cov whole (en_wire lib) s2" "rely v s1 s2" for v using still_call [OF _ p(3,2), of v] by simp_all
  then have "P s2" using assms(2) p(1) unfolding lasting_def by blast
  moreover have "\<exists>p \<in> set (k_stream (snd s2)). MarshalSnapshotEnvelope (wl_snap (en_wire lib)) (wl_json (en_wire lib)) env = Inr (pb_body p)" if "r = Ack"
  proof -
    obtain e k' where pe: "PublishSnapshotEnvelope (en_wire lib) (en_queue lib) env (snd s1) = (e, k')" by fastforce
    with p(3) that have "e = None" "s2 = (fst s1, k')" by (auto simp: published_reply_def split: if_splits)
    then show ?thesis using published_envelope [OF pe] by auto
  qed
  ultimately show "good cov whole (en_wire lib) s2 \<and> (\<forall>v. v \<noteq> w \<longrightarrow> rely v s1 s2) \<and> engine_safe S cov whole lib w (k r) s2"
    using st assms(3) by blast
qed

lemma safe_and_then:
  assumes "engine_safe S cov whole lib w p s" "\<And>a s. engine_safe S cov whole lib w (f a) s"
  shows "engine_safe S cov whole lib w (and_then p f) s"
  using assms(1)
proof (induction p arbitrary: s)
  case (Return a)
  then show ?case using assms(2) by simp
next
  case (Ask q k)
  then show ?case unfolding and_then.simps safe.simps(2) by blast
qed

end
