(* ===== verification/Capture.thy ===== *)
theory Capture
  imports Calls
begin

text \<open>
  Every program the engine runs for a claimed run is safe: draining the outbox, publishing a page,
  pulling the pages, sealing, yielding, the incremental pull and the end of the run. What the pages of a source say
  of the rows captured so far is the locale \<open>capture_source\<close>; under it any number of workers keep the invariant.
\<close>

section \<open>Draining the outbox\<close>

lemma known_self: "item \<in> set (d_outbox J) \<Longrightarrow> known item J"
  unfolding known_def using flag_le_refl by blast

lemma pending_items:
  assumes "PendingSnapshotOutbox g J = items"
  shows "set items = {o1 \<in> set (rows_of J (gn_generation g)). \<not> ox_published o1}"
  unfolding assms [symmetric] PendingSnapshotOutbox_def rows_of_def by auto

text \<open>While the run is running, \<open>b\<close>, the pending rows are among the items still to publish.\<close>

definition draining :: "bool \<Rightarrow> string \<Rightarrow> generation_row \<Rightarrow> outbox_row list \<Rightarrow> engine_world \<Rightarrow> bool" where
  "draining b w g items s \<longleftrightarrow> (b \<longrightarrow> at_rows w g (pending_in (ox_id ` set items)) s) \<and>
     (\<forall>item \<in> set items. known item (fst s)) \<and> (\<forall>item \<in> set items. ox_generation item = gn_generation g)"

lemma lasting_draining: "lasting cov whole wl w (draining b w g items)"
proof -
  have "lasting cov whole wl w (\<lambda>s. b \<longrightarrow> at_rows w g (pending_in (ox_id ` set items)) s)"
    by (rule lasting_imp, rule lasting_at_rows, rule flags_pending)
  moreover have "lasting cov whole wl w (\<lambda>s. \<forall>item \<in> set items. known item (fst s))"
    by (rule lasting_all, rule lasting_known)
  ultimately show ?thesis unfolding draining_def lasting_def by blast
qed

lemma parsed_carried:
  assumes "ParseSnapshotEnvelope (wl_snap wl) (wl_json wl) payload = Inr env" "p \<in> set (k_stream k)"
    and "MarshalSnapshotEnvelope (wl_snap wl) (wl_json wl) env = Inr (pb_body p)"
  shows "carried wl payload k"
  unfolding carried_def list_ex_iff using assms by auto

lemma marked_draining:
  assumes "draining b w g (item # items) s" "good cov whole wl s" "fst s' = J'" "snd s' = snd s"
    and "MarkSnapshotOutboxPublished g item (fst s) = Inr J'" "carried wl (ox_payload item) (snd s)"
  shows "good cov whole wl s' \<and> rely v s s' \<and> draining b w g items s'"
proof -
  obtain J k where s: "s = (J, k)" by (cases s)
  then have s': "s' = (J', k)" using assms(3,4) by (cases s') simp
  have item: "known item J" "ox_generation item = gn_generation g" using assms(1) unfolding draining_def s by auto
  have m: "good cov whole wl s'" "rely v s s'" "\<And>o2. o2 \<in> set (d_outbox J') \<Longrightarrow> ox_id o2 = ox_id item \<Longrightarrow> ox_published o2" for v
    using mark_step [OF assms(2) [unfolded s] assms(5) [unfolded s fst_conv] item assms(6) [unfolded s snd_conv]] unfolding s s' by blast+
  have d: "draining b w g (item # items) s'"
    using lasting_draining assms(1) m(1) m(2) [of w] unfolding lasting_def by blast
  have "at_rows w g (pending_in (ox_id ` set items)) s'" if b
  proof -
    have a: "at_rows w g (pending_in (ox_id ` set (item # items))) s'" using d that unfolding draining_def by blast
    have "pending_in (ox_id ` set items) (rows_of J' (gn_generation g))"
      unfolding pending_in_def
    proof (intro ballI impI)
      fix o1 assume o1: "o1 \<in> set (rows_of J' (gn_generation g))" "\<not> ox_published o1"
      then have "ox_id o1 \<in> ox_id ` set (item # items)" using a unfolding at_rows_def pending_in_def s' by auto
      moreover have "ox_id o1 \<noteq> ox_id item" using m(3) o1 unfolding rows_of_def by auto
      ultimately show "ox_id o1 \<in> ox_id ` set items" by auto
    qed
    then show ?thesis using a unfolding at_rows_def s' by simp
  qed
  then show ?thesis using m(1,2) d unfolding draining_def by auto
qed

lemma safe_mark:
  assumes "P s" "lasting cov whole (en_wire lib) w P"
    and "\<And>s1 J'. P s1 \<Longrightarrow> good cov whole (en_wire lib) s1 \<Longrightarrow> MarkSnapshotOutboxPublished g item (fst s1) = Inr J' \<Longrightarrow>
      good cov whole (en_wire lib) (J', snd s1) \<and> (\<forall>v. rely v s1 (J', snd s1)) \<and> engine_safe S cov whole lib w (k Ack) (J', snd s1)"
    and "\<And>r s. r \<noteq> Ack \<Longrightarrow> engine_safe S cov whole lib w (k r) s"
  shows "engine_safe S cov whole lib w (Ask (CallMark g item) k) s"
proof (rule safe_ask [OF assms(1,2)])
  fix s1 oc r s2 assume p: "P s1" "good cov whole (en_wire lib) s1" "perform lib oc (CallMark g item) s1 = (r, s2)"
  have "transacted oc (\<lambda>_. Ack) (done_with (MarkSnapshotOutboxPublished g item (fst s1))) (fst s1, snd s1) = (r, s2)" using p(3) by simp
  then show "good cov whole (en_wire lib) s2 \<and> (\<forall>v. v \<noteq> w \<longrightarrow> rely v s1 s2) \<and> engine_safe S cov whole lib w (k r) s2"
  proof (cases rule: transacted_result)
    case (same m)
    then show ?thesis using p(2) assms(4) by simp
  next
    case (made a J')
    then have "MarkSnapshotOutboxPublished g item (fst s1) = Inr J'"
      by (cases "MarkSnapshotOutboxPublished g item (fst s1)") (simp_all add: done_with_def)
    from assms(3) [OF p(1,2) this] made(2,3) show ?thesis using assms(4) by auto
  qed
qed

lemma safe_drain_items:
  assumes "draining b w g items s"
    and "\<And>s. draining b w g [] s \<Longrightarrow> engine_safe S cov whole lib w (k None) s" "\<And>m s. engine_safe S cov whole lib w (k (Some m)) s"
  shows "engine_safe S cov whole lib w (drain_items lib g items k) s"
  using assms(1)
proof (induction items arbitrary: s)
  case Nil
  then show ?case using assms(2) by simp
next
  case (Cons item items)
  let ?wl = "en_wire lib"
  show ?case
  proof (cases "ParseSnapshotEnvelope (wl_snap ?wl) (wl_json ?wl) (ox_payload item)")
    case (Inl e)
    then show ?thesis using assms(3) by simp
  next
    case (Inr env)
    have "engine_safe S cov whole lib w (Ask (CallMark g item)
        (\<lambda>r. if r \<noteq> Ack then k (Some (error_text r)) else drain_items lib g items k)) s2"
      if d: "draining b w g (item # items) s2" and p: "p \<in> set (k_stream (snd s2))" "MarshalSnapshotEnvelope (wl_snap ?wl) (wl_json ?wl) env = Inr (pb_body p)" for s2 p
    proof (rule safe_mark [where P = "\<lambda>s. draining b w g (item # items) s \<and> carried ?wl (ox_payload item) (snd s)"])
      show "draining b w g (item # items) s2 \<and> carried ?wl (ox_payload item) (snd s2)" using d parsed_carried [OF Inr p] by blast
      show "lasting cov whole ?wl w (\<lambda>s. draining b w g (item # items) s \<and> carried ?wl (ox_payload item) (snd s))"
        by (intro lasting_conj lasting_draining lasting_carried)
      fix s1 J' assume a: "draining b w g (item # items) s1 \<and> carried ?wl (ox_payload item) (snd s1)" "good cov whole ?wl s1"
        "MarkSnapshotOutboxPublished g item (fst s1) = Inr J'"
      have m: "good cov whole ?wl (J', snd s1) \<and> rely v s1 (J', snd s1) \<and> draining b w g items (J', snd s1)" for v
        using marked_draining [OF conjunct1 [OF a(1)] a(2) _ _ a(3) conjunct2 [OF a(1)]] by simp
      then show "good cov whole ?wl (J', snd s1) \<and> (\<forall>v. rely v s1 (J', snd s1)) \<and>
          engine_safe S cov whole lib w (if Ack \<noteq> Ack then k (Some (error_text Ack)) else drain_items lib g items k) (J', snd s1)"
        using Cons.IH by simp
    qed (simp add: assms(3))
    then have "engine_safe S cov whole lib w (Ask (CallPublish env) (\<lambda>r. if r \<noteq> Ack then k (Some (error_text r))
        else Ask (CallMark g item) (\<lambda>r. if r \<noteq> Ack then k (Some (error_text r)) else drain_items lib g items k))) s"
      by (intro safe_publish [OF Cons.prems lasting_draining]) (auto simp: assms(3))
    then show ?thesis using Inr by simp
  qed
qed

lemma answered_read: "answered oc f res s = (r, s') \<Longrightarrow> r = f a \<Longrightarrow> (\<And>m. f a \<noteq> Fault m) \<Longrightarrow> (\<And>a b. f a = f b \<Longrightarrow> a = b) \<Longrightarrow> res = Inr a"
  using answered_reply by metis

lemma generation_reply:
  assumes "perform lib oc (CallRead i) s = (GotGeneration g, s')" shows "SnapshotGeneration i (fst s) = Inr g"
  using assms answered_reply [of oc GotGeneration "SnapshotGeneration i (fst s)" s] by auto

lemma pending_reply:
  assumes "perform lib oc (CallPending g) s = (GotItems items, s')" shows "PendingSnapshotOutbox g (fst s) = items"
  using assms answered_reply [of oc GotItems "Inr (PendingSnapshotOutbox g (fst s))" s] by auto

lemma none_pending: "pending_in {} = list_all ox_published"
  by (auto simp: fun_eq_iff pending_in_def list_all_iff)

lemma safe_drain:
  assumes "b \<Longrightarrow> at_rows w g (\<lambda>_. True) s"
    and "\<And>e s. engine_safe S cov whole lib w (k (Inl e)) s"
    and "\<And>g' s. (b \<Longrightarrow> gn_state g' \<noteq> Sealed \<Longrightarrow> gn_source g' = gn_source g \<and> (\<exists>envs. synced cov (en_wire lib) w g' envs s)) \<Longrightarrow>
      engine_safe S cov whole lib w (k (Inr g')) s"
  shows "engine_safe S cov whole lib w (drain lib g k) s"
  unfolding drain_def
proof (rule safe_read [where P = "\<lambda>s. b \<longrightarrow> at_rows w g (\<lambda>_. True) s"])
  let ?wl = "en_wire lib"
  show "lasting cov whole ?wl w (\<lambda>s. b \<longrightarrow> at_rows w g (\<lambda>_. True) s)" by (intro lasting_imp lasting_at_rows)
  fix s1 oc r assume p: "b \<longrightarrow> at_rows w g (\<lambda>_. True) s1" "perform lib oc (CallPending g) s1 = (r, s1)"
  let ?reread = "\<lambda>r. case r of GotGeneration g' \<Rightarrow> k (Inr g') | _ \<Rightarrow> k (Inl (error_text r, True))"
  have "engine_safe S cov whole lib w (drain_items lib g items (\<lambda>e. case e of Some m \<Rightarrow> k (Inl (m, False))
      | None \<Rightarrow> Ask (CallRead (gn_generation g)) ?reread)) s1" if r: "r = GotItems items" for items
  proof (rule safe_drain_items)
    have set: "set items = {o1 \<in> set (rows_of (fst s1) (gn_generation g)). \<not> ox_published o1}"
      by (rule pending_items [OF pending_reply [OF p(2) [unfolded r]]])
    then have "pending_in (ox_id ` set items) (rows_of (fst s1) (gn_generation g))" by (auto simp: pending_in_def)
    then show "draining b w g items s1" unfolding draining_def
      using p(1) set known_self by (auto simp: at_rows_def rows_of_def)
    fix s2 assume d: "draining b w g [] s2"
    have "engine_safe S cov whole lib w (Ask (CallRead (gn_generation g)) ?reread) s2"
    proof (rule safe_read [OF _ d lasting_draining])
      fix s3 oc r assume a: "draining b w g [] s3" "good cov whole ?wl s3" "perform lib oc (CallRead (gn_generation g)) s3 = (r, s3)"
      have "engine_safe S cov whole lib w (k (Inr g')) s3" if "r = GotGeneration g'" for g'
      proof (rule assms(3))
        assume b: b "gn_state g' \<noteq> Sealed"
        then have at: "at_rows w g (list_all ox_published) s3" using a(1) by (simp add: draining_def none_pending)
        note rd = read_row [OF at a(2) generation_reply [OF a(3) [unfolded that]]]
        show "gn_source g' = gn_source g \<and> (\<exists>envs. synced cov ?wl w g' envs s3)"
          using rd(1) rd(5) [OF b(2)] by (simp add: same_identity_def)
      qed
      then show "engine_safe S cov whole lib w (?reread r) s3" using assms(2) by (cases r) simp_all
    qed simp
    then show "engine_safe S cov whole lib w (case None of Some m \<Rightarrow> k (Inl (m, False)) | None \<Rightarrow> Ask (CallRead (gn_generation g)) ?reread) s2"
      by simp
  qed (simp add: assms(2))
  then show "engine_safe S cov whole lib w (case r of GotItems items \<Rightarrow> drain_items lib g items (\<lambda>e. case e of Some m \<Rightarrow> k (Inl (m, False))
      | None \<Rightarrow> Ask (CallRead (gn_generation g)) ?reread) | _ \<Rightarrow> k (Inl (error_text r, False))) s1"
    using assms(2) by (cases r) simp_all
qed (use assms(1) in auto)
section \<open>One page\<close>

lemma built_kinds:
  "build_batches wl budget common start todo out = Inr out' \<Longrightarrow> list_all (\<lambda>env. n_Kind env = SnapshotKindBatch) out \<Longrightarrow>
     list_all (\<lambda>env. n_Kind env = SnapshotKindBatch) out'"
proof (induction wl budget common start todo out rule: build_batches.induct)
  case (2 wl budget common start chunk rest out)
  let ?idx = "int64 (start + int (length out))"
  obtain env raw where b: "buildSnapshotBatch wl common chunk ?idx = Inr (env, raw)"
    using 2(3) by (auto simp: Let_def split: sum.splits)
  show ?case
  proof (cases "int (length raw) > budget")
    case True
    with 2(3) b have "length chunk \<noteq> 1" and
      e: "build_batches wl budget common start (take (length chunk div 2) chunk # drop (length chunk div 2) chunk # rest) out = Inr out'"
      by (auto simp: Let_def split: if_splits)
    from 2(1) [OF refl b refl True this(1) refl e 2(4)] show ?thesis .
  next
    case False
    with 2(3) b have e: "build_batches wl budget common start rest (out @ [env]) = Inr out'"
      by (simp add: Let_def)
    from 2(2) [OF refl b refl False e] buildSnapshotBatch_rows(2) [OF b] 2(4) show ?thesis by simp
  qed
qed simp

definition to_publish :: "int \<Rightarrow> snapshot_envelope list \<Rightarrow> bool" where
  "to_publish start envs \<longleftrightarrow> map n_BatchIndex envs = map (\<lambda>i. int64 (start + int i)) [0..<length envs] \<and>
     list_all (\<lambda>env. n_Kind env = SnapshotKindBatch \<and> n_BatchID env = batch_id (n_BatchIndex env)) envs"

lemma to_publish_Cons:
  "to_publish start (env # envs) \<Longrightarrow> n_BatchIndex env = int64 start \<and> n_Kind env = SnapshotKindBatch \<and>
     n_BatchID env = batch_id (n_BatchIndex env) \<and> to_publish (start + 1) envs"
  unfolding to_publish_def by (simp add: upt_conv_Cons map_Suc_upt [symmetric] comp_def add.assoc del: upt_Suc)

lemma built_batches:
  assumes "BuildSnapshotBatches wl q common rows start = Inr out"
  shows "SnapshotRows (wl_snap wl) (map (\<lambda>r. r\<lparr>Cursor := ''''\<rparr>) rows) = Inr (content out)" "to_publish start out"
proof -
  have b: "build_batches wl (publishBudget q) common start (chunkRows rows (publishBudget q)) [] = Inr out"
    using assms by (auto simp: BuildSnapshotBatches_def split: if_splits)
  have bare: "bare (row_of_landed r) = r\<lparr>Cursor := ''''\<rparr>" for r
    by (simp add: bare_def row_of_landed_def)
  note r = build_batches_rows [OF b, of "[]"]
  show "SnapshotRows (wl_snap wl) (map (\<lambda>r. r\<lparr>Cursor := ''''\<rparr>) rows) = Inr (content out)"
    using r by (simp add: chunkRows_concat comp_def bare content_def)
  show "to_publish start out"
    using r built_kinds [OF b] unfolding to_publish_def by (simp add: list_all_iff)
qed

lemma encoded_rows: "encode_rows (\<lambda>_. '''') rs = Some landed \<Longrightarrow> map (\<lambda>r. r\<lparr>Cursor := ''''\<rparr>) landed = landed"
  by (induction rs arbitrary: landed) (auto split: option.splits)

lemma content_append [simp]: "content (as @ bs) = content as @ content bs" "content [] = []" "content (e # es) = n_Rows e @ content es"
  by (simp_all add: content_def)

lemma synced_row:
  assumes "synced cov wl w g envs s" "good cov whole wl s"
  obtains h where "h \<in> set (d_generations (fst s))" "same_identity g h" "gn_run h = w" "gn_state h \<noteq> Sealed" "gen_ok cov whole wl (fst s) h"
    "list_all ox_published (batches (fst s) (gn_generation g))"
    "list_all2 (item_of (wl_snap wl) (wl_json wl) h) envs (batches (fst s) (gn_generation g))"
proof -
  have a: "at_rows w g (clean wl g envs) s" "gn_state g \<noteq> Sealed" using assms(1) by (simp_all add: synced_def)
  obtain h where h: "h \<in> set (d_generations (fst s))" "same_identity g h" "gn_run h = w" "gn_state h = Sealed \<longrightarrow> gn_state g = Sealed"
    "gen_ok cov whole wl (fst s) h" by (rule at_rows_row [OF a(1) assms(2)])
  have c: "clean wl g envs (rows_of (fst s) (gn_generation g))" using a(1) by (simp add: at_rows_def)
  have "item_of (wl_snap wl) (wl_json wl) h = item_of (wl_snap wl) (wl_json wl) g"
    by (rule item_of_row(1)) (use h(2) in \<open>simp_all add: same_identity_def\<close>)
  then have "list_all2 (item_of (wl_snap wl) (wl_json wl) h) envs (batches (fst s) (gn_generation g))"
    using c by (simp add: clean_def batches_rows)
  moreover have "list_all ox_published (batches (fst s) (gn_generation g))"
    using c by (auto simp: clean_def batches_rows batch_rows_def list_all_iff)
  ultimately show thesis using that h a(2) by blast
qed

text \<open>A prepared envelope: its row is the last of its generation and the only pending one.\<close>

definition placed :: "wire_lib \<Rightarrow> string \<Rightarrow> generation_row \<Rightarrow> snapshot_envelope list \<Rightarrow> snapshot_envelope \<Rightarrow> outbox_row \<Rightarrow> engine_world \<Rightarrow> bool" where
  "placed wl w g envs env item s \<longleftrightarrow> at_rows w g (prepared wl g (envs @ [env]) item) s \<and> known item (fst s) \<and>
     ox_generation item = gn_generation g \<and> item_of (wl_snap wl) (wl_json wl) g env item"

lemma lasting_placed: "lasting cov whole wl w (placed wl w g envs env item)"
proof -
  have "lasting cov whole wl w (at_rows w g (prepared wl g (envs @ [env]) item))"
    by (rule lasting_at_rows, rule flags_prepared)
  moreover have "lasting cov whole wl w (\<lambda>s. known item (fst s))" by (rule lasting_known)
  ultimately show ?thesis unfolding placed_def lasting_def by blast
qed

lemma prepare_placed:
  assumes "synced cov wl w g envs (J, k)" "good cov whole wl (J, k)"
    and "PrepareSnapshotEnvelope (wl_snap wl) (wl_json wl) g env (gn_key g) (w_Key (last (n_Rows env))) uuid now J = Inr (out, J')"
    and "n_BatchIndex env = int64 (gn_next g)" "n_Kind env = SnapshotKindBatch" "n_BatchID env = batch_id (n_BatchIndex env)"
    and "cov (gn_source g) (content envs @ n_Rows env)"
  shows "good cov whole wl (J', k) \<and> (v \<noteq> w \<longrightarrow> rely v (J, k) (J', k)) \<and> placed wl w g envs env out (J', k)"
proof -
  obtain h where h: "h \<in> set (d_generations J)" "same_identity g h" "gn_run h = w" "gn_state h \<noteq> Sealed" "gen_ok cov whole wl J h"
    "list_all ox_published (batches J (gn_generation g))" "list_all2 (item_of (wl_snap wl) (wl_json wl) h) envs (batches J (gn_generation g))"
    by (rule synced_row [OF assms(1,2), unfolded fst_conv])
  note sz = items_sizes [OF h(7)]
  have g: "gn_key g = last_upper (batches J (gn_generation g))" "gn_next g = int (length (batches J (gn_generation g)))"
    "gn_source h = gn_source g" using assms(1) sz h(2) by (simp_all add: synced_def same_identity_def)
  have st: "good cov whole wl (J', k) \<and> (v \<noteq> w \<longrightarrow> rely v (J, k) (J', k)) \<and> J' = J\<lparr>d_outbox := d_outbox J @ [out]\<rparr> \<and>
    item_of (wl_snap wl) (wl_json wl) h env out \<and> ox_generation out = gn_generation g \<and> ox_kind out = SnapshotKindBatch \<and> \<not> ox_published out"
    by (rule prepare_step [OF assms(2,3,5) h(1,2,4,3,6) g(1) refl assms(6) _ h(7)]) (use assms(4,7) g(2,3) in simp_all)
  have item: "item_of (wl_snap wl) (wl_json wl) h = item_of (wl_snap wl) (wl_json wl) g"
    by (rule item_of_row(1)) (use h(2) in \<open>simp_all add: same_identity_def\<close>)
  have at: "at_rows w g (clean wl g envs) (J, k)" using assms(1) by (simp add: synced_def)
  have rows: "rows_of J' (gn_generation g) = rows_of J (gn_generation g) @ [out]" using st by (auto simp: rows_of_def)
  have "clean wl g envs (rows_of J (gn_generation g))" using at by (simp add: at_rows_def)
  then have "prepared wl g (envs @ [env]) out (rows_of J' (gn_generation g))"
    using st unfolding rows item by (auto simp: clean_def prepared_def pending_in_def batch_rows_def list_all_iff intro!: list_all2_appendI)
  then have "at_rows w g (prepared wl g (envs @ [env]) out) (J', k)"
    using at st by (auto simp: at_rows_def running_def)
  moreover have "known out J'" using st by (intro known_self) auto
  ultimately show ?thesis using st unfolding placed_def item fst_conv by blast
qed

lemma mark_placed:
  assumes "placed wl w g envs env item s" "good cov whole wl s" "carried wl (ox_payload item) (snd s)"
    and "MarkSnapshotOutboxPublished g item (fst s) = Inr J'"
  shows "good cov whole wl (J', snd s) \<and> rely v s (J', snd s) \<and> at_rows w g (clean wl g (envs @ [env])) (J', snd s)"
proof -
  obtain J k where s: "s = (J, k)" by (cases s)
  have m: "good cov whole wl (J', k)" "rely v (J, k) (J', k)" "\<And>o2. o2 \<in> set (d_outbox J') \<Longrightarrow> ox_id o2 = ox_id item \<Longrightarrow> ox_published o2" for v
    using mark_step [of cov whole wl J k g item J'] assms unfolding s placed_def by auto
  have p: "placed wl w g envs env item (J', k)"
    using lasting_placed [of cov whole wl w g envs env item] assms(1) m(1) m(2) [of w] unfolding lasting_def s by blast
  then have "prepared wl g (envs @ [env]) item (rows_of J' (gn_generation g))" by (simp add: placed_def at_rows_def)
  then have "clean wl g (envs @ [env]) (rows_of J' (gn_generation g))"
    using m(3) unfolding clean_def prepared_def pending_in_def list_all_iff rows_of_def by auto
  then have "at_rows w g (clean wl g (envs @ [env])) (J', k)" using p by (auto simp: placed_def at_rows_def)
  then show ?thesis using m(1,2) s by simp
qed

lemma clean_read:
  assumes "at_rows w g (clean wl g envs) s" "good cov whole wl s" "SnapshotGeneration (gn_generation g) (fst s) = Inr g'"
    and "gn_state g \<noteq> Sealed" "cov (gn_source g) (content envs)"
  shows "synced cov wl w g' envs s" "gn_source g' = gn_source g"
proof -
  have at: "at_rows w g (list_all ox_published) s" using at_rows_weaken [OF assms(1)] by (simp add: clean_def)
  have "clean wl g envs (rows_of (fst s) (gn_generation g))" using assms(1) by (simp add: at_rows_def)
  then have i: "list_all2 (item_of (wl_snap wl) (wl_json wl) g) envs (batches (fst s) (gn_generation g))"
    by (simp add: clean_def batches_rows)
  note rd = read_row [OF at assms(2,3)]
  show "synced cov wl w g' envs s" using rd(3) rd(4) [OF _ i assms(5)] assms(4) by blast
  show "gn_source g' = gn_source g" using rd(1) by (simp add: same_identity_def)
qed

lemma safe_prepare:
  assumes "synced cov (en_wire lib) w g envs s"
    and "n_BatchIndex env = int64 (gn_next g)" "n_Kind env = SnapshotKindBatch" "n_BatchID env = batch_id (n_BatchIndex env)"
    and "cov (gn_source g) (content envs @ n_Rows env)"
    and "\<And>item s. placed (en_wire lib) w g envs env item s \<Longrightarrow> engine_safe S cov whole lib w (k (GotItem item)) s"
    and "\<And>m s. engine_safe S cov whole lib w (k (Fault m)) s"
  shows "engine_safe S cov whole lib w (Ask (CallPrepare g env (gn_key g) (w_Key (last (n_Rows env)))) k) s"
proof (rule safe_ask [OF assms(1) lasting_synced])
  let ?wl = "en_wire lib" and ?hi = "w_Key (last (n_Rows env))"
  fix s1 oc r s2 assume p: "synced cov ?wl w g envs s1" "good cov whole ?wl s1"
    "perform lib oc (CallPrepare g env (gn_key g) ?hi) s1 = (r, s2)"
  obtain J k1 where s1: "s1 = (J, k1)" by (cases s1)
  have "transacted oc GotItem (PrepareSnapshotEnvelope (wl_snap ?wl) (wl_json ?wl) g env (gn_key g) ?hi (oc_uuid oc) (oc_now oc) J) (J, k1) = (r, s2)"
    using p(3) by (simp add: s1)
  then show "good cov whole ?wl s2 \<and> (\<forall>v. v \<noteq> w \<longrightarrow> rely v s1 s2) \<and> engine_safe S cov whole lib w (k r) s2"
  proof (cases rule: transacted_result)
    case (same m)
    then show ?thesis using p(2) assms(7) s1 by simp
  next
    case (made out J')
    have st: "good cov whole ?wl (J', k1) \<and> (v \<noteq> w \<longrightarrow> rely v (J, k1) (J', k1)) \<and> placed ?wl w g envs env out (J', k1)" for v
      by (rule prepare_placed [where uuid = "oc_uuid oc" and now = "oc_now oc", OF p(1,2) [unfolded s1] made(1) assms(2-5)])
    then have "engine_safe S cov whole lib w (k r) s2" using made(2,3) assms(6,7) by auto
    then show ?thesis using st unfolding made(2) s1 by blast
  qed
qed
lemma safe_publish_page:
  assumes prefix: "\<And>k xs ys. cov k (xs @ ys) \<Longrightarrow> cov k xs"
    and "synced cov (en_wire lib) w g envs s" "to_publish (gn_next g) rest" "cov (gn_source g) (content envs @ content rest)"
    and k: "\<And>g' s. synced cov (en_wire lib) w g' (envs @ rest) s \<Longrightarrow> gn_source g' = gn_source g \<Longrightarrow> engine_safe S cov whole lib w (k g') s"
  shows "engine_safe S cov whole lib w (publish_page start g (gn_key g) rest k) s"
  using assms(2-)
proof (induction rest arbitrary: g envs s)
  case Nil
  then show ?case by simp
next
  case (Cons env rest)
  let ?wl = "en_wire lib" and ?hi = "w_Key (last (n_Rows env))" and ?safe = "engine_safe S cov whole lib w"
  have e: "n_BatchIndex env = int64 (gn_next g)" "n_Kind env = SnapshotKindBatch" "n_BatchID env = batch_id (n_BatchIndex env)"
    "to_publish (gn_next g + 1) rest" using to_publish_Cons [OF Cons.prems(2)] by auto
  have "cov (gn_source g) ((content envs @ n_Rows env) @ content rest)" using Cons.prems(3) by simp
  then have cv: "cov (gn_source g) (content envs @ n_Rows env)" by (rule prefix)
  have ns: "gn_state g \<noteq> Sealed" and len: "gn_next g = int (length envs)" using Cons.prems(1) by (simp_all add: synced_def)
  let ?fail = "\<lambda>r. Return (failed (gn_rows g - start) (error_text r))"
  let ?again = "\<lambda>r. case r of GotGeneration g' \<Rightarrow> publish_page start g' ?hi rest k | _ \<Rightarrow> Return (failed (0 - start) (error_text r))"
  let ?marked = "\<lambda>r. if r \<noteq> Ack then ?fail r else Ask (CallRead (gn_generation g)) ?again"
  have again: "?safe (Ask (CallRead (gn_generation g)) ?again) s2"
    if at: "at_rows w g (clean ?wl g (envs @ [env])) s2" and it: "n_Rows env \<noteq> []" for s2
  proof (rule safe_read [where P = "at_rows w g (clean ?wl g (envs @ [env]))"])
    show "lasting cov whole ?wl w (at_rows w g (clean ?wl g (envs @ [env])))" by (rule lasting_at_rows, rule flags_clean)
    fix s3 oc r assume a: "at_rows w g (clean ?wl g (envs @ [env])) s3" "good cov whole ?wl s3" "perform lib oc (CallRead (gn_generation g)) s3 = (r, s3)"
    have "?safe (publish_page start g' ?hi rest k) s3" if r: "r = GotGeneration g'" for g'
    proof -
      note rd = clean_read [OF a(1,2) generation_reply [OF a(3) [unfolded r]] ns]
      have sy: "synced cov ?wl w g' (envs @ [env]) s3" "gn_source g' = gn_source g" using rd cv by simp_all
      then have g': "gn_key g' = ?hi" "gn_next g' = gn_next g + 1" using len it by (simp_all add: synced_def)
      have "?safe (publish_page start g' (gn_key g') rest k) s3"
        by (rule Cons.IH [OF sy(1)]) (use e(4) g'(2) Cons.prems(3,4) sy(2) in simp_all)
      then show ?thesis by (simp add: g'(1))
    qed
    then show "?safe (?again r) s3" by (cases r) simp_all
  qed (use at in simp_all)
  have marked: "?safe (Ask (CallMark g item) ?marked) s2"
    if pl: "placed ?wl w g envs env item s2" "carried ?wl (ox_payload item) (snd s2)" for item s2
  proof (rule safe_mark [where P = "\<lambda>s. placed ?wl w g envs env item s \<and> carried ?wl (ox_payload item) (snd s)"])
    show "lasting cov whole ?wl w (\<lambda>s. placed ?wl w g envs env item s \<and> carried ?wl (ox_payload item) (snd s))"
      by (intro lasting_conj lasting_placed lasting_carried)
    fix s1 J' assume a: "placed ?wl w g envs env item s1 \<and> carried ?wl (ox_payload item) (snd s1)" "good cov whole ?wl s1"
      "MarkSnapshotOutboxPublished g item (fst s1) = Inr J'"
    have "Validate (wl_snap ?wl) env = None" using a(1) by (auto simp: placed_def item_of_def MarshalSnapshotEnvelope_def split: option.splits)
    then have rows: "n_Rows env \<noteq> []" using e(2) by (rule validate_batch(2))
    note m = mark_placed [OF conjunct1 [OF a(1)] a(2) conjunct2 [OF a(1)] a(3)]
    then show "good cov whole ?wl (J', snd s1) \<and> (\<forall>v. rely v s1 (J', snd s1)) \<and> ?safe (?marked Ack) (J', snd s1)"
      using again rows by auto
  qed (use pl in auto)
  have published: "?safe (Ask (CallPublish env) (\<lambda>r. if r \<noteq> Ack then ?fail r else Ask (CallMark g item) ?marked)) s2"
    if pl: "placed ?wl w g envs env item s2" for item s2
  proof (rule safe_publish [OF pl lasting_placed])
    fix s3 r assume a: "placed ?wl w g envs env item s3"
      "r = Ack \<Longrightarrow> \<exists>p \<in> set (k_stream (snd s3)). MarshalSnapshotEnvelope (wl_snap ?wl) (wl_json ?wl) env = Inr (pb_body p)"
    have "carried ?wl (ox_payload item) (snd s3)" if "r = Ack"
      using a(1) a(2) [OF that] by (auto simp: placed_def item_of_def carried_def list_ex_iff)
    then show "?safe (if r \<noteq> Ack then ?fail r else Ask (CallMark g item) ?marked) s3" using marked a(1) by simp
  qed
  show ?case unfolding publish_page.simps Let_def
    by (rule safe_prepare [where envs = envs, OF Cons.prems(1) e(1-3) cv]) (simp_all add: published)
qed

section \<open>Pages of a source\<close>

text \<open>What the pages of a source say of the rows captured so far.\<close>

locale capture_source =
  fixes lib :: "'ip engine_lib"
    and S :: "source_db \<Rightarrow> bool"
    and cov :: "source_key \<Rightarrow> snapshot_row list \<Rightarrow> bool"
    and whole :: "source_key \<Rightarrow> snapshot_row list \<Rightarrow> bool"
  assumes cov_Nil: "cov src []"
    and cov_prefix: "cov src (xs @ ys) \<Longrightarrow> cov src xs"
    and page: "OpenWithPolicy (\<lambda>_. False) (jb_Kind job) (jb_ProjectID job) (jb_ConnectorID job) (en_policy lib) (Some (jb_Table job)) = Inr bs \<Longrightarrow>
      S so' \<Longrightarrow> ValidateSnapshotKey so' bs (jb_Table job) (jb_KeyColumn job) = None \<Longrightarrow>
      PullRows so bs (snapshot_request job key) = Inr p \<Longrightarrow> S so \<Longrightarrow> cov (job_source job) rows \<Longrightarrow>
      key = (if rows = [] then '''' else w_Key (last rows)) \<Longrightarrow> encode_rows (\<lambda>_. '''') (pr_Rows p) = Some landed \<Longrightarrow>
      SnapshotRows (wl_snap (en_wire lib)) landed = Inr srows \<Longrightarrow>
      cov (job_source job) (rows @ srows) \<and> (\<not> pr_HasMore p \<longrightarrow> whole (job_source job) (rows @ srows))"
begin

lemma safe_give_up: "engine_safe S cov whole lib w (give_up start g m) s" if "gn_run g = w"
  unfolding give_up_def by (rule safe_free) (simp_all add: free_call_def ends_run_def)

lemma safe_check_key:
  assumes "synced cov (en_wire lib) w g envs s"
    and "\<And>s so. synced cov (en_wire lib) w g envs s \<Longrightarrow> S so \<Longrightarrow> ValidateSnapshotKey so bs (jb_Table job) (jb_KeyColumn job) = None \<Longrightarrow>
      engine_safe S cov whole lib w p s"
  shows "engine_safe S cov whole lib w (check_key bs job start g p) s"
  unfolding check_key_def
proof (rule safe_read [OF _ assms(1) lasting_synced])
  fix s1 oc r assume a: "synced cov (en_wire lib) w g envs s1" "allowed S oc (CallCheckKey bs (jb_Table job) (jb_KeyColumn job)) s1"
    "perform lib oc (CallCheckKey bs (jb_Table job) (jb_KeyColumn job)) s1 = (r, s1)"
  have "gn_run g = w" using a(1) by (simp add: synced_def at_rows_def)
  moreover have "engine_safe S cov whole lib w p s1" if "r = Ack"
  proof (rule assms(2) [OF a(1)])
    show "S (oc_source oc)" using a(2) by (simp add: allowed_def)
    show "ValidateSnapshotKey (oc_source oc) bs (jb_Table job) (jb_KeyColumn job) = None"
      using a(3) that by (auto simp: key_reply_def split: if_splits option.splits source_error.splits)
  qed
  ultimately show "engine_safe S cov whole lib w (case r of Ack \<Rightarrow> p | KeyInvalid m \<Rightarrow> give_up start g m
      | _ \<Rightarrow> Return (failed (gn_rows g - start) (error_text r))) s1"
    using safe_give_up by (cases r) simp_all
qed simp

lemma safe_pull_pages:
  assumes b: "OpenWithPolicy (\<lambda>_. False) (jb_Kind job) (jb_ProjectID job) (jb_ConnectorID job) (en_policy lib) (Some (jb_Table job)) = Inr bs"
    and key_ok: "S so" "ValidateSnapshotKey so bs (jb_Table job) (jb_KeyColumn job) = None"
    and "n = 0 \<longrightarrow> hm" "synced cov (en_wire lib) w g envs s" "gn_source g = job_source job"
    and k: "\<And>g' envs' hm' s'. synced cov (en_wire lib) w g' envs' s' \<Longrightarrow> (hm' \<or> whole (gn_source g') (content envs')) \<Longrightarrow>
      engine_safe S cov whole lib w (k g' hm') s'"
  shows "engine_safe S cov whole lib w (pull_pages lib job run bs start n g hm k) s"
  using assms(4-6)
proof (induction n arbitrary: g envs hm s)
  case 0
  then show ?case using k by simp
next
  case (Suc n)
  let ?wl = "en_wire lib" and ?safe = "engine_safe S cov whole lib w"
  show ?case unfolding pull_pages.simps
  proof (rule safe_read [OF _ Suc.prems(2) lasting_synced])
    fix s1 oc r assume a: "synced cov ?wl w g envs s1" "allowed S oc (CallPull bs (snapshot_request job (gn_key g))) s1"
      "perform lib oc (CallPull bs (snapshot_request job (gn_key g))) s1 = (r, s1)"
    have run: "gn_run g = w" and key: "gn_key g = (if content envs = [] then '''' else w_Key (last (content envs)))"
      and cv: "cov (job_source job) (content envs)" using a(1) Suc.prems(3) by (simp_all add: synced_def at_rows_def)
    show "?safe (case r of GotPage p \<Rightarrow>
           if pr_Rows p = [] then
             (if pr_HasMore p then give_up start g ''snapshot source reported more rows without keyset progress'' else k g False)
           else (case encode_rows (\<lambda>_. '''') (pr_Rows p) of
               None \<Rightarrow> Return (failed (gn_rows g - start) ''encode snapshot source row'')
             | Some landed \<Rightarrow>
                 (case BuildSnapshotBatches (en_wire lib) (en_queue lib) (common_envelope job run g) landed (gn_next g) of
                    Inl _ \<Rightarrow> Return (failed (gn_rows g - start) ''snapshot batches'')
                  | Inr envs \<Rightarrow>
                      publish_page start g (gn_key g) envs (\<lambda>g'.
                        if pr_NextCursorKey p = '''' \<or> pr_NextCursorKey p = gn_key g \<and> pr_HasMore p
                        then give_up start g' ''snapshot source made no keyset progress''
                        else if \<not> pr_HasMore p then k g' False
                        else pull_pages lib job run bs start n g' True k)))
       | _ \<Rightarrow> Return (failed (gn_rows g - start) (error_text r))) s1"
    proof (cases r)
      case (GotPage p)
      have pull: "PullRows (oc_source oc) bs (snapshot_request job (gn_key g)) = Inr p"
        using a(3) GotPage by (auto simp: pull_reply_def split: if_splits sum.splits source_error.splits)
      have so: "S (oc_source oc)" using a(2) by (simp add: allowed_def)
      note pg = page [OF b key_ok pull so cv key]
      show ?thesis
      proof (cases "pr_Rows p = []")
        case True
        then have "\<not> pr_HasMore p \<Longrightarrow> whole (gn_source g) (content envs)" using pg [of "[]" "[]"] Suc.prems(3) by simp
        then show ?thesis using GotPage True safe_give_up run k [OF a(1), of False] by simp
      next
        case False
        have "?safe (publish_page start g (gn_key g) more_envs (\<lambda>g'.
            if pr_NextCursorKey p = '''' \<or> pr_NextCursorKey p = gn_key g \<and> pr_HasMore p
            then give_up start g' ''snapshot source made no keyset progress''
            else if \<not> pr_HasMore p then k g' False else pull_pages lib job run bs start n g' True k)) s1"
          if e: "encode_rows (\<lambda>_. '''') (pr_Rows p) = Some landed"
            and bb: "BuildSnapshotBatches ?wl (en_queue lib) (common_envelope job run g) landed (gn_next g) = Inr more_envs" for landed more_envs
        proof (rule safe_publish_page [OF cov_prefix a(1)])
          note bt = built_batches [OF bb, unfolded encoded_rows [OF e]]
          note pp = pg [OF e bt(1)]
          show "to_publish (gn_next g) more_envs" by (rule bt(2))
          show "cov (gn_source g) (content envs @ content more_envs)" using pp Suc.prems(3) by simp
          fix g' s' assume g': "synced cov ?wl w g' (envs @ more_envs) s'" "gn_source g' = gn_source g"
          have "gn_run g' = w" using g'(1) by (simp add: synced_def at_rows_def)
          moreover have "?safe (k g' False) s'" if "\<not> pr_HasMore p" using k [OF g'(1)] pp that g'(2) Suc.prems(3) by simp
          moreover have "?safe (pull_pages lib job run bs start n g' True k) s'" using Suc.IH [OF _ g'(1)] g'(2) Suc.prems(3) by simp
          ultimately show "?safe (if pr_NextCursorKey p = '''' \<or> pr_NextCursorKey p = gn_key g \<and> pr_HasMore p
            then give_up start g' ''snapshot source made no keyset progress''
            else if \<not> pr_HasMore p then k g' False else pull_pages lib job run bs start n g' True k) s'"
            using safe_give_up by simp
        qed
        then show ?thesis using GotPage False by (auto split: option.splits sum.splits)
      qed
    qed simp_all
  qed simp
qed

end
section \<open>Sealing and whole runs\<close>

definition ready_to_seal ::
  "wire_lib \<Rightarrow> generation_row \<Rightarrow> snapshot_envelope list \<Rightarrow> manifest_entry list \<Rightarrow> int \<Rightarrow> outbox_row list \<Rightarrow> bool" where
  "ready_to_seal wl g envs entries rowcount os \<longleftrightarrow> clean wl g envs os \<and> entries = map entry_of_item (batch_rows os) \<and>
     rowcount = sum_list (map ox_rows (batch_rows os))"

lemma flags_ready: "list_all2 flag_le os os' \<Longrightarrow> ready_to_seal wl g envs es n os \<Longrightarrow> ready_to_seal wl g envs es n os'"
  using flags_published unfolding ready_to_seal_def clean_def by blast

lemma chained_sorted: "chained bs \<Longrightarrow> sort_key ox_index bs = bs"
proof -
  assume "chained bs"
  then have "map ox_index bs = map int [0..<length bs]" by (simp add: chained_def)
  then have "sorted (map ox_index bs)" by (simp add: sorted_map sorted_wrt_map)
  then show ?thesis by (rule sort_key_id_if_sorted)
qed

lemma manifest_batches:
  assumes "gen_ok cov whole wl J h" "list_all ox_published (batches J (gn_generation h))"
  shows "SnapshotManifest (gn_generation h) J = (map entry_of_item (batches J (gn_generation h)), sum_list (map ox_rows (batches J (gn_generation h))))"
proof -
  have "filter (\<lambda>o1. ox_generation o1 = gn_generation h \<and> ox_kind o1 = SnapshotKindBatch \<and> ox_published o1) (d_outbox J) =
      filter ox_published (batches J (gn_generation h))" by (simp add: batches_def conj_commute conj_left_commute)
  then have "published_batches (gn_generation h) J = batches J (gn_generation h)"
    using all_published [OF assms(2)] chained_sorted [OF gen_okD(1) [OF assms(1)]] by (simp add: published_batches_def)
  then show ?thesis by (simp add: SnapshotManifest_def Let_def)
qed

lemma manifest_reply:
  assumes "perform lib oc (CallManifest i) s = (GotManifest es n, s')" shows "SnapshotManifest i (fst s) = (es, n)"
  using assms answered_reply [of oc "\<lambda>(es, n). GotManifest es n" "Inr (SnapshotManifest i (fst s))" s]
  by (cases "SnapshotManifest i (fst s)") auto

lemma seal_ready:
  assumes "at_rows w g (ready_to_seal wl g envs entries rowcount) (J, k)" "good cov whole wl (J, k)" "gn_state g \<noteq> Sealed"
    and "cov (gn_source g) (content envs)" "whole (gn_source g) (content envs)"
    and "SnapshotManifestDigest (wl_snap wl) entries = Inr manifest"
    and "SealSnapshotGeneration (wl_snap wl) (wl_json wl) g (completion_envelope job run g now entries rowcount manifest) rows uuid t J = Inr (out, J')"
  shows "good cov whole wl (J', k) \<and> (v \<noteq> w \<longrightarrow> rely v (J, k) (J', k))"
proof -
  obtain h where h: "h \<in> set (d_generations J)" "same_identity g h" "gn_run h = w" "gn_state h = Sealed \<longrightarrow> gn_state g = Sealed"
    using at_rows_row [OF assms(1,2)] unfolding fst_conv by blast
  have q: "ready_to_seal wl g envs entries rowcount (rows_of J (gn_generation g))" "gn_run g = w"
    using assms(1) by (simp_all add: at_rows_def)
  then have r: "list_all ox_published (batches J (gn_generation g))" "entries = map entry_of_item (batches J (gn_generation g))"
    "rowcount = sum_list (map ox_rows (batches J (gn_generation g)))"
    by (auto simp: ready_to_seal_def clean_def batches_rows batch_rows_def list_all_iff)
  have "item_of (wl_snap wl) (wl_json wl) h = item_of (wl_snap wl) (wl_json wl) g"
    by (rule item_of_row(1)) (use h(2) in \<open>simp_all add: same_identity_def\<close>)
  then have items: "list_all2 (item_of (wl_snap wl) (wl_json wl) h) envs (batches J (gn_generation g))"
    using q(1) by (simp add: ready_to_seal_def clean_def batches_rows)
  have src: "gn_source h = gn_source g" using h(2) by (simp add: same_identity_def)
  have ns: "gn_state h \<noteq> Sealed" using h(4) assms(3) by blast
  have "good cov whole wl (J', k) \<and> (v \<noteq> w \<longrightarrow> rely v (J, k) (J', k)) \<and> out \<in> set (d_outbox J') \<and>
      ox_generation out = gn_generation g \<and> \<not> running w J'"
    by (rule seal_step [OF assms(2,7) h(1,2) ns h(3) q(2) r(1) _ _ _ _ items])
       (use assms(4-6) r(2,3) src in \<open>simp_all add: completion_envelope_def common_envelope_def\<close>)
  then show ?thesis by blast
qed

context capture_source
begin

abbreviation free_safe :: "string \<Rightarrow> 'a engine_prog \<Rightarrow> bool" where
  "free_safe w p \<equiv> (\<forall>s. engine_safe S cov whole lib w p s)"

lemma free_Return: "free_safe w (Return a)"
  by simp

lemma free_Ask: "free_call w q \<Longrightarrow> (\<And>r. free_safe w (k r)) \<Longrightarrow> free_safe w (Ask q k)"
  using safe_free by blast

lemma safe_seal:
  assumes "synced cov (en_wire lib) w g envs s" "whole (gn_source g) (content envs)"
  shows "engine_safe S cov whole lib w (seal_capture lib job run start g) s"
  unfolding seal_capture_def Let_def
proof (rule safe_read [OF _ assms(1) lasting_synced])
  let ?wl = "en_wire lib" and ?safe = "engine_safe S cov whole lib w" and ?rows = "gn_rows g - start"
  let ?env = "\<lambda>now entries rowcount manifest. completion_envelope job run g now entries rowcount manifest"
  let ?sealed = "\<lambda>r. case r of GotItem _ \<Rightarrow> drain lib (g\<lparr>gn_state := Sealed\<rparr>) (\<lambda>d. case d of
        Inl (m, lost) \<Rightarrow> Return ((failed ((if lost then 0 else gn_rows g) - start) (''publish sealed snapshot completion: '' @ m))\<lparr>sr_Finalized := True\<rparr>)
      | Inr g' \<Rightarrow> Return ((captured (gn_rows g' - start))\<lparr>sr_Finalized := True\<rparr>)) | _ \<Rightarrow> Return (failed ?rows (error_text r))"
  have drained: "?safe (?sealed (GotItem item)) s" for item s
    by (simp, rule safe_drain [of False]) (simp_all split: prod.split)
  have sealed: "?safe (?sealed r) s" for r s using drained by (cases r) simp_all
  fix s1 oc r assume a: "synced cov ?wl w g envs s1" "good cov whole ?wl s1" "perform lib oc (CallManifest (gn_generation g)) s1 = (r, s1)"
  have ns: "gn_state g \<noteq> Sealed" and cv: "cov (gn_source g) (content envs)" using a(1) by (simp_all add: synced_def)
  have "?safe (Ask (CallSeal g (?env now entries rowcount manifest) ?rows) ?sealed) s2"
    if at: "at_rows w g (ready_to_seal ?wl g envs entries rowcount) s2" and m: "SnapshotManifestDigest (wl_snap ?wl) entries = Inr manifest"
    for now entries rowcount manifest s2
  proof (rule safe_ask [where P = "at_rows w g (ready_to_seal ?wl g envs entries rowcount)"])
    show "lasting cov whole ?wl w (at_rows w g (ready_to_seal ?wl g envs entries rowcount))" by (rule lasting_at_rows, rule flags_ready)
    fix s3 oc r s4 assume b: "at_rows w g (ready_to_seal ?wl g envs entries rowcount) s3" "good cov whole ?wl s3"
      "perform lib oc (CallSeal g (?env now entries rowcount manifest) ?rows) s3 = (r, s4)"
    obtain J k where s3: "s3 = (J, k)" by (cases s3)
    have "transacted oc GotItem (SealSnapshotGeneration (wl_snap ?wl) (wl_json ?wl) g (?env now entries rowcount manifest) ?rows
        (oc_uuid oc) (oc_now oc) J) (J, k) = (r, s4)" using b(3) by (simp add: s3)
    then have "good cov whole ?wl s4 \<and> (v \<noteq> w \<longrightarrow> rely v s3 s4)" for v
    proof (cases rule: transacted_result)
      case (same m)
      then show ?thesis using b(2) s3 by simp
    next
      case (made out J')
      show ?thesis using seal_ready [OF b(1,2) [unfolded s3] ns cv assms(2) m made(1)] unfolding made(2) s3 .
    qed
    then show "good cov whole ?wl s4 \<and> (\<forall>v. v \<noteq> w \<longrightarrow> rely v s3 s4) \<and> ?safe (?sealed r) s4" using sealed by blast
  qed (rule at)
  then have now: "?safe (Ask CallNow (\<lambda>r. case r of GotTime now \<Rightarrow> Ask (CallSeal g (?env now entries rowcount manifest) ?rows) ?sealed
      | _ \<Rightarrow> Return (failed ?rows (error_text r)))) s2"
    if at: "at_rows w g (ready_to_seal ?wl g envs entries rowcount) s2" and m: "SnapshotManifestDigest (wl_snap ?wl) entries = Inr manifest"
    for entries rowcount manifest s2
    using m by (intro safe_read [where P = "at_rows w g (ready_to_seal ?wl g envs entries rowcount)", OF _ at])
      (auto intro: lasting_at_rows flags_ready split: engine_reply.split)
  show "?safe (case r of GotManifest entries rowcount \<Rightarrow> (case SnapshotManifestDigest (wl_snap ?wl) entries of
               Inl _ \<Rightarrow> Return (failed ?rows ''snapshot manifest'')
             | Inr manifest \<Rightarrow> Ask CallNow (\<lambda>r. case r of GotTime now \<Rightarrow> Ask (CallSeal g (?env now entries rowcount manifest) ?rows) ?sealed
                   | _ \<Rightarrow> Return (failed ?rows (error_text r)))) | _ \<Rightarrow> Return (failed ?rows (error_text r))) s1"
  proof (cases r)
    case (GotManifest entries rowcount)
    obtain h where h: "same_identity g h" "gen_ok cov whole ?wl (fst s1) h" "list_all ox_published (batches (fst s1) (gn_generation g))"
      by (rule synced_row [OF a(1,2)]) blast
    have hg: "gn_generation h = gn_generation g" using h(1) by (simp add: same_identity_def)
    have mf: "entries = map entry_of_item (batches (fst s1) (gn_generation g))" "rowcount = sum_list (map ox_rows (batches (fst s1) (gn_generation g)))"
      using manifest_batches [OF h(2), unfolded hg, OF h(3)] manifest_reply [OF a(3) [unfolded GotManifest]] by simp_all
    have "at_rows w g (clean ?wl g envs) s1" using a(1) by (simp add: synced_def)
    then have "at_rows w g (ready_to_seal ?wl g envs entries rowcount) s1"
      by (simp add: at_rows_def ready_to_seal_def mf batches_rows)
    then show ?thesis using now GotManifest by (simp split: sum.split)
  qed simp_all
qed simp

lemma safe_capture_pages:
  assumes "OpenWithPolicy (\<lambda>_. False) (jb_Kind job) (jb_ProjectID job) (jb_ConnectorID job) (en_policy lib) (Some (jb_Table job)) = Inr bs"
    and "synced cov (en_wire lib) w g envs s" "gn_source g = job_source job"
  shows "engine_safe S cov whole lib w (capture_pages lib job run bs g) s"
  unfolding capture_pages_def Let_def
proof (rule safe_check_key [OF assms(2)], rule safe_pull_pages [OF assms(1) _ _ _ _ assms(3)])
  fix g' envs' hm' s' assume g': "synced cov (en_wire lib) w g' envs' s'" "hm' \<or> whole (gn_source g') (content envs')"
  have "gn_run g' = w" using g'(1) by (simp add: synced_def at_rows_def)
  then have y: "engine_safe S cov whole lib w (Ask (CallYield g') k) s'" if "\<And>r s. engine_safe S cov whole lib w (k r) s" for k
    using that by (intro safe_free) (simp_all add: free_call_def ends_run_def)
  show "engine_safe S cov whole lib w (if hm'
      then Ask (CallYield g') (\<lambda>r. Return (if r = Ack then captured (gn_rows g' - gn_rows g) else failed (gn_rows g' - gn_rows g) (error_text r)))
      else check_key bs job (gn_rows g) g' (seal_capture lib job run (gn_rows g) g')) s'"
  proof (cases hm')
    case False
    then have w: "whole (gn_source g') (content envs')" using g'(2) by blast
    have "engine_safe S cov whole lib w (check_key bs job (gn_rows g) g' (seal_capture lib job run (gn_rows g) g')) s'"
      by (rule safe_check_key [OF g'(1)], rule safe_seal [OF _ w])
    then show ?thesis using False by simp
  qed (simp add: y)
qed (simp_all add: maxBatchesPerRun_def)

lemma safe_claim:
  assumes "\<And>g s. at_rows w g (\<lambda>_. True) s \<Longrightarrow> gn_source g = job_source job \<Longrightarrow> engine_safe S cov whole lib w (k (GotGeneration g)) s"
    and "\<And>m s. engine_safe S cov whole lib w (k (Fault m)) s"
  shows "engine_safe S cov whole lib w (Ask (CallClaim job w owner epoch) k) s"
proof (rule safe_ask [where P = "\<lambda>_. True"])
  let ?wl = "en_wire lib"
  fix s1 oc r s2 assume p: "good cov whole ?wl s1" "allowed S oc (CallClaim job w owner epoch) s1"
    "perform lib oc (CallClaim job w owner epoch) s1 = (r, s2)"
  obtain J k1 where s1: "s1 = (J, k1)" by (cases s1)
  have fresh: "\<not> list_ex (\<lambda>h. gn_generation h = oc_uuid oc) (d_generations J)" using p(2) s1 by (simp add: allowed_def)
  have "transacted oc GotGeneration (ClaimSnapshotGeneration job w owner epoch (oc_uuid oc) (oc_now oc) J) (J, k1) = (r, s2)"
    using p(3) s1 by simp
  then show "good cov whole ?wl s2 \<and> (\<forall>v. v \<noteq> w \<longrightarrow> rely v s1 s2) \<and> engine_safe S cov whole lib w (k r) s2"
  proof (cases rule: transacted_result)
    case (same m)
    then show ?thesis using p(1) assms(2) s1 by simp
  next
    case (made g J')
    note st = claim_step [OF p(1) [unfolded s1] made(1) fresh cov_Nil]
    then have "at_rows w g (\<lambda>_. True) (J', k1)" by (auto simp: at_rows_def same_identity_def)
    moreover have "gn_source g = job_source job" using st by blast
    ultimately have "engine_safe S cov whole lib w (k r) s2" using made(2,3) assms by auto
    then show ?thesis using st unfolding made(2) s1 by blast
  qed
qed (simp_all add: lasting_const)

lemma safe_snapshot: "free_safe (rn_id run) (pullAndLandSnapshot lib owner job run)"
  unfolding pullAndLandSnapshot_def
proof (intro allI safe_claim)
  let ?w = "rn_id run" let ?safe = "engine_safe S cov whole lib ?w"
  fix g s assume g: "at_rows ?w g (\<lambda>_. True) s" "gn_source g = job_source job"
  have opened: "?safe (if gn_state g' = Sealed then Return (captured 0)
        else if \<not> jb_Policy job then Return (failed 0 ''snapshot source policy is unavailable'')
        else Ask (CallOpen job) (\<lambda>r. case r of GotBindings bs \<Rightarrow> capture_pages lib job ?w bs g'
           | _ \<Rightarrow> Return (failed 0 (error_text r)))) s'"
    if g': "gn_state g' \<noteq> Sealed \<Longrightarrow> gn_source g' = gn_source g \<and> (\<exists>envs. synced cov (en_wire lib) ?w g' envs s')" for g' s'
  proof (cases "gn_state g' = Sealed \<or> \<not> jb_Policy job")
    case False
    then obtain envs where sy: "synced cov (en_wire lib) ?w g' envs s'" "gn_source g' = job_source job" using g' g(2) by auto
    have "?safe (Ask (CallOpen job) (\<lambda>r. case r of GotBindings bs \<Rightarrow> capture_pages lib job ?w bs g' | _ \<Rightarrow> Return (failed 0 (error_text r)))) s'"
    proof (rule safe_read [OF _ sy(1) lasting_synced])
      fix s1 oc r assume a: "synced cov (en_wire lib) ?w g' envs s1" "perform lib oc (CallOpen job) s1 = (r, s1)"
      have "?safe (capture_pages lib job ?w bs g') s1" if "r = GotBindings bs" for bs
        using a(2) that by (intro safe_capture_pages [OF _ a(1) sy(2)]) (auto simp: open_reply_def split: if_splits sum.splits)
      then show "?safe (case r of GotBindings bs \<Rightarrow> capture_pages lib job ?w bs g' | _ \<Rightarrow> Return (failed 0 (error_text r))) s1"
        by (cases r) simp_all
    qed simp
    then show ?thesis using False by simp
  qed auto
  show "?safe (case GotGeneration g of GotGeneration g \<Rightarrow> drain lib g (\<lambda>d. case d of
        Inl (m, _) \<Rightarrow> Return (failed 0 (''publish snapshot outbox: '' @ m))
      | Inr g \<Rightarrow> if gn_state g = Sealed then Return (captured 0)
                 else if \<not> jb_Policy job then Return (failed 0 ''snapshot source policy is unavailable'')
                 else Ask (CallOpen job) (\<lambda>r. case r of GotBindings bs \<Rightarrow> capture_pages lib job ?w bs g
                   | _ \<Rightarrow> Return (failed 0 (error_text r))))
      | _ \<Rightarrow> Return (failed 0 (error_text (GotGeneration g)))) s"
    unfolding engine_reply.case
    by (rule safe_drain [where b = True]) (use g(1) opened in \<open>auto split: prod.split\<close>)
qed simp

end
lemma claimed_row:
  assumes "ClaimConnectorRun run owner now J = (Some r, J')"
  shows "\<exists>r0 \<in> set (d_runs J). rn_id r0 = run \<and> rn_status r0 = Queued \<and> r = claim_row owner now r0 \<and> r \<in> set (d_runs J')"
proof -
  let ?claim = "\<lambda>r. rn_id r = run \<and> rn_status r = Queued \<and> \<not> rn_cancel_requested r"
  obtain r0 where r0: "find ?claim (d_runs J) = Some r0" "r = claim_row owner now r0"
    and J': "J' = J\<lparr>d_runs := update_where ?claim (claim_row owner now) (d_runs J)\<rparr>"
    using assms by (auto simp: ClaimConnectorRun_def Let_def split: option.splits if_splits)
  note in0 = find_SomeD [OF r0(1)]
  then have "r \<in> set (d_runs J')" by (auto simp: J' set_update_where r0(2) image_iff)
  then show ?thesis using in0 r0(2) by blast
qed

context capture_source
begin

lemma free_if: "free_safe w p \<Longrightarrow> free_safe w q \<Longrightarrow> free_safe w (if b then p else q)"
  by simp

lemma free_pull_batches:
  assumes "\<And>st. free_safe w (k st)"
  shows "free_safe w (pull_batches job run started bs n st k)"
proof (induction n arbitrary: st)
  case 0
  then show ?case using assms by simp
next
  case (Suc n)
  have landed: "free_safe w (Ask (CallBatch src receipt rows) (\<lambda>r. case r of
        GotCount c \<Rightarrow> let st' = st\<lparr>pp_Total := pp_Total st + int (length (pr_Rows p)), pp_Batches := pp_Batches st + int c, pp_HasMore := pr_HasMore p\<rparr>
          in if pr_NextCursor p = pp_Cursor st \<and> pr_NextCursorKey p = pp_CursorKey st then k st'
             else let st'' = st'\<lparr>pp_Cursor := pr_NextCursor p, pp_CursorKey := pr_NextCursorKey p\<rparr>
                  in if \<not> pr_HasMore p then k st'' else pull_batches job run started bs n st'' k
      | _ \<Rightarrow> Return (pull_outcome job st (''queue rows: '' @ error_text r))))" for src receipt rows p
  proof (rule free_Ask)
    show "free_safe w (case r of GotCount c \<Rightarrow>
        let st' = st\<lparr>pp_Total := pp_Total st + int (length (pr_Rows p)), pp_Batches := pp_Batches st + int c, pp_HasMore := pr_HasMore p\<rparr>
          in if pr_NextCursor p = pp_Cursor st \<and> pr_NextCursorKey p = pp_CursorKey st then k st'
             else let st'' = st'\<lparr>pp_Cursor := pr_NextCursor p, pp_CursorKey := pr_NextCursorKey p\<rparr>
                  in if \<not> pr_HasMore p then k st'' else pull_batches job run started bs n st'' k
      | _ \<Rightarrow> Return (pull_outcome job st (''queue rows: '' @ error_text r)))" for r
      using assms Suc.IH by (cases r) (simp_all add: Let_def)
  qed (simp add: free_call_def)
  show ?case unfolding pull_batches.simps
  proof (rule free_Ask, simp add: free_call_def, goal_cases)
    case (1 r)
    show ?case
    proof (cases r)
      case (GotPage p)
      show ?thesis
      proof (cases "pr_Rows p = []")
        case True
        then show ?thesis using assms unfolding GotPage engine_reply.case by simp
      next
        case False
        show ?thesis
        proof (cases "encode_rows sw_Cursor (pr_Rows p)")
          case (Some rows)
          show ?thesis unfolding GotPage engine_reply.case if_not_P [OF False] Some option.case by (rule landed)
        qed (simp add: GotPage False)
      qed
    qed simp_all
  qed
qed

lemma free_complete: "free_safe w (complete_pull job run started st)"
proof -
  have "free_safe w (Ask (CallComplete src receipt) (\<lambda>r. Return (f r)))" for src receipt and f :: "engine_reply \<Rightarrow> sync_result"
    by (rule free_Ask) (simp_all add: free_call_def)
  then have "free_safe w (Ask CallNow (\<lambda>r. case r of GotTime now \<Rightarrow> Ask (CallComplete src (receipt now)) (\<lambda>r. Return (f r)) | _ \<Rightarrow> Return (h r)))"
    for src receipt and f h :: "engine_reply \<Rightarrow> sync_result"
    by (intro free_Ask) (simp_all add: free_call_def split: engine_reply.split)
  then show ?thesis by (simp add: complete_pull_def)
qed

lemma free_incremental: "free_safe w (pullAndLandRun job run)"
proof -
  have "free_safe w (Ask (CallOpen job) (\<lambda>r. case r of
      GotBindings bs \<Rightarrow> (let started = f in pull_batches job (rn_id run) started bs maxBatchesPerRun st (complete_pull job (rn_id run) started))
    | _ \<Rightarrow> Return (h r)))" for f st and h :: "engine_reply \<Rightarrow> sync_result"
  proof (rule free_Ask)
    show "free_safe w (case r of
      GotBindings bs \<Rightarrow> (let started = f in pull_batches job (rn_id run) started bs maxBatchesPerRun st (complete_pull job (rn_id run) started))
    | _ \<Rightarrow> Return (h r))" for r
      using free_pull_batches free_complete by (cases r) (simp_all add: Let_def)
  qed (simp add: free_call_def)
  then show ?thesis unfolding pullAndLandRun_def Let_def
    by (intro free_Ask) (simp_all add: free_call_def Let_def split: engine_reply.split)
qed

lemma free_finish: "free_safe (rn_id run) (finish_run owner project run snapshot res)"
proof -
  let ?w = "rn_id run" let ?fin = "\<lambda>b. Ask (CallFinish ?w (rn_sync run) owner res b) (\<lambda>_. Return ())"
  let ?gen = "\<lambda>b. Ask (CallCancelGeneration ?w owner (rn_lease_epoch run)) (\<lambda>_. ?fin b)"
  let ?current = "\<lambda>b r. case r of GotRun current \<Rightarrow> if rn_cancel_requested current then ?gen b else ?fin b | _ \<Rightarrow> ?fin b"
  have fin: "free_safe ?w (?fin b)" for b by (rule free_Ask) (auto simp: free_call_def ends_run_def)
  have gen: "free_safe ?w (?gen b)" for b by (rule free_Ask) (use fin in \<open>simp_all add: free_call_def ends_run_def\<close>)
  have "free_safe ?w (?current b r)" for b r using free_if [OF gen fin] fin by (cases r) simp_all
  then have cur: "free_safe ?w (Ask (CallRun project ?w) (?current b))" for b
    by (intro free_Ask) (simp_all add: free_call_def)
  have "free_safe ?w (if sr_Finalized res then Return () else if b \<and> snapshot then Ask (CallRun project ?w) (?current b) else ?fin b)" for b
    by (rule free_if [OF free_Return free_if [OF cur fin]])
  note body = this
  show ?thesis unfolding finish_run_def Let_def
  proof (rule free_Ask, goal_cases)
    case (2 r)
    show ?case by (rule body)
  qed (simp add: free_call_def)
qed

lemma free_claimed: "free_safe (rn_id run) (execute_claimed lib owner project run)"
proof -
  let ?w = "rn_id run"
  have "free_safe ?w (and_then (pullAndLandSnapshot lib owner job run) (finish_run owner project run True))" for job
    using safe_and_then safe_snapshot free_finish by blast
  moreover have "free_safe ?w (and_then (pullAndLandRun job run) (finish_run owner project run False))" for job
    using safe_and_then free_incremental free_finish by blast
  ultimately show ?thesis unfolding execute_claimed_def
    by (intro free_Ask) (use free_finish in \<open>simp_all add: free_call_def split: engine_reply.split\<close>)
qed

lemma taken_run:
  assumes "takes_run lib s w p s'" "good cov whole (en_wire lib) s"
  shows "good cov whole (en_wire lib) s' \<and> \<not> named w s \<and> named w s' \<and> (\<forall>v. v \<noteq> w \<longrightarrow> rely v s s') \<and>
    engine_safe S cov whole lib w p s'"
proof -
  obtain J k where s: "s = (J, k)" by (cases s)
  obtain J' where s': "s' = (J', k)" using assms(1) s unfolding takes_run_def by (cases s') auto
  obtain project owner now r where t: "ClaimConnectorRun w owner now J = (Some r, J')" "p = execute_claimed lib owner project r"
    using assms(1) unfolding takes_run_def s s' by auto
  let ?op = "OpClaimRun w owner now"
  have J': "J' = control_exec (wl_snap (en_wire lib)) (wl_json (en_wire lib)) ?op J" using t(1) by (simp add: kept_def)
  have n: "k_stream k = k_stream k @ []" by simp
  have q: "quiet_step J J'" unfolding J' by (rule quiet_exec) simp
  have run: "running v J \<Longrightarrow> running v J'" for v unfolding J' by (rule running_exec) (simp_all add: ends_run_def)
  have wf: "runs_wf J" using assms(2) unfolding good_def s by simp
  obtain r0 where r0: "r0 \<in> set (d_runs J)" "rn_id r0 = w" "rn_status r0 = Queued" "r = claim_row owner now r0"
    "claim_row owner now r0 \<in> set (d_runs J')" using claimed_row [OF t(1)] by blast
  have e0: "rn_lease_epoch r0 = 0" using wf r0(1,3) unfolding runs_wf_def by blast
  have "\<not> named w s"
    using run_unique [OF wf r0(1)] r0(2) e0 unfolding named_def s by fastforce
  moreover have "named w s'" using r0 e0 unfolding named_def s' by (intro bexI [of _ "claim_row owner now r0"]) (simp_all add: claim_row_def)
  moreover have "rn_id r = w" using r0 by (simp add: claim_row_def)
  ultimately show ?thesis
    using quiet_good [OF q _ n] quiet_rely [OF q n run] assms(2) free_claimed [of r] t(2) unfolding s s' by blast
qed

lemma surroundings_ok:
  assumes "surroundings lib ws s s'" "good cov whole (en_wire lib) s"
  shows "good cov whole (en_wire lib) s' \<and> (w \<in> ws \<longrightarrow> rely w s s')"
proof -
  obtain J k where s: "s = (J, k)" by (cases s)
  from assms(1) consider
      (op) op where "quiet_op op" "\<forall>w \<in> ws. \<not> ends_run w op J" "s' = (control_exec (wl_snap (en_wire lib)) (wl_json (en_wire lib)) op J, k)"
    | (more) k' new where "s' = (J, k')" "k_stream k' = k_stream k @ new"
    unfolding surroundings_def s by (cases s') auto
  then show ?thesis
  proof cases
    case op
    have n: "k_stream k = k_stream k @ []" by simp
    note q = quiet_exec [OF op(1), of J "wl_snap (en_wire lib)" "wl_json (en_wire lib)"]
    show ?thesis unfolding op(3) s using quiet_good [OF q _ n] quiet_rely [OF q n] running_exec op(2) assms(2) s by blast
  next
    case more
    show ?thesis unfolding more(1) s using quiet_good [OF quiet_same _ more(2)] quiet_rely [OF quiet_same more(2)] assms(2) s by blast
  qed
qed

end

sublocale capture_source \<subseteq> pool: interleaving "allowed S" "perform lib" "good cov whole (en_wire lib)" rely named
  "surroundings lib" "takes_run lib"
proof
  show "perform lib oc q s = (r, s') \<Longrightarrow> named w s \<Longrightarrow> named w s'" for oc q s r s' w
    using named_move call_runs by blast
  show "rely w s s' \<Longrightarrow> rely w s' s'' \<Longrightarrow> rely w s s''" for w s s' s'' by (rule rely_trans)
  show "rely w s s' \<Longrightarrow> named w s \<Longrightarrow> named w s'" for w s s' by (rule rely_named)
  show "surroundings lib ws s s' \<Longrightarrow> good cov whole (en_wire lib) s \<Longrightarrow> good cov whole (en_wire lib) s' \<and> (w \<in> ws \<longrightarrow> rely w s s')"
    for ws s s' w by (rule surroundings_ok)
  show "takes_run lib s w p s' \<Longrightarrow> good cov whole (en_wire lib) s \<Longrightarrow>
      good cov whole (en_wire lib) s' \<and> \<not> named w s \<and> named w s' \<and> (\<forall>v. v \<noteq> w \<longrightarrow> rely v s s') \<and>
      safe (allowed S) (perform lib) (good cov whole (en_wire lib)) rely w p s'" for s w p s'
    by (rule taken_run)
qed simp

text \<open>The states any number of workers reach from empty tables.\<close>

definition engine_reaches :: "(source_db \<Rightarrow> bool) \<Rightarrow> 'ip engine_lib \<Rightarrow> engine_world \<Rightarrow> bool" where
  "engine_reaches S lib s \<longleftrightarrow> (\<exists>k ps. (pool_step (allowed S) (perform lib) (surroundings lib) (takes_run lib))\<^sup>*\<^sup>*
     ((empty_control, k), []) (s, ps))"

context capture_source
begin

lemma reached_good: "engine_reaches S lib s \<Longrightarrow> good cov whole (en_wire lib) s"
proof -
  assume "engine_reaches S lib s"
  then obtain k ps where r: "(pool_step (allowed S) (perform lib) (surroundings lib) (takes_run lib))\<^sup>*\<^sup>* ((empty_control, k), []) (s, ps)"
    unfolding engine_reaches_def by blast
  have "good cov whole (en_wire lib) (empty_control, k)"
    using runs_wf_empty gens_wf_reachable [OF rtranclp.rtrancl_refl] by (simp add: good_def empty_control_def rows_home_def gens_run_def)
  with pool.good_steps [OF r] show ?thesis .
qed

lemma sealed_content:
  assumes "engine_reaches S lib s" "g \<in> set (d_generations (fst s))" "gn_state g = Sealed"
  obtains envs where "list_all2 (item_of (wl_snap (en_wire lib)) (wl_json (en_wire lib)) g) envs (batches (fst s) (gn_generation g))"
    "whole (gn_source g) (content envs)"
  using gen_okD(3) [OF good_row [of cov whole "en_wire lib" "fst s" "snd s"]] reached_good [OF assms(1)] assms(2,3) by auto

lemma sealed_journal:
  assumes "engine_reaches S lib s" "g \<in> set (d_generations (fst s))" "gn_state g = Sealed"
  shows "chained (batches (fst s) (gn_generation g))" "list_all ox_published (batches (fst s) (gn_generation g))"
    "\<exists>c. completions (fst s) (gn_generation g) = [c] \<and>
       completes (wl_snap (en_wire lib)) (wl_json (en_wire lib)) g (batches (fst s) (gn_generation g)) c"
  using gen_okD(1,4) [OF good_row [of cov whole "en_wire lib" "fst s" "snd s"]] reached_good [OF assms(1)] assms(2,3) by auto

lemma published_carried:
  "engine_reaches S lib s \<Longrightarrow> o1 \<in> set (d_outbox (fst s)) \<Longrightarrow> ox_published o1 \<Longrightarrow> carried (en_wire lib) (ox_payload o1) (snd s)"
  using reached_good unfolding good_def by blast

end

end
