(* ===== verification/Complete.thy ===== *)
theory Complete
  imports Capture
begin

text \<open>
  What any number of workers achieve: a sealed generation is a complete journal, and, while the
  source does not change, it is the relation the policy approves, row for row in key order. Both are
  shown on a concrete capture of one row.
\<close>

section \<open>A source that does not change\<close>

definition same_data :: "source_db \<Rightarrow> source_db \<Rightarrow> bool" where
  "same_data so0 so \<longleftrightarrow> so_rows so = so_rows so0 \<and> so_rank so = so_rank so0"

text \<open>The rows of the relation a source key is approved for, in the order of its key.\<close>

definition key_order :: "(string \<Rightarrow> int) \<Rightarrow> string \<Rightarrow> source_tuple \<Rightarrow> int \<times> int" where
  "key_order rank key t = (case tu_text t key of None \<Rightarrow> (1, 0) | Some k \<Rightarrow> (0, rank k))"

definition approved_rows :: "source_policy option \<Rightarrow> source_db \<Rightarrow> source_key \<Rightarrow> (source_binding \<times> source_tuple list) option" where
  "approved_rows pol so src =
     (case src of (project, conn, table) \<Rightarrow>
        (case BindingForRelation pol project conn table of
           Inl _ \<Rightarrow> None
         | Inr b \<Rightarrow>
             (case quoteQualified (QualifiedRelation b) of
                None \<Rightarrow> None
              | Some rel \<Rightarrow>
                  map_option (\<lambda>ts. (b, sort_key (key_order (so_rank so rel (bd_KeyColumn b)) (bd_KeyColumn b)) ts)) (so_rows so rel))))"

definition captured_as :: "snap_lib \<Rightarrow> source_binding \<Rightarrow> source_tuple \<Rightarrow> snapshot_row \<Rightarrow> bool" where
  "captured_as slib b t r \<longleftrightarrow> tu_text t (bd_KeyColumn b) = Some (w_Key r) \<and> w_Cursor r = '''' \<and>
     (\<exists>d. tu_json t (Some (map pc_Name (bd_Columns b))) = Some d \<and> canonicalJSON slib d = Some (w_Data r))"

definition beginning :: "'ip engine_lib \<Rightarrow> source_db \<Rightarrow> source_key \<Rightarrow> snapshot_row list \<Rightarrow> bool" where
  "beginning lib so src rows \<longleftrightarrow> rows = [] \<or>
     (\<exists>b L. approved_rows (en_policy lib) so src = Some (b, L) \<and> length rows \<le> length L \<and>
        list_all2 (captured_as (wl_snap (en_wire lib)) b) (take (length rows) L) rows)"

definition everything :: "'ip engine_lib \<Rightarrow> source_db \<Rightarrow> source_key \<Rightarrow> snapshot_row list \<Rightarrow> bool" where
  "everything lib so src rows \<longleftrightarrow>
     (\<exists>b L. approved_rows (en_policy lib) so src = Some (b, L) \<and> list_all2 (captured_as (wl_snap (en_wire lib)) b) L rows)"

lemma insort_key_same: "(\<And>x y. f x \<le> f y \<longleftrightarrow> g x \<le> g y) \<Longrightarrow> insort_key f x xs = insort_key g x xs"
  by (induction xs) auto

lemma sort_key_same: "(\<And>x y. f x \<le> f y \<longleftrightarrow> g x \<le> g y) \<Longrightarrow> sort_key f xs = sort_key g xs"
proof (induction xs)
  case (Cons x xs)
  have "sort_key f (x # xs) = insort_key f x (sort_key g xs)" using Cons.IH [OF Cons.prems] by simp
  also have "\<dots> = insort_key g x (sort_key g xs)" by (rule insort_key_same, rule Cons.prems)
  finally show ?case by simp
qed simp

lemma take_length_take: "take (length (take m xs)) xs = take m xs"
  by (cases "m \<le> length xs") simp_all

lemma repeats_distinct: "repeats xs \<longleftrightarrow> \<not> distinct xs"
  by (induction xs) auto

lemma pulled_row_data: "sw_Data (pulled_row_of q cs t) = tu_json t cs"
  by (simp add: pulled_row_of_def Let_def)

lemma page_content:
  assumes "encode_rows (\<lambda>_. '''') (map (pulled_row_of q (Some (map pc_Name (bd_Columns b)))) ts) = Some landed"
    and "SnapshotRows slib landed = Inr srows" "reads q (Some (map pc_Name (bd_Columns b)))" "pq_KeyColumn q = bd_KeyColumn b"
    and "list_all (\<lambda>t. tu_text t (bd_KeyColumn b) \<noteq> None) ts"
  shows "list_all2 (captured_as slib b) ts srows"
  using assms(1,2,5)
proof (induction ts arbitrary: landed srows)
  case (Cons t ts)
  let ?cols = "Some (map pc_Name (bd_Columns b))"
  obtain d landed' where d: "tu_json t ?cols = Some d" "encode_rows (\<lambda>_. '''') (map (pulled_row_of q ?cols) ts) = Some landed'"
    "landed = \<lparr>Key = sw_Key (pulled_row_of q ?cols t), Cursor = '''', DataJSON = d\<rparr> # landed'"
    using Cons.prems(1) by (auto simp: pulled_row_data split: option.splits)
  obtain canon rest where c: "canonicalJSON slib d = Some canon" "SnapshotRows slib landed' = Inr rest"
    "srows = \<lparr>w_Key = sw_Key (pulled_row_of q ?cols t), w_Cursor = '''', w_Data = canon\<rparr> # rest"
    using Cons.prems(2) d(3) by (cases "SnapshotRows slib landed'") (auto split: option.splits)
  obtain k where k: "tu_text t (bd_KeyColumn b) = Some k" using Cons.prems(3) by auto
  have "sw_Key (pulled_row_of q ?cols t) = k" using pulled_row_key [OF assms(3)] k assms(4) by simp
  then have "captured_as slib b t (\<lparr>w_Key = sw_Key (pulled_row_of q ?cols t), w_Cursor = '''', w_Data = canon\<rparr>)"
    using k d(1) c(1) by (simp add: captured_as_def)
  then show ?case using Cons.IH [OF d(2) c(2)] Cons.prems(3) c(3) by simp
qed simp

text \<open>The request of a snapshot page, and the table and columns it addresses.\<close>

lemma snapshot_table:
  assumes "OpenWithPolicy (\<lambda>_. False) (jb_Kind job) (jb_ProjectID job) (jb_ConnectorID job) pol (Some (jb_Table job)) = Inr bs"
    and "PullRows so bs (snapshot_request job key) = Inr p"
  obtains b rel ts where "bs = [b]" "BindingForRelation pol (jb_ProjectID job) (jb_ConnectorID job) (jb_Table job) = Inr b"
    "quoteQualified (QualifiedRelation b) = Some rel" "so_rows so rel = Some ts" "jb_KeyColumn job = bd_KeyColumn b"
    "queryTable so bs (snapshot_request job '''') = Inr (rel, Some (map pc_Name (bd_Columns b)))"
    "jb_Table job \<noteq> ''''" "jb_KeyColumn job \<noteq> ''''"
proof -
  have at: "snapshot_request job key = at_position (snapshot_request job '''') '''' key" by (simp add: snapshot_request_def at_position_def)
  obtain b where b: "bs = [b]" "BindingForRelation pol (jb_ProjectID job) (jb_ConnectorID job) (jb_Table job) = Inr b" "pol \<noteq> None"
    using assms(1) by (auto simp: OpenWithPolicy_def split: if_splits sum.splits)
  then obtain p where "MatchesRelation b (jb_Table job)" using BindingForRelation_member(4) by (cases pol) auto
  then have find: "bindingForRelation [b] (jb_Table job) = Some b" by (simp add: bindingForRelation_def)
  have same: "queryTable so bs (snapshot_request job key) = queryTable so bs (snapshot_request job '''')" unfolding at by simp
  obtain rel columns where q1: "queryTable so bs (snapshot_request job '''') = Inr (rel, columns)"
    using assms(2) by (cases "queryTable so bs (snapshot_request job '''')") (auto simp: PullRows_def same split: if_splits)
  obtain ts where q2: "so_rows so rel = Some ts"
    using assms(2) by (cases "so_rows so rel") (simp_all add: PullRows_def same q1 Let_def split: if_splits)
  note q = q1 q2
  have "jb_Table job \<noteq> ''''" "jb_KeyColumn job \<noteq> ''''"
    using assms(2) by (auto simp: PullRows_def snapshot_request_def split: if_splits)
  moreover have "quoteQualified (QualifiedRelation b) = Some rel" "columns = Some (map pc_Name (bd_Columns b))" "jb_KeyColumn job = bd_KeyColumn b"
    using q(1) find by (auto simp: queryTable_def b(1) snapshot_request_def validateApprovedRequest_def split: if_splits option.splits)
  ultimately show thesis using that b(1,2) q by simp
qed

lemma checked_keys:
  assumes "ValidateSnapshotKey so [b] table (bd_KeyColumn b) = None" "bindingForRelation [b] table = Some b"
    and "quoteQualified (QualifiedRelation b) = Some rel" "so_rows so rel = Some ts"
  shows "list_all (\<lambda>t. tu_text t (bd_KeyColumn b) \<noteq> None \<and> tu_text t (bd_KeyColumn b) \<noteq> Some '''') ts"
    "distinct (map (\<lambda>t. map_option (so_rank so rel (bd_KeyColumn b)) (tu_text t (bd_KeyColumn b))) ts)"
proof -
  let ?keys = "map (\<lambda>t. tu_text t (bd_KeyColumn b)) ts"
  have v: "\<not> (None \<in> set ?keys \<or> Some '''' \<in> set ?keys \<or> repeats (map (map_option (so_rank so rel (bd_KeyColumn b))) ?keys))"
    using assms by (auto simp: ValidateSnapshotKey_def validateApprovedKey_def Let_def split: option.splits if_splits)
  then show "list_all (\<lambda>t. tu_text t (bd_KeyColumn b) \<noteq> None \<and> tu_text t (bd_KeyColumn b) \<noteq> Some '''') ts"
    unfolding list_all_iff by (metis image_eqI list.set_map)
  show "distinct (map (\<lambda>t. map_option (so_rank so rel (bd_KeyColumn b)) (tu_text t (bd_KeyColumn b))) ts)"
    using v by (simp add: repeats_distinct comp_def)
qed

lemma static_page:
  assumes pol: "LoadSourcePolicy pl path = Inr pol" "en_policy lib = Some pol"
    and opened: "OpenWithPolicy (\<lambda>_. False) (jb_Kind job) (jb_ProjectID job) (jb_ConnectorID job) (en_policy lib) (Some (jb_Table job)) = Inr bs"
    and key_ok: "same_data so0 so'" "ValidateSnapshotKey so' bs (jb_Table job) (jb_KeyColumn job) = None"
    and pull: "PullRows so bs (snapshot_request job key) = Inr p" "same_data so0 so"
    and so_far: "beginning lib so0 (job_source job) rows" "key = (if rows = [] then '''' else w_Key (last rows))"
    and landed: "encode_rows (\<lambda>_. '''') (pr_Rows p) = Some landed" "SnapshotRows (wl_snap (en_wire lib)) landed = Inr srows"
  shows "beginning lib so0 (job_source job) (rows @ srows) \<and> (\<not> pr_HasMore p \<longrightarrow> everything lib so0 (job_source job) (rows @ srows))"
proof -
  let ?q = "snapshot_request job ''''" and ?slib = "wl_snap (en_wire lib)"
  obtain b rel ts where t: "bs = [b]" "BindingForRelation (en_policy lib) (jb_ProjectID job) (jb_ConnectorID job) (jb_Table job) = Inr b"
    "quoteQualified (QualifiedRelation b) = Some rel" "so_rows so rel = Some ts" "jb_KeyColumn job = bd_KeyColumn b"
    "queryTable so bs ?q = Inr (rel, Some (map pc_Name (bd_Columns b)))" "jb_Table job \<noteq> ''''" "jb_KeyColumn job \<noteq> ''''"
    by (rule snapshot_table [OF opened pull(1)])
  let ?cols = "Some (map pc_Name (bd_Columns b))"
  have rk: "so_rank so' = so_rank so" "so_rank so0 = so_rank so" "so_rows so' = so_rows so" "so_rows so0 = so_rows so"
    using key_ok(1) pull(2) by (simp_all add: same_data_def)
  note mem = BindingForRelation_member [OF t(2) [unfolded pol(2)]]
  obtain i where i: "validate_binding pl i b = None" using LoadSourcePolicy_valid [OF pol(1) mem(1)] by blast
  have col: "bd_KeyColumn b \<in> set (map pc_Name (bd_Columns b))"
    using validate_binding_ok(5) [OF i] by (force simp: AllowsColumn_def list_ex_iff)
  have rd: "reads ?q ?cols" "pq_KeyColumn ?q = bd_KeyColumn b" using t(5,7,8) col by (auto simp: reads_def snapshot_request_def pullBatchSize_def)
  have find: "bindingForRelation [b] (jb_Table job) = Some b" using mem(4) by (simp add: bindingForRelation_def)
  note ck = checked_keys [OF key_ok(2) [unfolded t(1,5)] find t(3), unfolded rk, OF t(4)]
  have keyed: "keyed so rel ?q ts" using ck rd(2) by (simp add: keyed_def)
  have pos: "positioned ?q ts" by (simp add: positioned_def snapshot_request_def)
  let ?L = "in_order (so_rank so rel (pq_CursorColumn ?q)) (so_rank so rel (pq_KeyColumn ?q)) ?q ts"
  have "?L = sort_key (key_order (so_rank so rel (bd_KeyColumn b)) (bd_KeyColumn b)) ts"
    unfolding in_order_def rd(2) by (rule sort_key_same) (auto simp: sort_position_def key_order_def snapshot_request_def t(5) split: option.split)
  then have ap: "approved_rows (en_policy lib) so0 (job_source job) = Some (b, ?L)"
    by (simp add: approved_rows_def job_source_def t(2-4) rk)
  have set: "set ?L = set ts" by (simp add: in_order_def)
  let ?n = "length rows" let ?more = "take pullBatchSize (drop ?n ?L)"
  have n: "?n \<le> length ?L" "list_all2 (captured_as ?slib b) (take ?n ?L) rows"
    using so_far(1) ap by (auto simp: beginning_def)
  have "snapshot_request job key = resume ?q ?L ?n"
  proof (cases "rows = []")
    case False
    then have "captured_as ?slib b (?L ! (?n - 1)) (rows ! (?n - 1))" using list_all2_nthD [OF n(2), of "?n - 1"] n(1) by simp
    then have "tu_text (?L ! (?n - 1)) (bd_KeyColumn b) = Some key" using so_far(2) False by (simp add: captured_as_def last_conv_nth)
    then show ?thesis using False rd(2) by (simp add: resume_def position_of_def) (simp add: snapshot_request_def at_position_def)
  qed (simp add: so_far(2) resume_def, simp add: snapshot_request_def at_position_def)
  then have p: "p = page_result pullBatchSize (map (pulled_row_of ?q ?cols) ?more)"
    using page_at [OF t(6,4) rd(1) keyed pos refl n(1)] pull(1) by (simp add: snapshot_request_def)
  have "list_all (\<lambda>t. tu_text t (bd_KeyColumn b) \<noteq> None) ?more"
    using ck(1) set by (auto simp: list_all_iff dest!: in_set_takeD in_set_dropD)
  then have c: "list_all2 (captured_as ?slib b) ?more srows"
    using page_content [OF _ landed(2) rd] landed(1) by (simp add: p page_result_def)
  have len: "length srows = length ?more" using list_all2_lengthD [OF c] by simp
  have all: "list_all2 (captured_as ?slib b) (take ?n ?L @ ?more) (rows @ srows)" by (rule list_all2_appendI [OF n(2) c])
  have "take (length (rows @ srows)) ?L = take ?n ?L @ take (length ?more) (drop ?n ?L)" by (simp add: take_add len del: length_take)
  also have "\<dots> = take ?n ?L @ ?more" by (simp only: take_length_take)
  finally have "take (length (rows @ srows)) ?L = take ?n ?L @ ?more" .
  then have "beginning lib so0 (job_source job) (rows @ srows)"
    using ap all n(1) len by (auto simp: beginning_def)
  moreover have "everything lib so0 (job_source job) (rows @ srows)" if "\<not> pr_HasMore p"
  proof -
    have "?more = drop ?n ?L" using that by (simp add: p page_result_def)
    then show ?thesis using ap all unfolding everything_def by (metis append_take_drop_id)
  qed
  ultimately show ?thesis by blast
qed

lemma static_capture:
  assumes "LoadSourcePolicy pl path = Inr pol" "en_policy lib = Some pol"
  shows "capture_source lib (same_data so0) (beginning lib so0) (everything lib so0)"
proof
  show "beginning lib so0 src []" for src by (simp add: beginning_def)
  show "beginning lib so0 src xs" if more: "beginning lib so0 src (xs @ ys)" for src xs ys
  proof (cases "xs = []")
    case False
    then obtain b L where "approved_rows (en_policy lib) so0 src = Some (b, L)" "length (xs @ ys) \<le> length L"
      "list_all2 (captured_as (wl_snap (en_wire lib)) b) (take (length (xs @ ys)) L) (xs @ ys)"
      using more unfolding beginning_def by blast
    moreover from this(2,3) have "list_all2 (captured_as (wl_snap (en_wire lib)) b) (take (length xs) L) xs"
      by (auto simp: take_add list_all2_append)
    ultimately show ?thesis by (auto simp: beginning_def)
  qed (simp add: beginning_def)
qed (rule static_page [OF assms])
section \<open>A concrete capture\<close>

definition wit_capture_lib :: "nat engine_lib" where
  "wit_capture_lib = \<lparr>en_wire = wit_wl\<lparr>wl_json := wit_json\<rparr>, en_queue = wit_queue,
     en_policy_lib = wit_policy_lib\<lparr>pl_sha256 := (\<lambda>_. wit_hash)\<rparr>, en_policy = Some wit_policy, en_dsn = (\<lambda>_. True)\<rparr>"

definition wit_row_source :: source_db where
  "wit_row_source = \<lparr>so_kind = (\<lambda>_. Some ''v''), so_columns = (\<lambda>_. [(''id'', ''text'')]),
     so_rows = (\<lambda>_. Some [wit_tuple ''a'' None]), so_rank = (\<lambda>_ _. wit_rank)\<rparr>"

definition wit_answer :: "time \<Rightarrow> string \<Rightarrow> call_outcome" where
  "wit_answer now uuid = \<lparr>oc_reaches = True, oc_heard = True, oc_text = ''e'', oc_now = now, oc_uuid = uuid, oc_stopped = False,
     oc_dials = True, oc_source = wit_row_source\<rparr>"

definition wit_view_job :: sync_job where
  "wit_view_job = wit_sync_job\<lparr>jb_Table := ''x.t'', jb_BindingDigest := Some wit_hash\<rparr>"

definition wit_capture_claimed :: control_db where
  "wit_capture_claimed = wit_view_control\<lparr>d_runs := [claim_row ''o'' 6 wit_queued_run]\<rparr>"

definition wit_capture_gen :: generation_row where
  "wit_capture_gen = new_generation wit_view_job wit_hash ''g1'' 1 ''r1'' ''o'' 1 7"

definition wit_capture_started :: control_db where
  "wit_capture_started = wit_capture_claimed\<lparr>d_generations := [wit_capture_gen], d_sequences := [((''p'', ''c'', ''x.t''), 1)]\<rparr>"

definition wit_capture_env :: snapshot_envelope where
  "wit_capture_env = (common_envelope wit_view_job ''r1'' wit_capture_gen)\<lparr>n_Kind := SnapshotKindBatch, n_BatchID := batch_id 0,
     n_Rows := [\<lparr>w_Key = ''a'', w_Cursor = '''', w_Data = ''{}''\<rparr>], n_PayloadSHA256 := wit_hash\<rparr>"

definition wit_capture_item :: outbox_row where
  "wit_capture_item = batch_item ''i1'' wit_capture_gen wit_capture_env ''{}'' '''' ''a''"

definition wit_capture_landed :: control_db where
  "wit_capture_landed = wit_capture_started\<lparr>d_outbox := [wit_capture_item]\<rparr>"

definition wit_capture_next :: generation_row where
  "wit_capture_next = advance_generation wit_capture_item 0 wit_capture_gen"

definition wit_capture_marked :: control_db where
  "wit_capture_marked = wit_capture_landed\<lparr>d_outbox := [wit_capture_item\<lparr>ox_published := True\<rparr>], d_generations := [wit_capture_next]\<rparr>"

lemmas wit_capture_defs = wit_capture_lib_def wit_row_source_def wit_answer_def wit_view_job_def wit_capture_claimed_def
  wit_capture_gen_def wit_capture_started_def wit_capture_item_def wit_capture_landed_def wit_capture_next_def
  wit_capture_marked_def wit_view_control_def wit_view_sync_def

lemma wit_capture_setup:
  "EnqueueConnectorRun ''p'' ''s'' ''k'' ''r1'' 5 wit_view_control = Inr ((wit_queued_run, True), wit_view_control\<lparr>d_runs := [wit_queued_run]\<rparr>)"
  "ClaimConnectorRun ''r1'' ''o'' 6 (wit_view_control\<lparr>d_runs := [wit_queued_run]\<rparr>) = (Some (claim_row ''o'' 6 wit_queued_run), wit_capture_claimed)"
  by (simp_all add: EnqueueConnectorRun_def admit_run_def connectorRunByKey_def stamped_run_def alias_run_def
      insert_run_def ClaimConnectorRun_def Let_def wit_capture_defs wit_control_defs)

lemma wit_capture_job:
  "ConnectorSyncJob (en_policy_lib wit_capture_lib) (en_policy wit_capture_lib) (en_dsn wit_capture_lib) ''s'' wit_capture_claimed = Inr wit_view_job"
  using wit_view_bound
  by (simp add: ConnectorSyncJob_def wit_capture_defs wit_sync_row_def wit_connector_row_def wit_sync_job_def
        empty_control_def Let_def MatchesRelation_def QualifiedRelation_def wit_binding_def RelationKindView_def
        RelationKindLegacyTable_def job_of_def DigestOf_def wit_policy_lib_def)

lemma wit_capture_claim:
  "ClaimSnapshotGeneration wit_view_job ''r1'' ''o'' 1 ''g1'' 7 wit_capture_claimed = Inr (wit_capture_gen, wit_capture_started)"
  by (simp add: ClaimSnapshotGeneration_def job_current_def requireSnapshotRunFence_def holds_lease_def leaseStale_def
      retire_cancelled_def next_sequence_def insert_generation_def Let_def wit_capture_defs wit_control_defs)

lemma wit_capture_fence: "d_runs J = [claim_row ''o'' 6 wit_queued_run] \<Longrightarrow> requireSnapshotRunFence ''r1'' ''s'' ''o'' 1 8 J = Inr ()"
  by (simp add: requireSnapshotRunFence_def holds_lease_def leaseStale_def Let_def active_run_def wit_control_defs)

lemma wit_key_plain: "trim_space ''a'' = ''a''"
  by (rule trim_space_plain) (simp add: plain_def)

lemma wit_capture_valid: "MarshalSnapshotEnvelope wit_snap wit_json wit_capture_env = Inr ''{}''"
proof -
  have d: "SnapshotPayloadDigest wit_snap [\<lparr>w_Key = ''a'', w_Cursor = '''', w_Data = ''{}''\<rparr>] = Inr wit_hash"
    using wit_key_plain by (simp add: SnapshotPayloadDigest_def CanonicalSnapshotRows_def wit_snap_def)
  have "Validate wit_snap wit_capture_env = None"
    using d by (simp add: Validate_def wit_capture_env_def common_envelope_def wit_capture_gen_def new_generation_def wit_view_job_def
        wit_sync_job_def batch_id_def SnapshotKindBatch_def zero_time_def)
  then show ?thesis by (simp add: MarshalSnapshotEnvelope_def wit_json_def)
qed

lemma wit_capture_built:
  "BuildSnapshotBatches (en_wire wit_capture_lib) wit_queue (common_envelope wit_view_job ''r1'' wit_capture_gen)
     [\<lparr>Key = ''a'', Cursor = '''', DataJSON = ''{}''\<rparr>] 0 = Inr [wit_capture_env]"
proof -
  have e: "(common_envelope wit_view_job ''r1'' wit_capture_gen)\<lparr>n_Protocol := SnapshotProtocolV1, n_Kind := SnapshotKindBatch, n_BatchIndex := 0,
       n_BatchID := batch_id 0, n_Rows := [\<lparr>w_Key = ''a'', w_Cursor = '''', w_Data = ''{}''\<rparr>], n_CaptureFinishedAt := None,
       n_PayloadSHA256 := wit_hash\<rparr> = wit_capture_env"
    by (simp add: wit_capture_env_def common_envelope_def)
  have d: "SnapshotPayloadDigest wit_snap [\<lparr>w_Key = ''a'', w_Cursor = '''', w_Data = ''{}''\<rparr>] = Inr wit_hash"
    using wit_key_plain by (simp add: SnapshotPayloadDigest_def CanonicalSnapshotRows_def wit_snap_def)
  have "buildSnapshotBatch (en_wire wit_capture_lib) (common_envelope wit_view_job ''r1'' wit_capture_gen)
      [row_of_landed \<lparr>Key = ''a'', Cursor = '''', DataJSON = ''{}''\<rparr>] 0 = Inr (wit_capture_env, ''{}'')"
    using d wit_capture_valid e by (simp add: buildSnapshotBatch_def row_of_landed_def wit_capture_lib_def wit_wl_def Let_def) (simp add: wit_snap_def)
  moreover have "int64 0 = 0" by (simp add: int64_def)
  ultimately show ?thesis by (simp add: BuildSnapshotBatches_def chunkRows_def wit_budget Let_def)
qed
lemma wit_capture_prepare:
  "PrepareSnapshotEnvelope wit_snap wit_json wit_capture_gen wit_capture_env '''' ''a'' ''i1'' 8 wit_capture_started = Inr (wit_capture_item, wit_capture_landed)"
proof -
  have f: "generation_fence wit_capture_gen 8 wit_capture_started = Inr ()"
    by (simp add: generation_fence_def wit_capture_gen_def new_generation_def wit_view_job_def wit_sync_job_def wit_capture_fence
        wit_capture_started_def wit_capture_claimed_def)
  have i: "insert_outbox wit_capture_item wit_capture_started = Inr (wit_capture_item, wit_capture_landed)"
    by (simp add: insert_outbox_def wit_capture_item_def batch_item_def wit_capture_env_def common_envelope_def SnapshotKindBatch_def
        wit_capture_landed_def) (simp add: wit_capture_started_def wit_capture_claimed_def wit_view_control_def empty_control_def)
  have e: "n_Generation wit_capture_env = gn_generation wit_capture_gen" "n_GenerationSeq wit_capture_env = gn_seq wit_capture_gen"
    "n_BindingDigest wit_capture_env = gn_binding wit_capture_gen" "gn_state wit_capture_gen = Capturing"
    "ox_payload wit_capture_item = ''{}''" "ox_lower wit_capture_item = ''''" "ox_upper wit_capture_item = ''a''"
    by (simp_all add: wit_capture_env_def common_envelope_def wit_capture_item_def batch_item_def)
       (simp add: wit_capture_gen_def new_generation_def)
  show ?thesis using i by (simp add: PrepareSnapshotEnvelope_def wit_capture_valid e f wit_capture_item_def [symmetric])
qed

lemma wit_capture_mark:
  "MarkSnapshotOutboxPublished wit_capture_gen wit_capture_item wit_capture_landed = Inr wit_capture_marked"
proof -
  have "ox_kind wit_capture_item = SnapshotKindBatch" "ox_index wit_capture_item = 0" "\<not> ox_published wit_capture_item" "gn_next wit_capture_gen = 0"
    by (simp_all add: wit_capture_item_def batch_item_def wit_capture_env_def common_envelope_def)
       (simp add: wit_capture_gen_def new_generation_def)
  then show ?thesis
    by (simp add: MarkSnapshotOutboxPublished_def wit_capture_landed_def wit_capture_marked_def wit_capture_next_def)
       (simp add: wit_capture_started_def)
qed

definition wit_capture_done :: snapshot_envelope where
  "wit_capture_done = completion_envelope wit_view_job ''r1'' wit_capture_next 9 [entry_of_item wit_capture_item] 1 wit_hash"

definition wit_capture_sealed :: control_db where
  "wit_capture_sealed = wit_capture_marked\<lparr>
     d_outbox := [wit_capture_item\<lparr>ox_published := True\<rparr>, completion_item ''i2'' wit_capture_next wit_capture_done ''{}''],
     d_generations := [seal_row (Some 9) 8 wit_capture_next], d_runs := [succeed_row 1 8 (claim_row ''o'' 6 wit_queued_run)],
     d_syncs := [seal_sync 1 8 wit_view_sync]\<rparr>"

lemma wit_capture_next_row: "gn_rows wit_capture_next = 1" "gn_key wit_capture_next = ''a''" "gn_generation wit_capture_next = ''g1''"
    "gn_run wit_capture_next = ''r1''" "gn_owner wit_capture_next = ''o''" "gn_lease wit_capture_next = 1" "gn_sync wit_capture_next = ''s''"
    "gn_state wit_capture_next = Capturing" "gn_seq wit_capture_next = 1" "gn_binding wit_capture_next = wit_hash"
    "gn_started_at wit_capture_next = 7" "gn_source wit_capture_next = (''p'', ''c'', ''x.t'')" "gn_next wit_capture_next = 1"
  by (simp_all add: wit_capture_next_def advance_generation_def wit_capture_gen_def new_generation_def wit_view_job_def wit_sync_job_def
      wit_capture_item_def batch_item_def wit_capture_env_def common_envelope_def job_source_def)

lemma wit_done_valid: "MarshalSnapshotEnvelope wit_snap wit_json wit_capture_done = Inr ''{}''"
proof -
  have "Validate wit_snap wit_capture_done = None"
    by (simp add: Validate_def wit_capture_done_def completion_envelope_def common_envelope_def wit_capture_next_row wit_view_job_def
        wit_sync_job_def SnapshotKindBatch_def SnapshotKindComplete_def zero_time_def)
  then show ?thesis by (simp add: MarshalSnapshotEnvelope_def wit_json_def)
qed

lemma wit_capture_seal:
  "SealSnapshotGeneration wit_snap wit_json wit_capture_next wit_capture_done 1 ''i2'' 8 wit_capture_marked =
     Inr (completion_item ''i2'' wit_capture_next wit_capture_done ''{}'', wit_capture_sealed)"
proof -
  let ?item = "wit_capture_item\<lparr>ox_published := True\<rparr>" and ?c = "completion_item ''i2'' wit_capture_next wit_capture_done ''{}''"
  have k: "n_Kind wit_capture_done = SnapshotKindComplete" "n_CaptureFinishedAt wit_capture_done = Some 9" "n_ExpectedBatches wit_capture_done = 1"
    by (simp_all add: wit_capture_done_def completion_envelope_def)
  have f: "generation_fence wit_capture_next 8 wit_capture_marked = Inr ()"
    by (simp add: generation_fence_def wit_capture_next_row wit_capture_fence wit_capture_marked_def wit_capture_landed_def
        wit_capture_started_def wit_capture_claimed_def)
  have kinds: "ox_kind ?c = SnapshotKindComplete" "ox_index ?c = 1" "ox_rows ?c = 0" "ox_id ?c = ''i2''" "ox_payload ?c = ''{}''"
    "ox_kind ?item = SnapshotKindBatch" "ox_id ?item = ''i1''" "SnapshotKindBatch \<noteq> SnapshotKindComplete"
    by (simp_all add: completion_item_def k wit_capture_item_def batch_item_def wit_capture_env_def SnapshotKindBatch_def SnapshotKindComplete_def)
  have out: "d_outbox wit_capture_marked = [?item]" "d_generations wit_capture_marked = [wit_capture_next]"
    "d_runs wit_capture_marked = [claim_row ''o'' 6 wit_queued_run]" "d_syncs wit_capture_marked = [wit_view_sync]"
    by (simp_all add: wit_capture_marked_def wit_capture_landed_def wit_capture_started_def wit_capture_claimed_def wit_view_control_def)
  have i: "insert_outbox ?c wit_capture_marked = Inr (?c, wit_capture_marked\<lparr>d_outbox := [?item, ?c]\<rparr>)"
    using kinds by (simp add: insert_outbox_def same_slot_def out)
  have r: "rn_id (claim_row ''o'' 6 wit_queued_run) = ''r1''" "rn_status (claim_row ''o'' 6 wit_queued_run) = Running"
    "rn_owner (claim_row ''o'' 6 wit_queued_run) = ''o''" "rn_lease_epoch (claim_row ''o'' 6 wit_queued_run) = 1"
    "\<not> rn_cancel_requested (claim_row ''o'' 6 wit_queued_run)" "cs_id wit_view_sync = ''s''"
    by (simp_all add: claim_row_def wit_queued_run_def new_run_def wit_view_sync_def wit_sync_row_def)
  show ?thesis
    by (simp add: SealSnapshotGeneration_def k(1,2) wit_done_valid f i kinds(5) Let_def held_by_def affected_def out wit_capture_next_row r)
       (simp add: wit_capture_sealed_def wit_capture_marked_def)
qed
abbreviation wit_pool :: "engine_world \<times> (string \<times> unit engine_prog) list \<Rightarrow> engine_world \<times> (string \<times> unit engine_prog) list \<Rightarrow> bool" where
  "wit_pool \<equiv> (pool_step (allowed (same_data wit_row_source)) (perform wit_capture_lib) (surroundings wit_capture_lib) (takes_run wit_capture_lib))\<^sup>*\<^sup>*"

text \<open>\<open>leads s p s'\<close>: a worker with the program \<open>p\<close> may bring the world from \<open>s\<close> to \<open>s'\<close>.\<close>

definition leads :: "engine_world \<Rightarrow> unit engine_prog \<Rightarrow> engine_world \<Rightarrow> bool" where
  "leads s p s' \<longleftrightarrow> (\<exists>p'. wit_pool (s, [(''r1'', p)]) (s', [(''r1'', p')]))"

lemma leads_refl: "leads s p s"
  unfolding leads_def by blast

lemma leads_step:
  assumes "perform wit_capture_lib (wit_answer now uuid) q s = (r, s1)"
    and "\<And>job run owner epoch. q = CallClaim job run owner epoch \<Longrightarrow> \<not> list_ex (\<lambda>g. gn_generation g = uuid) (d_generations (fst s))"
    and "leads s1 (k r) s'"
  shows "leads s (Ask q k) s'"
proof -
  have al: "allowed (same_data wit_row_source) (wit_answer now uuid) q s"
    using assms(2) by (cases q) (simp_all add: allowed_def wit_answer_def same_data_def)
  have "pool_step (allowed (same_data wit_row_source)) (perform wit_capture_lib) (surroundings wit_capture_lib) (takes_run wit_capture_lib)
      (s, [(''r1'', Ask q k)]) (s1, [(''r1'', Ask q k)][0 := (''r1'', k r)])" by (rule pool_step.call) (use al assms(1) in simp_all)
  then have "wit_pool (s, [(''r1'', Ask q k)]) (s1, [(''r1'', k r)])" by (intro r_into_rtranclp) simp
  then show ?thesis using assms(3) unfolding leads_def by (meson rtranclp_trans)
qed

lemma wit_read_row:
  "SnapshotGeneration ''g1'' wit_capture_started = Inr wit_capture_gen" "SnapshotGeneration ''g1'' wit_capture_marked = Inr wit_capture_next"
  by (simp_all add: SnapshotGeneration_def wit_capture_marked_def wit_capture_next_row)
     (simp add: wit_capture_started_def wit_capture_gen_def new_generation_def)

lemma wit_open: "OpenWithPolicy (\<lambda>_. False) (jb_Kind wit_view_job) (jb_ProjectID wit_view_job) (jb_ConnectorID wit_view_job)
    (en_policy wit_capture_lib) (Some (jb_Table wit_view_job)) = Inr [wit_binding]"
  by (simp add: OpenWithPolicy_def wit_view_job_def wit_sync_job_def wit_capture_lib_def wit_view_bound)

lemma wit_row_relation:
  "discoverApprovedBinding wit_row_source wit_binding = None" "bindingForRelation [wit_binding] ''x.t'' = Some wit_binding"
  "quoteQualified (QualifiedRelation wit_binding) = Some (''x'', ''t'')" "MatchesRelation wit_binding ''x.t''" "bd_KeyColumn wit_binding = ''id''"
  by (simp_all add: discoverApprovedBinding_def wit_row_source_def wit_binding_def wit_column_def RelationKindView_def
        RelationKindLegacyTable_def bindingForRelation_def MatchesRelation_def QualifiedRelation_def quoteQualified_def splitQualified_def)

lemma wit_row_checked: "ValidateSnapshotKey wit_row_source [wit_binding] ''x.t'' ''id'' = None"
  by (simp add: ValidateSnapshotKey_def wit_row_relation validateApprovedKey_def Let_def) (simp add: wit_row_source_def wit_row_relation(5))

lemma wit_row_page:
  "PullRows wit_row_source [wit_binding] (snapshot_request wit_view_job '''') =
     Inr (page_result 1000 [\<lparr>sw_Key = ''a'', sw_Cursor = '''', sw_Data = Some ''{}''\<rparr>])"
proof -
  have q: "queryTable wit_row_source [wit_binding] (snapshot_request wit_view_job '''') = Inr ((''x'', ''t''), Some [''id''])"
    by (simp add: queryTable_def snapshot_request_def wit_view_job_def wit_sync_job_def wit_row_relation validateApprovedRequest_def)
       (simp add: wit_binding_def wit_column_def)
  have r: "so_rows wit_row_source (''x'', ''t'') = Some [wit_tuple ''a'' None]" by (simp add: wit_row_source_def)
  show ?thesis
    by (simp add: PullRows_def q r Let_def selected_def pulled_row_of_def)
       (simp add: snapshot_request_def wit_view_job_def wit_sync_job_def pullBatchSize_def)
qed

lemma wit_row_published: "\<exists>k. PublishSnapshotEnvelope (en_wire wit_capture_lib) wit_queue wit_capture_env wit_broker = (None, k)"
proof -
  have "fst (PublishSnapshotEnvelope (en_wire wit_capture_lib) wit_queue wit_capture_env wit_broker) = None"
    using wit_capture_valid
    by (simp add: PublishSnapshotEnvelope_def wit_capture_lib_def wit_wl_def wit_queue_def wit_broker_def refused_admission_def
        send_def observe_def Let_def)
  then show ?thesis by (metis prod.collapse)
qed

lemma wit_row_manifest:
  "SnapshotManifest ''g1'' wit_capture_marked = ([entry_of_item wit_capture_item], 1)"
  "SnapshotManifestDigest wit_snap [entry_of_item wit_capture_item] = Inr wit_hash"
proof -
  have i: "ox_kind wit_capture_item = SnapshotKindBatch" "ox_generation wit_capture_item = ''g1''" "ox_rows wit_capture_item = 1"
    "ox_index wit_capture_item = 0" "ox_batch_id wit_capture_item = batch_id 0" "ox_sha256 wit_capture_item = wit_hash"
    by (simp_all add: wit_capture_item_def batch_item_def wit_capture_env_def common_envelope_def wit_capture_gen_def new_generation_def
        SnapshotKindBatch_def SnapshotKindComplete_def)
  then show "SnapshotManifest ''g1'' wit_capture_marked = ([entry_of_item wit_capture_item], 1)"
    by (simp add: SnapshotManifest_def published_batches_def wit_capture_marked_def entry_of_item_def Let_def)
  show "SnapshotManifestDigest wit_snap [entry_of_item wit_capture_item] = Inr wit_hash"
    using i by (simp add: SnapshotManifestDigest_def entry_of_item_def batch_id_def) (simp add: wit_snap_def)
qed

lemma wit_lib: "wl_snap (en_wire wit_capture_lib) = wit_snap" "wl_json (en_wire wit_capture_lib) = wit_json" "en_queue wit_capture_lib = wit_queue"
  by (simp_all add: wit_capture_lib_def wit_wl_def)

lemma wit_answers [simp]: "oc_reaches (wit_answer now u)" "oc_heard (wit_answer now u)" "oc_now (wit_answer now u) = now"
    "oc_uuid (wit_answer now u) = u" "oc_dials (wit_answer now u)" "oc_source (wit_answer now u) = wit_row_source"
  by (simp_all add: wit_answer_def)

lemma wit_seals:
  "leads (wit_capture_marked, k) (and_then (seal_capture wit_capture_lib wit_view_job ''r1'' 0 wit_capture_next) f) (wit_capture_sealed, k)"
proof -
  have m: "perform wit_capture_lib (wit_answer 9 '''') (CallManifest ''g1'') (wit_capture_marked, k) =
      (GotManifest [entry_of_item wit_capture_item] 1, (wit_capture_marked, k))"
    by (simp add: answered_def transacted_def wit_row_manifest)
  have n: "perform wit_capture_lib (wit_answer 9 '''') CallNow (wit_capture_marked, k) = (GotTime 9, (wit_capture_marked, k))" by simp
  have s: "perform wit_capture_lib (wit_answer 8 ''i2'') (CallSeal wit_capture_next wit_capture_done 1) (wit_capture_marked, k) =
      (GotItem (completion_item ''i2'' wit_capture_next wit_capture_done ''{}''), (wit_capture_sealed, k))"
    by (simp add: transacted_def wit_lib wit_capture_seal)
  have d: "completion_envelope wit_view_job ''r1'' wit_capture_next 9 [entry_of_item wit_capture_item] 1 wit_hash = wit_capture_done"
    by (simp add: wit_capture_done_def)
  show ?thesis unfolding seal_capture_def Let_def and_then.simps wit_capture_next_row
    by (rule leads_step [OF m], simp, simp add: wit_lib wit_row_manifest(2), rule leads_step [OF n], simp, simp add: d,
        rule leads_step [OF s], simp, rule leads_refl)
qed
lemma wit_env_fields: "n_Rows wit_capture_env = [\<lparr>w_Key = ''a'', w_Cursor = '''', w_Data = ''{}''\<rparr>]" "gn_rows wit_capture_gen = 0"
    "gn_key wit_capture_gen = ''''" "gn_next wit_capture_gen = 0" "gn_generation wit_capture_gen = ''g1''" "gn_state wit_capture_gen = Capturing"
    "jb_Table wit_view_job = ''x.t''" "jb_KeyColumn wit_view_job = ''id''" "jb_Policy wit_view_job" "jb_SyncMode wit_view_job = ''snapshot''"
  by (simp_all add: wit_capture_env_def wit_capture_gen_def new_generation_def wit_view_job_def wit_sync_job_def)

lemma wit_lands:
  "\<exists>k. leads (wit_capture_started, wit_broker)
     (and_then (capture_pages wit_capture_lib wit_view_job ''r1'' [wit_binding] wit_capture_gen) f) (wit_capture_sealed, k)"
proof -
  obtain k where pub: "PublishSnapshotEnvelope (en_wire wit_capture_lib) wit_queue wit_capture_env wit_broker = (None, k)"
    using wit_row_published by blast
  have ck: "perform wit_capture_lib (wit_answer 8 '''') (CallCheckKey [wit_binding] ''x.t'' ''id'') s = (Ack, s)" for s
    by (simp add: key_reply_def wit_row_checked)
  have pl: "perform wit_capture_lib (wit_answer 8 '''') (CallPull [wit_binding] (snapshot_request wit_view_job '''')) s =
      (GotPage (page_result 1000 [\<lparr>sw_Key = ''a'', sw_Cursor = '''', sw_Data = Some ''{}''\<rparr>]), s)" for s
    by (simp add: pull_reply_def wit_row_page)
  have pr: "perform wit_capture_lib (wit_answer 8 ''i1'') (CallPrepare wit_capture_gen wit_capture_env '''' ''a'') (wit_capture_started, wit_broker) =
      (GotItem wit_capture_item, (wit_capture_landed, wit_broker))" by (simp add: transacted_def wit_lib wit_capture_prepare)
  have pb: "perform wit_capture_lib (wit_answer 8 '''') (CallPublish wit_capture_env) (wit_capture_landed, wit_broker) =
      (Ack, (wit_capture_landed, k))" by (simp add: published_reply_def wit_lib pub)
  have mk: "perform wit_capture_lib (wit_answer 8 '''') (CallMark wit_capture_gen wit_capture_item) (wit_capture_landed, k) =
      (Ack, (wit_capture_marked, k))" by (simp add: transacted_def done_with_def wit_capture_mark)
  have rd: "perform wit_capture_lib (wit_answer 8 '''') (CallRead ''g1'') (wit_capture_marked, k) =
      (GotGeneration wit_capture_next, (wit_capture_marked, k))" by (simp add: answered_def transacted_def wit_read_row)
  have bb: "BuildSnapshotBatches (en_wire wit_capture_lib) (en_queue wit_capture_lib) (common_envelope wit_view_job ''r1'' wit_capture_gen)
      [\<lparr>Key = ''a'', Cursor = '''', DataJSON = ''{}''\<rparr>] 0 = Inr [wit_capture_env]" using wit_capture_built by (simp add: wit_lib)
  have p: "page_result 1000 [\<lparr>sw_Key = ''a'', sw_Cursor = '''', sw_Data = Some ''{}''\<rparr>] =
      \<lparr>pr_Rows = [\<lparr>sw_Key = ''a'', sw_Cursor = '''', sw_Data = Some ''{}''\<rparr>], pr_NextCursor = '''', pr_NextCursorKey = ''a'', pr_HasMore = False\<rparr>"
    by (simp add: page_result_def)
  have seal: "leads (wit_capture_marked, k) (and_then (check_key [wit_binding] wit_view_job 0 wit_capture_next
      (seal_capture wit_capture_lib wit_view_job ''r1'' 0 wit_capture_next)) f) (wit_capture_sealed, k)"
    unfolding check_key_def and_then.simps wit_env_fields
    by (rule leads_step [OF ck], simp, simp add: wit_seals)
  have page: "leads (wit_capture_started, wit_broker) (and_then (pull_pages wit_capture_lib wit_view_job ''r1'' [wit_binding] 0 (Suc n) wit_capture_gen False
      (\<lambda>g hm. if hm then q g else check_key [wit_binding] wit_view_job 0 g (seal_capture wit_capture_lib wit_view_job ''r1'' 0 g))) f) (wit_capture_sealed, k)" for n q
    unfolding pull_pages.simps and_then.simps wit_env_fields
    by (rule leads_step [OF pl], simp, simp add: p bb wit_env_fields Let_def, rule leads_step [OF pr], simp, simp,
        rule leads_step [OF pb], simp, simp, rule leads_step [OF mk], simp, simp add: wit_env_fields, rule leads_step [OF rd], simp,
        simp add: seal)
  have "leads (wit_capture_started, wit_broker)
     (and_then (capture_pages wit_capture_lib wit_view_job ''r1'' [wit_binding] wit_capture_gen) f) (wit_capture_sealed, k)"
    unfolding capture_pages_def Let_def wit_env_fields check_key_def [of _ _ _ _ "pull_pages _ _ _ _ _ _ _ _ _"] and_then.simps
      maxBatchesPerRun_def
    by (rule leads_step [OF ck], simp) (simp add: page [of 199, simplified])
  then show ?thesis by blast
qed

lemma wit_runs:
  "\<exists>k. leads (wit_capture_claimed, wit_broker) (execute_claimed wit_capture_lib ''o'' ''p'' (claim_row ''o'' 6 wit_queued_run)) (wit_capture_sealed, k)"
proof -
  let ?run = "claim_row ''o'' 6 wit_queued_run"
  have run: "rn_id ?run = ''r1''" "rn_sync ?run = ''s''" "rn_lease_epoch ?run = 1" by (simp_all add: claim_row_def wit_queued_run_def new_run_def)
  obtain k where c: "leads (wit_capture_started, wit_broker) (and_then (capture_pages wit_capture_lib wit_view_job ''r1'' [wit_binding] wit_capture_gen)
      (finish_run ''o'' ''p'' ?run True)) (wit_capture_sealed, k)" using wit_lands by blast
  have jb: "perform wit_capture_lib (wit_answer 7 '''') (CallJob ''s'') (wit_capture_claimed, wit_broker) =
      (GotJob wit_view_job, (wit_capture_claimed, wit_broker))" by (simp add: answered_def transacted_def wit_capture_job)
  have cl: "perform wit_capture_lib (wit_answer 7 ''g1'') (CallClaim wit_view_job ''r1'' ''o'' 1) (wit_capture_claimed, wit_broker) =
      (GotGeneration wit_capture_gen, (wit_capture_started, wit_broker))" by (simp add: transacted_def wit_capture_claim)
  have pn: "perform wit_capture_lib (wit_answer 7 '''') (CallPending wit_capture_gen) (wit_capture_started, wit_broker) =
      (GotItems [], (wit_capture_started, wit_broker))"
    by (simp add: answered_def transacted_def PendingSnapshotOutbox_def) (simp add: wit_capture_started_def wit_capture_claimed_def wit_view_control_def empty_control_def)
  have rd: "perform wit_capture_lib (wit_answer 7 '''') (CallRead ''g1'') (wit_capture_started, wit_broker) =
      (GotGeneration wit_capture_gen, (wit_capture_started, wit_broker))" by (simp add: answered_def transacted_def wit_read_row)
  have op: "perform wit_capture_lib (wit_answer 7 '''') (CallOpen wit_view_job) (wit_capture_started, wit_broker) =
      (GotBindings [wit_binding], (wit_capture_started, wit_broker))" by (simp add: open_reply_def wit_open)
  have none: "d_generations wit_capture_claimed = []" by (simp add: wit_capture_claimed_def wit_view_control_def empty_control_def)
  have "leads (wit_capture_claimed, wit_broker) (execute_claimed wit_capture_lib ''o'' ''p'' ?run) (wit_capture_sealed, k)"
    unfolding execute_claimed_def run
    by (rule leads_step [OF jb], simp, simp add: wit_env_fields pullAndLandSnapshot_def run, rule leads_step [OF cl], simp add: none,
        simp add: drain_def, rule leads_step [OF pn], simp, simp add: wit_env_fields, rule leads_step [OF rd], simp,
        simp add: wit_env_fields, rule leads_step [OF op], simp, simp add: c run)
  then show ?thesis by blast
qed

lemma wit_reached: "\<exists>k. engine_reaches (same_data wit_row_source) wit_capture_lib (wit_capture_sealed, k)"
proof -
  let ?op = "\<lambda>op J. (control_exec wit_snap wit_json op J, wit_broker)" and ?run = "claim_row ''o'' 6 wit_queued_run"
  obtain k p where r: "wit_pool ((wit_capture_claimed, wit_broker), [(''r1'', execute_claimed wit_capture_lib ''o'' ''p'' ?run)])
      ((wit_capture_sealed, k), [(''r1'', p)])" using wit_runs unfolding leads_def by blast
  have around: "wit_pool ((J, wit_broker), []) (?op op J, [])" if "quiet_op op" for op J
    by (rule r_into_rtranclp, rule pool_step.around) (use that in \<open>auto simp: surroundings_def wit_lib intro!: exI [of _ op]\<close>)
  have "wit_pool ((empty_control, wit_broker), []) ((wit_view_control, wit_broker), [])"
    using around [of "OpConfigure [wit_view_sync] [wit_connector_row]" empty_control] by (simp add: wit_view_control_def)
  moreover have "wit_pool ((wit_view_control, wit_broker), []) ((wit_view_control\<lparr>d_runs := [wit_queued_run]\<rparr>, wit_broker), [])"
    using around [of "OpEnqueue ''p'' ''s'' ''k'' ''r1'' 5" wit_view_control] by (simp add: kept_def wit_capture_setup)
  moreover have "takes_run wit_capture_lib (wit_view_control\<lparr>d_runs := [wit_queued_run]\<rparr>, wit_broker) ''r1''
      (execute_claimed wit_capture_lib ''o'' ''p'' ?run) (wit_capture_claimed, wit_broker)"
    unfolding takes_run_def using wit_capture_setup(2) by auto
  then have "wit_pool ((wit_view_control\<lparr>d_runs := [wit_queued_run]\<rparr>, wit_broker), [])
      ((wit_capture_claimed, wit_broker), [(''r1'', execute_claimed wit_capture_lib ''o'' ''p'' ?run)])"
    by (intro r_into_rtranclp pool_step.start)
  ultimately show ?thesis using r unfolding engine_reaches_def by (blast intro: rtranclp_trans)
qed
section \<open>Properties\<close>

interpretation any_source: capture_source lib "\<lambda>_. True" "\<lambda>_ _. True" "\<lambda>_ _. True" for lib :: "'ip engine_lib"
  by unfold_locales simp_all

lemma pool_step_mono:
  assumes "pool_step (allowed S) pf around begins c c'"
  shows "pool_step (allowed (\<lambda>_. True)) pf around begins c c'"
  using assms
proof cases
  case (call i ps w q k oc s r s')
  have "allowed (\<lambda>_. True) oc q s" using call(5) by (simp add: allowed_def)
  then show ?thesis unfolding call(1,2) using call(3,4,6) by (intro pool_step.call)
qed (auto intro: pool_step.intros)

lemma reaches_mono: "engine_reaches S lib s \<Longrightarrow> engine_reaches (\<lambda>_. True) lib s"
  unfolding engine_reaches_def using mono_rtranclp [of "pool_step (allowed S) (perform lib) (surroundings lib) (takes_run lib)"] pool_step_mono by blast


lemma wit_sealed_rows:
  "d_generations wit_capture_sealed = [seal_row (Some 9) 8 wit_capture_next]" "gn_state (seal_row (Some 9) 8 wit_capture_next) = Sealed"
  "gn_generation (seal_row (Some 9) 8 wit_capture_next) = ''g1''" "gn_source (seal_row (Some 9) 8 wit_capture_next) = (''p'', ''c'', ''x.t'')"
  "batches wit_capture_sealed ''g1'' = [wit_capture_item\<lparr>ox_published := True\<rparr>]"
  by (simp_all add: wit_capture_sealed_def seal_row_def wit_capture_next_row batches_def completion_item_def SnapshotKindBatch_def
      SnapshotKindComplete_def wit_capture_item_def batch_item_def wit_capture_env_def wit_env_fields)



section \<open>The fence token is reread\<close>

text \<open>A generation that is read again carries the fence token of its current holder: whoever reads it, also a worker
  whose own lease was taken over, passes the fence as that holder.\<close>

lemma reread_adopts_fence:
  assumes "ClaimSnapshotGeneration job run owner epoch uuid now J = Inr (g, J')" "gens_wf J'"
    and "g \<in> set (d_generations J')" "(gn_run g, gn_sync g, gn_owner g, gn_lease g) = (run, jb_SyncID job, owner, epoch)"
    and "SnapshotGeneration (gn_generation g) J' = Inr g'"
  shows "g' = g \<and> generation_fence g' now J' = Inr ()"
proof -
  have "g' \<in> set (d_generations J') \<and> gn_generation g' = gn_generation g"
    using assms(5) by (auto simp: SnapshotGeneration_def dest: find_SomeD split: option.splits)
  then have "g' = g" using same_generation [OF assms(2) _ assms(3)] by simp
  moreover have "generation_fence g now J' = Inr ()"
    using claim_fence [OF assms(1)] claim_runs [OF assms(1)] assms(4) by (simp add: generation_fence_def requireSnapshotRunFence_def)
  ultimately show ?thesis by simp
qed

end
