(* ===== verification/Spec2Isabelle.thy ===== *)
theory Spec2Isabelle
  imports Cron Readiness Promotion Worker Complete
begin

text \<open>
  AgentRay is an analytics platform: SDKs and connectors write events and rows, a durable stream
  (NATS JetStream) carries them to one or more serving colours, each colour's worker applies them
  to its own embedded DuckDB file, and the answers built on that file say whether a source is
  ready, stale or has lost data. This development models that path, from the publisher of a
  connector batch to the readiness answer, with the Go code's own operations as its definitions.

  \<^bold>\<open>Parts and how they interact.\<close> A publisher splits pulled rows or snapshot pages into messages
  (theory Wire). The worker (Worker) receives each message, hands events to the batcher (Batcher)
  and connector messages to the settler (Settler); both call the store's write edge (IngestStore,
  with person profiles in Persons; snapshot staging and promotion in Snapshots), which in one
  transaction applies the rows, the receipts of the delivery (Receipts) and the applied position
  of the durable (Position). Only then is a message acknowledged. A message that cannot be
  applied goes to the dead-letter stream, leaves an open hole in the journal and can be replayed.
  At boot the worker compares the file's position with the broker (Replay) and latches a
  gap it cannot account for. The public answer (Readiness) reads the journal, the latches and, for
  its freshness deadline, a cron matcher (Cron).

  \<^bold>\<open>Theories and the code they model\<close> (paths under \<open>src/\<close>).
  \<^item> Prelude: the collections of simplification rules, results as sums with \<open>res_bind\<close>, the Go
    string library (\<open>strings.Split\<close>, \<open>Fields\<close>, \<open>TrimSpace\<close>, \<open>strconv\<close>), shared list lemmas.
  \<^item> Cron: \<open>internal/shared/cronx/cronx.go\<close> and \<open>internal/dataplane/alerting/cron.go\<close>, the two
    matchers, their agreement, and a printed grammar they decide exactly.
  \<^item> Position: \<open>store/duckdb_position.go\<close>, the table \<open>ingest_position\<close> and its four statements,
    with the locale \<open>position_record\<close> of a store that keeps such a record.
  \<^item> Replay: \<open>ingest/readiness.go\<close>, \<open>ingest/jetstream.go\<close>: the replay gate, subject algebra,
    the two latches, the loss-marker file and the bounded boot sample.
  \<^item> Receipts: \<open>store/data_readiness.go\<close>: deliveries, holes, source rows and their mutation
    counter, as statements on tables.
  \<^item> Readiness: \<open>localReadiness\<close>, \<open>SourceReadiness\<close>, the query evidence and the schedule freshness.
  \<^item> Persons: \<open>store/persons_profile.go\<close>. IngestStore: \<open>store/duckdb_ingest.go\<close>,
    \<open>store/disk_reserve.go\<close> and the external-row writes of \<open>store/store.go\<close>.
  \<^item> Envelope: \<open>connector/snapshot.go\<close>, the snapshot wire contract. Snapshots and Promotion:
    \<open>store/duckdb_snapshots.go\<close>, staging, completion, promotion, cleanup; the step relation
    \<open>snap_step\<close> abstracts every operation, and Promotion proves what the composition promises.
  \<^item> Batcher: \<open>ingest/batcher.go\<close>. Wire: sizes, splitting and publishing of
    \<open>ingest/queue.go\<close> and \<open>ingest/snapshot_protocol.go\<close>. Settler: \<open>externalRowsSettler\<close> of
    \<open>ingest/queue.go\<close>. Worker: \<open>StartJetStreamWorker\<close>, \<open>jsMsgHandle\<close>, \<open>EventWorker.Stop\<close>, and the
    dead-letter replay of \<open>cmd/server/replay.go\<close>; \<open>worker_step\<close> is the interleaving of callbacks,
    flushes and the stop.

  \<^bold>\<open>State.\<close> Each table is the list of its rows in insertion order, a statement is a function on
  it, a transaction a chain of \<open>res_bind\<close> whose error leaves the state it started from.
  \<open>serving_db\<close> is one DuckDB file. \<open>world\<close> (Worker) adds the settlements made, the letters
  published and the outcomes still to come of every outside call.

  \<^bold>\<open>Lemma groups.\<close> The locales state the interfaces: \<open>acknowledging\<close>, \<open>lettering\<close>, \<open>settling\<close> and
  \<open>dead_lettering\<close> (Batcher) and \<open>row_settling\<close> (Settler) are what a settlement needs of store and
  broker; they are interpreted in Worker on the store and the wiring of the code, and there every
  operation of the worker is shown to settle well. The invariants (an applied mark
  never moves back and a refusal stands, the primary keys of the journal, \<open>snap_wf\<close> of the staging
  tables) are preserved by each operation and lifted to any sequence of them.

  \<^bold>\<open>Bounds and fuel.\<close> \<open>boot_sample_from\<close> recurses on the three \<open>bootSampleAttempts\<close>; \<open>attempts\<close>
  on the three sink or connector tries of the code; \<open>schedule_hits\<close> on the minutes the code
  scans (\<open>scheduleMinutes\<close>); no fuel is added beyond the code's own loop bounds. Chunks are 256
  rows and 4 MiB, the fallback publish budget 512 KiB, the delivery journal 4096 rows. The split
  of snapshot batches terminates because each split halves a list of at least two rows.

  \<^bold>\<open>Parameters.\<close> What is not under \<open>src/\<close> is an argument: the database casts and clock
  (\<open>db_lib\<close>), \<open>encoding/json\<close> as far as its text is not written out, canonical JSON and SHA-256
  (\<open>snap_lib\<close>, \<open>json_lib\<close>, \<open>wire_lib\<close>, \<open>person_lib\<close>), RFC 3339 text (\<open>time_lib\<close>), and the outcome of
  each write, commit, publish and broker read (\<open>snap_io\<close>, \<open>io\<close>). Named hypotheses state only
  documented behaviour: a decoder inverts its encoder, an RFC 3339 instant parses back, and
  \<open>op_ok\<close>: an envelope or a cleanup descriptor carries what PostgreSQL's generation journal says.

  \<^bold>\<open>Not modelled.\<close> The HTTP application, the agent runtime and its persistence, the generated
  analytics SQL, OAuth, the web interface and the SDKs are glue over outside services or
  data; the legacy core-NATS worker has no acknowledgements to verify; JetStream's own duplicate
  window and redelivery order are the broker's (any order and any redelivery is allowed here).
  Metrics, logging and sleeps are left out. Within the modelled functions a callback and a flush
  are atomic with respect to each other, as the batcher's channel makes them.
\<close>

end
